(* ===== verification/Rust_Prelude.thy ===== *)
theory Rust_Prelude
  imports Main "HOL-Library.Word" "HOL-Library.State_Monad" "HOL-Library.Char_ord"
    "HOL-Library.List_Lexorder"
begin

text \<open>
  What every theory of the development shares: the Rust value types the sources use, written
  as HOL types; the parts of the Rust standard library the sources call (string trimming and
  splitting, decimal formatting and parsing, checked and saturating arithmetic); and a small
  Hoare logic for the state monad in which the asynchronous use cases are written.

  Conventions of the model.
  \<^item> A Rust \<open>String\<close> or \<open>&str\<close> is the list of its UTF-8 bytes, so a \<open>char\<close> of HOL is one
    byte. \<open>chars\<close> splits such a list into the encodings of its scalar values.
  \<^item> \<open>u64\<close>, \<open>u32\<close> and \<open>u16\<close> are machine words; \<open>usize\<close> lengths are naturals.
  \<^item> A \<open>DateTime<Utc>\<close> is a point on a totally ordered time line, represented by an integer.
    The sources only copy and compare such values; the two conversions of chrono the cursor
    uses are parameters of the definitions that call them.
  \<^item> \<open>Result<T, E>\<close> is the datatype \<open>result\<close>. An \<open>async fn\<close> that talks to the ports is a
    computation in the state monad over the type of the outside world.
\<close>

section \<open>Types\<close>

type_synonym u16 = "16 word"
type_synonym u32 = "32 word"
type_synonym u64 = "64 word"
type_synonym datetime = int
type_synonym duration = nat
type_synonym bytes = "char list"

datatype ('a, 'e) result = Ok 'a | Err 'e

text \<open>The JSON values of serde\_json, with the constructors the sources name.\<close>

datatype json = JNull | JBool bool | JNumber string | JString string
  | JArray "json list" | JObject "(string \<times> json) list"

definition is_object :: "json \<Rightarrow> bool" where
  "is_object j = (case j of JObject _ \<Rightarrow> True | _ \<Rightarrow> False)"

definition map_result_err :: "('e \<Rightarrow> 'f) \<Rightarrow> ('a, 'e) result \<Rightarrow> ('a, 'f) result" where
  "map_result_err f r = (case r of Ok a \<Rightarrow> Ok a | Err e \<Rightarrow> Err (f e))"

definition ok_or :: "'e \<Rightarrow> 'a option \<Rightarrow> ('a, 'e) result" where
  "ok_or e x = (case x of None \<Rightarrow> Err e | Some a \<Rightarrow> Ok a)"

primrec is_ok :: "('a, 'e) result \<Rightarrow> bool" where
  "is_ok (Ok _) = True"
| "is_ok (Err _) = False"

text \<open>The \<open>?\<close> operator on a unit result: stop at the first error.\<close>

definition and_then :: "(unit, 'e) result \<Rightarrow> ('a, 'e) result \<Rightarrow> ('a, 'e) result" where
  "and_then r k = (case r of Ok _ \<Rightarrow> k | Err e \<Rightarrow> Err e)"

lemma and_then_eq_Ok [simp]: "and_then r k = Ok a \<longleftrightarrow> r = Ok () \<and> k = Ok a"
  by (cases r) (auto simp: and_then_def)

lemma and_then_Ok [simp]: "and_then (Ok ()) k = k" "and_then (Err e) k = Err e"
  by (simp_all add: and_then_def)

lemma map_result_err_simps [simp]:
  "map_result_err f (Ok a) = Ok a" "map_result_err f (Err e) = Err (f e)"
  by (simp_all add: map_result_err_def)

lemma ok_or_simps [simp]: "ok_or e (Some a) = Ok a" "ok_or e None = Err e"
  by (simp_all add: ok_or_def)

section \<open>Unsigned arithmetic\<close>

text \<open>\<open>u64::div_ceil\<close>, \<open>saturating_mul\<close>, \<open>saturating_sub\<close>, \<open>saturating_add\<close>,
  \<open>checked_mul\<close> and \<open>checked_sub\<close> of the standard library.\<close>

definition div_ceil :: "'n::len word \<Rightarrow> 'n word \<Rightarrow> 'n word" where
  "div_ceil a b = (if a mod b = 0 then a div b else a div b + 1)"

definition saturating_mul :: "'n::len word \<Rightarrow> 'n word \<Rightarrow> 'n word" where
  "saturating_mul a b = (if unat a * unat b < 2 ^ LENGTH('n) then a * b else - 1)"

definition saturating_add :: "'n::len word \<Rightarrow> 'n word \<Rightarrow> 'n word" where
  "saturating_add a b = (if unat a + unat b < 2 ^ LENGTH('n) then a + b else - 1)"

definition saturating_sub :: "'n::len word \<Rightarrow> 'n word \<Rightarrow> 'n word" where
  "saturating_sub a b = (if b \<le> a then a - b else 0)"

definition checked_mul :: "'n::len word \<Rightarrow> 'n word \<Rightarrow> 'n word option" where
  "checked_mul a b = (if unat a * unat b < 2 ^ LENGTH('n) then Some (a * b) else None)"

definition checked_sub :: "'n::len word \<Rightarrow> 'n word \<Rightarrow> 'n word option" where
  "checked_sub a b = (if b \<le> a then Some (a - b) else None)"

text \<open>The ceiling division over the naturals that \<^const>\<open>div_ceil\<close> computes, and the
  two facts that characterise it: it is the least count of pieces that covers the whole.\<close>

definition ceil_nat :: "nat \<Rightarrow> nat \<Rightarrow> nat" where
  "ceil_nat a b = (if a mod b = 0 then a div b else a div b + 1)"

lemma ceil_nat_le_iff: "0 < b \<Longrightarrow> ceil_nat a b \<le> n \<longleftrightarrow> a \<le> n * b"
proof -
  assume b: "0 < b"
  have a: "a = a div b * b + a mod b" by simp
  have r: "a mod b < b" using b by simp
  show ?thesis
  proof (cases "a mod b = 0")
    case True
    then have "a = a div b * b" using a by simp
    then have "a \<le> n * b \<longleftrightarrow> a div b * b \<le> n * b" by simp
    with True b show ?thesis by (simp add: ceil_nat_def)
  next
    case False
    have "a \<le> n * b \<longleftrightarrow> a div b < n"
    proof
      assume "a \<le> n * b"
      moreover have "a \<noteq> n * b" using False by auto
      ultimately have "a < n * b" by simp
      then show "a div b < n" by (simp add: less_mult_imp_div_less)
    next
      assume "a div b < n"
      then have "(a div b + 1) * b \<le> n * b" by (intro mult_right_mono) auto
      moreover have "a < b + a div b * b" using b by (rule dividend_less_div_times)
      ultimately show "a \<le> n * b" by (simp add: algebra_simps)
    qed
    with False show ?thesis by (simp add: ceil_nat_def Suc_le_eq)
  qed
qed

lemma ceil_nat_pos: "0 < b \<Longrightarrow> 0 < a \<Longrightarrow> 0 < ceil_nat a b"
  using ceil_nat_le_iff [of b a 0] by simp

lemma ceil_nat_covers: "0 < b \<Longrightarrow> a \<le> ceil_nat a b * b"
  using ceil_nat_le_iff [of b a "ceil_nat a b"] by simp

lemma ceil_nat_tight: "0 < b \<Longrightarrow> 0 < a \<Longrightarrow> (ceil_nat a b - 1) * b < a"
  using ceil_nat_le_iff [of b a "ceil_nat a b - 1"] ceil_nat_pos [of b a] by linarith

lemma ceil_nat_le_self: "0 < b \<Longrightarrow> ceil_nat a b \<le> a"
  by (simp add: ceil_nat_le_iff)

lemma unat_div_ceil: "b \<noteq> 0 \<Longrightarrow> unat (div_ceil a b) = ceil_nat (unat a) (unat b)"
proof -
  assume b: "b \<noteq> 0"
  then have ub: "0 < unat b" by (simp add: unat_gt_0)
  have m: "a mod b = 0 \<longleftrightarrow> unat a mod unat b = 0"
    by (simp add: unat_mod_distrib flip: unat_eq_zero)
  show ?thesis
  proof (cases "a mod b = 0")
    case True
    then show ?thesis by (simp add: div_ceil_def ceil_nat_def unat_div_distrib flip: m)
  next
    case False
    have "ceil_nat (unat a) (unat b) \<le> unat a" using ub by (rule ceil_nat_le_self)
    then have "unat (a div b) + 1 \<le> unat a"
      using False m by (simp add: ceil_nat_def unat_div_distrib)
    then have "unat (a div b + 1) = unat (a div b) + 1"
      by (metis le_less_trans unsigned_less unat_1 unat_add_lem)
    then show ?thesis using False m by (simp add: div_ceil_def ceil_nat_def unat_div_distrib)
  qed
qed

lemma unat_of_nat_small: "m < 2 ^ LENGTH('n) \<Longrightarrow> unat (of_nat m :: 'n::len word) = m"
  by (simp add: unat_of_nat)

lemma unat_ucast_u16_u64 [simp]: "unat (ucast (w :: u16) :: u64) = unat w"
proof -
  have "unat w < 2 ^ 64" using unsigned_less [of w, where ?'a = nat] by simp
  then show ?thesis by (simp add: unsigned_ucast_eq take_bit_nat_eq_self)
qed

section \<open>Strings\<close>

text \<open>A continuation byte of UTF-8 is \<open>10xxxxxx\<close>; every other byte starts a scalar value.\<close>

definition is_cont :: "char \<Rightarrow> bool" where
  "is_cont c = (128 \<le> (of_char c :: nat) \<and> (of_char c :: nat) < 192)"

lemma length_dropWhile_less [termination_simp]: "length (dropWhile P xs) < Suc (length xs)"
  by (simp add: length_dropWhile_le le_imp_less_Suc)

fun chars :: "string \<Rightarrow> string list" where
  "chars [] = []"
| "chars (b # bs) = (b # takeWhile is_cont bs) # chars (dropWhile is_cont bs)"

text \<open>\<open>char::is_whitespace\<close> (the property White\_Space) and \<open>char::is_control\<close> (category Cc),
  on the encoding of one scalar value.\<close>

definition is_whitespace :: "string \<Rightarrow> bool" where
  "is_whitespace ch = (case map of_char ch :: nat list of
      [a] \<Rightarrow> (9 \<le> a \<and> a \<le> 13) \<or> a = 32
    | [a, b] \<Rightarrow> a = 194 \<and> (b = 133 \<or> b = 160)
    | [a, b, c] \<Rightarrow>
        (a = 225 \<and> b = 154 \<and> c = 128)
      \<or> (a = 226 \<and> b = 128 \<and> ((128 \<le> c \<and> c \<le> 138) \<or> c = 168 \<or> c = 169 \<or> c = 175))
      \<or> (a = 226 \<and> b = 129 \<and> c = 159)
      \<or> (a = 227 \<and> b = 128 \<and> c = 128)
    | _ \<Rightarrow> False)"

definition is_control :: "string \<Rightarrow> bool" where
  "is_control ch = (case map of_char ch :: nat list of
      [a] \<Rightarrow> a < 32 \<or> a = 127
    | [a, b] \<Rightarrow> a = 194 \<and> 128 \<le> b \<and> b < 160
    | _ \<Rightarrow> False)"

definition trim :: "string \<Rightarrow> string" where
  "trim s = concat (rev (dropWhile is_whitespace (rev (dropWhile is_whitespace (chars s)))))"

definition starts_with :: "string \<Rightarrow> string \<Rightarrow> bool" where
  "starts_with s p = (take (length p) s = p)"

definition strip_prefix :: "string \<Rightarrow> string \<Rightarrow> string option" where
  "strip_prefix s p = (if starts_with s p then Some (drop (length p) s) else None)"

definition is_ascii_alphanumeric :: "char \<Rightarrow> bool" where
  "is_ascii_alphanumeric c = (let n = of_char c :: nat in
     (48 \<le> n \<and> n \<le> 57) \<or> (65 \<le> n \<and> n \<le> 90) \<or> (97 \<le> n \<and> n \<le> 122))"

definition to_ascii_lowercase :: "string \<Rightarrow> string" where
  "to_ascii_lowercase s = map (\<lambda>c. let n = of_char c :: nat in
     if 65 \<le> n \<and> n \<le> 90 then char_of (n + 32) else c) s"

text \<open>\<open>String::from_utf8\<close>: the well-formed byte sequences of the Unicode standard, table 3-7.\<close>

definition utf8_cont :: "nat \<Rightarrow> bool" where
  "utf8_cont b = (128 \<le> b \<and> b < 192)"

fun utf8_wf :: "nat list \<Rightarrow> bool" where
  "utf8_wf [] = True"
| "utf8_wf (a # bs) =
     (if a < 128 then utf8_wf bs
      else if 194 \<le> a \<and> a < 224 then (case bs of
          b # cs \<Rightarrow> utf8_cont b \<and> utf8_wf cs | _ \<Rightarrow> False)
      else if 224 \<le> a \<and> a < 240 then (case bs of
          b # c # ds \<Rightarrow> utf8_cont b \<and> (a = 224 \<longrightarrow> 160 \<le> b) \<and> (a = 237 \<longrightarrow> b < 160)
            \<and> utf8_cont c \<and> utf8_wf ds
        | _ \<Rightarrow> False)
      else if 240 \<le> a \<and> a < 245 then (case bs of
          b # c # d # es \<Rightarrow> utf8_cont b \<and> (a = 240 \<longrightarrow> 144 \<le> b) \<and> (a = 244 \<longrightarrow> b < 144)
            \<and> utf8_cont c \<and> utf8_cont d \<and> utf8_wf es
        | _ \<Rightarrow> False)
      else False)"

definition from_utf8 :: "bytes \<Rightarrow> string option" where
  "from_utf8 bs = (if utf8_wf (map of_char bs) then Some bs else None)"

text \<open>\<open>str::split\<close> and \<open>str::split_once\<close> at an ASCII character.\<close>

fun split_on :: "char \<Rightarrow> string \<Rightarrow> string list" where
  "split_on c [] = [[]]"
| "split_on c (x # xs) = (if x = c then [] # split_on c xs
     else (case split_on c xs of [] \<Rightarrow> [[x]] | y # ys \<Rightarrow> (x # y) # ys))"

definition split_once :: "char \<Rightarrow> string \<Rightarrow> (string \<times> string) option" where
  "split_once c s = (case dropWhile (\<lambda>x. x \<noteq> c) s of
      [] \<Rightarrow> None
    | _ # r \<Rightarrow> Some (takeWhile (\<lambda>x. x \<noteq> c) s, r))"

lemma concat_chars [simp]: "concat (chars s) = s"
  by (induction s rule: chars.induct) (auto simp: takeWhile_dropWhile_id)

lemma chars_ascii: "list_all (\<lambda>c. \<not> is_cont c) s \<Longrightarrow> chars s = map (\<lambda>c. [c]) s"
proof (induction s)
  case Nil
  then show ?case by simp
next
  case (Cons c s)
  then have "takeWhile is_cont s = []" "dropWhile is_cont s = s"
    by (cases s; simp)+
  then show ?case using Cons by simp
qed

lemma length_chars_le: "length (chars s) \<le> length s"
proof (induction s rule: chars.induct)
  case 1
  then show ?case by simp
next
  case (2 b bs)
  have "length (dropWhile is_cont bs) \<le> length bs" by (rule length_dropWhile_le)
  with 2 show ?case by simp
qed

lemma chars_eq_Nil [simp]: "chars s = [] \<longleftrightarrow> s = []"
  by (cases s) auto

lemma split_on_absent: "c \<notin> set a \<Longrightarrow> split_on c a = [a]"
  by (induction a) auto

lemma split_on_append: "c \<notin> set a \<Longrightarrow> split_on c (a @ c # b) = a # split_on c b"
  by (induction a) auto

lemma split_once_append: "c \<notin> set a \<Longrightarrow> split_once c (a @ c # b) = Some (a, b)"
  by (auto simp: split_once_def takeWhile_append dropWhile_append
      split: list.splits)

lemma utf8_wf_ascii_append:
  "list_all (\<lambda>c. (of_char c :: nat) < 128) a \<Longrightarrow>
    utf8_wf (map of_char (a @ b)) = utf8_wf (map of_char b)"
  by (induction a) auto

section \<open>Decimal numerals\<close>

fun show_nat :: "nat \<Rightarrow> string" where
  "show_nat n = (if n < 10 then [char_of (48 + n)]
     else show_nat (n div 10) @ [char_of (48 + n mod 10)])"

declare show_nat.simps [simp del]

definition show_u64 :: "'n::len word \<Rightarrow> string" where
  "show_u64 w = show_nat (unat w)"

definition show_int :: "int \<Rightarrow> string" where
  "show_int i = (if i < 0 then CHR ''-'' # show_nat (nat (- i)) else show_nat (nat i))"

definition is_digit :: "char \<Rightarrow> bool" where
  "is_digit c = (48 \<le> (of_char c :: nat) \<and> (of_char c :: nat) \<le> 57)"

definition digits_value :: "string \<Rightarrow> nat" where
  "digits_value s = foldl (\<lambda>n c. n * 10 + (of_char c - 48)) 0 s"

definition parse_nat :: "string \<Rightarrow> nat option" where
  "parse_nat s = (if s \<noteq> [] \<and> list_all is_digit s then Some (digits_value s) else None)"

text \<open>\<open>str::parse\<close> into \<open>i64\<close> and \<open>u64\<close>: an optional sign, then digits, then the range.\<close>

definition parse_i64 :: "string \<Rightarrow> int option" where
  "parse_i64 s = Option.bind
     (case s of
        [] \<Rightarrow> None
      | c # r \<Rightarrow> if c = CHR ''-'' then map_option (\<lambda>n. - int n) (parse_nat r)
                else if c = CHR ''+'' then map_option int (parse_nat r)
                else map_option int (parse_nat s))
     (\<lambda>i. if - (2 ^ 63) \<le> i \<and> i < 2 ^ 63 then Some i else None)"

definition parse_u64_str :: "string \<Rightarrow> u64 option" where
  "parse_u64_str s = Option.bind
     (case s of
        [] \<Rightarrow> None
      | c # r \<Rightarrow> if c = CHR ''+'' then parse_nat r else parse_nat s)
     (\<lambda>n. if int n < 2 ^ 64 then Some (of_nat n) else None)"

text \<open>The format \<open>{:02}\<close>.\<close>

definition show_pad2 :: "'n::len word \<Rightarrow> string" where
  "show_pad2 w = (let d = show_u64 w in if length d < 2 then CHR ''0'' # d else d)"

lemma of_char_digit [simp]: "n < 10 \<Longrightarrow> (of_char (char_of (48 + n) :: char) :: nat) = 48 + n"
  by simp

lemma show_nat_digits: "list_all is_digit (show_nat n)"
proof (induction n rule: show_nat.induct)
  case (1 n)
  show ?case
  proof (cases "n < 10")
    case True
    then show ?thesis by (subst show_nat.simps) (simp add: is_digit_def)
  next
    case False
    moreover from False have "list_all is_digit (show_nat (n div 10))" by (rule 1)
    ultimately show ?thesis by (subst show_nat.simps) (simp add: is_digit_def [of "char_of _"])
  qed
qed

lemma show_nat_not_Nil [simp]: "show_nat n \<noteq> []"
  by (subst show_nat.simps) simp

lemma digits_value_snoc: "digits_value (s @ [c]) = digits_value s * 10 + (of_char c - 48)"
  by (simp add: digits_value_def)

lemma digits_value_show_nat [simp]: "digits_value (show_nat n) = n"
proof (induction n rule: show_nat.induct)
  case (1 n)
  show ?case
  proof (cases "n < 10")
    case True
    then show ?thesis by (subst show_nat.simps) (simp add: digits_value_def)
  next
    case False
    then show ?thesis using 1
      by (subst show_nat.simps) (simp add: digits_value_snoc)
  qed
qed

lemma parse_nat_show_nat [simp]: "parse_nat (show_nat n) = Some n"
  by (simp add: parse_nat_def show_nat_digits)

lemma show_nat_inj: "show_nat m = show_nat n \<longleftrightarrow> m = n"
  by (metis digits_value_show_nat)

lemma not_digit_in_show_nat: "\<not> is_digit c \<Longrightarrow> c \<notin> set (show_nat n)"
  using show_nat_digits [of n] by (auto simp: list_all_iff)

lemma parse_u64_show_nat: "n < 2 ^ 64 \<Longrightarrow> parse_u64_str (show_nat n) = Some (of_nat n)"
proof -
  assume n: "n < 2 ^ 64"
  obtain c r where cr: "show_nat n = c # r" by (cases "show_nat n") auto
  have "is_digit c" using show_nat_digits [of n] by (simp add: cr)
  then have "c \<noteq> CHR ''+''" by (auto simp: is_digit_def)
  moreover have "parse_nat (c # r) = Some n" using parse_nat_show_nat [of n] by (simp add: cr)
  ultimately show ?thesis using n by (simp add: parse_u64_str_def cr)
qed

lemma of_nat_u64_eq: "i < 2 ^ 64 \<Longrightarrow> j < 2 ^ 64 \<Longrightarrow> (of_nat i :: u64) = of_nat j \<longleftrightarrow> i = j"
proof -
  assume "i < 2 ^ 64" "j < 2 ^ 64"
  then have "unat (of_nat i :: u64) = i" "unat (of_nat j :: u64) = j" by (simp_all add: unat_of_nat_small)
  then show ?thesis by metis
qed

lemma parse_i64_show_int:
  assumes "- (2 ^ 63) \<le> i" "i < 2 ^ 63"
  shows "parse_i64 (show_int i) = Some i"
proof (cases "i < 0")
  case True
  then show ?thesis using assms by (simp add: parse_i64_def show_int_def)
next
  case False
  obtain c r where cr: "show_nat (nat i) = c # r" by (cases "show_nat (nat i)") auto
  have "is_digit c" using show_nat_digits [of "nat i"] by (simp add: cr)
  then have "c \<noteq> CHR ''-''" "c \<noteq> CHR ''+''" by (auto simp: is_digit_def)
  moreover have "parse_nat (c # r) = Some (nat i)" using parse_nat_show_nat [of "nat i"] by (simp add: cr)
  ultimately show ?thesis using False assms
    by (simp add: parse_i64_def show_int_def cr)
qed

section \<open>The state monad and its rely-guarantee logic\<close>

text \<open>
  A use case runs in the state monad of the library over a type \<open>'w\<close> of worlds. \<open>attempt\<close> is the
  \<open>?\<close> operator: it stops at an error, converting it with the given \<open>From\<close> implementation.
  \<open>zoom\<close> runs a computation over one component of the world.

  \<open>rg G P m Q\<close> says of every run of \<open>m\<close> from a world that satisfies \<open>P\<close> that the world moves
  along \<open>G\<close> and that result and final world satisfy \<open>Q\<close>. The world type may contain other
  processes: then \<open>G\<close> is also what they are relied on to respect.
\<close>

abbreviation ret :: "'a \<Rightarrow> ('w, 'a) state" where
  "ret \<equiv> State_Monad.return"

definition attempt :: "('e \<Rightarrow> 'f) \<Rightarrow> ('w, ('a, 'e) result) state \<Rightarrow>
    ('a \<Rightarrow> ('w, ('b, 'f) result) state) \<Rightarrow> ('w, ('b, 'f) result) state" where
  "attempt from m k = m \<bind> (\<lambda>r. case r of Ok a \<Rightarrow> k a | Err e \<Rightarrow> ret (Err (from e)))"

definition zoom :: "('w \<Rightarrow> 's) \<Rightarrow> ('s \<Rightarrow> 'w \<Rightarrow> 'w) \<Rightarrow> ('s, 'a) state \<Rightarrow> ('w, 'a) state" where
  "zoom get put m = State (\<lambda>w. case run_state m (get w) of (a, s) \<Rightarrow> (a, put s w))"

definition rg :: "('w \<Rightarrow> 'w \<Rightarrow> bool) \<Rightarrow> ('w \<Rightarrow> bool) \<Rightarrow> ('w, 'a) state \<Rightarrow> ('a \<Rightarrow> 'w \<Rightarrow> bool) \<Rightarrow> bool" where
  "rg G P m Q = (\<forall>w a w'. P w \<longrightarrow> run_state m w = (a, w') \<longrightarrow> G w w' \<and> Q a w')"

lemma run_state_zoom [simp]:
  "run_state (zoom get put m) w = (case run_state m (get w) of (a, s) \<Rightarrow> (a, put s w))"
  by (simp add: zoom_def)

lemma run_state_attempt:
  "run_state (attempt from m k) w = (case run_state m w of
     (Ok a, w') \<Rightarrow> run_state (k a) w' | (Err e, w') \<Rightarrow> (Err (from e), w'))"
  by (auto simp: attempt_def split: prod.splits result.splits)

lemma rgI: "(\<And>w a w'. P w \<Longrightarrow> run_state m w = (a, w') \<Longrightarrow> G w w' \<and> Q a w') \<Longrightarrow> rg G P m Q"
  by (simp add: rg_def)

lemma rgD:
  assumes "rg G P m Q" "P w" "run_state m w = (a, w')"
  shows "G w w'" "Q a w'"
  using assms by (auto simp: rg_def)

lemma rg_weaken:
  "rg G P' m Q' \<Longrightarrow> (\<And>w. P w \<Longrightarrow> P' w) \<Longrightarrow> (\<And>a w. Q' a w \<Longrightarrow> Q a w) \<Longrightarrow> rg G P m Q"
  unfolding rg_def by blast

lemma rg_post: "rg G P m Q' \<Longrightarrow> (\<And>a w. Q' a w \<Longrightarrow> Q a w) \<Longrightarrow> rg G P m Q"
  by (rule rg_weaken)

lemma rg_pre: "rg G P' m Q \<Longrightarrow> (\<And>w. P w \<Longrightarrow> P' w) \<Longrightarrow> rg G P m Q"
  by (rule rg_weaken)

text \<open>The logic of a guarantee that is a preorder.\<close>

locale guarantee =
  fixes G :: "'w \<Rightarrow> 'w \<Rightarrow> bool"
  assumes G_refl: "G w w"
    and G_trans: "G u v \<Longrightarrow> G v w \<Longrightarrow> G u w"
begin

lemma rg_ret: "(\<And>w. P w \<Longrightarrow> Q a w) \<Longrightarrow> rg G P (ret a) Q"
  by (auto simp: rg_def G_refl)

lemma rg_bind: "rg G P m R \<Longrightarrow> (\<And>a. rg G (R a) (f a) Q) \<Longrightarrow> rg G P (m \<bind> f) Q"
  unfolding rg_def by (fastforce intro: G_trans split: prod.splits)

lemma rg_attempt:
  assumes "rg G P m R" "\<And>a. rg G (R (Ok a)) (k a) Q" "\<And>e w. R (Err e) w \<Longrightarrow> Q (Err (from e)) w"
  shows "rg G P (attempt from m k) Q"
  unfolding attempt_def using assms by (intro rg_bind) (auto split: result.splits intro: rg_ret)

text \<open>A fact about the world that the guarantee preserves survives every computation.\<close>

lemma rg_frame:
  assumes "rg G P m Q" "\<And>w w'. G w w' \<Longrightarrow> S w \<Longrightarrow> S w'"
  shows "rg G (\<lambda>w. P w \<and> S w) m (\<lambda>a w. Q a w \<and> S w)"
  using assms unfolding rg_def by blast

end

section \<open>Shared worlds\<close>

text \<open>A world other processes act on: the stores, and the actions the environment will take, one
  before each operation under a mutex. An empty list of actions is a world the caller has to
  itself.\<close>

type_synonym 'v shared = "'v \<times> ('v \<Rightarrow> 'v) list"

fun env_step :: "'v shared \<Rightarrow> 'v shared" where
  "env_step (w, []) = (w, [])"
| "env_step (w, e # es) = (e w, es)"

definition locked ::
  "('v \<Rightarrow> 's) \<Rightarrow> ('s \<Rightarrow> 'v \<Rightarrow> 'v) \<Rightarrow> ('s, 'a) state \<Rightarrow> ('v shared, 'a) state" where
  "locked get put m = State (\<lambda>x. case env_step x of (w, es) \<Rightarrow>
     (case run_state m (get w) of (a, s) \<Rightarrow> (a, (put s w, es))))"

lemma run_locked_alone [simp]:
  "run_state (locked get put m) (w, []) = (case run_state m (get w) of (a, s) \<Rightarrow> (a, (put s w, [])))"
  by (simp add: locked_def)

lemma sort_key_map: "sort_key f (map g xs) = map g (sort_key (f \<circ> g) xs)"
proof -
  have "insort_key f (g x) (map g ys) = map g (insort_key (f \<circ> g) x ys)" for x ys
    by (induction ys) auto
  then show ?thesis by (induction xs) auto
qed

end
