(* ===== verification/Events.thy ===== *)
theory Events
  imports Rust_Prelude
begin

text \<open>
  The event catalogue of the document domain (crates/document-domain/src/events.rs): the
  envelope, the actor, the nine payload variants with their structs, and the three
  classifications the rest of the program relies on.
\<close>

definition DOCUMENT_CONTRACT_VERSION :: u16 where
  "DOCUMENT_CONTRACT_VERSION = 1"

definition INDEX_STAGE :: string where
  "INDEX_STAGE = ''index''"

datatype Actor = User string | System string

fun actor_user_id :: "Actor \<Rightarrow> string option" where
  "actor_user_id (User user_id) = Some user_id"
| "actor_user_id (System _) = None"

record MetadataPatch =
  mp_title :: "string option"
  mp_tags :: "string list option"
  mp_description :: "string option"
  mp_metadata :: "json option"

definition empty_patch :: MetadataPatch where
  "empty_patch = \<lparr>mp_title = None, mp_tags = None, mp_description = None, mp_metadata = None\<rparr>"

definition patch_is_empty :: "MetadataPatch \<Rightarrow> bool" where
  "patch_is_empty p =
     (mp_title p = None \<and> mp_tags p = None \<and> mp_description p = None \<and> mp_metadata p = None)"

record DocumentCreated =
  dc_blob_ref :: string
  dc_filename :: string
  dc_content_type :: string
  dc_byte_size :: u64
  dc_checksum :: string
  dc_patch :: MetadataPatch

record DocumentBlobValidated =
  bv_blob_ref :: string
  bv_filename :: string
  bv_content_type :: string
  bv_byte_size :: u64
  bv_checksum :: string
  bv_patch :: MetadataPatch
  bv_based_on_version :: "u64 option"

record DocumentTextExtracted =
  te_for_version :: u64
  te_extractor_version :: string
  te_char_count :: u64
  te_checksum :: string

record DocumentIndexed =
  di_for_version :: u64
  di_vector_count :: u64
  di_embedding_model :: string

record DocumentStageFailed =
  sf_for_version :: u64
  sf_stage :: string
  sf_reason :: string
  sf_attempts :: u32

datatype DocumentEventPayload =
    DocumentCreated DocumentCreated
  | DocumentBlobValidated DocumentBlobValidated
  | DocumentMetadataChanged MetadataPatch
  | DocumentTextExtracted DocumentTextExtracted
  | DocumentIndexed DocumentIndexed
  | DocumentStageFailed DocumentStageFailed
  | DocumentReverted u64 MetadataPatch
  | DocumentDeleted string
  | DocumentBlobPruned string string

record DocumentEvent =
  ev_v :: u16
  ev_event_id :: string
  ev_tenant_id :: string
  ev_document_id :: string
  ev_actor :: Actor
  ev_version :: u64
  ev_ts :: datetime
  ev_payload :: DocumentEventPayload

fun advances_version :: "DocumentEventPayload \<Rightarrow> bool" where
  "advances_version (DocumentCreated _) = True"
| "advances_version (DocumentBlobValidated _) = True"
| "advances_version (DocumentMetadataChanged _) = True"
| "advances_version (DocumentReverted _ _) = True"
| "advances_version (DocumentDeleted _) = True"
| "advances_version (DocumentTextExtracted _) = False"
| "advances_version (DocumentIndexed _) = False"
| "advances_version (DocumentStageFailed _) = False"
| "advances_version (DocumentBlobPruned _ _) = False"

definition event_advances_version :: "DocumentEvent \<Rightarrow> bool" where
  "event_advances_version e = advances_version (ev_payload e)"

text \<open>The blob an event introduced. \<open>DocumentBlobPruned\<close> names the blob it removes, so it
  reports none.\<close>

fun blob_ref :: "DocumentEventPayload \<Rightarrow> string option" where
  "blob_ref (DocumentCreated c) = Some (dc_blob_ref c)"
| "blob_ref (DocumentBlobValidated v) = Some (bv_blob_ref v)"
| "blob_ref (DocumentBlobPruned _ _) = None"
| "blob_ref (DocumentMetadataChanged _) = None"
| "blob_ref (DocumentTextExtracted _) = None"
| "blob_ref (DocumentIndexed _) = None"
| "blob_ref (DocumentStageFailed _) = None"
| "blob_ref (DocumentReverted _ _) = None"
| "blob_ref (DocumentDeleted _) = None"

fun type_name :: "DocumentEventPayload \<Rightarrow> string" where
  "type_name (DocumentCreated _) = ''document_created''"
| "type_name (DocumentBlobValidated _) = ''document_blob_validated''"
| "type_name (DocumentMetadataChanged _) = ''document_metadata_changed''"
| "type_name (DocumentTextExtracted _) = ''document_text_extracted''"
| "type_name (DocumentIndexed _) = ''document_indexed''"
| "type_name (DocumentStageFailed _) = ''document_stage_failed''"
| "type_name (DocumentReverted _ _) = ''document_reverted''"
| "type_name (DocumentDeleted _) = ''document_deleted''"
| "type_name (DocumentBlobPruned _ _) = ''document_blob_pruned''"

text \<open>An event that introduces a blob starts a new version: the redelivery guard, which looks
  for a blob, can therefore report the version of the event it finds.\<close>

lemma blob_ref_advances: "blob_ref p = Some b \<Longrightarrow> advances_version p"
  by (cases p) auto

definition is_created :: "DocumentEvent \<Rightarrow> bool" where
  "is_created e = (case ev_payload e of DocumentCreated _ \<Rightarrow> True | _ \<Rightarrow> False)"

definition by_user :: "DocumentEvent \<Rightarrow> bool" where
  "by_user e = (actor_user_id (ev_actor e) \<noteq> None)"

text \<open>The metadata patch an event carries, if its variant has one.\<close>

definition event_patch :: "DocumentEvent \<Rightarrow> MetadataPatch option" where
  "event_patch e = (case ev_payload e of
      DocumentCreated c \<Rightarrow> Some (dc_patch c)
    | DocumentBlobValidated v \<Rightarrow> Some (bv_patch v)
    | DocumentMetadataChanged p \<Rightarrow> Some p
    | DocumentReverted _ p \<Rightarrow> Some p
    | _ \<Rightarrow> None)"

end
