(* ===== verification/Fold.thy ===== *)
theory Fold
  imports Events
begin

text \<open>
  The fold of document events into document state (crates/document-domain/src/fold.rs) and the
  replay of a whole history (\<open>fold_history\<close> of crates/document-app/src/worker.rs). The theorems
  characterise which histories fold, what the folded state says of the history, and the
  last-writer-wins meaning of the metadata fields.
\<close>

section \<open>State\<close>

datatype DocState = Active | Deleted

fun DocState_as_str :: "DocState \<Rightarrow> string" where
  "DocState_as_str Active = ''active''"
| "DocState_as_str Deleted = ''deleted''"

definition DocState_parse :: "string \<Rightarrow> DocState option" where
  "DocState_parse s = (if s = ''active'' then Some Active
     else if s = ''deleted'' then Some Deleted else None)"

datatype IndexState = Pending | Current | Failed

fun IndexState_as_str :: "IndexState \<Rightarrow> string" where
  "IndexState_as_str Pending = ''pending''"
| "IndexState_as_str Current = ''current''"
| "IndexState_as_str Failed = ''failed''"

definition IndexState_parse :: "string \<Rightarrow> IndexState option" where
  "IndexState_parse s = (if s = ''pending'' then Some Pending
     else if s = ''current'' then Some Current
     else if s = ''failed'' then Some Failed else None)"

record DocumentState =
  ds_tenant_id :: string
  ds_document_id :: string
  ds_owner_user_id :: string
  ds_version :: u64
  ds_stream_seq :: u64
  ds_state :: DocState
  ds_index_state :: IndexState
  ds_index_version :: "u64 option"
  ds_current_blob :: "string option"
  ds_filename :: "string option"
  ds_content_type :: "string option"
  ds_byte_size :: "u64 option"
  ds_checksum :: "string option"
  ds_title :: "string option"
  ds_tags :: "string list"
  ds_description :: "string option"
  ds_metadata :: json
  ds_created_at :: datetime
  ds_updated_at :: datetime

datatype FoldError =
    NoPriorState string string
  | SystemActorCreate string
  | DocumentMismatch string string

fun display_FoldError :: "FoldError \<Rightarrow> string" where
  "display_FoldError (NoPriorState document_id event_type) =
     ''event '' @ event_type @ '' for document '' @ document_id @ '' arrived with no prior state''"
| "display_FoldError (SystemActorCreate document_id) =
     ''document '' @ document_id @ '' was created by a system actor; a create must name a user''"
| "display_FoldError (DocumentMismatch expected actual) =
     ''event for document '' @ actual @ '' folded into state for '' @ expected"

section \<open>The fold\<close>

definition merge_patch :: "DocumentState \<Rightarrow> MetadataPatch \<Rightarrow> DocumentState" where
  "merge_patch s p =
     (let s = (case mp_title p of Some t \<Rightarrow> s\<lparr>ds_title := Some t\<rparr> | None \<Rightarrow> s);
          s = (case mp_tags p of Some ts \<Rightarrow> s\<lparr>ds_tags := ts\<rparr> | None \<Rightarrow> s);
          s = (case mp_description p of Some d \<Rightarrow> s\<lparr>ds_description := Some d\<rparr> | None \<Rightarrow> s);
          s = (case mp_metadata p of Some m \<Rightarrow> s\<lparr>ds_metadata := m\<rparr> | None \<Rightarrow> s)
      in s)"

text \<open>The branch of \<open>apply\<close> for a \<open>DocumentCreated\<close> payload, once the actor is a user.\<close>

definition seed_state ::
  "DocumentState option \<Rightarrow> DocumentEvent \<Rightarrow> DocumentCreated \<Rightarrow> string \<Rightarrow> u64 \<Rightarrow> DocumentState" where
  "seed_state state event created user_id stream_seq =
     \<lparr>ds_tenant_id = ev_tenant_id event,
      ds_document_id = ev_document_id event,
      ds_owner_user_id = user_id,
      ds_version = ev_version event,
      ds_stream_seq = stream_seq,
      ds_state = Active,
      ds_index_state = Pending,
      ds_index_version = None,
      ds_current_blob = Some (dc_blob_ref created),
      ds_filename = Some (dc_filename created),
      ds_content_type = Some (dc_content_type created),
      ds_byte_size = Some (dc_byte_size created),
      ds_checksum = Some (dc_checksum created),
      ds_title = None,
      ds_tags = [],
      ds_description = None,
      ds_metadata = JObject [],
      ds_created_at = (case state of Some s \<Rightarrow> ds_created_at s | None \<Rightarrow> ev_ts event),
      ds_updated_at = ev_ts event\<rparr>"

text \<open>The inner match of \<open>apply\<close>: a later event on the state whose version, sequence and
  timestamp have already been advanced.\<close>

fun apply_payload :: "DocumentState \<Rightarrow> DocumentEventPayload \<Rightarrow> DocumentState" where
  "apply_payload next (DocumentCreated _) = next"
| "apply_payload next (DocumentBlobValidated v) =
     merge_patch (next\<lparr>ds_current_blob := Some (bv_blob_ref v),
       ds_filename := Some (bv_filename v),
       ds_content_type := Some (bv_content_type v),
       ds_byte_size := Some (bv_byte_size v),
       ds_checksum := Some (bv_checksum v),
       ds_index_state := Pending\<rparr>) (bv_patch v)"
| "apply_payload next (DocumentMetadataChanged patch) = merge_patch next patch"
| "apply_payload next (DocumentReverted _ patch) = merge_patch next patch"
| "apply_payload next (DocumentDeleted _) = next\<lparr>ds_state := Deleted\<rparr>"
| "apply_payload next (DocumentIndexed i) =
     next\<lparr>ds_index_version := Some (di_for_version i),
       ds_index_state := (if di_for_version i \<ge> ds_version next then Current else Pending)\<rparr>"
| "apply_payload next (DocumentStageFailed f) =
     (if sf_stage f = INDEX_STAGE then next\<lparr>ds_index_state := Failed\<rparr> else next)"
| "apply_payload next (DocumentTextExtracted _) = next"
| "apply_payload next (DocumentBlobPruned _ _) = next"

definition apply_event ::
  "DocumentState option \<Rightarrow> DocumentEvent \<Rightarrow> u64 \<Rightarrow> (DocumentState, FoldError) result" where
  "apply_event state event stream_seq =
     (if (case state of Some s \<Rightarrow> ds_document_id s \<noteq> ev_document_id event | None \<Rightarrow> False)
      then Err (DocumentMismatch (ds_document_id (the state)) (ev_document_id event))
      else (case ev_payload event of
          DocumentCreated created \<Rightarrow>
            (case ev_actor event of
               User user_id \<Rightarrow>
                 Ok (merge_patch (seed_state state event created user_id stream_seq) (dc_patch created))
             | System _ \<Rightarrow> Err (SystemActorCreate (ev_document_id event)))
        | payload \<Rightarrow>
            (case state of
               None \<Rightarrow> Err (NoPriorState (ev_document_id event) (type_name payload))
             | Some s \<Rightarrow> Ok (apply_payload
                 (s\<lparr>ds_version := ev_version event, ds_stream_seq := stream_seq,
                    ds_updated_at := ev_ts event\<rparr>) payload))))"

text \<open>The loop of \<open>fold_history\<close>, from any starting state.\<close>

fun fold_from ::
  "DocumentState option \<Rightarrow> (u64 \<times> DocumentEvent) list \<Rightarrow> (DocumentState option, FoldError) result" where
  "fold_from state [] = Ok state"
| "fold_from state ((seq, event) # rest) =
     (case apply_event state event seq of
        Ok s \<Rightarrow> fold_from (Some s) rest
      | Err e \<Rightarrow> Err e)"

definition fold_history :: "(u64 \<times> DocumentEvent) list \<Rightarrow> (DocumentState option, FoldError) result" where
  "fold_history history = fold_from None history"

section \<open>One step\<close>

lemma merge_patch_frame [simp]:
  "ds_tenant_id (merge_patch s p) = ds_tenant_id s"
  "ds_document_id (merge_patch s p) = ds_document_id s"
  "ds_owner_user_id (merge_patch s p) = ds_owner_user_id s"
  "ds_version (merge_patch s p) = ds_version s"
  "ds_stream_seq (merge_patch s p) = ds_stream_seq s"
  "ds_state (merge_patch s p) = ds_state s"
  "ds_index_state (merge_patch s p) = ds_index_state s"
  "ds_index_version (merge_patch s p) = ds_index_version s"
  "ds_current_blob (merge_patch s p) = ds_current_blob s"
  "ds_filename (merge_patch s p) = ds_filename s"
  "ds_content_type (merge_patch s p) = ds_content_type s"
  "ds_byte_size (merge_patch s p) = ds_byte_size s"
  "ds_checksum (merge_patch s p) = ds_checksum s"
  "ds_created_at (merge_patch s p) = ds_created_at s"
  "ds_updated_at (merge_patch s p) = ds_updated_at s"
  by (simp_all add: merge_patch_def split: option.splits)

lemma merge_patch_meta [simp]:
  "ds_title (merge_patch s p) = (case mp_title p of None \<Rightarrow> ds_title s | Some t \<Rightarrow> Some t)"
  "ds_tags (merge_patch s p) = (case mp_tags p of None \<Rightarrow> ds_tags s | Some ts \<Rightarrow> ts)"
  "ds_description (merge_patch s p) =
     (case mp_description p of None \<Rightarrow> ds_description s | Some d \<Rightarrow> Some d)"
  "ds_metadata (merge_patch s p) = (case mp_metadata p of None \<Rightarrow> ds_metadata s | Some m \<Rightarrow> m)"
  by (simp_all add: merge_patch_def split: option.splits)

lemma merge_patch_empty [simp]: "merge_patch s empty_patch = s"
  by (simp add: merge_patch_def empty_patch_def)

lemma apply_payload_frame [simp]:
  "ds_tenant_id (apply_payload s p) = ds_tenant_id s"
  "ds_document_id (apply_payload s p) = ds_document_id s"
  "ds_owner_user_id (apply_payload s p) = ds_owner_user_id s"
  "ds_version (apply_payload s p) = ds_version s"
  "ds_stream_seq (apply_payload s p) = ds_stream_seq s"
  "ds_created_at (apply_payload s p) = ds_created_at s"
  "ds_updated_at (apply_payload s p) = ds_updated_at s"
  by (cases p; simp)+

text \<open>When one event is accepted, and what it leaves in the envelope fields.\<close>

lemma apply_event_ok_iff:
  "(\<exists>t. apply_event state e seq = Ok t) \<longleftrightarrow>
     (case state of None \<Rightarrow> is_created e | Some s \<Rightarrow> ds_document_id s = ev_document_id e) \<and>
     (is_created e \<longrightarrow> by_user e)"
  by (auto simp: apply_event_def is_created_def by_user_def
      split: option.splits DocumentEventPayload.splits Actor.splits)

lemma apply_event_envelope:
  assumes "apply_event state e seq = Ok t"
  shows "ds_document_id t = ev_document_id e" "ds_version t = ev_version e"
    "ds_stream_seq t = seq" "ds_updated_at t = ev_ts e"
    "ds_created_at t = (case state of None \<Rightarrow> ev_ts e | Some s \<Rightarrow> ds_created_at s)"
    "ds_owner_user_id t = (if is_created e then the (actor_user_id (ev_actor e))
       else ds_owner_user_id (the state))"
    "ds_tenant_id t = (if is_created e then ev_tenant_id e else ds_tenant_id (the state))"
  using assms
  by (auto simp: apply_event_def seed_state_def is_created_def
      split: option.splits DocumentEventPayload.splits Actor.splits if_splits)

section \<open>Whole histories\<close>

lemma fold_from_append:
  "fold_from st (xs @ ys) = (case fold_from st xs of Ok s \<Rightarrow> fold_from s ys | Err e \<Rightarrow> Err e)"
  by (induction st xs rule: fold_from.induct) (auto split: result.splits)

lemma fold_from_Some_state: "fold_from (Some s) h = Ok t \<Longrightarrow> \<exists>u. t = Some u"
  by (induction h arbitrary: s) (auto split: result.splits)

lemma fold_history_Nil [simp]: "fold_history [] = Ok None"
  by (simp add: fold_history_def)

lemma fold_history_snoc:
  "fold_history (h @ [(seq, e)]) = Ok (Some t) \<longleftrightarrow>
     (\<exists>st. fold_history h = Ok st \<and> apply_event st e seq = Ok t)"
  by (auto simp: fold_history_def fold_from_append split: result.splits)

lemma fold_history_None_iff: "fold_history h = Ok None \<longleftrightarrow> h = []"
  by (cases h) (auto simp: fold_history_def split: result.splits dest: fold_from_Some_state)

text \<open>The histories that fold: they start with a create, every create names a user, and all
  events are for the same document.\<close>

definition foldable :: "(u64 \<times> DocumentEvent) list \<Rightarrow> bool" where
  "foldable h = (case h of
      [] \<Rightarrow> True
    | (_, first) # _ \<Rightarrow> is_created first \<and>
        list_all (\<lambda>(_, e). ev_document_id e = ev_document_id first \<and> (is_created e \<longrightarrow> by_user e)) h)"

lemma fold_from_ok_iff:
  "(\<exists>t. fold_from (Some s) h = Ok t) \<longleftrightarrow>
     list_all (\<lambda>(_, e). ev_document_id e = ds_document_id s \<and> (is_created e \<longrightarrow> by_user e)) h"
proof (induction h arbitrary: s)
  case Nil
  then show ?case by simp
next
  case (Cons x h)
  obtain seq e where x: "x = (seq, e)" by (cases x)
  show ?case
  proof (cases "apply_event (Some s) e seq")
    case (Ok t)
    then have "ds_document_id t = ds_document_id s" "ds_document_id s = ev_document_id e"
      "is_created e \<longrightarrow> by_user e"
      using apply_event_ok_iff [of "Some s" e seq] apply_event_envelope(1) [OF Ok] by auto
    then show ?thesis using Cons.IH [of t] by (simp add: x Ok)
  next
    case (Err err)
    then have "\<not> (ds_document_id s = ev_document_id e \<and> (is_created e \<longrightarrow> by_user e))"
      using apply_event_ok_iff [of "Some s" e seq] by auto
    then show ?thesis by (auto simp: x Err)
  qed
qed

lemma fold_history_ok_iff_foldable: "(\<exists>st. fold_history h = Ok st) \<longleftrightarrow> foldable h"
proof (cases h)
  case Nil
  then show ?thesis by (simp add: foldable_def)
next
  case (Cons x h')
  obtain seq e where x: "x = (seq, e)" by (cases x)
  show ?thesis
  proof (cases "apply_event None e seq")
    case (Ok t)
    then have "is_created e" "by_user e" "ds_document_id t = ev_document_id e"
      using apply_event_ok_iff [of None e seq] apply_event_envelope(1) [OF Ok] by auto
    then show ?thesis using fold_from_ok_iff [of t h']
      by (simp add: Cons x Ok fold_history_def foldable_def)
  next
    case (Err err)
    then have "\<not> (is_created e \<and> by_user e)"
      using apply_event_ok_iff [of None e seq] by auto
    then show ?thesis by (auto simp: Cons x Err fold_history_def foldable_def)
  qed
qed

text \<open>Last writer wins. An effect function gives the value an event writes to a field, if it
  writes it; the folded field is the value written by the last event that writes it.\<close>

definition last_write :: "(DocumentEvent \<Rightarrow> 'a option) \<Rightarrow> (u64 \<times> DocumentEvent) list \<Rightarrow> 'a option" where
  "last_write f h = (let es = filter (\<lambda>e. f e \<noteq> None) (map snd h) in
     if es = [] then None else f (last es))"

lemma last_write_snoc [simp]:
  "last_write f (h @ [(seq, e)]) = (case f e of Some v \<Rightarrow> Some v | None \<Rightarrow> last_write f h)"
  by (auto simp: last_write_def Let_def split: option.splits)

lemma fold_last_write:
  assumes step: "\<And>st e seq t. apply_event st e seq = Ok t \<Longrightarrow>
      fld t = (case f e of Some v \<Rightarrow> v | None \<Rightarrow> fld (the st))"
    and seeds: "\<And>e. is_created e \<Longrightarrow> f e \<noteq> None"
    and fold: "fold_history h = Ok (Some s)"
  shows "last_write f h = Some (fld s)"
  using fold
proof (induction h arbitrary: s rule: rev_induct)
  case Nil
  then show ?case by simp
next
  case (snoc x h)
  obtain seq e where x: "x = (seq, e)" by (cases x)
  from snoc.prems obtain st where h: "fold_history h = Ok st" and e: "apply_event st e seq = Ok s"
    unfolding x fold_history_snoc by blast
  show ?case
  proof (cases "f e")
    case (Some v)
    then show ?thesis using step [OF e] by (simp add: x)
  next
    case None
    then have "\<not> is_created e" using seeds by blast
    then obtain u where u: "st = Some u"
      using apply_event_ok_iff [of st e seq] e by (cases st) auto
    then have "last_write f h = Some (fld u)" using snoc.IH h by simp
    then show ?thesis using None step [OF e] by (simp add: x u)
  qed
qed

fun index_effect :: "DocumentEvent \<Rightarrow> IndexState option" where
  "index_effect e = (case ev_payload e of
      DocumentCreated _ \<Rightarrow> Some Pending
    | DocumentBlobValidated _ \<Rightarrow> Some Pending
    | DocumentIndexed i \<Rightarrow> Some (if di_for_version i \<ge> ev_version e then Current else Pending)
    | DocumentStageFailed f \<Rightarrow> if sf_stage f = INDEX_STAGE then Some Failed else None
    | _ \<Rightarrow> None)"

fun lifecycle_effect :: "DocumentEvent \<Rightarrow> DocState option" where
  "lifecycle_effect e = (case ev_payload e of
      DocumentCreated _ \<Rightarrow> Some Active
    | DocumentDeleted _ \<Rightarrow> Some Deleted
    | _ \<Rightarrow> None)"

definition blob_effect :: "DocumentEvent \<Rightarrow> string option" where
  "blob_effect e = blob_ref (ev_payload e)"

text \<open>A create resets every metadata field before it merges its patch; a later patch writes
  only the fields it sets.\<close>

definition meta_effect :: "(MetadataPatch \<Rightarrow> 'a option) \<Rightarrow> DocumentEvent \<Rightarrow> 'a option option" where
  "meta_effect f e = (if is_created e then map_option f (event_patch e)
     else map_option Some (Option.bind (event_patch e) f))"

lemmas apply_event_cases = apply_event_def seed_state_def is_created_def event_patch_def

lemma apply_event_writes:
  assumes "apply_event st e seq = Ok t"
  shows "ds_index_state t = (case index_effect e of Some v \<Rightarrow> v | None \<Rightarrow> ds_index_state (the st))"
    "ds_state t = (case lifecycle_effect e of Some v \<Rightarrow> v | None \<Rightarrow> ds_state (the st))"
    "ds_current_blob t = (case blob_effect e of Some v \<Rightarrow> Some v | None \<Rightarrow> ds_current_blob (the st))"
    "ds_title t = (case meta_effect mp_title e of Some v \<Rightarrow> v | None \<Rightarrow> ds_title (the st))"
    "ds_description t =
       (case meta_effect mp_description e of Some v \<Rightarrow> v | None \<Rightarrow> ds_description (the st))"
  using assms
  by (auto simp: apply_event_cases blob_effect_def meta_effect_def
      split: option.splits DocumentEventPayload.splits Actor.splits if_splits)

definition or_default :: "'a \<Rightarrow> 'a option \<Rightarrow> 'a" where
  "or_default d v = (case v of Some x \<Rightarrow> x | None \<Rightarrow> d)"

lemma apply_event_writes_default:
  assumes "apply_event st e seq = Ok t"
  shows "ds_tags t = (case map_option (or_default []) (meta_effect mp_tags e) of
        Some v \<Rightarrow> v | None \<Rightarrow> ds_tags (the st))"
    "ds_metadata t = (case map_option (or_default (JObject [])) (meta_effect mp_metadata e) of
        Some v \<Rightarrow> v | None \<Rightarrow> ds_metadata (the st))"
    "ds_current_blob t = (case map_option Some (blob_effect e) of
        Some v \<Rightarrow> v | None \<Rightarrow> ds_current_blob (the st))"
  using assms
  by (auto simp: apply_event_cases meta_effect_def or_default_def blob_effect_def
      split: option.splits DocumentEventPayload.splits Actor.splits if_splits)

lemma last_write_map: "last_write (\<lambda>e. map_option g (f e)) h = map_option g (last_write f h)"
  by (auto simp: last_write_def Let_def)

lemma effects_of_create:
  assumes "is_created e"
  shows "index_effect e \<noteq> None" "lifecycle_effect e \<noteq> None" "map_option Some (blob_effect e) \<noteq> None"
    "meta_effect f e \<noteq> None" "map_option g (meta_effect f e) \<noteq> None"
  using assms by (auto simp: is_created_def blob_effect_def meta_effect_def event_patch_def
      split: DocumentEventPayload.splits)

lemma fold_writes:
  assumes "fold_history h = Ok (Some s)"
  shows "last_write index_effect h = Some (ds_index_state s)"
    "last_write lifecycle_effect h = Some (ds_state s)"
    "last_write blob_effect h = ds_current_blob s"
    "last_write (meta_effect mp_title) h = Some (ds_title s)"
    "last_write (meta_effect mp_description) h = Some (ds_description s)"
    "map_option (or_default []) (last_write (meta_effect mp_tags) h) = Some (ds_tags s)"
    "map_option (or_default (JObject [])) (last_write (meta_effect mp_metadata) h) = Some (ds_metadata s)"
proof -
  note fold = fold_last_write [OF _ _ assms]
  show "last_write index_effect h = Some (ds_index_state s)"
    by (rule fold) (erule apply_event_writes, erule effects_of_create)
  show "last_write lifecycle_effect h = Some (ds_state s)"
    by (rule fold) (erule apply_event_writes, erule effects_of_create)
  have "last_write (\<lambda>e. map_option Some (blob_effect e)) h = Some (ds_current_blob s)"
    by (rule fold) (erule apply_event_writes_default, erule effects_of_create)
  then show "last_write blob_effect h = ds_current_blob s" by (auto simp: last_write_map)
  show "last_write (meta_effect mp_title) h = Some (ds_title s)"
    by (rule fold) (erule apply_event_writes, erule effects_of_create)
  show "last_write (meta_effect mp_description) h = Some (ds_description s)"
    by (rule fold) (erule apply_event_writes, erule effects_of_create)
  show "map_option (or_default []) (last_write (meta_effect mp_tags) h) = Some (ds_tags s)"
    unfolding last_write_map [symmetric]
    by (rule fold) (erule apply_event_writes_default, erule effects_of_create)
  show "map_option (or_default (JObject [])) (last_write (meta_effect mp_metadata) h) = Some (ds_metadata s)"
    unfolding last_write_map [symmetric]
    by (rule fold) (erule apply_event_writes_default, erule effects_of_create)
qed

text \<open>The version protocol of the log: the first event has version 1, an advancing event adds
  one, any other event repeats the version.\<close>

fun versions_from :: "u64 \<Rightarrow> (u64 \<times> DocumentEvent) list \<Rightarrow> bool" where
  "versions_from v [] = True"
| "versions_from v ((_, e) # h) =
     (ev_version e = (if event_advances_version e then v + 1 else v) \<and> versions_from (ev_version e) h)"

definition advancing_count :: "(u64 \<times> DocumentEvent) list \<Rightarrow> nat" where
  "advancing_count h = length (filter (\<lambda>(_, e). event_advances_version e) h)"

lemma fold_from_version:
  "fold_from st h = Ok (Some s) \<Longrightarrow> h \<noteq> [] \<Longrightarrow> ds_version s = ev_version (snd (last h))"
proof (induction h arbitrary: st)
  case Nil
  then show ?case by simp
next
  case (Cons x h)
  obtain seq e where x: "x = (seq, e)" by (cases x)
  from Cons.prems obtain t where t: "apply_event st e seq = Ok t" "fold_from (Some t) h = Ok (Some s)"
    by (auto simp: x split: result.splits)
  show ?case
    using Cons.IH [OF t(2)] t apply_event_envelope(2) [OF t(1)] by (cases "h = []") (auto simp: x)
qed

lemma versions_from_last:
  "versions_from v h \<Longrightarrow> h \<noteq> [] \<Longrightarrow> ev_version (snd (last h)) = v + of_nat (advancing_count h)"
proof (induction v h rule: versions_from.induct)
  case (1 v)
  then show ?case by simp
next
  case (2 v n e h)
  show ?case
  proof (cases "h = []")
    case True
    then show ?thesis using 2 by (simp add: advancing_count_def)
  next
    case False
    have e: "ev_version e = (if event_advances_version e then v + 1 else v)"
      and h: "versions_from (ev_version e) h" using "2.prems" by auto
    have "ev_version (snd (last h)) = ev_version e + of_nat (advancing_count h)"
      using h False by (rule "2.IH")
    then show ?thesis using False e by (simp add: advancing_count_def)
  qed
qed

section \<open>Examples\<close>

definition ex_event :: "u64 \<Rightarrow> DocumentEventPayload \<Rightarrow> DocumentEvent" where
  "ex_event version payload = \<lparr>ev_v = DOCUMENT_CONTRACT_VERSION, ev_event_id = ''e'',
     ev_tenant_id = ''acme'', ev_document_id = ''doc-1'', ev_actor = User ''user-1'',
     ev_version = version, ev_ts = 1700000000 + uint version, ev_payload = payload\<rparr>"

definition ex_created :: DocumentEvent where
  "ex_created = ex_event 1 (DocumentCreated \<lparr>dc_blob_ref = ''upload-1'', dc_filename = ''report.pdf'',
     dc_content_type = ''application/pdf'', dc_byte_size = 1024, dc_checksum = ''sha256:aa'',
     dc_patch = empty_patch\<lparr>mp_title := Some ''Annual Report''\<rparr>\<rparr>)"

definition ex_indexed :: DocumentEvent where
  "ex_indexed = ex_event 1 (DocumentIndexed
     \<lparr>di_for_version = 1, di_vector_count = 12, di_embedding_model = ''m''\<rparr>)"

definition ex_retagged :: DocumentEvent where
  "ex_retagged = ex_event 2 (DocumentMetadataChanged (empty_patch\<lparr>mp_tags := Some [''finance'']\<rparr>))"

definition ex_history :: "(u64 \<times> DocumentEvent) list" where
  "ex_history = [(1, ex_created), (4, ex_indexed), (9, ex_retagged)]"

lemmas ex_defs = ex_history_def ex_created_def ex_indexed_def ex_retagged_def ex_event_def empty_patch_def

definition ex_folded :: DocumentState where
  "ex_folded = \<lparr>ds_tenant_id = ''acme'', ds_document_id = ''doc-1'', ds_owner_user_id = ''user-1'',
     ds_version = 2, ds_stream_seq = 9, ds_state = Active, ds_index_state = Current,
     ds_index_version = Some 1, ds_current_blob = Some ''upload-1'', ds_filename = Some ''report.pdf'',
     ds_content_type = Some ''application/pdf'', ds_byte_size = Some 1024,
     ds_checksum = Some ''sha256:aa'', ds_title = Some ''Annual Report'', ds_tags = [''finance''],
     ds_description = None, ds_metadata = JObject [], ds_created_at = 1700000001,
     ds_updated_at = 1700000002\<rparr>"

lemma fold_ex_history: "fold_history ex_history = Ok (Some ex_folded)"
  by (simp add: fold_history_def ex_defs apply_event_def seed_state_def merge_patch_def ex_folded_def)

section \<open>Properties\<close>

text \<open>A history folds exactly when it starts with a create, every create names a user and
  all its events are for one document; nothing else about the events can make the fold fail.\<close>

theorem fold_history_ok_iff: "(\<exists>st. fold_history h = Ok st) = foldable h"
  using fold_history_ok_iff_foldable by simp

text \<open>The folded state carries the envelope of the history: document, version, stream
  sequence and modification time of its last event, creation time of its first.\<close>

theorem fold_history_envelope:
  assumes "fold_history h = Ok (Some s)"
  shows "h \<noteq> [] \<and> ds_document_id s = ev_document_id (snd (last h))
    \<and> ds_version s = ev_version (snd (last h)) \<and> ds_stream_seq s = fst (last h)
    \<and> ds_updated_at s = ev_ts (snd (last h)) \<and> ds_created_at s = ev_ts (snd (hd h))"
  using assms
proof (induction h arbitrary: s rule: rev_induct)
  case Nil
  then show ?case by simp
next
  case (snoc x h)
  obtain seq e where x: "x = (seq, e)" by (cases x)
  from snoc.prems obtain st where h: "fold_history h = Ok st" and e: "apply_event st e seq = Ok s"
    unfolding x fold_history_snoc by blast
  show ?case
  proof (cases st)
    case None
    then have "h = []" using h by (simp add: fold_history_None_iff)
    then show ?thesis using apply_event_envelope [OF e] by (simp add: x None)
  next
    case (Some u)
    then show ?thesis using apply_event_envelope [OF e] snoc.IH [of u] h by (simp add: x)
  qed
qed

theorem fold_history_envelope_witness:
  "fold_history ex_history = Ok (Some ex_folded) \<and> ds_stream_seq ex_folded = fst (last ex_history)"
  using fold_history_envelope [OF fold_ex_history] fold_ex_history by blast

text \<open>Last writer wins. Content, lifecycle, index and metadata of the folded state are what
  the last event that writes them wrote: a create resets the metadata, a later patch overrides
  exactly the fields it sets, new bytes reset the index, and an index result counts as current
  only when it was built for the version it is recorded at or a later one.\<close>

theorem fold_history_last_write:
  assumes "fold_history h = Ok (Some s)"
  shows "last_write index_effect h = Some (ds_index_state s)
    \<and> last_write lifecycle_effect h = Some (ds_state s)
    \<and> last_write blob_effect h = ds_current_blob s
    \<and> last_write (meta_effect mp_title) h = Some (ds_title s)
    \<and> last_write (meta_effect mp_description) h = Some (ds_description s)
    \<and> map_option (or_default []) (last_write (meta_effect mp_tags) h) = Some (ds_tags s)
    \<and> map_option (or_default (JObject [])) (last_write (meta_effect mp_metadata) h) = Some (ds_metadata s)"
  using assms by (intro conjI fold_writes)

theorem fold_history_last_write_witness:
  "fold_history ex_history = Ok (Some ex_folded)
    \<and> last_write (meta_effect mp_title) ex_history = Some (Some ''Annual Report'')"
  using fold_history_last_write [OF fold_ex_history] fold_ex_history by (simp add: ex_folded_def)

text \<open>In a log that follows the version protocol, the folded version is the number of
  version-advancing events, so results recorded about a version (extraction, indexing, failed
  stages, pruning) never move it.\<close>

theorem fold_history_version_counts:
  assumes "fold_history h = Ok (Some s)" "versions_from 0 h"
  shows "ds_version s = of_nat (advancing_count h)"
proof -
  have "h \<noteq> []" using assms(1) by auto
  then show ?thesis
    using fold_from_version [of None h s] versions_from_last [OF assms(2)] assms(1)
    by (simp add: fold_history_def)
qed

theorem fold_history_version_counts_witness:
  "versions_from 0 ex_history \<and> ds_version ex_folded = of_nat (advancing_count ex_history)"
proof -
  have "versions_from 0 ex_history"
    by (simp add: ex_defs event_advances_version_def)
  then show ?thesis using fold_history_version_counts [OF fold_ex_history] by blast
qed

text \<open>A metadata change starts a new version but leaves the index state alone, so a document
  can report a current index that was built for an older version than its own.\<close>

theorem stale_index_stays_current:
  "\<exists>h s. fold_history h = Ok (Some s) \<and> versions_from 0 h \<and> ds_index_state s = Current
     \<and> ds_index_version s = Some 1 \<and> ds_version s = 2"
  by (intro exI [of _ ex_history] exI [of _ ex_folded] conjI fold_ex_history)
     (simp_all add: ex_folded_def ex_defs event_advances_version_def)

end
