(* ===== verification/Geometry.thy ===== *)
theory Geometry
  imports Rust_Prelude
begin

text \<open>
  Multipart part geometry (crates/document-domain/src/geometry.rs): the part size the server
  dictates and the number of parts it leads to. The theorems show that the two functions
  succeed together, that no accepted file needs more than ten thousand parts, and that the
  configured size is honoured until the part cap binds.
\<close>

section \<open>Definitions\<close>

definition MAX_OBJECT_BYTES :: u64 where
  "MAX_OBJECT_BYTES = 5 * 1024 * 1024 * 1024 * 1024"

definition MIN_PART_BYTES :: u64 where
  "MIN_PART_BYTES = 5 * 1024 * 1024"

definition MAX_PARTS :: u64 where
  "MAX_PARTS = 10000"

definition MAX_PART_BYTES :: u64 where
  "MAX_PART_BYTES = 5 * 1024 * 1024 * 1024"

datatype GeometryError =
    Empty
  | InvalidPartSize u64
  | TooLargeObject u64
  | ZeroPartSize
  | TooManyParts u64 u64 u64

fun display_GeometryError :: "GeometryError \<Rightarrow> string" where
  "display_GeometryError Empty = ''file size must be greater than zero''"
| "display_GeometryError (InvalidPartSize part_size) =
     ''configured part size '' @ show_u64 part_size @ '' must be between ''
     @ show_u64 MIN_PART_BYTES @ '' and '' @ show_u64 MAX_PART_BYTES @ '' bytes''"
| "display_GeometryError (TooLargeObject sz) =
     ''file size '' @ show_u64 sz @ '' exceeds the '' @ show_u64 MAX_OBJECT_BYTES
     @ '' byte object limit''"
| "display_GeometryError ZeroPartSize = ''part size must be greater than zero''"
| "display_GeometryError (TooManyParts sz part_size parts) =
     ''file size '' @ show_u64 sz @ '' at part size '' @ show_u64 part_size @ '' needs ''
     @ show_u64 parts @ '' parts, over the '' @ show_u64 MAX_PARTS @ '' limit''"

definition part_size_bytes :: "u64 \<Rightarrow> u64 \<Rightarrow> (u64, GeometryError) result" where
  "part_size_bytes file_size target =
     (if \<not> (MIN_PART_BYTES \<le> target \<and> target \<le> MAX_PART_BYTES) then Err (InvalidPartSize target)
      else if file_size = 0 then Err Empty
      else if file_size > MAX_OBJECT_BYTES then Err (TooLargeObject file_size)
      else Ok (max target (div_ceil file_size MAX_PARTS)))"

definition largest_size_honouring :: "u64 \<Rightarrow> u64" where
  "largest_size_honouring target = saturating_mul target MAX_PARTS"

text \<open>\<open>u16::try_from\<close> of a \<open>u64\<close>: an error above 65535.\<close>

definition u16_try_from :: "u64 \<Rightarrow> u16 option" where
  "u16_try_from n = (if unat n < 2 ^ 16 then Some (ucast n) else None)"

definition part_count :: "u64 \<Rightarrow> u64 \<Rightarrow> (u16, GeometryError) result" where
  "part_count file_size part_size =
     (if file_size = 0 then Err Empty
      else if part_size = 0 then Err ZeroPartSize
      else (let parts = div_ceil file_size part_size in
        if parts > MAX_PARTS then Err (TooManyParts file_size part_size parts)
        else (case u16_try_from parts of
            Some n \<Rightarrow> Ok n
          | None \<Rightarrow> Err (TooManyParts file_size part_size parts))))"

section \<open>Sizes as naturals\<close>

lemma limits_unat [simp]:
  "unat MAX_OBJECT_BYTES = 5497558138880" "unat MIN_PART_BYTES = 5242880"
  "unat MAX_PARTS = 10000" "unat MAX_PART_BYTES = 5368709120"
  by (simp_all add: MAX_OBJECT_BYTES_def MIN_PART_BYTES_def MAX_PARTS_def MAX_PART_BYTES_def)

lemma limits_nonzero [simp]: "MAX_PARTS \<noteq> 0" "MIN_PART_BYTES \<noteq> 0"
  by (simp_all add: MAX_PARTS_def MIN_PART_BYTES_def)

lemma unat_max: "unat (max a b :: 'n::len word) = max (unat a) (unat b)"
  by (simp add: max_def word_le_nat_alt)

text \<open>The admissible inputs of the server's slicing rule.\<close>

definition sliceable :: "u64 \<Rightarrow> u64 \<Rightarrow> bool" where
  "sliceable file_size target =
     (MIN_PART_BYTES \<le> target \<and> target \<le> MAX_PART_BYTES \<and> 0 < file_size \<and> file_size \<le> MAX_OBJECT_BYTES)"

lemma part_size_bytes_ok_iff:
  "part_size_bytes file_size target = Ok p \<longleftrightarrow>
     sliceable file_size target \<and> p = max target (div_ceil file_size MAX_PARTS)"
  by (auto simp: part_size_bytes_def sliceable_def word_gt_0 not_le not_less)

lemma unat_part_size:
  "part_size_bytes file_size target = Ok p \<Longrightarrow>
     unat p = max (unat target) (ceil_nat (unat file_size) 10000)"
  by (simp add: part_size_bytes_ok_iff unat_max unat_div_ceil)

lemma sliceable_unat:
  "sliceable file_size target \<longleftrightarrow> 5242880 \<le> unat target \<and> unat target \<le> 5368709120
     \<and> 0 < unat file_size \<and> unat file_size \<le> 5497558138880"
  by (simp add: sliceable_def word_le_nat_alt unat_gt_0 word_gt_0)

lemma part_count_ok:
  assumes "0 < unat file_size" "0 < unat part_size" "unat file_size \<le> 10000 * unat part_size"
  shows "\<exists>n. part_count file_size part_size = Ok n \<and> unat n = ceil_nat (unat file_size) (unat part_size)"
proof -
  have nz: "file_size \<noteq> 0" "part_size \<noteq> 0" using assms by auto
  have parts: "unat (div_ceil file_size part_size) = ceil_nat (unat file_size) (unat part_size)"
    using nz by (simp add: unat_div_ceil)
  have le: "ceil_nat (unat file_size) (unat part_size) \<le> 10000"
    using assms by (simp add: ceil_nat_le_iff)
  then have "div_ceil file_size part_size \<le> MAX_PARTS" by (simp add: word_le_nat_alt parts)
  moreover have "unat (ucast (div_ceil file_size part_size) :: u16)
      = ceil_nat (unat file_size) (unat part_size)"
    using le by (simp add: unsigned_ucast_eq take_bit_nat_eq_self parts)
  ultimately show ?thesis using nz le
    by (auto simp: part_count_def u16_try_from_def Let_def parts not_less)
qed

lemma part_count_okD:
  assumes "part_count file_size part_size = Ok n"
  shows "0 < unat file_size" "0 < unat part_size" "unat file_size \<le> 10000 * unat part_size"
    "unat n = ceil_nat (unat file_size) (unat part_size)"
proof -
  have nz: "file_size \<noteq> 0" "part_size \<noteq> 0" and le: "div_ceil file_size part_size \<le> MAX_PARTS"
    using assms by (auto simp: part_count_def Let_def not_less split: if_splits)
  then show pos: "0 < unat file_size" "0 < unat part_size" by (simp_all add: unat_gt_0)
  have "ceil_nat (unat file_size) (unat part_size) \<le> 10000"
    using le nz by (simp add: word_le_nat_alt unat_div_ceil)
  then show cover: "unat file_size \<le> 10000 * unat part_size" using pos by (simp add: ceil_nat_le_iff)
  show "unat n = ceil_nat (unat file_size) (unat part_size)"
    using part_count_ok [OF pos cover] assms by auto
qed

section \<open>Properties\<close>

lemma slicing_ok:
  assumes "part_size_bytes file_size target = Ok p"
  shows "\<exists>n. part_count file_size p = Ok n \<and> 1 \<le> unat n \<and> unat n \<le> 10000
    \<and> MIN_PART_BYTES \<le> p \<and> p \<le> MAX_PART_BYTES"
proof -
  have s: "sliceable file_size target" using assms by (simp add: part_size_bytes_ok_iff)
  let ?f = "unat file_size"
  have p: "unat p = max (unat target) (ceil_nat ?f 10000)" by (rule unat_part_size [OF assms])
  have f: "0 < ?f" "?f \<le> 5497558138880" and t: "5242880 \<le> unat target" "unat target \<le> 5368709120"
    using s by (simp_all add: sliceable_unat)
  have cap: "ceil_nat ?f 10000 \<le> 5368709120" using f by (simp add: ceil_nat_le_iff)
  have cover: "?f \<le> 10000 * unat p" using ceil_nat_covers [of 10000 ?f] by (simp add: p max_def)
  have pos: "0 < unat p" using t by (simp add: p)
  obtain n where n: "part_count file_size p = Ok n" "unat n = ceil_nat ?f (unat p)"
    using part_count_ok [OF f(1) pos cover] by blast
  have "1 \<le> unat n" using ceil_nat_pos [OF pos f(1)] by (simp add: n)
  moreover have "unat n \<le> 10000" using cover pos by (simp add: n ceil_nat_le_iff)
  moreover have "MIN_PART_BYTES \<le> p" "p \<le> MAX_PART_BYTES" using t cap by (simp_all add: word_le_nat_alt p)
  ultimately show ?thesis using n(1) by blast
qed

text \<open>Slicing never fails after the part size was accepted: for every part size the server
  hands out, the part count succeeds, is at least one and at most ten thousand, and the part
  size stays inside the limits of S3.\<close>

theorem slicing_succeeds:
  assumes "part_size_bytes file_size target = Ok p"
  shows "\<exists>n. part_count file_size p = Ok n \<and> 1 \<le> unat n \<and> unat n \<le> 10000
    \<and> MIN_PART_BYTES \<le> p \<and> p \<le> MAX_PART_BYTES"
  using assms by (rule slicing_ok)

lemma ex_slicing: "part_size_bytes 52428800 20971520 = Ok 20971520"
  by (simp add: part_size_bytes_def MIN_PART_BYTES_def MAX_PART_BYTES_def MAX_OBJECT_BYTES_def
      MAX_PARTS_def div_ceil_def max_def)

lemma ex_count: "part_count 52428800 20971520 = Ok 3"
  by (simp add: part_count_def div_ceil_def MAX_PARTS_def u16_try_from_def Let_def)

theorem slicing_succeeds_witness:
  "part_size_bytes 52428800 20971520 = Ok 20971520 \<and> (\<exists>n. part_count 52428800 20971520 = Ok n)"
  using slicing_succeeds [OF ex_slicing] ex_slicing by blast

text \<open>Count scales before size: the configured part size is used exactly for the files up to
  the size it can cover with ten thousand parts, and above that size the part grows instead.\<close>

theorem target_honoured_iff:
  assumes "part_size_bytes file_size target = Ok p"
  shows "(p = target) = (file_size \<le> largest_size_honouring target)"
proof -
  have s: "sliceable file_size target" using assms by (simp add: part_size_bytes_ok_iff)
  have t: "unat target \<le> 5368709120" using s by (simp add: sliceable_unat)
  then have bound: "unat target * 10000 < 2 ^ 64" by simp
  have "unat (target * MAX_PARTS) = unat target * unat MAX_PARTS"
    using bound by (intro unat_mult_lem [THEN iffD1]) simp
  then have "unat (largest_size_honouring target) = unat target * 10000"
    using bound by (simp add: largest_size_honouring_def saturating_mul_def)
  moreover have "p = target \<longleftrightarrow> ceil_nat (unat file_size) 10000 \<le> unat target"
    unfolding word_unat_eq_iff unat_part_size [OF assms] by linarith
  ultimately show ?thesis by (simp add: word_le_nat_alt ceil_nat_le_iff)
qed

theorem target_honoured_iff_witness:
  "((20971520 :: u64) = 20971520) = ((52428800 :: u64) \<le> largest_size_honouring 20971520)"
  by (rule target_honoured_iff [OF ex_slicing])

end
