(* ===== verification/Validation.thy ===== *)
theory Validation
  imports Events
begin

text \<open>
  Metadata validation (crates/document-domain/src/validation.rs): the one check every write
  path runs on a metadata patch. The serializer of serde\_json is the parameter \<open>to_vec\<close>, with
  \<open>None\<close> for a failed serialization.
\<close>

definition MAX_TITLE_CHARS :: nat where "MAX_TITLE_CHARS = 512"
definition MAX_TAGS :: nat where "MAX_TAGS = 64"
definition MAX_TAG_CHARS :: nat where "MAX_TAG_CHARS = 64"
definition MAX_DESCRIPTION_CHARS :: nat where "MAX_DESCRIPTION_CHARS = 8192"
definition MAX_METADATA_BYTES :: nat where "MAX_METADATA_BYTES = 32 * 1024"

datatype ValidationError = Title | TagCount | Tag | Description | MetadataShape | MetadataSize

fun display_ValidationError :: "ValidationError \<Rightarrow> string" where
  "display_ValidationError Title =
     ''title must be between 1 and '' @ show_nat MAX_TITLE_CHARS @ '' characters''"
| "display_ValidationError TagCount =
     ''at most '' @ show_nat MAX_TAGS @ '' tags are allowed''"
| "display_ValidationError Tag =
     ''each tag must be between 1 and '' @ show_nat MAX_TAG_CHARS
     @ '' characters with no control characters''"
| "display_ValidationError Description =
     ''description must be at most '' @ show_nat MAX_DESCRIPTION_CHARS @ '' characters''"
| "display_ValidationError MetadataShape = ''metadata must be a JSON object''"
| "display_ValidationError MetadataSize =
     ''metadata must serialize to at most '' @ show_nat MAX_METADATA_BYTES @ '' bytes''"

text \<open>The loop over the tags, stopping at the first bad one.\<close>

fun validate_tags :: "string list \<Rightarrow> (unit, ValidationError) result" where
  "validate_tags [] = Ok ()"
| "validate_tags (tag # tags) =
     (let trimmed = trim tag; len = length (chars trimmed) in
      if len = 0 \<or> len > MAX_TAG_CHARS then Err Tag
      else if list_ex is_control (chars trimmed) then Err Tag
      else validate_tags tags)"

text \<open>The four blocks of the function, one per field.\<close>

definition validate_title :: "string option \<Rightarrow> (unit, ValidationError) result" where
  "validate_title t = (case t of
      None \<Rightarrow> Ok ()
    | Some title \<Rightarrow> (let len = length (chars (trim title)) in
        if len = 0 \<or> len > MAX_TITLE_CHARS then Err Title else Ok ()))"

definition validate_tag_list :: "string list option \<Rightarrow> (unit, ValidationError) result" where
  "validate_tag_list ts = (case ts of
      None \<Rightarrow> Ok ()
    | Some tags \<Rightarrow> if length tags > MAX_TAGS then Err TagCount else validate_tags tags)"

definition validate_description :: "string option \<Rightarrow> (unit, ValidationError) result" where
  "validate_description d = (case d of
      None \<Rightarrow> Ok ()
    | Some description \<Rightarrow>
        if length (chars description) > MAX_DESCRIPTION_CHARS then Err Description else Ok ())"

definition validate_metadata ::
  "(json \<Rightarrow> bytes option) \<Rightarrow> json option \<Rightarrow> (unit, ValidationError) result" where
  "validate_metadata to_vec m = (case m of
      None \<Rightarrow> Ok ()
    | Some metadata \<Rightarrow>
        if \<not> is_object metadata then Err MetadataShape
        else (case to_vec metadata of
            None \<Rightarrow> Err MetadataShape
          | Some serialized \<Rightarrow>
              if length serialized > MAX_METADATA_BYTES then Err MetadataSize else Ok ()))"

definition validate_metadata_patch ::
  "(json \<Rightarrow> bytes option) \<Rightarrow> MetadataPatch \<Rightarrow> (unit, ValidationError) result" where
  "validate_metadata_patch to_vec patch =
     and_then (validate_title (mp_title patch))
    (and_then (validate_tag_list (mp_tags patch))
    (and_then (validate_description (mp_description patch))
    (and_then (validate_metadata to_vec (mp_metadata patch))
    (Ok ()))))"

section \<open>What a valid patch is\<close>

definition tag_valid :: "string \<Rightarrow> bool" where
  "tag_valid tag = (trim tag \<noteq> [] \<and> length (chars (trim tag)) \<le> MAX_TAG_CHARS
     \<and> \<not> list_ex is_control (chars (trim tag)))"

definition patch_valid :: "(json \<Rightarrow> bytes option) \<Rightarrow> MetadataPatch \<Rightarrow> bool" where
  "patch_valid to_vec p =
    (pred_option (\<lambda>t. trim t \<noteq> [] \<and> length (chars (trim t)) \<le> MAX_TITLE_CHARS) (mp_title p)
   \<and> pred_option (\<lambda>ts. length ts \<le> MAX_TAGS \<and> list_all tag_valid ts) (mp_tags p)
   \<and> pred_option (\<lambda>d. length (chars d) \<le> MAX_DESCRIPTION_CHARS) (mp_description p)
   \<and> pred_option (\<lambda>m. is_object m \<and>
       (\<exists>b. to_vec m = Some b \<and> length b \<le> MAX_METADATA_BYTES)) (mp_metadata p))"

lemma validate_tags_ok_iff: "validate_tags ts = Ok () \<longleftrightarrow> list_all tag_valid ts"
  by (induction ts) (auto simp: tag_valid_def Let_def not_less)

lemma validate_ok_iff: "validate_metadata_patch to_vec patch = Ok () \<longleftrightarrow> patch_valid to_vec patch"
proof -
  have "validate_title t = Ok () \<longleftrightarrow>
      pred_option (\<lambda>t. trim t \<noteq> [] \<and> length (chars (trim t)) \<le> MAX_TITLE_CHARS) t" for t
    by (cases t) (auto simp: validate_title_def Let_def)
  moreover have "validate_tag_list ts = Ok () \<longleftrightarrow>
      pred_option (\<lambda>ts. length ts \<le> MAX_TAGS \<and> list_all tag_valid ts) ts" for ts
    by (cases ts) (auto simp: validate_tag_list_def validate_tags_ok_iff)
  moreover have "validate_description d = Ok () \<longleftrightarrow>
      pred_option (\<lambda>d. length (chars d) \<le> MAX_DESCRIPTION_CHARS) d" for d
    by (cases d) (auto simp: validate_description_def)
  moreover have "validate_metadata to_vec m = Ok () \<longleftrightarrow>
      pred_option (\<lambda>m. is_object m \<and> (\<exists>b. to_vec m = Some b \<and> length b \<le> MAX_METADATA_BYTES)) m" for m
    by (cases m) (auto simp: validate_metadata_def not_less split: option.splits)
  ultimately show ?thesis by (simp add: validate_metadata_patch_def patch_valid_def)
qed

definition padded_title :: "nat \<Rightarrow> string" where
  "padded_title n = CHR ''a'' # replicate n CHR '' ''"

lemma chars_padded: "chars (padded_title n) = [CHR ''a''] # replicate n [CHR '' '']"
  by (subst chars_ascii) (auto simp: padded_title_def is_cont_def list_all_iff map_replicate_const)

lemma trim_padded: "trim (padded_title n) = ''a''"
  by (simp add: trim_def chars_padded is_whitespace_def dropWhile_append)

section \<open>Properties\<close>

text \<open>A patch is accepted exactly when every field it sets is valid: a title of 1 to 512
  characters after trimming, at most 64 tags of 1 to 64 characters without control characters
  after trimming, a description of at most 8192 characters, and metadata that is a JSON object
  of at most 32 KiB. Fields the patch leaves out are never a reason to refuse it.\<close>

theorem validate_metadata_patch_ok_iff:
  "(validate_metadata_patch to_vec patch = Ok ()) = patch_valid to_vec patch"
  by (simp add: validate_ok_iff)

text \<open>The limits are checked on the trimmed text, but the patch is kept untrimmed: a title
  of any length passes validation when it is padded with blanks.\<close>

theorem validated_title_unbounded:
  "\<exists>patch title. validate_metadata_patch to_vec patch = Ok () \<and> mp_title patch = Some title
     \<and> n \<le> length (chars title)"
proof -
  let ?patch = "empty_patch\<lparr>mp_title := Some (padded_title n)\<rparr>"
  have "validate_metadata_patch to_vec ?patch = Ok ()"
    by (simp add: validate_ok_iff patch_valid_def trim_padded empty_patch_def MAX_TITLE_CHARS_def)
  moreover have "n \<le> length (chars (padded_title n))" by (simp add: chars_padded)
  ultimately show ?thesis by (intro exI [of _ ?patch] exI [of _ "padded_title n"]) simp
qed

end
