(* ===== verification/Keys.thy ===== *)
theory Keys
  imports Rust_Prelude
begin

text \<open>
  The names the program gives to things: object keys, event ids and command ids
  (crates/document-app/src/keys.rs), the safe principal (principal.rs), the listing cursor
  (cursor.rs), digests (digest.rs), the key of an upload record (\<open>UploadState::key\<close> of
  upload\_state.rs), and the subject an event is published on with its inverse
  (\<open>event_subject\<close> of jetstream/mod.rs, \<open>document_key_from_subject\<close> of postgres/projection.rs).
  The theorems show that distinct things get distinct names, that the caller's identity is in
  the name of every upload record, and that the two decoders invert the two encoders.

  SHA-256, CRC-32, hexadecimal coding and the calendar conversions belong to other crates;
  they are parameters of the definitions that call them.
\<close>

section \<open>Principals\<close>

datatype PrincipalError = Tenant | UserSegment

fun display_PrincipalError :: "PrincipalError \<Rightarrow> string" where
  "display_PrincipalError Tenant = ''tenant_id must be 1..=128 characters of [A-Za-z0-9_-]''"
| "display_PrincipalError UserSegment = ''user_id must be 1..=128 characters of [A-Za-z0-9_-]''"

definition MAX_PRINCIPAL_CHARS :: nat where
  "MAX_PRINCIPAL_CHARS = 128"

record Principal =
  pr_tenant_id :: string
  pr_user_id :: string

text \<open>The test \<open>ch.is_ascii_alphanumeric() || ch == '-' || ch == '_'\<close> on one scalar value.\<close>

definition segment_char :: "string \<Rightarrow> bool" where
  "segment_char ch = (case ch of
      [c] \<Rightarrow> is_ascii_alphanumeric c \<or> c = CHR ''-'' \<or> c = CHR ''_''
    | _ \<Rightarrow> False)"

definition is_safe_segment :: "string \<Rightarrow> bool" where
  "is_safe_segment v = (v \<noteq> [] \<and> length (chars v) \<le> MAX_PRINCIPAL_CHARS
     \<and> list_all segment_char (chars v))"

definition Principal_new :: "string \<Rightarrow> string \<Rightarrow> (Principal, PrincipalError) result" where
  "Principal_new tenant_id user_id =
     (if \<not> is_safe_segment tenant_id then Err Tenant
      else if \<not> is_safe_segment user_id then Err UserSegment
      else Ok \<lparr>pr_tenant_id = tenant_id, pr_user_id = user_id\<rparr>)"

section \<open>Keys and ids\<close>

definition sha256_hex :: "(bytes \<Rightarrow> bytes) \<Rightarrow> (bytes \<Rightarrow> string) \<Rightarrow> bytes \<Rightarrow> string" where
  "sha256_hex sha256 hex_encode b = hex_encode (sha256 b)"

definition checksum :: "string \<Rightarrow> string" where
  "checksum h = ''sha256:'' @ h"

definition object_key :: "string \<Rightarrow> string \<Rightarrow> string" where
  "object_key tenant_id upload_id = ''tenants/'' @ tenant_id @ ''/blobs/'' @ upload_id @ ''/original''"

text \<open>The bytes fed to the hasher of \<open>event_id\<close>, in the order of its \<open>update\<close> calls.\<close>

definition event_id_input :: "string \<Rightarrow> string \<Rightarrow> string \<Rightarrow> bytes" where
  "event_id_input tenant_id upload_id kind = tenant_id @ ''|'' @ upload_id @ ''|'' @ kind"

definition event_id ::
  "(bytes \<Rightarrow> bytes) \<Rightarrow> (bytes \<Rightarrow> string) \<Rightarrow> string \<Rightarrow> string \<Rightarrow> string \<Rightarrow> string" where
  "event_id sha256 hex_encode tenant_id upload_id kind =
     hex_encode (take 16 (sha256 (event_id_input tenant_id upload_id kind)))"

definition created_event_id ::
  "(bytes \<Rightarrow> bytes) \<Rightarrow> (bytes \<Rightarrow> string) \<Rightarrow> string \<Rightarrow> string \<Rightarrow> string" where
  "created_event_id sha256 hex_encode tenant_id upload_id =
     event_id sha256 hex_encode tenant_id upload_id ''created''"

definition blob_validated_event_id ::
  "(bytes \<Rightarrow> bytes) \<Rightarrow> (bytes \<Rightarrow> string) \<Rightarrow> string \<Rightarrow> string \<Rightarrow> string" where
  "blob_validated_event_id sha256 hex_encode tenant_id upload_id =
     event_id sha256 hex_encode tenant_id upload_id ''blob_validated''"

definition upload_completed_command_id :: "string \<Rightarrow> string \<Rightarrow> string" where
  "upload_completed_command_id tenant_id upload_id =
     ''upload-completed:'' @ tenant_id @ '':'' @ upload_id"

text \<open>\<open>UploadState::key\<close>.\<close>

definition upload_key :: "string \<Rightarrow> string \<Rightarrow> string \<Rightarrow> string" where
  "upload_key tenant_id user_id upload_id = tenant_id @ ''/'' @ user_id @ ''/'' @ upload_id"

section \<open>Event subjects\<close>

definition EVENT_PARTITIONS :: u32 where
  "EVENT_PARTITIONS = 16"

definition event_subject :: "(bytes \<Rightarrow> u32) \<Rightarrow> string \<Rightarrow> string \<Rightarrow> string" where
  "event_subject crc32 tenant_id document_id =
     (let slot = crc32 document_id mod EVENT_PARTITIONS
      in ''documents.'' @ tenant_id @ ''.'' @ show_pad2 slot @ ''.'' @ document_id)"

definition document_key_from_subject :: "string \<Rightarrow> (string \<times> string) option" where
  "document_key_from_subject subject = (case split_on CHR ''.'' subject of
      [root, tenant, slot, document_id] \<Rightarrow>
        if root = ''documents'' then Some (tenant, document_id) else None
    | _ \<Rightarrow> None)"

section \<open>The listing cursor\<close>

text \<open>The cursor is the sort key of the listing: the time first, the document id as the tie
  breaker. Its order is the one \<open>ORDER BY updated_at DESC, document_id DESC\<close> reverses.\<close>

datatype DocumentCursor = DocumentCursor (cu_updated_at: datetime) (cu_document_id: string)

definition cursor_before :: "DocumentCursor \<Rightarrow> DocumentCursor \<Rightarrow> bool" where
  "cursor_before a b = (cu_updated_at a < cu_updated_at b
     \<or> cu_updated_at a = cu_updated_at b \<and> cu_document_id a < cu_document_id b)"

instantiation DocumentCursor :: linorder
begin

definition less_eq_DocumentCursor :: "DocumentCursor \<Rightarrow> DocumentCursor \<Rightarrow> bool" where
  "less_eq_DocumentCursor a b = (cu_updated_at a < cu_updated_at b
     \<or> cu_updated_at a = cu_updated_at b \<and> cu_document_id a \<le> cu_document_id b)"

definition less_DocumentCursor :: "DocumentCursor \<Rightarrow> DocumentCursor \<Rightarrow> bool" where
  "less_DocumentCursor = cursor_before"

instance
  by standard
    (auto simp: less_eq_DocumentCursor_def less_DocumentCursor_def cursor_before_def intro: DocumentCursor.expand)

end

definition cursor_encode ::
  "(bytes \<Rightarrow> string) \<Rightarrow> (datetime \<Rightarrow> int) \<Rightarrow> DocumentCursor \<Rightarrow> string" where
  "cursor_encode hex_encode timestamp_micros c =
     hex_encode (show_int (timestamp_micros (cu_updated_at c)) @ '':'' @ cu_document_id c)"

definition cursor_decode ::
  "(string \<Rightarrow> bytes option) \<Rightarrow> (int \<Rightarrow> datetime option) \<Rightarrow> string \<Rightarrow> DocumentCursor option" where
  "cursor_decode hex_decode from_timestamp_micros v =
     Option.bind (hex_decode v) (\<lambda>raw.
     Option.bind (from_utf8 raw) (\<lambda>text.
     Option.bind (split_once CHR '':'' text) (\<lambda>(micros, document_id).
     if document_id = [] then None
     else Option.bind (parse_i64 micros) (\<lambda>m.
       Option.bind (from_timestamp_micros m) (\<lambda>t. Some (DocumentCursor t document_id))))))"

section \<open>Separators\<close>

lemma segment_char_sep:
  "is_safe_segment v \<Longrightarrow> c \<in> set v \<Longrightarrow> is_ascii_alphanumeric c \<or> c = CHR ''-'' \<or> c = CHR ''_''"
proof -
  assume v: "is_safe_segment v" and c: "c \<in> set v"
  then have "c \<in> set (concat (chars v))" by simp
  then obtain ch where ch: "ch \<in> set (chars v)" "c \<in> set ch"
    unfolding set_concat by blast
  with v have "segment_char ch" by (auto simp: is_safe_segment_def list_all_iff)
  with ch show ?thesis by (auto simp: segment_char_def split: list.splits)
qed

text \<open>None of the separators of the naming schemes occurs in a safe segment.\<close>

lemma safe_segment_sep:
  assumes "is_safe_segment v"
  shows "CHR ''/'' \<notin> set v" "CHR ''.'' \<notin> set v" "CHR ''|'' \<notin> set v" "CHR '':'' \<notin> set v"
    "CHR ''*'' \<notin> set v" "CHR ''>'' \<notin> set v"
  using segment_char_sep [OF assms] by (force simp: is_ascii_alphanumeric_def)+

lemma Principal_new_ok_iff:
  "Principal_new t u = Ok p \<longleftrightarrow>
     is_safe_segment t \<and> is_safe_segment u \<and> p = \<lparr>pr_tenant_id = t, pr_user_id = u\<rparr>"
  by (auto simp: Principal_new_def)

lemma append_sep_eq:
  "(c :: char) \<notin> set a \<Longrightarrow> c \<notin> set a' \<Longrightarrow> a @ c # b = a' @ c # b' \<longleftrightarrow> a = a' \<and> b = b'"
  by (auto dest!: arg_cong [where f = "split_once c"] simp: split_once_append)

lemma event_id_input_inj:
  assumes "CHR ''|'' \<notin> set t1" "CHR ''|'' \<notin> set t2" "CHR ''|'' \<notin> set u1" "CHR ''|'' \<notin> set u2"
  shows "event_id_input t1 u1 k1 = event_id_input t2 u2 k2 \<longleftrightarrow> t1 = t2 \<and> u1 = u2 \<and> k1 = k2"
  using assms by (simp add: event_id_input_def append_sep_eq)

lemma show_pad2_no_dot: "CHR ''.'' \<notin> set (show_pad2 w)"
  using not_digit_in_show_nat [of "CHR ''.''" "unat w"]
  by (auto simp: show_pad2_def show_u64_def is_digit_def Let_def)

lemma split_subject:
  assumes "CHR ''.'' \<notin> set t"
  shows "split_on CHR ''.'' (event_subject crc32 t d) =
    ''documents'' # t # show_pad2 (crc32 d mod EVENT_PARTITIONS) # split_on CHR ''.'' d"
  using split_on_append [of "CHR ''.''" "''documents''"] split_on_append [of "CHR ''.''" t]
    split_on_append [of "CHR ''.''" "show_pad2 (crc32 d mod EVENT_PARTITIONS)"] assms
  by (simp add: event_subject_def show_pad2_no_dot Let_def)

lemma split_on_not_Nil [simp]: "split_on c s \<noteq> []"
  by (cases s) (auto split: list.splits)

lemma split_on_sep: "c \<in> set s \<Longrightarrow> \<exists>a b r. split_on c s = a # b # r"
proof (induction s)
  case (Cons x s)
  then show ?case
    by (cases "split_on c s") (auto split: list.splits)
qed simp

lemma split_once_encode:
  "split_once CHR '':'' (show_int i @ CHR '':'' # d) = Some (show_int i, d)"
proof (rule split_once_append)
  show "CHR '':'' \<notin> set (show_int i)"
    using not_digit_in_show_nat [of "CHR '':''"] by (simp add: show_int_def is_digit_def)
qed

lemma show_int_ascii: "list_all (\<lambda>c. (of_char c :: nat) < 128) (show_int i)"
proof -
  have "list_all (\<lambda>c. (of_char c :: nat) < 128) (show_nat n)" for n
    by (rule list.pred_mono_strong [OF show_nat_digits]) (simp add: is_digit_def)
  then show ?thesis by (simp add: show_int_def)
qed

section \<open>Properties\<close>

text \<open>The key of an upload record isolates callers: two keys built from validated
  principals are equal only when the tenant, the user and the upload are the same, whatever
  text the upload ids are. Nobody can name another caller's upload record.\<close>

theorem upload_key_isolates:
  assumes "Principal_new t1 u1 = Ok p1" "Principal_new t2 u2 = Ok p2"
    and "upload_key (pr_tenant_id p1) (pr_user_id p1) id1
       = upload_key (pr_tenant_id p2) (pr_user_id p2) id2"
  shows "p1 = p2 \<and> id1 = id2"
  using assms safe_segment_sep(1) by (auto simp: Principal_new_ok_iff upload_key_def append_sep_eq)

theorem upload_key_isolates_witness:
  "(\<lparr>pr_tenant_id = ''acme'', pr_user_id = ''u1''\<rparr> = \<lparr>pr_tenant_id = ''acme'', pr_user_id = ''u1''\<rparr>)
     \<and> ''x/y'' = ''x/y''"
proof (rule upload_key_isolates)
  show "Principal_new ''acme'' ''u1'' = Ok \<lparr>pr_tenant_id = ''acme'', pr_user_id = ''u1''\<rparr>"
    by code_simp
  then show "Principal_new ''acme'' ''u1'' = Ok \<lparr>pr_tenant_id = ''acme'', pr_user_id = ''u1''\<rparr>" .
qed simp

text \<open>The object key and the command id are injective for tenants that passed the
  principal check: no two uploads of any tenants share an object, and no two share the id the
  work queue deduplicates on.\<close>

theorem object_and_command_keys_injective:
  assumes "is_safe_segment t1" "is_safe_segment t2"
    and "object_key t1 u1 = object_key t2 u2
       \<or> upload_completed_command_id t1 u1 = upload_completed_command_id t2 u2"
  shows "t1 = t2 \<and> u1 = u2"
  using assms safe_segment_sep(1,4)
  by (auto simp: object_key_def upload_completed_command_id_def append_sep_eq)

theorem object_and_command_keys_injective_witness:
  "(''acme'' :: string) = ''acme'' \<and> (''01JZ'' :: string) = ''01JZ''"
proof (rule object_and_command_keys_injective)
  show "is_safe_segment ''acme''" by code_simp
  then show "is_safe_segment ''acme''" .
qed simp

text \<open>Event ids are as distinct as the truncated digest allows: on any set of uploads
  whose hasher inputs do not collide under it, different uploads, tenants or event kinds get
  different event ids. The separators make the hasher input itself unambiguous.\<close>

theorem event_id_distinct:
  assumes "inj_on (\<lambda>m. hex_encode (take 16 (sha256 m)))
      ((\<lambda>(t, u, k). event_id_input t u k) ` uploads)"
    and "\<And>t u k. (t, u, k) \<in> uploads \<Longrightarrow> is_safe_segment t \<and> CHR ''|'' \<notin> set u"
  shows "inj_on (\<lambda>(t, u, k). event_id sha256 hex_encode t u k) uploads"
proof -
  have "inj_on (\<lambda>(t, u, k). event_id_input t u k) uploads"
    using assms(2) safe_segment_sep(3) event_id_input_inj by (auto simp: inj_on_def)
  from comp_inj_on [OF this assms(1)] show ?thesis
    by (auto simp: inj_on_def event_id_def)
qed

theorem event_id_distinct_witness:
  "inj_on (\<lambda>(t, u, k). event_id rev id t u k)
     {(''a'', ''u1'', ''created''), (''a'', ''u1'', ''blob_validated''), (''a'', ''u2'', ''created'')}"
proof (rule event_id_distinct)
  show "inj_on (\<lambda>m. id (take 16 (rev m))) ((\<lambda>(t, u, k). event_id_input t u k) `
    {(''a'', ''u1'', ''created''), (''a'', ''u1'', ''blob_validated''), (''a'', ''u2'', ''created'')})"
    by (simp add: event_id_input_def)
next
  have "is_safe_segment ''a''" by code_simp
  then show "\<And>t u k. (t, u, k) \<in> {(''a'', ''u1'', ''created''), (''a'', ''u1'', ''blob_validated''),
      (''a'', ''u2'', ''created'')} \<Longrightarrow> is_safe_segment t \<and> CHR ''|'' \<notin> set u"
    by auto
qed

text \<open>The projection reads back from a subject the tenant and the document it was
  published for, exactly when the document id has no dot. A document id with a dot gives a
  subject the projection cannot attribute to any document; the upload API accepts such ids.\<close>

theorem subject_round_trip:
  assumes "is_safe_segment t"
  shows "document_key_from_subject (event_subject crc32 t d)
    = (if CHR ''.'' \<in> set d then None else Some (t, d))"
proof (cases "CHR ''.'' \<in> set d")
  case True
  then obtain a b r where "split_on CHR ''.'' d = a # b # r" using split_on_sep by blast
  then show ?thesis using True assms
    by (simp add: document_key_from_subject_def split_subject safe_segment_sep)
next
  case False
  then show ?thesis using assms
    by (simp add: document_key_from_subject_def split_subject safe_segment_sep split_on_absent)
qed

theorem subject_round_trip_witness:
  "document_key_from_subject (event_subject (\<lambda>_. 9) ''acme'' ''doc-1'') = Some (''acme'', ''doc-1'')"
proof -
  have "is_safe_segment ''acme''" by code_simp
  from subject_round_trip [OF this, of "\<lambda>_. 9" "''doc-1''"] show ?thesis by simp
qed

text \<open>A cursor survives its wire form, for every document id that is a non-empty string, colons included.\<close>

lemma cursor_round_trip:
  assumes hex: "\<And>b. hex_decode (hex_encode b) = Some b"
    and micros: "from_micros (to_micros (cu_updated_at c)) = Some (cu_updated_at c)"
    and range: "- (2 ^ 63) \<le> to_micros (cu_updated_at c)" "to_micros (cu_updated_at c) < 2 ^ 63"
    and str: "from_utf8 (cu_document_id c) = Some (cu_document_id c)" "cu_document_id c \<noteq> []"
  shows "cursor_decode hex_decode from_micros (cursor_encode hex_encode to_micros c) = Some c"
proof -
  let ?i = "show_int (to_micros (cu_updated_at c))"
  have "list_all (\<lambda>c. (of_char c :: nat) < 128) (?i @ '':'')"
    using show_int_ascii by simp
  from utf8_wf_ascii_append [OF this, of "cu_document_id c"]
  have "from_utf8 (?i @ '':'' @ cu_document_id c) = Some (?i @ '':'' @ cu_document_id c)"
    using str(1) by (simp add: from_utf8_def split: if_splits)
  then show ?thesis
    using hex micros str(2) parse_i64_show_int [OF range]
    by (simp add: cursor_decode_def cursor_encode_def split_once_encode)
qed

end
