(* ===== verification/Ports.thy ===== *)
theory Ports
  imports Fold Geometry Validation Keys
begin

text \<open>
  The vocabulary of the application layer: its errors with their messages and conversions
  (crates/document-app/src/errors.rs), the upload record (upload\_state.rs), the work item
  (command.rs), and the port traits (ports.rs). A trait is a record of operations; each
  operation is a computation in the state monad over an arbitrary world \<open>'w\<close>, so that whatever
  stands behind a port (a server, other processes, a test double) is a choice of \<open>'w\<close>.
\<close>

section \<open>Errors\<close>

datatype DocumentError =
    NotFound
  | Forbidden
  | Gone
  | Invalid string
  | TooLarge string
  | Conflict u64
  | ErrDeleted
  | Internal string

fun display_DocumentError :: "DocumentError \<Rightarrow> string" where
  "display_DocumentError NotFound = ''not found''"
| "display_DocumentError Forbidden = ''forbidden''"
| "display_DocumentError Gone = ''gone''"
| "display_DocumentError (Invalid m) = ''invalid request: '' @ m"
| "display_DocumentError (TooLarge m) = ''payload too large: '' @ m"
| "display_DocumentError (Conflict current_version) =
     ''version conflict; current version is '' @ show_u64 current_version"
| "display_DocumentError ErrDeleted = ''document is deleted''"
| "display_DocumentError (Internal m) = ''internal error: '' @ m"

definition internal :: "string \<Rightarrow> string \<Rightarrow> DocumentError" where
  "internal ctx error = Internal (ctx @ '': '' @ error)"

definition from_ValidationError :: "ValidationError \<Rightarrow> DocumentError" where
  "from_ValidationError e = Invalid (display_ValidationError e)"

definition from_GeometryError :: "GeometryError \<Rightarrow> DocumentError" where
  "from_GeometryError e = Invalid (display_GeometryError e)"

datatype BlobErrorKind = NoSuchUpload | InvalidParts | BlobNotFound | Transient | Permanent

fun debug_BlobErrorKind :: "BlobErrorKind \<Rightarrow> string" where
  "debug_BlobErrorKind NoSuchUpload = ''NoSuchUpload''"
| "debug_BlobErrorKind InvalidParts = ''InvalidParts''"
| "debug_BlobErrorKind BlobNotFound = ''NotFound''"
| "debug_BlobErrorKind Transient = ''Transient''"
| "debug_BlobErrorKind Permanent = ''Permanent''"

record BlobError =
  be_kind :: BlobErrorKind
  be_message :: string

definition blob_error :: "BlobErrorKind \<Rightarrow> string \<Rightarrow> BlobError" where
  "blob_error kind message = \<lparr>be_kind = kind, be_message = message\<rparr>"

definition blob_transient :: "string \<Rightarrow> BlobError" where
  "blob_transient message = blob_error Transient message"

definition blob_permanent :: "string \<Rightarrow> BlobError" where
  "blob_permanent message = blob_error Permanent message"

definition display_BlobError :: "BlobError \<Rightarrow> string" where
  "display_BlobError e = debug_BlobErrorKind (be_kind e) @ '': '' @ be_message e"

datatype EventStoreError = ESConflict | ESUnavailable string | ESPayload string

fun display_EventStoreError :: "EventStoreError \<Rightarrow> string" where
  "display_EventStoreError ESConflict = ''expected sequence conflict''"
| "display_EventStoreError (ESUnavailable m) = ''event store unavailable: '' @ m"
| "display_EventStoreError (ESPayload m) = ''event store payload error: '' @ m"

datatype ContextError =
    CtxAlreadyExists
  | CtxConflict
  | CtxExpired
  | CtxUnavailable string
  | CtxPayload string

fun display_ContextError :: "ContextError \<Rightarrow> string" where
  "display_ContextError CtxAlreadyExists = ''upload state already exists''"
| "display_ContextError CtxConflict = ''upload state changed underneath this write''"
| "display_ContextError CtxExpired = ''upload state has expired''"
| "display_ContextError (CtxUnavailable m) = ''upload state store unavailable: '' @ m"
| "display_ContextError (CtxPayload m) = ''upload state payload error: '' @ m"

datatype ReadError = RdUnavailable string | RdPayload string

fun display_ReadError :: "ReadError \<Rightarrow> string" where
  "display_ReadError (RdUnavailable m) = ''read model unavailable: '' @ m"
| "display_ReadError (RdPayload m) = ''read model payload error: '' @ m"

datatype QueueError = QuUnavailable string | QuPayload string

fun display_QueueError :: "QueueError \<Rightarrow> string" where
  "display_QueueError (QuUnavailable m) = ''work queue unavailable: '' @ m"
| "display_QueueError (QuPayload m) = ''work queue payload error: '' @ m"

datatype ScanError = ScanUnavailable string | ScanRead string

fun display_ScanError :: "ScanError \<Rightarrow> string" where
  "display_ScanError (ScanUnavailable m) = ''scanner unavailable: '' @ m"
| "display_ScanError (ScanRead m) = ''scan read failed: '' @ m"

datatype ValidateError = ValidateUnavailable string

fun display_ValidateError :: "ValidateError \<Rightarrow> string" where
  "display_ValidateError (ValidateUnavailable m) = ''content validator unavailable: '' @ m"

datatype AppendError =
    AlreadyCreated
  | NoSuchDocument
  | VersionMismatch u64 u64
  | ConflictRetryExhausted
  | Store EventStoreError

fun display_AppendError :: "AppendError \<Rightarrow> string" where
  "display_AppendError AlreadyCreated = ''document already created''"
| "display_AppendError NoSuchDocument = ''document does not exist''"
| "display_AppendError (VersionMismatch client current) =
     ''client version '' @ show_u64 client @ '' does not match current version '' @ show_u64 current"
| "display_AppendError ConflictRetryExhausted = ''gave up after repeated expected-sequence conflicts''"
| "display_AppendError (Store e) = display_EventStoreError e"

definition from_EventStoreError :: "EventStoreError \<Rightarrow> DocumentError" where
  "from_EventStoreError e = internal ''event store'' (display_EventStoreError e)"

definition from_ReadError :: "ReadError \<Rightarrow> DocumentError" where
  "from_ReadError e = internal ''read model'' (display_ReadError e)"

definition from_QueueError :: "QueueError \<Rightarrow> DocumentError" where
  "from_QueueError e = internal ''work queue'' (display_QueueError e)"

definition from_ContextError :: "ContextError \<Rightarrow> DocumentError" where
  "from_ContextError e = (case e of
      CtxExpired \<Rightarrow> Gone
    | other \<Rightarrow> internal ''upload state'' (display_ContextError other))"

definition from_BlobError :: "BlobError \<Rightarrow> DocumentError" where
  "from_BlobError e = internal ''blob store'' (display_BlobError e)"

definition from_AppendError :: "AppendError \<Rightarrow> DocumentError" where
  "from_AppendError e = (case e of
      VersionMismatch _ current \<Rightarrow> Conflict current
    | NoSuchDocument \<Rightarrow> NotFound
    | other \<Rightarrow> internal ''append'' (display_AppendError other))"

section \<open>The upload record\<close>

datatype UploadMode = Create | Replace

fun UploadMode_as_str :: "UploadMode \<Rightarrow> string" where
  "UploadMode_as_str Create = ''create''"
| "UploadMode_as_str Replace = ''replace''"

datatype UploadStatus = Uploading | Scanning | Accepted u64 bool | Rejected string

fun UploadStatus_as_str :: "UploadStatus \<Rightarrow> string" where
  "UploadStatus_as_str Uploading = ''uploading''"
| "UploadStatus_as_str Scanning = ''scanning''"
| "UploadStatus_as_str (Accepted _ _) = ''accepted''"
| "UploadStatus_as_str (Rejected _) = ''rejected''"

fun is_terminal :: "UploadStatus \<Rightarrow> bool" where
  "is_terminal (Accepted _ _) = True"
| "is_terminal (Rejected _) = True"
| "is_terminal Uploading = False"
| "is_terminal Scanning = False"

record UploadState =
  us_tenant_id :: string
  us_owner_user_id :: string
  us_upload_id :: string
  us_document_id :: string
  us_mode :: UploadMode
  us_storage_key :: string
  us_multipart_upload_id :: string
  us_filename :: string
  us_content_type :: string
  us_declared_size :: u64
  us_part_size_bytes :: u64
  us_part_count :: u16
  us_status :: UploadStatus
  us_created_at :: datetime
  us_updated_at :: datetime

definition own_key :: "UploadState \<Rightarrow> string" where
  "own_key s = upload_key (us_tenant_id s) (us_owner_user_id s) (us_upload_id s)"

definition with_status :: "UploadState \<Rightarrow> UploadStatus \<Rightarrow> datetime \<Rightarrow> UploadState" where
  "with_status s status now = s\<lparr>us_status := status, us_updated_at := now\<rparr>"

record StoredUpload =
  su_state :: UploadState
  su_revision :: u64

definition MULTIPART_LOST :: string where
  "MULTIPART_LOST = ''multipart_lost''"
definition INVALID_PARTS :: string where
  "INVALID_PARTS = ''invalid_parts''"
definition SIZE_MISMATCH :: string where
  "SIZE_MISMATCH = ''size_mismatch''"
definition MALWARE_DETECTED :: string where
  "MALWARE_DETECTED = ''malware_detected''"
definition VERSION_CONFLICT :: string where
  "VERSION_CONFLICT = ''version_conflict''"
definition CONTENT_REJECTED :: string where
  "CONTENT_REJECTED = ''content_rejected''"
definition CORRUPT_HISTORY :: string where
  "CORRUPT_HISTORY = ''corrupt_history''"
definition PIPELINE_FAILED :: string where
  "PIPELINE_FAILED = ''pipeline_failed''"
definition UPLOAD_EXPIRED :: string where
  "UPLOAD_EXPIRED = ''upload_expired''"

section \<open>The work item\<close>

datatype ConflictPolicy = Supersede | Fail

definition default_ConflictPolicy :: ConflictPolicy where
  "default_ConflictPolicy = Supersede"

record UploadCompleted =
  uc_v :: u16
  uc_command_id :: string
  uc_tenant_id :: string
  uc_owner_user_id :: string
  uc_upload_id :: string
  uc_document_id :: string
  uc_mode :: UploadMode
  uc_storage_key :: string
  uc_multipart_upload_id :: string
  uc_filename :: string
  uc_content_type :: string
  uc_declared_size :: u64
  uc_if_match :: "u64 option"
  uc_on_conflict :: ConflictPolicy
  uc_patch :: MetadataPatch
  uc_ts :: datetime

definition NATS_MAX_PAYLOAD_BYTES :: nat where
  "NATS_MAX_PAYLOAD_BYTES = 8 * 1024 * 1024"

definition contract_version :: u16 where
  "contract_version = DOCUMENT_CONTRACT_VERSION"

section \<open>Ports\<close>

datatype Expect = CreateOnly | Exactly u64

record Appended =
  ap_stream_seq :: u64
  ap_version :: u64
  ap_duplicate :: bool

record 'w EventStore =
  es_append :: "DocumentEvent \<Rightarrow> Expect \<Rightarrow> ('w, (Appended, EventStoreError) result) state"
  es_last :: "string \<Rightarrow> string \<Rightarrow> ('w, ((u64 \<times> u64) option, EventStoreError) result) state"
  es_read_stream ::
    "string \<Rightarrow> string \<Rightarrow> ('w, ((u64 \<times> DocumentEvent) list, EventStoreError) result) state"

text \<open>A \<open>BoxAsyncRead\<close> is the sequence of results its reads will give: chunks of bytes, or an
  I/O error with its message. At the end of the list the reader is at the end of the file.\<close>

type_synonym AsyncRead = "(bytes, string) result list"

record PresignedPart =
  pp_part_number :: u16
  pp_url :: string
  pp_expires_at :: datetime

record UploadedPart =
  up_part_number :: u16
  up_etag :: string
  up_size :: u64

record CompletedPart =
  cp_part_number :: u16
  cp_etag :: string

record BlobHead =
  bh_byte_size :: u64
  bh_content_type :: "string option"
  bh_last_modified :: datetime

record 'w BlobStore =
  bs_begin_multipart :: "string \<Rightarrow> string \<Rightarrow> ('w, (string, BlobError) result) state"
  bs_presign_part ::
    "string \<Rightarrow> string \<Rightarrow> u16 \<Rightarrow> duration \<Rightarrow> ('w, (PresignedPart, BlobError) result) state"
  bs_list_parts ::
    "string \<Rightarrow> string \<Rightarrow> ('w, (UploadedPart list option, BlobError) result) state"
  bs_complete_multipart ::
    "string \<Rightarrow> string \<Rightarrow> CompletedPart list \<Rightarrow> ('w, (unit, BlobError) result) state"
  bs_abort_multipart :: "string \<Rightarrow> string \<Rightarrow> ('w, (unit, BlobError) result) state"
  bs_head :: "string \<Rightarrow> ('w, (BlobHead option, BlobError) result) state"
  bs_open_read :: "string \<Rightarrow> ('w, (AsyncRead, BlobError) result) state"
  bs_read_prefix :: "string \<Rightarrow> nat \<Rightarrow> ('w, (bytes, BlobError) result) state"
  bs_delete :: "string \<Rightarrow> ('w, (unit, BlobError) result) state"

datatype ScanVerdict = Clean | Infected string

record ScanOutcome =
  so_verdict :: ScanVerdict
  so_sha256_hex :: string
  so_byte_count :: u64

record 'w BlobScanner =
  sc_scan :: "AsyncRead \<Rightarrow> ('w, (ScanOutcome, ScanError) result) state"

record DeclaredContent =
  dl_filename :: string
  dl_content_type :: string
  dl_byte_size :: u64

datatype ContentVerdict = ContentOk | ContentRejected string

record 'w ContentValidator =
  cv_validate ::
    "BlobHead \<Rightarrow> bytes \<Rightarrow> DeclaredContent \<Rightarrow> ('w, (ContentVerdict, ValidateError) result) state"

record 'w UploadStateStore =
  ss_create :: "UploadState \<Rightarrow> ('w, (unit, ContextError) result) state"
  ss_get :: "string \<Rightarrow> string \<Rightarrow> string \<Rightarrow> ('w, (StoredUpload option, ContextError) result) state"
  ss_update :: "UploadState \<Rightarrow> u64 \<Rightarrow> ('w, (u64, ContextError) result) state"
  ss_delete :: "string \<Rightarrow> string \<Rightarrow> string \<Rightarrow> ('w, (unit, ContextError) result) state"

record 'w DocumentReadModel =
  rm_get :: "string \<Rightarrow> string \<Rightarrow> ('w, (DocumentState option, ReadError) result) state"
  rm_list ::
    "string \<Rightarrow> u32 \<Rightarrow> DocumentCursor option \<Rightarrow> ('w, (DocumentState list, ReadError) result) state"

record 'w WorkQueue =
  wq_publish_upload_completed :: "UploadCompleted \<Rightarrow> ('w, (unit, QueueError) result) state"

record 'w Clock =
  ck_now :: "('w, datetime) state"

record 'w IdGen =
  ig_ulid :: "('w, string) state"

end
