(* ===== verification/Append.thy ===== *)
theory Append
  imports Ports "HOL-Library.Sublist"
begin

text \<open>
  The two append paths of crates/document-app/src/append.rs, and the contract of the event
  store they rely on. The contract allows other writers: between the calls of a client the log
  may grow. Its lemmas show that an update lands directly behind the version it was computed
  from, and directly behind the version the client named.
\<close>

section \<open>The append paths\<close>

definition UPDATE_ATTEMPTS :: nat where
  "UPDATE_ATTEMPTS = 3"

definition resolve_duplicate ::
  "'w EventStore \<Rightarrow> string \<Rightarrow> string \<Rightarrow> Appended \<Rightarrow> ('w, (Appended, AppendError) result) state" where
  "resolve_duplicate store tenant document_id appended =
     (if \<not> ap_duplicate appended then ret (Ok appended)
      else attempt Store (es_last store tenant document_id) (\<lambda>last. case last of
          None \<Rightarrow> ret (Err NoSuchDocument)
        | Some (version, stream_seq) \<Rightarrow>
            ret (Ok \<lparr>ap_stream_seq = stream_seq, ap_version = version, ap_duplicate = True\<rparr>)))"

definition append_create ::
  "'w EventStore \<Rightarrow> DocumentEvent \<Rightarrow> ('w, (Appended, AppendError) result) state" where
  "append_create store event =
     es_append store event CreateOnly \<bind> (\<lambda>r. case r of
         Ok appended \<Rightarrow>
           resolve_duplicate store (ev_tenant_id event) (ev_document_id event) appended
       | Err ESConflict \<Rightarrow> ret (Err AlreadyCreated)
       | Err error \<Rightarrow> ret (Err (Store error)))"

text \<open>The loop of \<open>append_update\<close>, with the number of attempts it has left.\<close>

fun append_update_loop ::
  "nat \<Rightarrow> 'w EventStore \<Rightarrow> string \<Rightarrow> string \<Rightarrow> u64 option \<Rightarrow> (u64 \<Rightarrow> DocumentEvent) \<Rightarrow>
     ('w, (Appended, AppendError) result) state" where
  "append_update_loop 0 store tenant document_id client_version build_event =
     ret (Err ConflictRetryExhausted)"
| "append_update_loop (Suc n) store tenant document_id client_version build_event =
     attempt Store (es_last store tenant document_id) (\<lambda>last. case last of
         None \<Rightarrow> ret (Err NoSuchDocument)
       | Some (current_version, current_seq) \<Rightarrow>
           if (case client_version of Some client \<Rightarrow> client \<noteq> current_version | None \<Rightarrow> False)
           then ret (Err (VersionMismatch (the client_version) current_version))
           else es_append store (build_event (current_version + 1)) (Exactly current_seq) \<bind>
             (\<lambda>r. case r of
                 Ok appended \<Rightarrow> resolve_duplicate store tenant document_id appended
               | Err ESConflict \<Rightarrow>
                   append_update_loop n store tenant document_id client_version build_event
               | Err error \<Rightarrow> ret (Err (Store error))))"

definition append_update ::
  "'w EventStore \<Rightarrow> string \<Rightarrow> string \<Rightarrow> u64 option \<Rightarrow> (u64 \<Rightarrow> DocumentEvent) \<Rightarrow>
     ('w, (Appended, AppendError) result) state" where
  "append_update store tenant document_id client_version build_event =
     append_update_loop UPDATE_ATTEMPTS store tenant document_id client_version build_event"

section \<open>The contract of the event store\<close>

type_synonym stream = "(u64 \<times> DocumentEvent) list"

text \<open>The sequence a store reports for a stream, the sequence a caller expects, and the pair
  \<open>last\<close> answers with.\<close>

definition last_seq :: "stream \<Rightarrow> u64" where
  "last_seq l = (if l = [] then 0 else fst (last l))"

fun expected_seq :: "Expect \<Rightarrow> u64" where
  "expected_seq CreateOnly = 0"
| "expected_seq (Exactly s) = s"

definition stream_head :: "stream \<Rightarrow> (u64 \<times> u64) option" where
  "stream_head l = (if l = [] then None else Some (ev_version (snd (last l)), fst (last l)))"

definition has_event_id :: "stream \<Rightarrow> string \<Rightarrow> bool" where
  "has_event_id l i = (\<exists>x \<in> set l. ev_event_id (snd x) = i)"

definition has_version :: "stream \<Rightarrow> u64 \<Rightarrow> bool" where
  "has_version l v = (\<exists>x \<in> set l. ev_version (snd x) = v)"

text \<open>What an acknowledgement means: the event is in the stream, and the version reported is
  the version of an event of the stream. The store itself promises the latter only for an
  event it has not deduplicated.\<close>

fun store_acked :: "stream \<Rightarrow> string \<Rightarrow> (Appended, 'e) result \<Rightarrow> bool" where
  "store_acked l i (Ok a) = (has_event_id l i \<and> (ap_duplicate a \<or> has_version l (ap_version a)))"
| "store_acked l i (Err _) = True"

fun acked :: "stream \<Rightarrow> string \<Rightarrow> (Appended, 'e) result \<Rightarrow> bool" where
  "acked l i (Ok a) = (has_event_id l i \<and> has_version l (ap_version a))"
| "acked l i (Err _) = True"

text \<open>Sequence numbers identify the events of a stream, and none is the 0 that stands for an
  empty stream. A store keeps this as long as it has not handed out all \<open>2^64\<close> numbers.\<close>

definition well_sequenced :: "stream \<Rightarrow> bool" where
  "well_sequenced l = (distinct (map fst l) \<and> 0 \<notin> set (map fst l))"

lemma well_sequenced_prefix: "well_sequenced l' \<Longrightarrow> prefix l l' \<Longrightarrow> well_sequenced l"
  by (auto simp: well_sequenced_def prefix_def)

lemma last_seq_zero: "well_sequenced l \<Longrightarrow> last_seq l = 0 \<longleftrightarrow> l = []"
  by (auto simp: well_sequenced_def last_seq_def)

text \<open>The compare-and-swap is sound: an unchanged last sequence means an unchanged stream.\<close>

lemma last_seq_unchanged:
  assumes "well_sequenced l'" "prefix l l'" "l \<noteq> []" "last_seq l' = last_seq l"
  shows "l' = l"
proof (rule ccontr)
  assume "l' \<noteq> l"
  with assms(2) obtain k where k: "l' = l @ k" "k \<noteq> []" by (auto simp: prefix_def)
  have "last_seq l' \<in> set (map fst k)" using k by (simp add: last_seq_def)
  moreover have "last_seq l \<in> set (map fst l)" using assms(3) by (simp add: last_seq_def)
  ultimately show False using assms(1,4) k by (auto simp: well_sequenced_def)
qed

lemma has_event_id_mono: "has_event_id l i \<Longrightarrow> prefix l l' \<Longrightarrow> has_event_id l' i"
  by (auto simp: has_event_id_def prefix_def)

lemma has_version_mono: "has_version l v \<Longrightarrow> prefix l l' \<Longrightarrow> has_version l' v"
  by (auto simp: has_version_def prefix_def)

lemma stream_head_version: "stream_head l = Some (v, s) \<Longrightarrow> has_version l v"
  by (auto simp: stream_head_def has_version_def split: if_splits)

locale event_log = guarantee G for G :: "'w \<Rightarrow> 'w \<Rightarrow> bool" +
  fixes es :: "'w EventStore"
    and log_of :: "'w \<Rightarrow> string \<Rightarrow> string \<Rightarrow> stream"
    and inv :: "'w \<Rightarrow> bool"
  assumes G_inv: "G w w' \<Longrightarrow> inv w \<Longrightarrow> inv w'"
    and G_log: "G w w' \<Longrightarrow> prefix (log_of w t d) (log_of w' t d)"
    and append_G: "inv w \<Longrightarrow> run_state (es_append es e x) w = (r, w') \<Longrightarrow> G w w'"
    and append_new: "inv w \<Longrightarrow> run_state (es_append es e x) w = (Ok a, w') \<Longrightarrow> \<not> ap_duplicate a \<Longrightarrow>
      ap_version a = ev_version e \<and>
      (\<exists>l. prefix (log_of w (ev_tenant_id e) (ev_document_id e)) l \<and> last_seq l = expected_seq x \<and>
         log_of w' (ev_tenant_id e) (ev_document_id e) = l @ [(ap_stream_seq a, e)])"
    and append_dup: "inv w \<Longrightarrow> run_state (es_append es e x) w = (Ok a, w') \<Longrightarrow> ap_duplicate a \<Longrightarrow>
      has_event_id (log_of w' (ev_tenant_id e) (ev_document_id e)) (ev_event_id e)"
    and last_G: "inv w \<Longrightarrow> run_state (es_last es t d) w = (q, w') \<Longrightarrow> G w w'"
    and last_reads: "inv w \<Longrightarrow> run_state (es_last es t d) w = (Ok h, w') \<Longrightarrow> stream_head (log_of w' t d) = h"
    and read_G: "inv w \<Longrightarrow> run_state (es_read_stream es t d) w = (s, w') \<Longrightarrow> G w w'"
    and read_reads: "inv w \<Longrightarrow> run_state (es_read_stream es t d) w = (Ok l, w') \<Longrightarrow> l = log_of w' t d"
begin

lemma rg_append: "rg G inv (es_append es e x)
    (\<lambda>r w. inv w \<and> store_acked (log_of w (ev_tenant_id e) (ev_document_id e)) (ev_event_id e) r)"
proof (rule rgI)
  fix w r w'
  assume w: "inv w" and run: "run_state (es_append es e x) w = (r, w')"
  have "store_acked (log_of w' (ev_tenant_id e) (ev_document_id e)) (ev_event_id e) r"
  proof (cases r)
    case (Ok a)
    then show ?thesis using append_dup [OF w] append_new [OF w, of e x a w'] run
      by (cases "ap_duplicate a") (auto simp: has_event_id_def has_version_def)
  qed simp
  then show "G w w' \<and> inv w' \<and> store_acked (log_of w' (ev_tenant_id e) (ev_document_id e)) (ev_event_id e) r"
    using append_G [OF w run] G_inv w by blast
qed

lemma rg_last: "rg G inv (es_last es t d)
    (\<lambda>r w. inv w \<and> (\<forall>h. r = Ok h \<longrightarrow> stream_head (log_of w t d) = h))"
  unfolding rg_def using last_G last_reads G_inv by metis

lemma rg_read: "rg G inv (es_read_stream es t d)
    (\<lambda>r w. inv w \<and> (\<forall>l. r = Ok l \<longrightarrow> l = log_of w t d))"
  unfolding rg_def using read_G read_reads G_inv by metis

lemma log_stable:
  assumes "G w w'"
  shows "has_event_id (log_of w t d) i \<Longrightarrow> has_event_id (log_of w' t d) i"
    and "has_version (log_of w t d) v \<Longrightarrow> has_version (log_of w' t d) v"
  using G_log [OF assms] has_event_id_mono has_version_mono by blast+

text \<open>Success of either path means the event is in the log, and that the version it reports
  is in the log.\<close>

lemma rg_resolve_duplicate:
  "rg G (\<lambda>w. inv w \<and> store_acked (log_of w t d) i (Ok a)) (resolve_duplicate es t d a)
     (\<lambda>r w. inv w \<and> acked (log_of w t d) i r)"
proof (cases "ap_duplicate a")
  case True
  have last: "rg G (\<lambda>w. inv w \<and> has_event_id (log_of w t d) i) (es_last es t d)
      (\<lambda>r w. (inv w \<and> (\<forall>h. r = Ok h \<longrightarrow> stream_head (log_of w t d) = h)) \<and> has_event_id (log_of w t d) i)"
    by (rule rg_frame [OF rg_last log_stable(1)])
  show ?thesis using True unfolding resolve_duplicate_def
    by (auto intro!: rg_attempt [OF rg_pre [OF last]] rg_ret stream_head_version dest: sym split: option.split)
qed (auto simp: resolve_duplicate_def intro!: rg_ret)

lemma rg_append_create:
  "rg G inv (append_create es e)
     (\<lambda>r w. inv w \<and> acked (log_of w (ev_tenant_id e) (ev_document_id e)) (ev_event_id e) r)"
  unfolding append_create_def
  by (rule rg_bind [OF rg_append])
    (auto intro!: rg_ret rg_pre [OF rg_resolve_duplicate] split: result.split EventStoreError.split)

lemma rg_append_update_loop:
  assumes "\<And>v. ev_tenant_id (build v) = t" "\<And>v. ev_document_id (build v) = d"
    "\<And>v. ev_event_id (build v) = i"
  shows "rg G inv (append_update_loop n es t d client build)
     (\<lambda>r w. inv w \<and> acked (log_of w t d) i r)"
proof (induction n)
  case (Suc n)
  have app: "rg G inv (es_append es (build v) x) (\<lambda>r w. inv w \<and> store_acked (log_of w t d) i r)" for v x
    using rg_append [of "build v" x] by (simp add: assms)
  have body: "rg G inv (es_append es (build v) x \<bind> (\<lambda>r. case r of
        Ok a \<Rightarrow> resolve_duplicate es t d a
      | Err ESConflict \<Rightarrow> append_update_loop n es t d client build
      | Err error \<Rightarrow> ret (Err (Store error))))
    (\<lambda>r w. inv w \<and> acked (log_of w t d) i r)" for v x
    by (rule rg_bind [OF app]) (auto intro!: rg_ret rg_pre [OF Suc.IH] rg_pre [OF rg_resolve_duplicate]
        split: result.split EventStoreError.split)
  have guards: "rg G inv (case h of None \<Rightarrow> ret (Err NoSuchDocument) | Some (v, s) \<Rightarrow>
        if (case client of Some c \<Rightarrow> c \<noteq> v | None \<Rightarrow> False)
        then ret (Err (VersionMismatch (the client) v))
        else es_append es (build (v + 1)) (Exactly s) \<bind> (\<lambda>r. case r of
            Ok a \<Rightarrow> resolve_duplicate es t d a
          | Err ESConflict \<Rightarrow> append_update_loop n es t d client build
          | Err error \<Rightarrow> ret (Err (Store error))))
      (\<lambda>r w. inv w \<and> acked (log_of w t d) i r)" for h
    using body by (auto intro!: rg_ret split: option.split)
  show ?case unfolding append_update_loop.simps
    by (intro rg_attempt [OF rg_last] rg_pre [OF guards]) auto
qed (auto intro: rg_ret)

lemma rg_append_update:
  assumes "\<And>v. ev_tenant_id (build v) = t" "\<And>v. ev_document_id (build v) = d"
    "\<And>v. ev_event_id (build v) = i"
  shows "rg G inv (append_update es t d client build) (\<lambda>r w. inv w \<and> acked (log_of w t d) i r)"
  unfolding append_update_def using assms by (rule rg_append_update_loop)

text \<open>An update that was not deduplicated lands directly behind the event its version was
  computed from, and that event has the version the client named: nothing slipped in between,
  although other writers may append at any time.\<close>

lemma append_update_loop_follows:
  assumes "\<And>v. ev_tenant_id (build v) = t" "\<And>v. ev_document_id (build v) = d"
    and "inv w" "run_state (append_update_loop n es t d client build) w = (Ok a, w')"
    and "\<not> ap_duplicate a" "well_sequenced (log_of w' t d)"
  shows "\<exists>l s e. prefix (log_of w t d) (l @ [(s, e)])
    \<and> log_of w' t d = l @ [(s, e), (ap_stream_seq a, build (ev_version e + 1))]
    \<and> ap_version a = ev_version (build (ev_version e + 1))
    \<and> (\<forall>c. client = Some c \<longrightarrow> c = ev_version e)"
  using assms(3,4)
proof (induction n arbitrary: w)
  case 0
  then show ?case by simp
next
  case (Suc n)
  obtain q w1 where last: "run_state (es_last es t d) w = (q, w1)" by fastforce
  have G1: "G w w1" and inv1: "inv w1" using last_G [OF Suc.prems(1) last] G_inv Suc.prems(1) by auto
  from Suc.prems(2) obtain v s where q: "q = Ok (Some (v, s))"
    and client: "\<And>c. client = Some c \<Longrightarrow> c = v"
    by (auto simp: last run_state_attempt split: result.splits option.splits if_splits)
  have head: "stream_head (log_of w1 t d) = Some (v, s)"
    using last_reads [OF Suc.prems(1)] last q by simp
  obtain r w2 where app: "run_state (es_append es (build (v + 1)) (Exactly s)) w1 = (r, w2)" by fastforce
  have inv2: "inv w2" and G2: "G w1 w2" using append_G [OF inv1 app] G_inv inv1 by auto
  have rest: "run_state (case r of Ok a \<Rightarrow> resolve_duplicate es t d a
      | Err ESConflict \<Rightarrow> append_update_loop n es t d client build
      | Err error \<Rightarrow> ret (Err (Store error))) w2 = (Ok a, w')"
    using Suc.prems(2) client by (auto simp: last run_state_attempt q app split: option.splits if_splits)
  show ?case
  proof (cases r)
    case (Err error)
    then have "run_state (append_update_loop n es t d client build) w2 = (Ok a, w')"
      using rest by (cases error) auto
    from Suc.IH [OF inv2 this] show ?thesis
      using G_log G_trans [OF G1 G2] prefix_order.trans by blast
  next
    case (Ok b)
    then have "b = a" "w2 = w'"
      using rest assms(5) by (auto simp: resolve_duplicate_def run_state_attempt
          split: if_splits prod.splits result.splits option.splits)
    with append_new [OF inv1, of "build (v + 1)" "Exactly s" a w'] app Ok assms(5) obtain l where
      l: "prefix (log_of w1 t d) l" "last_seq l = s" "log_of w' t d = l @ [(ap_stream_seq a, build (v + 1))]"
      and va: "ap_version a = ev_version (build (v + 1))"
      by (auto simp: assms(1,2))
    have "l = log_of w1 t d"
      using last_seq_unchanged [OF well_sequenced_prefix, OF assms(6) _ l(1)] head l(2,3)
      by (auto simp: stream_head_def last_seq_def split: if_splits)
    moreover obtain k e where "log_of w1 t d = k @ [(s, e)]" "ev_version e = v"
      using head by (cases "log_of w1 t d" rule: rev_cases) (auto simp: stream_head_def)
    ultimately show ?thesis
      using l va client G_log [OF G1, of t d] by (intro exI [of _ k] exI [of _ s] exI [of _ e]) auto
  qed
qed

text \<open>A create that was not deduplicated starts the document's stream.\<close>

lemma append_create_first:
  assumes "inv w" "run_state (append_create es e) w = (Ok a, w')" "\<not> ap_duplicate a"
    and "well_sequenced (log_of w' (ev_tenant_id e) (ev_document_id e))"
  shows "log_of w' (ev_tenant_id e) (ev_document_id e) = [(ap_stream_seq a, e)]"
proof -
  obtain r w1 where app: "run_state (es_append es e CreateOnly) w = (r, w1)" by fastforce
  then have "r = Ok a" "w1 = w'"
    using assms(2,3) by (auto simp: append_create_def resolve_duplicate_def run_state_attempt
        split: if_splits prod.splits result.splits option.splits EventStoreError.splits)
  with append_new [OF assms(1)] app assms(3) obtain l where
    "last_seq l = 0" "log_of w' (ev_tenant_id e) (ev_document_id e) = l @ [(ap_stream_seq a, e)]"
    by fastforce
  then show ?thesis
    using last_seq_zero [OF well_sequenced_prefix, OF assms(4), of l] by auto
qed

end

end
