(* ===== verification/Transition.thy ===== *)
theory Transition
  imports Ports
begin

text \<open>
  The one way an upload's status moves (crates/document-app/src/transition.rs), and the
  contract of the upload-record store it relies on. Two writers share the record and are not
  ordered. \<open>evolves\<close> is the life cycle a record must follow: it never comes back once it has
  expired, its parameters never change, and a terminal status is final. The lemmas show that
  \<open>set_status\<close> respects the life cycle against any writers that do.
\<close>

section \<open>Transitions\<close>

definition CAS_ATTEMPTS :: nat where
  "CAS_ATTEMPTS = 3"

datatype Transition = Applied UploadState | AlreadyTerminal UploadState | Expired

text \<open>The loop of \<open>set_status\<close>, with the number of attempts it has left.\<close>

fun set_status_loop ::
  "nat \<Rightarrow> 'w UploadStateStore \<Rightarrow> string \<Rightarrow> string \<Rightarrow> string \<Rightarrow> UploadStatus \<Rightarrow> datetime \<Rightarrow>
     ('w, (Transition, DocumentError) result) state" where
  "set_status_loop 0 store tenant user upload_id status now =
     ret (Err (internal ''upload state'' ''gave up after repeated compare-and-swap conflicts''))"
| "set_status_loop (Suc n) store tenant user upload_id status now =
     attempt from_ContextError (ss_get store tenant user upload_id) (\<lambda>found. case found of
         None \<Rightarrow> ret (Ok Expired)
       | Some stored \<Rightarrow>
           if is_terminal (us_status (su_state stored))
           then ret (Ok (AlreadyTerminal (su_state stored)))
           else (let next_state = with_status (su_state stored) status now in
             ss_update store next_state (su_revision stored) \<bind> (\<lambda>r. case r of
                 Ok _ \<Rightarrow> ret (Ok (Applied next_state))
               | Err CtxConflict \<Rightarrow> set_status_loop n store tenant user upload_id status now
               | Err CtxExpired \<Rightarrow> ret (Ok Expired)
               | Err error \<Rightarrow> ret (Err (from_ContextError error)))))"

definition set_status ::
  "'w UploadStateStore \<Rightarrow> string \<Rightarrow> string \<Rightarrow> string \<Rightarrow> UploadStatus \<Rightarrow> datetime \<Rightarrow>
     ('w, (Transition, DocumentError) result) state" where
  "set_status store tenant user upload_id status now =
     set_status_loop CAS_ATTEMPTS store tenant user upload_id status now"

definition load ::
  "'w UploadStateStore \<Rightarrow> string \<Rightarrow> string \<Rightarrow> string \<Rightarrow>
     ('w, (UploadState option, DocumentError) result) state" where
  "load store tenant user upload_id =
     attempt from_ContextError (ss_get store tenant user upload_id) (\<lambda>found. case found of
         None \<Rightarrow> ret (Ok None)
       | Some stored \<Rightarrow>
           if us_owner_user_id (su_state stored) \<noteq> user \<or> us_tenant_id (su_state stored) \<noteq> tenant
           then ret (Ok None)
           else ret (Ok (Some (su_state stored))))"

definition finish_with ::
  "'w UploadStateStore \<Rightarrow> string \<times> string \<times> string \<Rightarrow> UploadStatus \<Rightarrow> datetime \<Rightarrow>
     ('w, (Transition, DocumentError) result) state" where
  "finish_with store state_key status now =
     (case state_key of (tenant, user, upload_id) \<Rightarrow>
        set_status store tenant user upload_id status now)"

text \<open>A guarantee that both calls keep unconditionally is kept by the whole loop.\<close>

context guarantee
begin

lemma rg_set_status_frame:
  assumes "\<And>t u i. rg G I (ss_get ss t u i) (\<lambda>_. I)" "\<And>s v. rg G I (ss_update ss s v) (\<lambda>_. I)"
  shows "rg G I (set_status ss t u i status now) (\<lambda>_. I)"
proof -
  have "rg G I (set_status_loop n ss t u i status now) (\<lambda>_. I)" for n
  proof (induction n)
    case (Suc n)
    then show ?case unfolding set_status_loop.simps Let_def
      by (intro rg_attempt [OF assms(1)])
        (auto intro!: rg_ret rg_bind [OF assms(2)] split: option.split result.split ContextError.split)
  qed (auto intro: rg_ret)
  then show ?thesis by (simp add: set_status_def)
qed

end

section \<open>The life cycle of a record\<close>

definition same_upload :: "UploadState \<Rightarrow> UploadState \<Rightarrow> bool" where
  "same_upload s s' = (s' = with_status s (us_status s') (us_updated_at s'))"

fun evolves :: "StoredUpload option \<Rightarrow> StoredUpload option \<Rightarrow> bool" where
  "evolves None None = True"
| "evolves None (Some _) = False"
| "evolves (Some _) None = True"
| "evolves (Some a) (Some b) = (same_upload (su_state a) (su_state b)
     \<and> (is_terminal (us_status (su_state a)) \<longrightarrow> su_state b = su_state a))"

lemma same_upload_refl [simp]: "same_upload s s"
  by (simp add: same_upload_def with_status_def)

lemma same_upload_trans: "same_upload a b \<Longrightarrow> same_upload b c \<Longrightarrow> same_upload a c"
  unfolding same_upload_def with_status_def by (cases a; cases b; cases c) simp

lemma same_upload_with_status [simp]: "same_upload s (with_status s st now)"
  by (simp add: same_upload_def with_status_def)

lemma own_key_same_upload: "same_upload s s' \<Longrightarrow> own_key s' = own_key s"
  unfolding same_upload_def with_status_def own_key_def by (cases s; cases s') simp

lemma own_key_with_status [simp]: "own_key (with_status s st now) = own_key s"
  by (simp add: own_key_def with_status_def)

lemma evolves_refl [simp]: "evolves a a"
  by (cases a) auto

lemma evolves_trans: "evolves a b \<Longrightarrow> evolves b c \<Longrightarrow> evolves a c"
  by (cases a; cases b; cases c) (auto intro: same_upload_trans)

section \<open>The contract of the record store\<close>

locale upload_records = guarantee G for G :: "'w \<Rightarrow> 'w \<Rightarrow> bool" +
  fixes ss :: "'w UploadStateStore"
    and rec_of :: "'w \<Rightarrow> string \<Rightarrow> StoredUpload option"
    and inv :: "'w \<Rightarrow> bool"
  assumes rec_inv: "G w w' \<Longrightarrow> inv w \<Longrightarrow> inv w'"
    and G_rec: "G w w' \<Longrightarrow> evolves (rec_of w k) (rec_of w' k)"
    and rec_key: "inv w \<Longrightarrow> rec_of w k = Some st \<Longrightarrow> own_key (su_state st) = k"
    and get_G: "inv w \<Longrightarrow> run_state (ss_get ss t u i) w = (g, w') \<Longrightarrow> G w w'"
    and get_reads: "inv w \<Longrightarrow> run_state (ss_get ss t u i) w = (Ok found, w') \<Longrightarrow>
      rec_of w' (upload_key t u i) = found"
    and update_G: "inv w \<Longrightarrow> rec_of w (own_key s) = Some st \<Longrightarrow> su_revision st = v \<Longrightarrow>
      same_upload (su_state st) s \<Longrightarrow> \<not> is_terminal (us_status (su_state st)) \<Longrightarrow>
      run_state (ss_update ss s v) w = (r, w') \<Longrightarrow> G w w'"
    and update_ok: "inv w \<Longrightarrow> run_state (ss_update ss s v) w = (Ok n, w') \<Longrightarrow>
      map_option su_state (rec_of w' (own_key s)) = Some s"
    and update_expired: "inv w \<Longrightarrow> run_state (ss_update ss s v) w = (Err CtxExpired, w') \<Longrightarrow>
      rec_of w' (own_key s) = None"
begin

lemma rg_get: "rg G inv (ss_get ss t u i)
    (\<lambda>r w. inv w \<and> (\<forall>found. r = Ok found \<longrightarrow> rec_of w (upload_key t u i) = found))"
  unfolding rg_def using get_G get_reads rec_inv by metis

lemma rg_update:
  "rg G (\<lambda>w. inv w \<and> rec_of w k = Some st \<and> \<not> is_terminal (us_status (su_state st)))
    (ss_update ss (with_status (su_state st) status now) (su_revision st))
    (\<lambda>r w. inv w
      \<and> (\<forall>n. r = Ok n \<longrightarrow> map_option su_state (rec_of w k) = Some (with_status (su_state st) status now))
      \<and> (r = Err CtxExpired \<longrightarrow> rec_of w k = None))"
proof (rule rgI, elim conjE)
  fix w r w'
  assume w: "inv w" "rec_of w k = Some st" "\<not> is_terminal (us_status (su_state st))"
    and run: "run_state (ss_update ss (with_status (su_state st) status now) (su_revision st)) w = (r, w')"
  have key: "own_key (su_state st) = k" using rec_key w(1,2) .
  have "G w w'" using update_G [OF w(1) _ refl _ w(3) run] w(2) key by simp
  then show "G w w' \<and> inv w' \<and> (\<forall>n. r = Ok n \<longrightarrow>
        map_option su_state (rec_of w' k) = Some (with_status (su_state st) status now))
      \<and> (r = Err CtxExpired \<longrightarrow> rec_of w' k = None)"
    using rec_inv w(1) update_ok [OF w(1)] update_expired [OF w(1)] run key
    by (metis own_key_with_status)
qed

text \<open>What a caller may conclude from the answer of \<open>set_status\<close>.\<close>

definition reported :: "string \<Rightarrow> UploadStatus \<Rightarrow> datetime \<Rightarrow> (Transition, DocumentError) result \<Rightarrow> 'w \<Rightarrow> bool" where
  "reported k status now r w = (case r of
      Ok (Applied s) \<Rightarrow> map_option su_state (rec_of w k) = Some s \<and> us_status s = status \<and> us_updated_at s = now
    | Ok (AlreadyTerminal s) \<Rightarrow> map_option su_state (rec_of w k) = Some s \<and> is_terminal (us_status s)
    | Ok Expired \<Rightarrow> rec_of w k = None
    | Err _ \<Rightarrow> True)"

lemma reported_simps [simp]:
  "reported k status now (Ok (Applied s)) w \<longleftrightarrow>
     map_option su_state (rec_of w k) = Some s \<and> us_status s = status \<and> us_updated_at s = now"
  "reported k status now (Ok (AlreadyTerminal s)) w \<longleftrightarrow>
     map_option su_state (rec_of w k) = Some s \<and> is_terminal (us_status s)"
  "reported k status now (Ok Expired) w \<longleftrightarrow> rec_of w k = None"
  "reported k status now (Err e) w"
  by (simp_all add: reported_def)

lemma rg_set_status_loop:
  "rg G inv (set_status_loop n ss t u i status now)
     (\<lambda>r w. inv w \<and> reported (upload_key t u i) status now r w)"
proof (induction n)
  case 0
  show ?case by (auto intro!: rg_ret)
next
  case (Suc n)
  let ?k = "upload_key t u i"
  have "rg G (\<lambda>w. inv w \<and> rec_of w ?k = found) (case found of
         None \<Rightarrow> ret (Ok Expired)
       | Some stored \<Rightarrow>
           if is_terminal (us_status (su_state stored))
           then ret (Ok (AlreadyTerminal (su_state stored)))
           else (let next_state = with_status (su_state stored) status now in
             ss_update ss next_state (su_revision stored) \<bind> (\<lambda>r. case r of
                 Ok _ \<Rightarrow> ret (Ok (Applied next_state))
               | Err CtxConflict \<Rightarrow> set_status_loop n ss t u i status now
               | Err CtxExpired \<Rightarrow> ret (Ok Expired)
               | Err error \<Rightarrow> ret (Err (from_ContextError error)))))
     (\<lambda>r w. inv w \<and> reported ?k status now r w)" for found
  proof (cases found)
    case None
    then show ?thesis by (auto intro!: rg_ret)
  next
    case (Some st)
    show ?thesis
    proof (cases "is_terminal (us_status (su_state st))")
      case True
      then show ?thesis using Some by (force intro!: rg_ret)
    next
      case False
      then show ?thesis using Some Suc.IH
        by (simp add: Let_def, intro rg_bind [OF rg_pre [OF rg_update [of ?k st]]])
          (auto intro!: rg_ret rg_pre [OF Suc.IH] simp: with_status_def
            split: result.split ContextError.split)
    qed
  qed
  from rg_pre [OF this] show ?case unfolding set_status_loop.simps
    by (intro rg_attempt [OF rg_get]) auto
qed

lemma rg_set_status:
  "rg G inv (set_status ss t u i status now) (\<lambda>r w. inv w \<and> reported (upload_key t u i) status now r w)"
  unfolding set_status_def by (rule rg_set_status_loop)

lemma rg_load: "rg G inv (load ss t u i) (\<lambda>r w. inv w \<and>
    (\<forall>s. r = Ok (Some s) \<longrightarrow> map_option su_state (rec_of w (upload_key t u i)) = Some s
       \<and> us_tenant_id s = t \<and> us_owner_user_id s = u))"
  unfolding load_def
  by (rule rg_attempt [OF rg_get]) (auto intro!: rg_ret split: option.split)

end

end
