(* ===== verification/Worker.thy ===== *)
theory Worker
  imports Append Transition
begin

text \<open>
  The worker's use case (crates/document-app/src/worker.rs): one work item is assembled,
  verified, appended to the log and answered. Every port call is made in the order of the
  source; log lines are left out. The contracts at the end state, once for all ports, what a
  run of the worker can do to the outside world and what its outcome means.
\<close>

section \<open>Outcomes and helpers\<close>

definition PREFIX_BYTES :: nat where
  "PREFIX_BYTES = 512"

definition WORKER_COMPONENT :: string where
  "WORKER_COMPONENT = ''document-worker''"

datatype FinishOutcome =
    FoAccepted string u64 bool
  | FoRejected string
  | FoRetry string

record 'w UploadFinisher =
  uf_blobs :: "'w BlobStore"
  uf_scanner :: "'w BlobScanner"
  uf_validator :: "'w ContentValidator"
  uf_events :: "'w EventStore"
  uf_uploads :: "'w UploadStateStore"
  uf_clock :: "'w Clock"

text \<open>The digest and the hexadecimal coding of the crates sha2 and hex.\<close>

record DigestCrates =
  dg_sha256 :: "bytes \<Rightarrow> bytes"
  dg_hex_encode :: "bytes \<Rightarrow> string"

datatype Assembled = Ready "BlobHead option" | Terminal FinishOutcome

fun replay :: "UploadCompleted \<Rightarrow> UploadStatus \<Rightarrow> FinishOutcome" where
  "replay command (Accepted version superseded) =
     FoAccepted (uc_document_id command) version superseded"
| "replay command (Rejected reason) = FoRejected reason"
| "replay command other =
     FoRetry (''replay called with the non-terminal status '' @ UploadStatus_as_str other)"

definition superseded_flag :: "DocumentEvent \<Rightarrow> bool" where
  "superseded_flag event = (case ev_payload event of
      DocumentBlobValidated validated \<Rightarrow>
        (case bv_based_on_version validated of
           Some based \<Rightarrow> based \<noteq> saturating_sub (ev_version event) 1
         | None \<Rightarrow> False)
    | _ \<Rightarrow> False)"

section \<open>Recording and reclaiming\<close>

definition record_status :: "'w UploadFinisher \<Rightarrow> UploadCompleted \<Rightarrow> UploadStatus \<Rightarrow> ('w, unit) state" where
  "record_status f command status =
     ck_now (uf_clock f) \<bind> (\<lambda>now.
     finish_with (uf_uploads f)
       (uc_tenant_id command, uc_owner_user_id command, uc_upload_id command) status now \<bind>
     (\<lambda>_. ret ()))"

definition reclaim :: "'w UploadFinisher \<Rightarrow> UploadCompleted \<Rightarrow> ('w, unit) state" where
  "reclaim f command =
     bs_abort_multipart (uf_blobs f) (uc_storage_key command) (uc_multipart_upload_id command) \<bind> (\<lambda>_.
     bs_delete (uf_blobs f) (uc_storage_key command) \<bind> (\<lambda>_.
     ret ()))"

definition accept ::
  "'w UploadFinisher \<Rightarrow> UploadCompleted \<Rightarrow> u64 \<Rightarrow> bool \<Rightarrow> ('w, FinishOutcome) state" where
  "accept f command version superseded =
     record_status f command (Accepted version superseded) \<bind> (\<lambda>_.
     ret (FoAccepted (uc_document_id command) version superseded))"

definition reject :: "'w UploadFinisher \<Rightarrow> UploadCompleted \<Rightarrow> string \<Rightarrow> ('w, FinishOutcome) state" where
  "reject f command reason =
     reclaim f command \<bind> (\<lambda>_.
     record_status f command (Rejected reason) \<bind> (\<lambda>_.
     ret (FoRejected reason)))"

section \<open>Assembling and verifying\<close>

text \<open>The \<open>HEAD\<close> that decides whether a missing multipart was completed or lost.\<close>

definition settle_by_head :: "'w UploadFinisher \<Rightarrow> UploadCompleted \<Rightarrow> ('w, Assembled) state" where
  "settle_by_head f command =
     bs_head (uf_blobs f) (uc_storage_key command) \<bind> (\<lambda>r. case r of
         Ok (Some head) \<Rightarrow> ret (Ready (Some head))
       | Ok None \<Rightarrow> reject f command MULTIPART_LOST \<bind> (\<lambda>out. ret (Terminal out))
       | Err error \<Rightarrow> ret (Terminal (FoRetry (display_BlobError error))))"

definition completed_parts :: "UploadedPart list \<Rightarrow> CompletedPart list" where
  "completed_parts parts = sort_key cp_part_number
     (map (\<lambda>part. \<lparr>cp_part_number = up_part_number part, cp_etag = up_etag part\<rparr>) parts)"

definition assemble :: "'w UploadFinisher \<Rightarrow> UploadCompleted \<Rightarrow> ('w, Assembled) state" where
  "assemble f command =
     bs_list_parts (uf_blobs f) (uc_storage_key command) (uc_multipart_upload_id command) \<bind> (\<lambda>r.
     case r of
       Ok None \<Rightarrow> settle_by_head f command
     | Err error \<Rightarrow> ret (Terminal (FoRetry (display_BlobError error)))
     | Ok (Some parts) \<Rightarrow>
         if parts = [] then reject f command INVALID_PARTS \<bind> (\<lambda>out. ret (Terminal out))
         else bs_complete_multipart (uf_blobs f) (uc_storage_key command)
             (uc_multipart_upload_id command) (completed_parts parts) \<bind> (\<lambda>r. case r of
               Ok _ \<Rightarrow> ret (Ready None)
             | Err error \<Rightarrow> (case be_kind error of
                 NoSuchUpload \<Rightarrow> settle_by_head f command
               | Transient \<Rightarrow> ret (Terminal (FoRetry (display_BlobError error)))
               | _ \<Rightarrow> reject f command INVALID_PARTS \<bind> (\<lambda>out. ret (Terminal out)))))"

definition load_state ::
  "'w UploadFinisher \<Rightarrow> UploadCompleted \<Rightarrow> ('w, (UploadStatus option, string) result) state" where
  "load_state f command =
     load (uf_uploads f) (uc_tenant_id command) (uc_owner_user_id command) (uc_upload_id command) \<bind>
     (\<lambda>r. ret (case r of
         Ok state \<Rightarrow> Ok (map_option us_status state)
       | Err error \<Rightarrow> Err (display_DocumentError error)))"

definition validate_content ::
  "'w UploadFinisher \<Rightarrow> UploadCompleted \<Rightarrow> BlobHead \<Rightarrow> bytes \<Rightarrow>
     ('w, (ContentVerdict, string) result) state" where
  "validate_content f command head start =
     cv_validate (uf_validator f) head start
       \<lparr>dl_filename = uc_filename command, dl_content_type = uc_content_type command,
        dl_byte_size = uc_declared_size command\<rparr> \<bind>
     (\<lambda>r. ret (map_result_err display_ValidateError r))"

text \<open>The event of the history that introduced this upload's blob.\<close>

definition find_upload :: "stream \<Rightarrow> string \<Rightarrow> DocumentEvent option" where
  "find_upload history upload_id =
     map_option snd (find (\<lambda>(_, event). blob_ref (ev_payload event) = Some upload_id) history)"

definition applied_version ::
  "'w UploadFinisher \<Rightarrow> UploadCompleted \<Rightarrow> ('w, (u64 option, string) result) state" where
  "applied_version f command =
     attempt display_EventStoreError
       (es_read_stream (uf_events f) (uc_tenant_id command) (uc_document_id command))
       (\<lambda>history. ret (Ok (map_option ev_version (find_upload history (uc_upload_id command)))))"

definition discard_expired :: "'w UploadFinisher \<Rightarrow> UploadCompleted \<Rightarrow> ('w, FinishOutcome) state" where
  "discard_expired f command =
     applied_version f command \<bind> (\<lambda>r. case r of
         Ok (Some version) \<Rightarrow> ret (FoAccepted (uc_document_id command) version False)
       | Err error \<Rightarrow> ret (FoRetry error)
       | Ok None \<Rightarrow> reclaim f command \<bind> (\<lambda>_. ret (FoRejected UPLOAD_EXPIRED)))"

section \<open>Appending\<close>

definition created_event ::
  "DigestCrates \<Rightarrow> UploadCompleted \<Rightarrow> string \<Rightarrow> datetime \<Rightarrow> DocumentEvent" where
  "created_event dg command hash now =
     \<lparr>ev_v = DOCUMENT_CONTRACT_VERSION,
      ev_event_id = created_event_id (dg_sha256 dg) (dg_hex_encode dg)
        (uc_tenant_id command) (uc_upload_id command),
      ev_tenant_id = uc_tenant_id command,
      ev_document_id = uc_document_id command,
      ev_actor = User (uc_owner_user_id command),
      ev_version = 1,
      ev_ts = now,
      ev_payload = DocumentCreated
        \<lparr>dc_blob_ref = uc_upload_id command,
         dc_filename = uc_filename command,
         dc_content_type = uc_content_type command,
         dc_byte_size = uc_declared_size command,
         dc_checksum = checksum hash,
         dc_patch = uc_patch command\<rparr>\<rparr>"

definition append_created ::
  "DigestCrates \<Rightarrow> 'w UploadFinisher \<Rightarrow> UploadCompleted \<Rightarrow> string \<Rightarrow> ('w, FinishOutcome) state" where
  "append_created dg f command hash =
     ck_now (uf_clock f) \<bind> (\<lambda>now.
     append_create (uf_events f) (created_event dg command hash now) \<bind> (\<lambda>r. case r of
         Ok appended \<Rightarrow> accept f command (ap_version appended) False
       | Err AlreadyCreated \<Rightarrow>
           es_last (uf_events f) (uc_tenant_id command) (uc_document_id command) \<bind> (\<lambda>l. case l of
               Ok (Some (version, _)) \<Rightarrow> accept f command version False
             | Ok None \<Rightarrow> ret (FoRetry ''create conflicted but the document has no events'')
             | Err error \<Rightarrow> ret (FoRetry (display_EventStoreError error)))
       | Err error \<Rightarrow> ret (FoRetry (display_AppendError error))))"

definition replaced_event ::
  "DigestCrates \<Rightarrow> UploadCompleted \<Rightarrow> string \<Rightarrow> datetime \<Rightarrow> u64 \<Rightarrow> DocumentEvent" where
  "replaced_event dg command hash now version =
     \<lparr>ev_v = DOCUMENT_CONTRACT_VERSION,
      ev_event_id = blob_validated_event_id (dg_sha256 dg) (dg_hex_encode dg)
        (uc_tenant_id command) (uc_upload_id command),
      ev_tenant_id = uc_tenant_id command,
      ev_document_id = uc_document_id command,
      ev_actor = User (uc_owner_user_id command),
      ev_version = version,
      ev_ts = now,
      ev_payload = DocumentBlobValidated
        \<lparr>bv_blob_ref = uc_upload_id command,
         bv_filename = uc_filename command,
         bv_content_type = uc_content_type command,
         bv_byte_size = uc_declared_size command,
         bv_checksum = checksum hash,
         bv_patch = uc_patch command,
         bv_based_on_version = uc_if_match command\<rparr>\<rparr>"

definition append_replaced ::
  "DigestCrates \<Rightarrow> 'w UploadFinisher \<Rightarrow> UploadCompleted \<Rightarrow> string \<Rightarrow> ('w, FinishOutcome) state" where
  "append_replaced dg f command hash =
     es_read_stream (uf_events f) (uc_tenant_id command) (uc_document_id command) \<bind> (\<lambda>r. case r of
       Err error \<Rightarrow> ret (FoRetry (display_EventStoreError error))
     | Ok history \<Rightarrow> (case find_upload history (uc_upload_id command) of
         Some applied \<Rightarrow> accept f command (ev_version applied) (superseded_flag applied)
       | None \<Rightarrow> (case fold_history history of
           Ok None \<Rightarrow> reject f command MULTIPART_LOST
         | Err error \<Rightarrow> reject f command CORRUPT_HISTORY
         | Ok (Some state) \<Rightarrow>
             if (case uc_if_match command of
                   Some expected \<Rightarrow> expected \<noteq> ds_version state \<and> uc_on_conflict command = Fail
                 | None \<Rightarrow> False)
             then reject f command VERSION_CONFLICT
             else ck_now (uf_clock f) \<bind> (\<lambda>now.
               append_update (uf_events f) (uc_tenant_id command) (uc_document_id command) None
                 (replaced_event dg command hash now) \<bind> (\<lambda>r. case r of
                   Ok appended \<Rightarrow> accept f command (ap_version appended)
                     (case uc_if_match command of
                        Some based \<Rightarrow> based \<noteq> saturating_sub (ap_version appended) 1
                      | None \<Rightarrow> False)
                 | Err error \<Rightarrow> ret (FoRetry (display_AppendError error)))))))"

section \<open>The pipeline\<close>

text \<open>Steps 3 to 5 of \<open>run\<close>, once the object's size has been checked: sniff, scan, append.\<close>

definition run_scan ::
  "DigestCrates \<Rightarrow> 'w UploadFinisher \<Rightarrow> UploadCompleted \<Rightarrow> ('w, FinishOutcome) state" where
  "run_scan dg f command =
     bs_open_read (uf_blobs f) (uc_storage_key command) \<bind> (\<lambda>r. case r of
       Err error \<Rightarrow> ret (FoRetry (display_BlobError error))
     | Ok reader \<Rightarrow> sc_scan (uf_scanner f) reader \<bind> (\<lambda>r. case r of
         Err error \<Rightarrow> ret (FoRetry (display_ScanError error))
       | Ok outcome \<Rightarrow> (case so_verdict outcome of
           Infected signature \<Rightarrow> reject f command MALWARE_DETECTED
         | Clean \<Rightarrow>
             if so_byte_count outcome \<noteq> uc_declared_size command
             then reject f command SIZE_MISMATCH
             else (case uc_mode command of
                 Create \<Rightarrow> append_created dg f command (so_sha256_hex outcome)
               | Replace \<Rightarrow> append_replaced dg f command (so_sha256_hex outcome)))))"

text \<open>The size check of step 2 and the sniff of step 3.\<close>

definition run_verify ::
  "DigestCrates \<Rightarrow> 'w UploadFinisher \<Rightarrow> UploadCompleted \<Rightarrow> BlobHead \<Rightarrow> ('w, FinishOutcome) state" where
  "run_verify dg f command head =
     (if bh_byte_size head \<noteq> uc_declared_size command then reject f command SIZE_MISMATCH
      else bs_read_prefix (uf_blobs f) (uc_storage_key command) PREFIX_BYTES \<bind> (\<lambda>r. case r of
        Err error \<Rightarrow> ret (FoRetry (display_BlobError error))
      | Ok start \<Rightarrow> validate_content f command head start \<bind> (\<lambda>r. case r of
          Err error \<Rightarrow> ret (FoRetry error)
        | Ok (ContentRejected reason) \<Rightarrow> reject f command CONTENT_REJECTED
        | Ok ContentOk \<Rightarrow> run_scan dg f command)))"

definition run_pipeline ::
  "DigestCrates \<Rightarrow> 'w UploadFinisher \<Rightarrow> UploadCompleted \<Rightarrow> ('w, FinishOutcome) state" where
  "run_pipeline dg f command =
     assemble f command \<bind> (\<lambda>a. case a of
       Terminal outcome \<Rightarrow> ret outcome
     | Ready (Some head) \<Rightarrow> run_verify dg f command head
     | Ready None \<Rightarrow> bs_head (uf_blobs f) (uc_storage_key command) \<bind> (\<lambda>r. case r of
         Ok (Some head) \<Rightarrow> run_verify dg f command head
       | Ok None \<Rightarrow> reject f command MULTIPART_LOST
       | Err error \<Rightarrow> ret (FoRetry (display_BlobError error))))"

definition run :: "DigestCrates \<Rightarrow> 'w UploadFinisher \<Rightarrow> UploadCompleted \<Rightarrow> ('w, FinishOutcome) state" where
  "run dg f command =
     load_state f command \<bind> (\<lambda>r. case r of
       Ok (Some status) \<Rightarrow>
         if is_terminal status then ret (replay command status) else run_pipeline dg f command
     | Ok None \<Rightarrow> discard_expired f command
     | Err error \<Rightarrow> ret (FoRetry error))"

definition finish ::
  "DigestCrates \<Rightarrow> 'w UploadFinisher \<Rightarrow> UploadCompleted \<Rightarrow> bool \<Rightarrow> ('w, FinishOutcome) state" where
  "finish dg f command final_delivery =
     run dg f command \<bind> (\<lambda>out. case out of
       FoRetry error \<Rightarrow>
         if final_delivery then reject f command PIPELINE_FAILED else ret (FoRetry error)
     | outcome \<Rightarrow> ret outcome)"

section \<open>The frame of a work item\<close>

text \<open>
  The contract under which a run of the worker keeps a guarantee \<open>G\<close>. Two ports are special:
  deleting an object and appending to the log. With \<open>rejects\<close> false, nothing is asked of the
  delete, and the guarantee is claimed for the runs that do not reject; with \<open>accepts\<close> false,
  nothing is asked of an append that added an event, and it is claimed for the runs that do
  not accept.
\<close>

definition added :: "(Appended, 'e) result \<Rightarrow> bool" where
  "added r = (case r of Ok a \<Rightarrow> \<not> ap_duplicate a | Err _ \<Rightarrow> False)"

fun claimed :: "bool \<Rightarrow> bool \<Rightarrow> FinishOutcome \<Rightarrow> bool" where
  "claimed accepts rejects (FoAccepted _ _ _) = accepts"
| "claimed accepts rejects (FoRejected _) = rejects"
| "claimed accepts rejects (FoRetry _) = True"

locale finisher_frame = guarantee G for G :: "'w \<Rightarrow> 'w \<Rightarrow> bool" +
  fixes f :: "'w UploadFinisher" and inv :: "'w \<Rightarrow> bool" and accepts rejects :: bool
  assumes frame_list_parts: "rg G inv (bs_list_parts (uf_blobs f) k m) (\<lambda>_. inv)"
    and frame_complete: "rg G inv (bs_complete_multipart (uf_blobs f) k m ps) (\<lambda>_. inv)"
    and frame_abort: "rg G inv (bs_abort_multipart (uf_blobs f) k m) (\<lambda>_. inv)"
    and frame_head: "rg G inv (bs_head (uf_blobs f) k) (\<lambda>_. inv)"
    and frame_open_read: "rg G inv (bs_open_read (uf_blobs f) k) (\<lambda>_. inv)"
    and frame_read_prefix: "rg G inv (bs_read_prefix (uf_blobs f) k n) (\<lambda>_. inv)"
    and frame_delete: "rejects \<Longrightarrow> rg G inv (bs_delete (uf_blobs f) k) (\<lambda>_. inv)"
    and frame_scan: "rg G inv (sc_scan (uf_scanner f) rd) (\<lambda>_. inv)"
    and frame_validate: "rg G inv (cv_validate (uf_validator f) h p dc) (\<lambda>_. inv)"
    and frame_append: "inv w \<Longrightarrow> run_state (es_append (uf_events f) e x) w = (r, w') \<Longrightarrow>
      accepts \<or> \<not> added r \<Longrightarrow> G w w' \<and> inv w'"
    and frame_last: "rg G inv (es_last (uf_events f) t d) (\<lambda>_. inv)"
    and frame_read: "rg G inv (es_read_stream (uf_events f) t d) (\<lambda>_. inv)"
    and frame_get: "rg G inv (ss_get (uf_uploads f) t u i) (\<lambda>_. inv)"
    and frame_set_status: "rg G inv (set_status (uf_uploads f) t u i st now) (\<lambda>_. inv)"
    and frame_now: "rg G inv (ck_now (uf_clock f)) (\<lambda>_. inv)"
begin

text \<open>The runs whose result satisfies \<open>B\<close> keep the guarantee.\<close>

definition framed :: "('a \<Rightarrow> bool) \<Rightarrow> ('w, 'a) state \<Rightarrow> bool" where
  "framed B m = (\<forall>w a w'. inv w \<longrightarrow> run_state m w = (a, w') \<longrightarrow> B a \<longrightarrow> G w w' \<and> inv w')"

lemma framed_ret: "framed B (ret a)"
  by (auto simp: framed_def G_refl)

lemma framed_rg: "rg G inv m (\<lambda>_. inv) \<Longrightarrow> framed B m"
  by (auto simp: framed_def rg_def)

text \<open>A step that keeps the guarantee only for some results, followed by a continuation that
  leaves no claim to make after the others.\<close>

lemma framed_bind_results:
  assumes "framed B' m" "\<And>a. B' a \<Longrightarrow> framed B (k a)"
    and "\<And>a w b w'. \<not> B' a \<Longrightarrow> run_state (k a) w = (b, w') \<Longrightarrow> \<not> B b"
  shows "framed B (m \<bind> k)"
  unfolding framed_def
proof (intro allI impI)
  fix w b w'
  assume w: "inv w" "run_state (m \<bind> k) w = (b, w')" "B b"
  obtain a v where a: "run_state m w = (a, v)" "run_state (k a) v = (b, w')"
    using w(2) by (cases "run_state m w") auto
  then have "B' a" using assms(3) w(3) by blast
  then show "G w w' \<and> inv w'"
    using assms(1) assms(2) [of a] a w unfolding framed_def by (blast intro: G_trans)
qed

lemma framed_bind: "rg G inv m (\<lambda>_. inv) \<Longrightarrow> (\<And>a. framed B (k a)) \<Longrightarrow> framed B (m \<bind> k)"
  by (rule framed_bind_results [where B' = "\<lambda>_. True"]) (auto intro: framed_rg)

lemma frame_load: "rg G inv (load (uf_uploads f) t u i) (\<lambda>_. inv)"
  unfolding load_def
  by (rule rg_attempt [OF frame_get]) (auto intro!: rg_ret split: option.split)

lemma frame_record_status: "rg G inv (record_status f cmd st) (\<lambda>_. inv)"
  unfolding record_status_def finish_with_def
  by (auto intro!: rg_bind [OF frame_now] rg_bind [OF frame_set_status] rg_ret)

lemma framed_accept: "framed B (accept f cmd v s)"
  unfolding accept_def by (intro framed_bind [OF frame_record_status] framed_ret)

lemma accept_result: "run_state (accept f cmd v s) w = (b, w') \<Longrightarrow> b = FoAccepted (uc_document_id cmd) v s"
  by (auto simp: accept_def split: prod.splits)

lemma reject_result: "run_state (reject f cmd r) w = (b, w') \<Longrightarrow> b = FoRejected r"
  by (auto simp: reject_def split: prod.splits)

lemma framed_reclaim: "rejects \<Longrightarrow> rg G inv (reclaim f cmd) (\<lambda>_. inv)"
  unfolding reclaim_def by (intro rg_bind [OF frame_abort] rg_bind [OF frame_delete] rg_ret)

lemma framed_reject: "framed (claimed accepts rejects) (reject f cmd r)"
proof (cases rejects)
  case True
  then show ?thesis unfolding reject_def
    by (intro framed_bind [OF framed_reclaim] framed_bind [OF frame_record_status] framed_ret)
next
  case False
  then show ?thesis by (auto simp: framed_def dest!: reject_result)
qed

lemma framed_reject_then:
  "(\<And>out. claimed accepts rejects out = B (h out)) \<Longrightarrow> framed B (reject f cmd r \<bind> (\<lambda>out. ret (h out)))"
  by (rule framed_bind_results [OF framed_reject]) (auto intro: framed_ret)

lemma framed_resolve_duplicate: "framed B (resolve_duplicate (uf_events f) t d a)"
  unfolding resolve_duplicate_def
  by (auto intro!: framed_ret framed_rg rg_attempt [OF frame_last] rg_ret split: option.split)

lemma resolve_duplicate_added:
  "run_state (resolve_duplicate (uf_events f) t d a) w = (b, w') \<Longrightarrow> \<not> ap_duplicate a \<Longrightarrow> added b"
  by (auto simp: resolve_duplicate_def added_def)

lemma framed_append: "framed (\<lambda>r. accepts \<or> \<not> added r) (es_append (uf_events f) e x)"
  unfolding framed_def using frame_append by blast

lemma framed_append_create: "framed (\<lambda>r. accepts \<or> \<not> added r) (append_create (uf_events f) e)"
  unfolding append_create_def
  by (rule framed_bind_results [OF framed_append])
    (auto intro: framed_ret framed_resolve_duplicate dest!: resolve_duplicate_added
      simp: added_def [of "Ok _"] added_def [of "Err _"] split: result.splits EventStoreError.splits)

lemma framed_append_update_loop:
  "framed (\<lambda>r. accepts \<or> \<not> added r) (append_update_loop n (uf_events f) t d c b)"
proof (induction n)
  case (Suc n)
  have "framed (\<lambda>r. accepts \<or> \<not> added r) (es_append (uf_events f) e x \<bind> (\<lambda>r. case r of
        Ok a \<Rightarrow> resolve_duplicate (uf_events f) t d a
      | Err ESConflict \<Rightarrow> append_update_loop n (uf_events f) t d c b
      | Err error \<Rightarrow> ret (Err (Store error))))" for e x
    by (rule framed_bind_results [OF framed_append])
      (auto intro: framed_ret framed_resolve_duplicate Suc.IH dest!: resolve_duplicate_added
        simp: added_def [of "Ok _"] added_def [of "Err _"] split: result.splits EventStoreError.splits)
  then show ?case unfolding append_update_loop.simps attempt_def
    by (intro framed_bind [OF frame_last]) (auto intro!: framed_ret split: result.split option.split)
qed (simp add: framed_ret)

lemma framed_append_created: "framed (claimed accepts rejects) (append_created dg f cmd h)"
  unfolding append_created_def
proof (rule framed_bind [OF frame_now], rule framed_bind_results [OF framed_append_create])
  show "framed (claimed accepts rejects) (case r of Ok a \<Rightarrow> accept f cmd (ap_version a) False
      | Err AlreadyCreated \<Rightarrow> es_last (uf_events f) (uc_tenant_id cmd) (uc_document_id cmd) \<bind> (\<lambda>l. case l of
            Ok (Some (version, _)) \<Rightarrow> accept f cmd version False
          | Ok None \<Rightarrow> ret (FoRetry ''create conflicted but the document has no events'')
          | Err error \<Rightarrow> ret (FoRetry (display_EventStoreError error)))
      | Err error \<Rightarrow> ret (FoRetry (display_AppendError error)))" for r
    by (auto intro!: framed_accept framed_ret framed_bind [OF frame_last]
        split: result.split AppendError.split option.split)
qed (auto simp: added_def dest!: accept_result split: result.splits)

lemma framed_append_replaced: "framed (claimed accepts rejects) (append_replaced dg f cmd h)"
proof -
  have upd: "framed (claimed accepts rejects) (append_update (uf_events f) t d None b \<bind> (\<lambda>r. case r of
        Ok a \<Rightarrow> accept f cmd (ap_version a) (s a)
      | Err error \<Rightarrow> ret (FoRetry (display_AppendError error))))" for t d b s
    unfolding append_update_def
    by (rule framed_bind_results [OF framed_append_update_loop])
      (auto intro!: framed_accept framed_ret simp: added_def dest!: accept_result split: result.splits)
  show ?thesis unfolding append_replaced_def
    by (auto intro!: framed_bind [OF frame_read] framed_bind [OF frame_now] framed_ret framed_accept
        framed_reject upd split: result.split option.split)
qed

lemmas framed_appends = framed_append_created framed_append_replaced

lemma framed_run_verify: "framed (claimed accepts rejects) (run_verify dg f cmd head)"
proof -
  have scan: "framed (claimed accepts rejects) (run_scan dg f cmd)"
    unfolding run_scan_def
    by (auto intro!: framed_bind [OF frame_open_read] framed_bind [OF frame_scan] framed_ret
        framed_reject framed_appends split: result.split ScanVerdict.split UploadMode.split)
  have val: "rg G inv (validate_content f cmd h p) (\<lambda>_. inv)" for h p
    unfolding validate_content_def by (auto intro!: rg_bind [OF frame_validate] rg_ret)
  show ?thesis unfolding run_verify_def
    by (auto intro!: framed_bind [OF frame_read_prefix] framed_bind [OF val] framed_ret framed_reject
        scan split: result.split ContentVerdict.split)
qed

lemma framed_assemble:
  "framed (\<lambda>a. case a of Ready _ \<Rightarrow> True | Terminal out \<Rightarrow> claimed accepts rejects out) (assemble f cmd)"
  (is "framed ?B _")
proof -
  have settle: "framed ?B (settle_by_head f cmd)"
    unfolding settle_by_head_def
    by (auto intro!: framed_bind [OF frame_head] framed_ret framed_reject_then
        split: result.split option.split)
  show ?thesis unfolding assemble_def
    by (auto intro!: framed_bind [OF frame_list_parts] framed_bind [OF frame_complete] framed_ret
        framed_reject_then settle split: result.split option.split BlobErrorKind.split)
qed

lemma framed_run: "framed (claimed accepts rejects) (run dg f cmd)"
proof -
  have pipe: "framed (claimed accepts rejects) (run_pipeline dg f cmd)"
    unfolding run_pipeline_def
    by (rule framed_bind_results [OF framed_assemble])
      (auto intro!: framed_ret framed_run_verify framed_bind [OF frame_head] framed_reject
        split: Assembled.splits option.splits result.splits)
  have applied: "rg G inv (applied_version f cmd) (\<lambda>_. inv)"
    unfolding applied_version_def by (rule rg_attempt [OF frame_read]) (auto intro: rg_ret)
  have "framed (claimed accepts rejects) (reclaim f cmd \<bind> (\<lambda>_. ret (FoRejected UPLOAD_EXPIRED)))"
    by (cases rejects) (auto intro: framed_bind [OF framed_reclaim] framed_ret
        simp: framed_def [of "claimed accepts False"] split: prod.splits)
  then have discard: "framed (claimed accepts rejects) (discard_expired f cmd)"
    unfolding discard_expired_def
    by (auto intro!: framed_bind [OF applied] framed_ret split: result.split option.split)
  have state: "rg G inv (load_state f cmd) (\<lambda>_. inv)"
    unfolding load_state_def by (auto intro!: rg_bind [OF frame_load] rg_ret)
  show ?thesis unfolding run_def
    by (auto intro!: framed_bind [OF state] framed_ret pipe discard split: result.split option.split)
qed

lemma finish_frame:
  assumes "inv w" "run_state (finish dg f cmd final) w = (out, w')" "claimed accepts rejects out"
  shows "G w w' \<and> inv w'"
proof -
  have "framed (claimed accepts rejects) (finish dg f cmd final)"
    unfolding finish_def
    by (rule framed_bind_results [OF framed_run])
      (auto intro: framed_ret framed_reject split: FinishOutcome.splits if_splits)
  then show ?thesis using assms by (simp add: framed_def)
qed

end

section \<open>What acceptance means\<close>

text \<open>
  The full contract of the worker's ports: the event store and the record store keep theirs,
  and every other port keeps the common guarantee. Other processes may act between any two
  calls, as long as they keep it too.
\<close>

locale finisher_ports =
  event_log G "uf_events f" log_of inv + upload_records G "uf_uploads f" rec_of inv
  for G :: "'w \<Rightarrow> 'w \<Rightarrow> bool" and f :: "'w UploadFinisher"
    and log_of :: "'w \<Rightarrow> string \<Rightarrow> string \<Rightarrow> stream"
    and rec_of :: "'w \<Rightarrow> string \<Rightarrow> StoredUpload option" and inv :: "'w \<Rightarrow> bool" +
  assumes list_parts_G: "rg G inv (bs_list_parts (uf_blobs f) k m) (\<lambda>_ _. True)"
    and complete_G: "rg G inv (bs_complete_multipart (uf_blobs f) k m ps) (\<lambda>_ _. True)"
    and abort_G: "rg G inv (bs_abort_multipart (uf_blobs f) k m) (\<lambda>_ _. True)"
    and head_G: "rg G inv (bs_head (uf_blobs f) k) (\<lambda>_ _. True)"
    and open_read_G: "rg G inv (bs_open_read (uf_blobs f) k) (\<lambda>_ _. True)"
    and read_prefix_G: "rg G inv (bs_read_prefix (uf_blobs f) k n) (\<lambda>_ _. True)"
    and delete_G: "rg G inv (bs_delete (uf_blobs f) k) (\<lambda>_ _. True)"
    and scan_G: "rg G inv (sc_scan (uf_scanner f) rd) (\<lambda>_ _. True)"
    and validate_G: "rg G inv (cv_validate (uf_validator f) h p dc) (\<lambda>_ _. True)"
    and now_G: "rg G inv (ck_now (uf_clock f)) (\<lambda>_ _. True)"
begin

lemma keeps_inv: "rg G inv m (\<lambda>_ _. True) \<Longrightarrow> rg G inv m (\<lambda>_. inv)"
  unfolding rg_def using G_inv by blast

end

sublocale finisher_ports \<subseteq> frame: finisher_frame G f inv True True
proof unfold_locales
  fix w e x r w'
  assume "inv w" "run_state (es_append (uf_events f) e x) w = (r, w')"
  then show "G w w' \<and> inv w'" using append_G G_inv by blast
next
  show "rg G inv (ss_get (uf_uploads f) t u i) (\<lambda>_. inv)" for t u i
    by (rule rg_post [OF rg_get]) simp
next
  show "rg G inv (set_status (uf_uploads f) t u i st now) (\<lambda>_. inv)" for t u i st now
    by (rule rg_post [OF rg_set_status]) simp
next
  show "rg G inv (es_last (uf_events f) t d) (\<lambda>_. inv)" for t d
    by (rule rg_post [OF rg_last]) simp
next
  show "rg G inv (es_read_stream (uf_events f) t d) (\<lambda>_. inv)" for t d
    by (rule rg_post [OF rg_read]) simp
qed (rule keeps_inv, rule list_parts_G complete_G abort_G head_G open_read_G read_prefix_G delete_G
    scan_G validate_G now_G)+

text \<open>The event ids a work item may append under.\<close>

definition upload_event_ids :: "DigestCrates \<Rightarrow> UploadCompleted \<Rightarrow> string set" where
  "upload_event_ids dg cmd =
     {created_event_id (dg_sha256 dg) (dg_hex_encode dg) (uc_tenant_id cmd) (uc_upload_id cmd),
      blob_validated_event_id (dg_sha256 dg) (dg_hex_encode dg) (uc_tenant_id cmd) (uc_upload_id cmd)}"

text \<open>The stream holds an event of this upload, or it is the stream of a document this upload
  was to create and that exists; and the version is one the stream has.\<close>

definition durable :: "DigestCrates \<Rightarrow> UploadCompleted \<Rightarrow> stream \<Rightarrow> u64 \<Rightarrow> bool" where
  "durable dg cmd l v = (has_version l v \<and>
     ((\<exists>i \<in> upload_event_ids dg cmd. has_event_id l i)
      \<or> (\<exists>x \<in> set l. blob_ref (ev_payload (snd x)) = Some (uc_upload_id cmd))
      \<or> uc_mode cmd = Create))"

lemma durable_mono: "durable dg cmd l v \<Longrightarrow> prefix l l' \<Longrightarrow> durable dg cmd l' v"
  unfolding durable_def using has_event_id_mono has_version_mono by (blast dest: set_mono_prefix)

lemma find_upload_SomeD:
  "find_upload l i = Some e \<Longrightarrow> (\<exists>s. (s, e) \<in> set l) \<and> blob_ref (ev_payload e) = Some i"
  by (auto simp: find_upload_def find_Some_iff) (metis nth_mem)

lemma find_upload_durable: "find_upload l (uc_upload_id cmd) = Some e \<Longrightarrow> durable dg cmd l (ev_version e)"
  by (drule find_upload_SomeD) (force simp: durable_def has_version_def)

lemma stream_head_durable:
  "stream_head l = Some (v, s) \<Longrightarrow> uc_mode cmd = Create \<Longrightarrow> durable dg cmd l v"
  by (simp add: durable_def stream_head_version)

lemma created_event_simps [simp]:
  "ev_tenant_id (created_event dg cmd h now) = uc_tenant_id cmd"
  "ev_document_id (created_event dg cmd h now) = uc_document_id cmd"
  "ev_version (created_event dg cmd h now) = 1"
  "ev_event_id (created_event dg cmd h now) \<in> upload_event_ids dg cmd"
  "blob_ref (ev_payload (created_event dg cmd h now)) = Some (uc_upload_id cmd)"
  by (simp_all add: created_event_def upload_event_ids_def)

lemma replaced_event_simps [simp]:
  "ev_tenant_id (replaced_event dg cmd h now v) = uc_tenant_id cmd"
  "ev_document_id (replaced_event dg cmd h now v) = uc_document_id cmd"
  "ev_version (replaced_event dg cmd h now v) = v"
  "ev_event_id (replaced_event dg cmd h now v) \<in> upload_event_ids dg cmd"
  "blob_ref (ev_payload (replaced_event dg cmd h now v)) = Some (uc_upload_id cmd)"
  by (simp_all add: replaced_event_def upload_event_ids_def)

lemma acked_durable: "acked l i (Ok a) \<Longrightarrow> i \<in> upload_event_ids dg cmd \<Longrightarrow> durable dg cmd l (ap_version a)"
  by (auto simp: durable_def)

context finisher_ports
begin

text \<open>An accepted outcome names the item's document, and either the log holds it or the upload
  record already said so.\<close>

fun accounted :: "DigestCrates \<Rightarrow> UploadCompleted \<Rightarrow> FinishOutcome \<Rightarrow> 'w \<Rightarrow> bool" where
  "accounted dg cmd (FoAccepted d v s) w = (d = uc_document_id cmd \<and>
     (durable dg cmd (log_of w (uc_tenant_id cmd) (uc_document_id cmd)) v
      \<or> (\<exists>st. rec_of w (upload_key (uc_tenant_id cmd) (uc_owner_user_id cmd) (uc_upload_id cmd)) = Some st
           \<and> us_status (su_state st) = Accepted v s)))"
| "accounted dg cmd (FoRejected _) w = True"
| "accounted dg cmd (FoRetry _) w = True"

lemma rg_accept:
  "rg G (\<lambda>w. inv w \<and> durable dg cmd (log_of w (uc_tenant_id cmd) (uc_document_id cmd)) v)
     (accept f cmd v s) (\<lambda>out w. inv w \<and> accounted dg cmd out w)"
  unfolding accept_def
  by (rule rg_bind [OF rg_frame [OF frame.frame_record_status]])
    (use G_log durable_mono in \<open>blast, auto intro!: rg_ret\<close>)

lemma rg_reject: "rg G inv (reject f cmd r) (\<lambda>out w. inv w \<and> accounted dg cmd out w)"
  unfolding reject_def
  by (auto intro!: rg_bind [OF frame.framed_reclaim] rg_bind [OF frame.frame_record_status] rg_ret)

lemma rg_append_created:
  assumes "uc_mode cmd = Create"
  shows "rg G inv (append_created dg f cmd h) (\<lambda>out w. inv w \<and> accounted dg cmd out w)"
proof -
  have again: "rg G inv (es_last (uf_events f) (uc_tenant_id cmd) (uc_document_id cmd) \<bind> (\<lambda>l. case l of
      Ok (Some (version, _)) \<Rightarrow> accept f cmd version False
    | Ok None \<Rightarrow> ret (FoRetry ''create conflicted but the document has no events'')
    | Err error \<Rightarrow> ret (FoRetry (display_EventStoreError error))))
    (\<lambda>out w. inv w \<and> accounted dg cmd out w)"
    using assms by (intro rg_bind [OF rg_last])
      (auto intro!: rg_ret rg_pre [OF rg_accept] stream_head_durable split: result.split option.split)
  show ?thesis unfolding append_created_def
    by (intro rg_bind [OF frame.frame_now] rg_bind [OF rg_append_create])
      (auto intro!: rg_ret rg_pre [OF rg_accept] rg_pre [OF again] acked_durable
        split: result.split AppendError.split)
qed

lemma rg_append_replaced:
  "rg G inv (append_replaced dg f cmd h) (\<lambda>out w. inv w \<and> accounted dg cmd out w)"
proof -
  have upd: "rg G inv (append_update (uf_events f) (uc_tenant_id cmd) (uc_document_id cmd) None
        (replaced_event dg cmd h now) \<bind> (\<lambda>r. case r of
          Ok a \<Rightarrow> accept f cmd (ap_version a) (s a)
        | Err error \<Rightarrow> ret (FoRetry (display_AppendError error))))
      (\<lambda>out w. inv w \<and> accounted dg cmd out w)" for now s
    by (rule rg_bind [OF rg_append_update [where i = "ev_event_id (replaced_event dg cmd h now 0)"]])
      (auto intro!: rg_ret rg_pre [OF rg_accept] acked_durable
        simp: replaced_event_def upload_event_ids_def split: result.split)
  show ?thesis unfolding append_replaced_def
    by (intro rg_bind [OF rg_read])
      (auto intro!: rg_ret rg_pre [OF rg_accept] rg_pre [OF rg_reject] rg_pre [OF upd]
        rg_bind [OF rg_pre [OF frame.frame_now]] find_upload_durable split: result.split option.split)
qed

lemma rg_assemble: "rg G inv (assemble f cmd)
    (\<lambda>a w. inv w \<and> (case a of Terminal out \<Rightarrow> accounted dg cmd out w | Ready _ \<Rightarrow> True))"
  (is "rg G inv _ ?Q")
proof -
  have rej: "rg G inv (reject f cmd r \<bind> (\<lambda>out. ret (Terminal out))) ?Q" for r
    by (auto intro!: rg_bind [OF rg_reject] rg_ret)
  have settle: "rg G inv (settle_by_head f cmd) ?Q"
    unfolding settle_by_head_def
    by (auto intro!: rg_bind [OF frame.frame_head] rg_ret rej split: result.split option.split)
  show ?thesis unfolding assemble_def
    by (auto intro!: rg_bind [OF frame.frame_list_parts] rg_bind [OF frame.frame_complete] rg_ret rej
        settle split: result.split option.split BlobErrorKind.split)
qed

lemma rg_run_verify: "rg G inv (run_verify dg f cmd head) (\<lambda>out w. inv w \<and> accounted dg cmd out w)"
proof -
  have scan: "rg G inv (run_scan dg f cmd) (\<lambda>out w. inv w \<and> accounted dg cmd out w)"
    unfolding run_scan_def
    by (auto intro!: rg_bind [OF frame.frame_open_read] rg_bind [OF frame.frame_scan] rg_ret rg_reject
        rg_append_created rg_append_replaced split: result.split ScanVerdict.split UploadMode.split)
  have val: "rg G inv (validate_content f cmd h p) (\<lambda>_. inv)" for h p
    unfolding validate_content_def by (auto intro!: rg_bind [OF frame.frame_validate] rg_ret)
  show ?thesis unfolding run_verify_def
    by (auto intro!: rg_bind [OF frame.frame_read_prefix] rg_bind [OF val] rg_ret rg_reject scan
        split: result.split ContentVerdict.split)
qed

lemma rg_discard_expired:
  "rg G inv (discard_expired f cmd) (\<lambda>out w. inv w \<and> accounted dg cmd out w)"
proof -
  let ?l = "\<lambda>w. log_of w (uc_tenant_id cmd) (uc_document_id cmd)"
  have applied: "rg G inv (applied_version f cmd)
      (\<lambda>r w. inv w \<and> (\<forall>v. r = Ok (Some v) \<longrightarrow> durable dg cmd (?l w) v))"
    unfolding applied_version_def
    by (rule rg_attempt [OF rg_read]) (auto intro!: rg_ret find_upload_durable)
  have rec: "rg G inv (reclaim f cmd) (\<lambda>_. inv)" by (rule frame.framed_reclaim) simp
  show ?thesis unfolding discard_expired_def
    by (rule rg_bind [OF applied]) (auto intro!: rg_ret rg_bind [OF rec] split: result.split option.split)
qed

lemma rg_run: "rg G inv (run dg f cmd) (\<lambda>out w. inv w \<and> accounted dg cmd out w)"
proof -
  have pipe: "rg G inv (run_pipeline dg f cmd) (\<lambda>out w. inv w \<and> accounted dg cmd out w)"
    unfolding run_pipeline_def
    by (rule rg_bind [OF rg_assemble [where dg = dg]])
      (auto intro!: rg_ret rg_pre [OF rg_run_verify] rg_bind [OF rg_pre [OF frame.frame_head]] rg_reject
        split: Assembled.split option.split result.split)
  let ?k = "upload_key (uc_tenant_id cmd) (uc_owner_user_id cmd) (uc_upload_id cmd)"
  have state: "rg G inv (load_state f cmd) (\<lambda>r w. inv w \<and>
      (\<forall>s. r = Ok (Some s) \<longrightarrow> (\<exists>st. rec_of w ?k = Some st \<and> us_status (su_state st) = s)))"
    unfolding load_state_def
    by (rule rg_bind [OF rg_load]) (auto intro!: rg_ret split: result.splits)
  have replayed: "is_terminal s \<Longrightarrow> rec_of w ?k = Some st \<Longrightarrow> us_status (su_state st) = s \<Longrightarrow>
      accounted dg cmd (replay cmd s) w" for s st w
    by (cases s) auto
  show ?thesis unfolding run_def
    by (rule rg_bind [OF state]) (auto intro!: rg_ret rg_pre [OF pipe] rg_pre [OF rg_discard_expired]
        intro: replayed split: result.split option.split)
qed

lemma rg_finish: "rg G inv (finish dg f cmd final) (\<lambda>out w. inv w \<and> accounted dg cmd out w)"
  unfolding finish_def
  by (rule rg_bind [OF rg_run [where dg = dg]])
    (auto intro!: rg_ret rg_pre [OF rg_reject] split: FinishOutcome.split)

end

end
