(* ===== verification/Service.thy ===== *)
theory Service
  imports Transition "HOL-Library.Sublist"
begin

text \<open>
  The use cases behind the upload and document API (crates/document-app/src/service.rs):
  preflight, uploaded parts, renew, complete, and the reads. The JSON serialiser that bounds a
  metadata patch belongs to another crate and is the parameter \<open>to_vec\<close>.

  The contract of the read model states what a listing returns; under it, a client that
  follows the cursors sees every document of its tenant exactly once.
\<close>

section \<open>Requests and responses\<close>

definition DEFAULT_CONTENT_TYPE :: string where
  "DEFAULT_CONTENT_TYPE = ''application/octet-stream''"

definition MAX_LIST_LIMIT :: u32 where
  "MAX_LIST_LIMIT = 200"

record UploadPolicy =
  po_part_url_ttl :: duration
  po_max_upload_bytes :: u64
  po_part_size_bytes :: u64

record 'w DocumentService =
  sv_events :: "'w EventStore"
  sv_blobs :: "'w BlobStore"
  sv_uploads :: "'w UploadStateStore"
  sv_documents :: "'w DocumentReadModel"
  sv_queue :: "'w WorkQueue"
  sv_clock :: "'w Clock"
  sv_ids :: "'w IdGen"
  sv_policy :: UploadPolicy

record PreflightRequest =
  pq_document_id :: "string option"
  pq_filename :: string
  pq_size :: u64
  pq_content_type :: "string option"

record PreflightResponse =
  pf_upload_id :: string
  pf_document_id :: string
  pf_key :: string
  pf_part_size_bytes :: u64
  pf_part_count :: u16

record RenewRequest =
  rq_from_part :: "u16 option"
  rq_count :: "u16 option"

record RenewResponse =
  rr_parts :: "PresignedPart list"

record UploadedPartsResponse =
  ur_part_size_bytes :: u64
  ur_part_count :: u16
  ur_parts :: "UploadedPart list"

record CompleteRequest =
  cr_if_match :: "u64 option"
  cr_on_conflict :: ConflictPolicy
  cr_patch :: MetadataPatch

record DocumentPage =
  dp_items :: "DocumentState list"
  dp_next :: "DocumentCursor option"

section \<open>Preflight\<close>

definition unwind_preflight :: "'w DocumentService \<Rightarrow> UploadState \<Rightarrow> ('w, unit) state" where
  "unwind_preflight sv state =
     ss_delete (sv_uploads sv) (us_tenant_id state) (us_owner_user_id state) (us_upload_id state) \<bind> (\<lambda>_.
     bs_abort_multipart (sv_blobs sv) (us_storage_key state) (us_multipart_upload_id state) \<bind> (\<lambda>_.
     ret ()))"

definition resolve_replace_target ::
  "'w DocumentService \<Rightarrow> string \<Rightarrow> string \<Rightarrow> ('w, (unit, DocumentError) result) state" where
  "resolve_replace_target sv tenant_id document_id =
     attempt from_EventStoreError (es_last (sv_events sv) tenant_id document_id) (\<lambda>last.
       if last = None then ret (Err NotFound)
       else attempt from_ReadError (rm_get (sv_documents sv) tenant_id document_id) (\<lambda>found. case found of
           Some document \<Rightarrow> if ds_state document = Deleted then ret (Err ErrDeleted) else ret (Ok ())
         | None \<Rightarrow> ret (Ok ())))"

text \<open>The document an upload is for: the one it replaces, or a fresh id.\<close>

definition preflight_target ::
  "'w DocumentService \<Rightarrow> string \<Rightarrow> string option \<Rightarrow> ('w, (string \<times> UploadMode, DocumentError) result) state" where
  "preflight_target sv tenant_id document_id = (case document_id of
      Some document_id \<Rightarrow> attempt id (resolve_replace_target sv tenant_id document_id)
        (\<lambda>_. ret (Ok (document_id, Replace)))
    | None \<Rightarrow> ig_ulid (sv_ids sv) \<bind> (\<lambda>document_id. ret (Ok (document_id, Create))))"

definition resolved_content_type :: "string option \<Rightarrow> string" where
  "resolved_content_type content_type = (case map_option trim content_type of
      Some v \<Rightarrow> if v = [] then DEFAULT_CONTENT_TYPE else v
    | None \<Rightarrow> DEFAULT_CONTENT_TYPE)"

definition preflight_state ::
  "string \<Rightarrow> string \<Rightarrow> PreflightRequest \<Rightarrow> string \<Rightarrow> UploadMode \<Rightarrow> string \<Rightarrow> string \<Rightarrow> u64 \<Rightarrow> u16 \<Rightarrow> datetime \<Rightarrow>
     UploadState" where
  "preflight_state tenant_id user_id request document_id mode upload_id multipart part_size parts_total now =
     \<lparr>us_tenant_id = tenant_id, us_owner_user_id = user_id, us_upload_id = upload_id,
      us_document_id = document_id, us_mode = mode, us_storage_key = object_key tenant_id upload_id,
      us_multipart_upload_id = multipart, us_filename = trim (pq_filename request),
      us_content_type = resolved_content_type (pq_content_type request),
      us_declared_size = pq_size request, us_part_size_bytes = part_size, us_part_count = parts_total,
      us_status = Uploading, us_created_at = now, us_updated_at = now\<rparr>"

text \<open>The half of \<open>preflight\<close> that has effects: the multipart, the record, and the unwinding.\<close>

definition open_upload ::
  "'w DocumentService \<Rightarrow> string \<Rightarrow> string \<Rightarrow> PreflightRequest \<Rightarrow> string \<Rightarrow> UploadMode \<Rightarrow> u64 \<Rightarrow> u16 \<Rightarrow>
     ('w, (PreflightResponse, DocumentError) result) state" where
  "open_upload sv tenant_id user_id request document_id mode part_size parts_total =
     ig_ulid (sv_ids sv) \<bind> (\<lambda>upload_id.
     attempt (\<lambda>error. internal ''begin multipart'' (display_BlobError error))
       (bs_begin_multipart (sv_blobs sv) (object_key tenant_id upload_id)
         (resolved_content_type (pq_content_type request)))
       (\<lambda>multipart. ck_now (sv_clock sv) \<bind> (\<lambda>now.
         let state = preflight_state tenant_id user_id request document_id mode upload_id multipart
               part_size parts_total now in
         ss_create (sv_uploads sv) state \<bind> (\<lambda>outcome. case outcome of
             Ok _ \<Rightarrow> ret (Ok \<lparr>pf_upload_id = upload_id, pf_document_id = document_id,
               pf_key = object_key tenant_id upload_id, pf_part_size_bytes = part_size,
               pf_part_count = parts_total\<rparr>)
           | Err error \<Rightarrow> unwind_preflight sv state \<bind> (\<lambda>_. ret (Err (from_ContextError error)))))))"

definition preflight ::
  "'w DocumentService \<Rightarrow> string \<Rightarrow> string \<Rightarrow> PreflightRequest \<Rightarrow>
     ('w, (PreflightResponse, DocumentError) result) state" where
  "preflight sv tenant_id user_id request =
     (if trim (pq_filename request) = [] then ret (Err (Invalid ''filename cannot be empty''))
      else if pq_size request > po_max_upload_bytes (sv_policy sv)
      then ret (Err (TooLarge (''file is '' @ show_u64 (pq_size request) @ '' bytes, over the ''
        @ show_u64 (po_max_upload_bytes (sv_policy sv)) @ '' byte upload limit'')))
      else (case part_size_bytes (pq_size request) (po_part_size_bytes (sv_policy sv)) of
        Err error \<Rightarrow> ret (Err (from_GeometryError error))
      | Ok part_size \<Rightarrow> (case part_count (pq_size request) part_size of
          Err error \<Rightarrow> ret (Err (from_GeometryError error))
        | Ok parts_total \<Rightarrow>
            attempt id (preflight_target sv tenant_id (pq_document_id request)) (\<lambda>(document_id, mode).
              open_upload sv tenant_id user_id request document_id mode part_size parts_total))))"

section \<open>Parts\<close>

definition load_context ::
  "'w DocumentService \<Rightarrow> string \<Rightarrow> string \<Rightarrow> string \<Rightarrow> ('w, (UploadState, DocumentError) result) state" where
  "load_context sv tenant_id user_id upload_id =
     attempt id (load (sv_uploads sv) tenant_id user_id upload_id) (\<lambda>found. ret (ok_or NotFound found))"

definition expected_part_size :: "UploadState \<Rightarrow> u16 \<Rightarrow> u64 option" where
  "expected_part_size ctx part_number =
     (if part_number = 0 \<or> part_number > us_part_count ctx then None
      else if part_number < us_part_count ctx then Some (us_part_size_bytes ctx)
      else Option.bind (checked_mul (ucast (us_part_count ctx - 1)) (us_part_size_bytes ctx))
        (\<lambda>consumed. checked_sub (us_declared_size ctx) consumed))"

definition uploaded_parts ::
  "'w DocumentService \<Rightarrow> string \<Rightarrow> string \<Rightarrow> string \<Rightarrow> ('w, (UploadedPartsResponse, DocumentError) result) state" where
  "uploaded_parts sv tenant_id user_id upload_id =
     attempt id (load_context sv tenant_id user_id upload_id) (\<lambda>ctx.
     attempt (\<lambda>error. internal ''list parts'' (display_BlobError error))
       (bs_list_parts (sv_blobs sv) (us_storage_key ctx) (us_multipart_upload_id ctx)) (\<lambda>found. case found of
         None \<Rightarrow> ret (Err Gone)
       | Some uploaded \<Rightarrow> ret (Ok
           \<lparr>ur_part_size_bytes = us_part_size_bytes ctx, ur_part_count = us_part_count ctx,
            ur_parts = filter (\<lambda>part. Some (up_size part) = expected_part_size ctx (up_part_number part)) uploaded\<rparr>)))"

text \<open>The inclusive range \<open>first..=last\<close> of part numbers.\<close>

definition part_range :: "u16 \<Rightarrow> u16 \<Rightarrow> u16 list" where
  "part_range lo hi = map of_nat [unat lo..<Suc (unat hi)]"

fun presign_window ::
  "'w DocumentService \<Rightarrow> UploadState \<Rightarrow> u16 list \<Rightarrow> u16 list \<Rightarrow> ('w, (PresignedPart list, DocumentError) result) state" where
  "presign_window sv ctx skip [] = ret (Ok [])"
| "presign_window sv ctx skip (part_number # rest) =
     (if part_number \<in> set skip then presign_window sv ctx skip rest
      else attempt (\<lambda>error. internal ''presign part'' (display_BlobError error))
        (bs_presign_part (sv_blobs sv) (us_storage_key ctx) (us_multipart_upload_id ctx) part_number
          (po_part_url_ttl (sv_policy sv)))
        (\<lambda>part. attempt id (presign_window sv ctx skip rest) (\<lambda>parts. ret (Ok (part # parts)))))"

text \<open>Where a renewal starts, and the parts it leaves out.\<close>

definition renew_start ::
  "'w DocumentService \<Rightarrow> UploadState \<Rightarrow> u16 option \<Rightarrow> ('w, (u16 \<times> u16 list, DocumentError) result) state" where
  "renew_start sv ctx from_part = (case from_part of
      Some from \<Rightarrow>
        if 1 \<le> from \<and> from \<le> us_part_count ctx then ret (Ok (from, []))
        else ret (Err (Invalid (''from_part must be between 1 and '' @ show_u64 (us_part_count ctx))))
    | None \<Rightarrow>
        attempt (\<lambda>error. internal ''list parts'' (display_BlobError error))
          (bs_list_parts (sv_blobs sv) (us_storage_key ctx) (us_multipart_upload_id ctx)) (\<lambda>found. case found of
            None \<Rightarrow> ret (Err Gone)
          | Some uploaded \<Rightarrow>
              (let already = map up_part_number uploaded;
                   first = (case find (\<lambda>part. part \<notin> set already) (part_range 1 (us_part_count ctx)) of
                     Some part \<Rightarrow> part | None \<Rightarrow> us_part_count ctx)
               in ret (Ok (first, already)))))"

definition renew_last :: "UploadState \<Rightarrow> u16 \<Rightarrow> u16 option \<Rightarrow> u16" where
  "renew_last ctx first count = (case count of
      Some count \<Rightarrow> min (saturating_add first (max count 1 - 1)) (us_part_count ctx)
    | None \<Rightarrow> us_part_count ctx)"

definition renew ::
  "'w DocumentService \<Rightarrow> string \<Rightarrow> string \<Rightarrow> string \<Rightarrow> RenewRequest \<Rightarrow>
     ('w, (RenewResponse, DocumentError) result) state" where
  "renew sv tenant_id user_id upload_id request =
     attempt id (load_context sv tenant_id user_id upload_id) (\<lambda>ctx.
     attempt id (renew_start sv ctx (rq_from_part request)) (\<lambda>(first, skip).
     attempt id (presign_window sv ctx skip (part_range first (renew_last ctx first (rq_count request)))) (\<lambda>parts.
     ret (Ok \<lparr>rr_parts = parts\<rparr>))))"

section \<open>Complete\<close>

definition completed_command ::
  "string \<Rightarrow> string \<Rightarrow> string \<Rightarrow> UploadState \<Rightarrow> CompleteRequest \<Rightarrow> datetime \<Rightarrow> UploadCompleted" where
  "completed_command tenant_id user_id upload_id ctx request now =
     \<lparr>uc_v = contract_version,
      uc_command_id = upload_completed_command_id tenant_id upload_id,
      uc_tenant_id = tenant_id, uc_owner_user_id = user_id, uc_upload_id = upload_id,
      uc_document_id = us_document_id ctx, uc_mode = us_mode ctx, uc_storage_key = us_storage_key ctx,
      uc_multipart_upload_id = us_multipart_upload_id ctx, uc_filename = us_filename ctx,
      uc_content_type = us_content_type ctx, uc_declared_size = us_declared_size ctx,
      uc_if_match = cr_if_match request, uc_on_conflict = cr_on_conflict request,
      uc_patch = cr_patch request, uc_ts = now\<rparr>"

definition complete ::
  "(json \<Rightarrow> bytes option) \<Rightarrow> 'w DocumentService \<Rightarrow> string \<Rightarrow> string \<Rightarrow> string \<Rightarrow> CompleteRequest \<Rightarrow>
     ('w, (unit, DocumentError) result) state" where
  "complete to_vec sv tenant_id user_id upload_id request =
     attempt from_ValidationError (ret (validate_metadata_patch to_vec (cr_patch request))) (\<lambda>_.
     attempt id (load_context sv tenant_id user_id upload_id) (\<lambda>ctx.
     if cr_if_match request \<noteq> None \<and> us_mode ctx = Create
     then ret (Err (Invalid ''if_match is not valid for a new document''))
     else ck_now (sv_clock sv) \<bind> (\<lambda>ts.
     attempt from_QueueError (wq_publish_upload_completed (sv_queue sv)
       (completed_command tenant_id user_id upload_id ctx request ts)) (\<lambda>_.
     ck_now (sv_clock sv) \<bind> (\<lambda>now.
     attempt id (set_status (sv_uploads sv) tenant_id user_id upload_id Scanning now) (\<lambda>_.
     ret (Ok ())))))))"

section \<open>Reads\<close>

definition upload_state ::
  "'w DocumentService \<Rightarrow> string \<Rightarrow> string \<Rightarrow> string \<Rightarrow> ('w, (UploadState, DocumentError) result) state" where
  "upload_state sv tenant_id user_id upload_id =
     attempt id (load (sv_uploads sv) tenant_id user_id upload_id) (\<lambda>found. ret (ok_or NotFound found))"

definition get_document ::
  "'w DocumentService \<Rightarrow> string \<Rightarrow> string \<Rightarrow> ('w, (DocumentState, DocumentError) result) state" where
  "get_document sv tenant_id document_id =
     attempt from_ReadError (rm_get (sv_documents sv) tenant_id document_id) (\<lambda>found. ret (ok_or NotFound found))"

definition document_cursor :: "DocumentState \<Rightarrow> DocumentCursor" where
  "document_cursor document = DocumentCursor (ds_updated_at document) (ds_document_id document)"

definition clamp :: "'a::linorder \<Rightarrow> 'a \<Rightarrow> 'a \<Rightarrow> 'a" where
  "clamp x lo hi = (if x < lo then lo else if x > hi then hi else x)"

definition list_documents ::
  "'w DocumentService \<Rightarrow> string \<Rightarrow> u32 \<Rightarrow> DocumentCursor option \<Rightarrow> ('w, (DocumentPage, DocumentError) result) state" where
  "list_documents sv tenant_id limit after =
     (let limit = clamp limit 1 MAX_LIST_LIMIT in
      attempt from_ReadError (rm_list (sv_documents sv) tenant_id limit after) (\<lambda>items.
        ret (Ok \<lparr>dp_items = items,
          dp_next = (if of_nat (length items) = limit
            then (if items = [] then None else Some (document_cursor (last items))) else None)\<rparr>)))"

section \<open>The parts tile the file\<close>

lemma set_part_range: "set (part_range lo hi) = {k. lo \<le> k \<and> k \<le> hi}"
proof -
  have "k \<in> set (part_range lo hi)" if "lo \<le> k" "k \<le> hi" for k
  proof -
    have "unat k \<in> {unat lo..<Suc (unat hi)}" using that by (simp add: word_le_nat_alt)
    moreover have "k = of_nat (unat k)" by simp
    ultimately show ?thesis unfolding part_range_def set_map set_upt by (rule rev_image_eqI)
  qed
  moreover have "lo \<le> k \<and> k \<le> hi" if "k \<in> set (part_range lo hi)" for k
  proof -
    from that obtain m where m: "unat lo \<le> m" "m \<le> unat hi" "k = of_nat m"
      by (auto simp: part_range_def)
    moreover have "unat hi < 2 ^ 16" using unsigned_less [of hi, where ?'a = nat] by simp
    ultimately have "unat k = m" by (simp add: unat_of_nat_small)
    with m show ?thesis by (simp add: word_le_nat_alt)
  qed
  ultimately show ?thesis by auto
qed

lemma distinct_part_range: "distinct (part_range lo hi)"
proof -
  have "inj_on (of_nat :: nat \<Rightarrow> u16) {unat lo..<Suc (unat hi)}"
  proof (rule inj_onI)
    fix a b
    assume "a \<in> {unat lo..<Suc (unat hi)}" "b \<in> {unat lo..<Suc (unat hi)}" "(of_nat a :: u16) = of_nat b"
    moreover have "unat hi < 2 ^ 16" using unsigned_less [of hi, where ?'a = nat] by simp
    ultimately have "a < 2 ^ LENGTH(16)" "b < 2 ^ LENGTH(16)" "unat (of_nat a :: u16) = unat (of_nat b :: u16)"
      by auto
    then show "a = b" by (simp only: unat_of_nat_small)
  qed
  then show ?thesis by (simp add: part_range_def distinct_map del: upt_Suc)
qed

text \<open>An upload whose geometry is the one the server computes for its declared size.\<close>

definition sliced :: "UploadState \<Rightarrow> u64 \<Rightarrow> bool" where
  "sliced ctx target = (part_size_bytes (us_declared_size ctx) target = Ok (us_part_size_bytes ctx)
     \<and> part_count (us_declared_size ctx) (us_part_size_bytes ctx) = Ok (us_part_count ctx))"

lemma sliced_unat:
  assumes "sliced ctx target"
  shows "0 < unat (us_part_size_bytes ctx)" "0 < unat (us_declared_size ctx)"
    "unat (us_part_count ctx) = ceil_nat (unat (us_declared_size ctx)) (unat (us_part_size_bytes ctx))"
proof -
  have ok: "part_size_bytes (us_declared_size ctx) target = Ok (us_part_size_bytes ctx)"
    "part_count (us_declared_size ctx) (us_part_size_bytes ctx) = Ok (us_part_count ctx)"
    using assms by (auto simp: sliced_def)
  have sl: "sliceable (us_declared_size ctx) target" using ok(1) by (simp add: part_size_bytes_ok_iff)
  then show pos: "0 < unat (us_part_size_bytes ctx)" "0 < unat (us_declared_size ctx)"
    using unat_part_size [OF ok(1)] by (auto simp: sliceable_unat)
  show "unat (us_part_count ctx) = ceil_nat (unat (us_declared_size ctx)) (unat (us_part_size_bytes ctx))"
    using part_count_okD [OF ok(2)] by simp
qed

lemma expected_last_part:
  assumes "sliced ctx target"
  shows "\<exists>b. expected_part_size ctx (us_part_count ctx) = Some b \<and>
    unat b = unat (us_declared_size ctx) - (unat (us_part_count ctx) - 1) * unat (us_part_size_bytes ctx)"
proof -
  let ?S = "unat (us_declared_size ctx)" and ?P = "unat (us_part_size_bytes ctx)" and ?N = "unat (us_part_count ctx)"
  note g = sliced_unat [OF assms]
  have N: "0 < ?N" using g ceil_nat_pos by simp
  have tight: "(?N - 1) * ?P < ?S" using g ceil_nat_tight by simp
  have "us_part_count ctx \<noteq> 0" using N by (auto simp: unat_gt_0)
  then have u: "unat (ucast (us_part_count ctx - 1) :: u64) = ?N - 1"
    by (simp add: unat_minus_one)
  have small: "unat (ucast (us_part_count ctx - 1) :: u64) * ?P < 2 ^ LENGTH(64)"
    using tight unsigned_less [of "us_declared_size ctx", where ?'a = nat] u by simp
  then have "checked_mul (ucast (us_part_count ctx - 1)) (us_part_size_bytes ctx) =
      Some (ucast (us_part_count ctx - 1) * us_part_size_bytes ctx)"
    by (simp add: checked_mul_def)
  moreover have "unat (ucast (us_part_count ctx - 1) * us_part_size_bytes ctx :: u64) = (?N - 1) * ?P"
    using small by (simp only: unat_mult_lem u [symmetric])
  ultimately show ?thesis using tight \<open>us_part_count ctx \<noteq> 0\<close>
    by (simp add: expected_part_size_def checked_sub_def word_le_nat_alt unat_sub)
qed

lemma expected_part_cases:
  assumes "sliced ctx target" "k \<in> set (part_range 1 (us_part_count ctx))"
  shows "\<exists>b. expected_part_size ctx k = Some b \<and> 0 < b \<and> b \<le> us_part_size_bytes ctx"
proof -
  let ?S = "unat (us_declared_size ctx)" and ?P = "unat (us_part_size_bytes ctx)" and ?N = "unat (us_part_count ctx)"
  note g = sliced_unat [OF assms(1)]
  have k: "k \<noteq> 0" "k \<le> us_part_count ctx" using assms(2) by (auto simp: set_part_range)
  show ?thesis
  proof (cases "k = us_part_count ctx")
    case True
    obtain b where b: "expected_part_size ctx k = Some b" "unat b = ?S - (?N - 1) * ?P"
      using expected_last_part [OF assms(1)] True by auto
    have "(?N - 1) * ?P < ?S" "?S \<le> ?N * ?P" "0 < ?N"
      using g ceil_nat_tight ceil_nat_covers ceil_nat_pos by simp_all
    then have "0 < unat b" "unat b \<le> ?P" unfolding b(2) by (auto simp: diff_mult_distrib)
    with b show ?thesis by (auto simp: word_le_nat_alt unat_gt_0 word_gt_0)
  next
    case False
    with k have "k < us_part_count ctx" by simp
    with k g show ?thesis by (auto simp: expected_part_size_def unat_gt_0 word_gt_0)
  qed
qed

lemma sum_expected_parts:
  assumes "sliced ctx target"
  shows "(\<Sum>k \<leftarrow> part_range 1 (us_part_count ctx). unat (the (expected_part_size ctx k))) = unat (us_declared_size ctx)"
proof -
  let ?S = "unat (us_declared_size ctx)" and ?P = "unat (us_part_size_bytes ctx)" and ?N = "unat (us_part_count ctx)"
  note g = sliced_unat [OF assms]
  have N: "0 < ?N" "(?N - 1) * ?P < ?S" using g ceil_nat_pos ceil_nat_tight by simp_all
  have small: "?N < 2 ^ 16" using unsigned_less [of "us_part_count ctx", where ?'a = nat] by simp
  have full: "expected_part_size ctx (of_nat m) = Some (us_part_size_bytes ctx)" if "1 \<le> m" "m < ?N" for m
  proof -
    have "unat (of_nat m :: u16) = m" using that small by (intro unat_of_nat_small) simp
    then show ?thesis using that
      by (auto simp: expected_part_size_def word_less_nat_alt unat_eq_zero [symmetric] simp del: unat_eq_zero)
  qed
  have "[1..<Suc ?N] = [1..<?N] @ [?N]" using N by simp
  then have "(\<Sum>k \<leftarrow> part_range 1 (us_part_count ctx). unat (the (expected_part_size ctx k))) =
      (\<Sum>m \<leftarrow> [1..<?N]. unat (the (expected_part_size ctx (of_nat m)))) +
      unat (the (expected_part_size ctx (us_part_count ctx)))"
    by (simp add: part_range_def comp_def del: upt_Suc)
  also have "(\<Sum>m \<leftarrow> [1..<?N]. unat (the (expected_part_size ctx (of_nat m)))) = (\<Sum>m \<leftarrow> [1..<?N]. ?P)"
    by (rule arg_cong [where f = sum_list], rule map_cong) (auto simp: full)
  also have "\<dots> = (?N - 1) * ?P" by (simp add: sum_list_triv)
  also have "\<dots> + unat (the (expected_part_size ctx (us_part_count ctx))) = ?S"
    using expected_last_part [OF assms] N by auto
  finally show ?thesis .
qed

section \<open>The contract of the read model\<close>

text \<open>The order of the listing, descending: what the read models sort by, and compare a cursor with.\<close>

definition list_key :: "DocumentState \<Rightarrow> DocumentCursor" where
  "list_key doc = DocumentCursor (ds_updated_at doc) (ds_document_id doc)"

lemma document_cursor_key: "document_cursor d = list_key d"
  by (simp add: document_cursor_def list_key_def)

definition past :: "DocumentCursor option \<Rightarrow> DocumentState \<Rightarrow> bool" where
  "past after d = (case after of None \<Rightarrow> True | Some c \<Rightarrow> list_key d < c)"

text \<open>A client that follows the cursors, for at most the given number of requests.\<close>

fun follow_pages ::
  "nat \<Rightarrow> 'w DocumentService \<Rightarrow> string \<Rightarrow> u32 \<Rightarrow> DocumentCursor option \<Rightarrow>
     ('w, (DocumentState list, DocumentError) result) state" where
  "follow_pages 0 sv tenant limit after = ret (Err (Internal ''out of requests''))"
| "follow_pages (Suc n) sv tenant limit after =
     attempt id (list_documents sv tenant limit after) (\<lambda>page. case dp_next page of
         None \<Rightarrow> ret (Ok (dp_items page))
       | Some c \<Rightarrow> attempt id (follow_pages n sv tenant limit (Some c)) (\<lambda>rest. ret (Ok (dp_items page @ rest))))"

lemma filter_past_last:
  assumes "sorted_wrt (\<lambda>a b. list_key b < list_key a) (xs @ x # ys)"
  shows "filter (past (Some (list_key x))) (xs @ x # ys) = ys"
proof -
  have "filter (past (Some (list_key x))) xs = []"
    using assms by (auto simp: sorted_wrt_append past_def filter_empty_conv dest: less_asym)
  moreover have "filter (past (Some (list_key x))) ys = ys"
    using assms by (auto simp: sorted_wrt_append past_def filter_id_conv)
  ultimately show ?thesis by (simp add: past_def)
qed

locale read_model =
  fixes rm :: "'w DocumentReadModel"
    and docs :: "'w \<Rightarrow> string \<Rightarrow> DocumentState list"
    and inv :: "'w \<Rightarrow> bool"
  assumes listing_order: "inv w \<Longrightarrow> sorted_wrt (\<lambda>a b. list_key b < list_key a) (docs w t)"
    and list_reads: "inv w \<Longrightarrow>
      run_state (rm_list rm t n after) w = (Ok (take (unat n) (filter (past after) (docs w t))), w)"
begin

lemma run_list_documents:
  assumes "inv w" "sv_documents sv = rm" and items: "items = take (unat (clamp limit 1 MAX_LIST_LIMIT))
      (filter (past after) (docs w t))"
  shows "run_state (list_documents sv t limit after) w = (Ok \<lparr>dp_items = items,
    dp_next = (if length items = unat (clamp limit 1 MAX_LIST_LIMIT)
      then Some (list_key (last items)) else None)\<rparr>, w)"
proof -
  let ?n = "clamp limit 1 MAX_LIST_LIMIT"
  have n: "0 < unat ?n" "unat ?n < 2 ^ 32"
    using unsigned_less [of ?n, where ?'a = nat] by (auto simp: clamp_def MAX_LIST_LIMIT_def unat_gt_0 word_gt_0 not_less)
  have "length items \<le> unat ?n" by (simp add: items)
  then have "unat (of_nat (length items) :: u32) = length items"
    using n(2) by (intro unat_of_nat_small) simp
  then have "(of_nat (length items) = ?n) = (length items = unat ?n)"
    by (metis word_unat_eq_iff)
  moreover have "length items = unat ?n \<Longrightarrow> items \<noteq> []" using n(1) by auto
  ultimately show ?thesis using list_reads [OF assms(1)] assms(2)
    by (auto simp: list_documents_def Let_def run_state_attempt items document_cursor_key)
qed

lemma follow_pages_lists:
  assumes "inv w" "sv_documents sv = rm" "docs w t = pre @ suf" "filter (past after) (docs w t) = suf"
    and "length suf div unat (clamp limit 1 MAX_LIST_LIMIT) < n"
  shows "run_state (follow_pages n sv t limit after) w = (Ok suf, w)"
  using assms(3-5)
proof (induction n arbitrary: pre suf after)
  case (Suc n)
  let ?L = "unat (clamp limit 1 MAX_LIST_LIMIT)"
  have L: "0 < ?L" by (auto simp: clamp_def MAX_LIST_LIMIT_def unat_gt_0 word_gt_0 not_less)
  note page = run_list_documents [OF assms(1,2) refl, where limit = limit and after = after and t = t, unfolded Suc.prems(2)]
  show ?case
  proof (cases "length suf < ?L")
    case True
    with page show ?thesis by (simp add: run_state_attempt)
  next
    case False
    then have "take ?L suf \<noteq> []" using L by auto
    then obtain xs x where x: "take ?L suf = xs @ [x]" by (cases "take ?L suf" rule: rev_cases) auto
    have suf: "suf = xs @ x # drop ?L suf" using append_take_drop_id [of ?L suf] x by simp
    then have eq: "docs w t = (pre @ xs) @ x # drop ?L suf" using Suc.prems(1) by simp
    have rest: "filter (past (Some (list_key x))) (docs w t) = drop ?L suf"
      using filter_past_last listing_order [OF assms(1), of t] eq by metis
    have "docs w t = (pre @ xs @ [x]) @ drop ?L suf" using eq by simp
    moreover have "length (drop ?L suf) div ?L < n"
      using Suc.prems(3) False L by (simp add: le_div_geq)
    ultimately have "run_state (follow_pages n sv t limit (Some (list_key x))) w = (Ok (drop ?L suf), w)"
      using Suc.IH rest by blast
    moreover have "last (take ?L suf) = x" using x by simp
    then have "run_state (list_documents sv t limit after) w =
        (Ok \<lparr>dp_items = take ?L suf, dp_next = Some (list_key x)\<rparr>, w)"
      using page False by simp
    ultimately show ?thesis by (simp add: run_state_attempt)
  qed
qed simp

end

end
