(* ===== verification/Memory.thy ===== *)
theory Memory
  imports Worker Service "HOL-Library.AList"
begin

text \<open>
  The in-memory ports of crates/document-app/src/testing.rs: event store, blob store, upload
  records, read model, work queue, scanner, validator, clock and id generator. Each store is a
  record of the fields the source keeps behind its mutex, and each operation runs on that
  record. A hash map is a HOL map, or an association list where the source iterates over it.
\<close>

definition fixed_time :: "int \<Rightarrow> datetime" where
  "fixed_time offset_secs = 1760000000 + offset_secs"

section \<open>Event fixtures\<close>

definition sample_created_event ::
  "DigestCrates \<Rightarrow> string \<Rightarrow> string \<Rightarrow> string \<Rightarrow> DocumentEvent" where
  "sample_created_event dg tenant document_id blob =
     \<lparr>ev_v = DOCUMENT_CONTRACT_VERSION,
      ev_event_id = created_event_id (dg_sha256 dg) (dg_hex_encode dg) tenant blob,
      ev_tenant_id = tenant,
      ev_document_id = document_id,
      ev_actor = User ''user-1'',
      ev_version = 1,
      ev_ts = fixed_time 0,
      ev_payload = DocumentCreated
        \<lparr>dc_blob_ref = blob, dc_filename = ''report.pdf'', dc_content_type = ''application/pdf'',
         dc_byte_size = 1024, dc_checksum = ''sha256:aa'', dc_patch = empty_patch\<rparr>\<rparr>"

definition sample_validated_event ::
  "DigestCrates \<Rightarrow> string \<Rightarrow> string \<Rightarrow> string \<Rightarrow> u64 \<Rightarrow> DocumentEvent" where
  "sample_validated_event dg tenant document_id blob version =
     \<lparr>ev_v = DOCUMENT_CONTRACT_VERSION,
      ev_event_id = blob_validated_event_id (dg_sha256 dg) (dg_hex_encode dg) tenant blob,
      ev_tenant_id = tenant,
      ev_document_id = document_id,
      ev_actor = System ''document-worker'',
      ev_version = version,
      ev_ts = fixed_time 1,
      ev_payload = DocumentBlobValidated
        \<lparr>bv_blob_ref = blob, bv_filename = ''report.pdf'', bv_content_type = ''application/pdf'',
         bv_byte_size = 2048, bv_checksum = ''sha256:bb'', bv_patch = empty_patch,
         bv_based_on_version = Some (version - 1)\<rparr>\<rparr>"

section \<open>Event store\<close>

record EventStoreState =
  me_streams :: "(string \<times> string) \<rightharpoonup> stream"
  me_seen :: "(string \<times> string \<times> string) \<rightharpoonup> u64"
  me_head :: u64
  me_conflicts_remaining :: u64
  me_always_conflict :: bool
  me_unavailable :: bool

definition empty_events :: EventStoreState where
  "empty_events = \<lparr>me_streams = Map.empty, me_seen = Map.empty, me_head = 0,
     me_conflicts_remaining = 0, me_always_conflict = False, me_unavailable = False\<rparr>"

definition inject_conflict_once :: "EventStoreState \<Rightarrow> EventStoreState" where
  "inject_conflict_once st = st\<lparr>me_conflicts_remaining := me_conflicts_remaining st + 1\<rparr>"

definition always_conflict :: "EventStoreState \<Rightarrow> EventStoreState" where
  "always_conflict st = st\<lparr>me_always_conflict := True\<rparr>"

definition set_unavailable :: "bool \<Rightarrow> EventStoreState \<Rightarrow> EventStoreState" where
  "set_unavailable b st = st\<lparr>me_unavailable := b\<rparr>"

definition mem_stream :: "EventStoreState \<Rightarrow> string \<Rightarrow> string \<Rightarrow> stream" where
  "mem_stream st tenant document_id =
     (case me_streams st (tenant, document_id) of Some l \<Rightarrow> l | None \<Rightarrow> [])"

definition event_count :: "EventStoreState \<Rightarrow> string \<Rightarrow> string \<Rightarrow> nat" where
  "event_count st tenant document_id = length (mem_stream st tenant document_id)"

definition mem_append ::
  "DocumentEvent \<Rightarrow> Expect \<Rightarrow> (EventStoreState, (Appended, EventStoreError) result) state" where
  "mem_append event expect = State (\<lambda>st.
     let stream_key = (ev_tenant_id event, ev_document_id event);
         dedupe_key = (ev_tenant_id event, ev_document_id event, ev_event_id event);
         events = mem_stream st (ev_tenant_id event) (ev_document_id event)
     in if me_unavailable st then (Err (ESUnavailable ''injected''), st)
     else (case me_seen st dedupe_key of
         Some sequence \<Rightarrow>
           (Ok \<lparr>ap_stream_seq = sequence,
                ap_version = (case find (\<lambda>(s, _). s = sequence) events of
                    Some (_, existing) \<Rightarrow> ev_version existing | None \<Rightarrow> ev_version event),
                ap_duplicate = True\<rparr>, st)
       | None \<Rightarrow>
           if me_always_conflict st then (Err ESConflict, st)
           else if me_conflicts_remaining st > 0
           then (Err ESConflict, st\<lparr>me_conflicts_remaining := me_conflicts_remaining st - 1\<rparr>)
           else if last_seq events \<noteq> expected_seq expect then (Err ESConflict, st)
           else (let sequence = me_head st + 1
             in (Ok \<lparr>ap_stream_seq = sequence, ap_version = ev_version event, ap_duplicate = False\<rparr>,
                 st\<lparr>me_head := sequence, me_seen := (me_seen st)(dedupe_key \<mapsto> sequence),
                    me_streams := (me_streams st)(stream_key \<mapsto> events @ [(sequence, event)])\<rparr>))))"

definition mem_last ::
  "string \<Rightarrow> string \<Rightarrow> (EventStoreState, ((u64 \<times> u64) option, EventStoreError) result) state" where
  "mem_last tenant document_id = State (\<lambda>st.
     if me_unavailable st then (Err (ESUnavailable ''injected''), st)
     else (Ok (stream_head (mem_stream st tenant document_id)), st))"

definition mem_read_stream ::
  "string \<Rightarrow> string \<Rightarrow> (EventStoreState, (stream, EventStoreError) result) state" where
  "mem_read_stream tenant document_id = State (\<lambda>st.
     if me_unavailable st then (Err (ESUnavailable ''injected''), st)
     else (Ok (mem_stream st tenant document_id), st))"

section \<open>Blob store\<close>

record BlobState =
  mb_multiparts :: "(string \<times> string) \<rightharpoonup> UploadedPart list"
  mb_objects :: "string \<rightharpoonup> bytes \<times> datetime"
  mb_next_multipart :: u64
  mb_complete_error :: "BlobError option"
  mb_assembled :: "string \<rightharpoonup> u16 list"
  mb_deleted :: "string list"
  mb_aborted :: "string list"

definition empty_blobs :: BlobState where
  "empty_blobs = \<lparr>mb_multiparts = Map.empty, mb_objects = Map.empty, mb_next_multipart = 0,
     mb_complete_error = None, mb_assembled = Map.empty, mb_deleted = [], mb_aborted = []\<rparr>"

definition put_object :: "string \<Rightarrow> bytes \<Rightarrow> datetime \<Rightarrow> BlobState \<Rightarrow> BlobState" where
  "put_object key b at_time st = st\<lparr>mb_objects := (mb_objects st)(key \<mapsto> (b, at_time))\<rparr>"

definition object :: "BlobState \<Rightarrow> string \<Rightarrow> bytes option" where
  "object st key = map_option fst (mb_objects st key)"

definition fail_complete_with :: "BlobError \<Rightarrow> BlobState \<Rightarrow> BlobState" where
  "fail_complete_with e st = st\<lparr>mb_complete_error := Some e\<rparr>"

definition multipart_parts :: "BlobState \<Rightarrow> string \<Rightarrow> string \<Rightarrow> UploadedPart list" where
  "multipart_parts st key upload =
     (case mb_multiparts st (key, upload) of Some ps \<Rightarrow> ps | None \<Rightarrow> [])"

definition upload_part :: "string \<Rightarrow> string \<Rightarrow> UploadedPart \<Rightarrow> BlobState \<Rightarrow> BlobState" where
  "upload_part key upload part st = st\<lparr>mb_multiparts :=
     (mb_multiparts st)((key, upload) \<mapsto> multipart_parts st key upload @ [part])\<rparr>"

definition drop_multipart :: "string \<Rightarrow> string \<Rightarrow> BlobState \<Rightarrow> BlobState" where
  "drop_multipart key upload st = st\<lparr>mb_multiparts := (mb_multiparts st)((key, upload) := None)\<rparr>"

definition begin_multipart_as :: "string \<Rightarrow> string \<Rightarrow> BlobState \<Rightarrow> BlobState" where
  "begin_multipart_as key upload st = st\<lparr>mb_multiparts :=
     (mb_multiparts st)((key, upload) \<mapsto> multipart_parts st key upload)\<rparr>"

definition open_multipart_count :: "BlobState \<Rightarrow> nat" where
  "open_multipart_count st = card (dom (mb_multiparts st))"

definition mem_begin_multipart ::
  "string \<Rightarrow> string \<Rightarrow> (BlobState, (string, BlobError) result) state" where
  "mem_begin_multipart key content_type = State (\<lambda>st.
     let n = mb_next_multipart st + 1; upload = ''mp-'' @ show_u64 n
     in (Ok upload, st\<lparr>mb_next_multipart := n,
           mb_multiparts := (mb_multiparts st)((key, upload) \<mapsto> [])\<rparr>))"

definition mem_presign_part ::
  "string \<Rightarrow> string \<Rightarrow> u16 \<Rightarrow> duration \<Rightarrow> (BlobState, (PresignedPart, BlobError) result) state" where
  "mem_presign_part key upload part ttl = ret (Ok
     \<lparr>pp_part_number = part,
      pp_url = ''https://blobs.test/'' @ key @ ''?uploadId='' @ upload @ ''&partNumber='' @ show_u64 part,
      pp_expires_at = fixed_time (int ttl)\<rparr>)"

definition mem_list_parts ::
  "string \<Rightarrow> string \<Rightarrow> (BlobState, (UploadedPart list option, BlobError) result) state" where
  "mem_list_parts key upload = State (\<lambda>st. (Ok (mb_multiparts st (key, upload)), st))"

text \<open>The loop of \<open>complete_multipart\<close> over the submitted parts.\<close>

fun assemble_bytes :: "UploadedPart list \<Rightarrow> CompletedPart list \<Rightarrow> (bytes, BlobError) result" where
  "assemble_bytes uploaded [] = Ok []"
| "assemble_bytes uploaded (part # parts) =
     (case find (\<lambda>u. up_part_number u = cp_part_number part) uploaded of
        None \<Rightarrow> Err (blob_error InvalidParts
          (''part '' @ show_u64 (cp_part_number part) @ '' was never uploaded''))
      | Some found \<Rightarrow>
          if up_etag found \<noteq> cp_etag part
          then Err (blob_error InvalidParts (''etag mismatch on part '' @ show_u64 (cp_part_number part)))
          else (case assemble_bytes uploaded parts of
              Ok rest \<Rightarrow> Ok (replicate (unat (up_size found)) CHR ''x'' @ rest)
            | Err e \<Rightarrow> Err e))"

definition mem_complete_multipart ::
  "string \<Rightarrow> string \<Rightarrow> CompletedPart list \<Rightarrow> (BlobState, (unit, BlobError) result) state" where
  "mem_complete_multipart key upload parts = State (\<lambda>st.
     case mb_complete_error st of
       Some error \<Rightarrow> (Err error, st)
     | None \<Rightarrow> (case mb_multiparts st (key, upload) of
         None \<Rightarrow> (Err (blob_error NoSuchUpload ''no such multipart upload''), st)
       | Some uploaded \<Rightarrow>
           (let st = drop_multipart key upload st;
                st = st\<lparr>mb_assembled := (mb_assembled st)(key \<mapsto> map cp_part_number parts)\<rparr>
            in case assemble_bytes uploaded parts of
                Err error \<Rightarrow> (Err error, st)
              | Ok b \<Rightarrow> (Ok (), put_object key b (fixed_time 0) st))))"

definition mem_abort_multipart ::
  "string \<Rightarrow> string \<Rightarrow> (BlobState, (unit, BlobError) result) state" where
  "mem_abort_multipart key upload = State (\<lambda>st.
     (Ok (), (drop_multipart key upload st)\<lparr>mb_aborted := mb_aborted st @ [key]\<rparr>))"

definition mem_head :: "string \<Rightarrow> (BlobState, (BlobHead option, BlobError) result) state" where
  "mem_head key = State (\<lambda>st.
     (Ok (map_option (\<lambda>(b, at_time). \<lparr>bh_byte_size = of_nat (length b), bh_content_type = None,
        bh_last_modified = at_time\<rparr>) (mb_objects st key)), st))"

definition mem_open_read :: "string \<Rightarrow> (BlobState, (AsyncRead, BlobError) result) state" where
  "mem_open_read key = State (\<lambda>st.
     (case object st key of
        Some b \<Rightarrow> Ok [Ok b]
      | None \<Rightarrow> Err (blob_error BlobNotFound ''no such object''), st))"

definition mem_read_prefix :: "string \<Rightarrow> nat \<Rightarrow> (BlobState, (bytes, BlobError) result) state" where
  "mem_read_prefix key len = State (\<lambda>st.
     (case object st key of
        Some b \<Rightarrow> Ok (take len b)
      | None \<Rightarrow> Err (blob_error BlobNotFound ''no such object''), st))"

definition mem_delete_object :: "string \<Rightarrow> (BlobState, (unit, BlobError) result) state" where
  "mem_delete_object key = State (\<lambda>st.
     (Ok (), st\<lparr>mb_objects := (mb_objects st)(key := None), mb_deleted := mb_deleted st @ [key]\<rparr>))"

section \<open>Upload records\<close>

record UploadStateInner =
  mu_entries :: "string \<rightharpoonup> StoredUpload"
  mu_conflict_once :: "UploadStatus option"

definition empty_uploads :: UploadStateInner where
  "empty_uploads = \<lparr>mu_entries = Map.empty, mu_conflict_once = None\<rparr>"

definition seed :: "UploadState \<Rightarrow> UploadStateInner \<Rightarrow> UploadStateInner" where
  "seed state st = st\<lparr>mu_entries := (mu_entries st)(own_key state \<mapsto> \<lparr>su_state = state, su_revision = 1\<rparr>)\<rparr>"

definition snapshot :: "UploadStateInner \<Rightarrow> string \<Rightarrow> string \<Rightarrow> string \<Rightarrow> UploadState option" where
  "snapshot st tenant user upload_id =
     map_option su_state (mu_entries st (upload_key tenant user upload_id))"

definition uploads_len :: "UploadStateInner \<Rightarrow> nat" where
  "uploads_len st = card (dom (mu_entries st))"

definition expire_all :: "UploadStateInner \<Rightarrow> UploadStateInner" where
  "expire_all st = st\<lparr>mu_entries := Map.empty\<rparr>"

definition fail_next_update_with_conflict :: "UploadStatus \<Rightarrow> UploadStateInner \<Rightarrow> UploadStateInner" where
  "fail_next_update_with_conflict winner st = st\<lparr>mu_conflict_once := Some winner\<rparr>"

definition mem_create :: "UploadState \<Rightarrow> (UploadStateInner, (unit, ContextError) result) state" where
  "mem_create state = State (\<lambda>st.
     if mu_entries st (own_key state) \<noteq> None then (Err CtxAlreadyExists, st)
     else (Ok (), seed state st))"

definition mem_get ::
  "string \<Rightarrow> string \<Rightarrow> string \<Rightarrow> (UploadStateInner, (StoredUpload option, ContextError) result) state" where
  "mem_get tenant user upload_id = State (\<lambda>st.
     (Ok (mu_entries st (upload_key tenant user upload_id)), st))"

definition mem_update :: "UploadState \<Rightarrow> u64 \<Rightarrow> (UploadStateInner, (u64, ContextError) result) state" where
  "mem_update state revision = State (\<lambda>st.
     let key = own_key state in
     case mu_conflict_once st of
       Some winner \<Rightarrow>
         (Err CtxConflict,
          (case mu_entries st key of
             None \<Rightarrow> st
           | Some stored \<Rightarrow> st\<lparr>mu_entries := (mu_entries st)(key \<mapsto>
               \<lparr>su_state = (su_state stored)\<lparr>us_status := winner\<rparr>, su_revision = su_revision stored + 1\<rparr>)\<rparr>)
          \<lparr>mu_conflict_once := None\<rparr>)
     | None \<Rightarrow> (case mu_entries st key of
         None \<Rightarrow> (Err CtxExpired, st)
       | Some stored \<Rightarrow>
           if su_revision stored \<noteq> revision then (Err CtxConflict, st)
           else (Ok (su_revision stored + 1), st\<lparr>mu_entries := (mu_entries st)(key \<mapsto>
               \<lparr>su_state = state, su_revision = su_revision stored + 1\<rparr>)\<rparr>)))"

definition mem_delete_record ::
  "string \<Rightarrow> string \<Rightarrow> string \<Rightarrow> (UploadStateInner, (unit, ContextError) result) state" where
  "mem_delete_record tenant user upload_id = State (\<lambda>st.
     (Ok (), st\<lparr>mu_entries := (mu_entries st)(upload_key tenant user upload_id := None)\<rparr>))"

section \<open>Read model\<close>

record ReadModelState =
  mr_documents :: "((string \<times> string) \<times> DocumentState) list"
  mr_checkpoint :: "(u64 \<times> datetime) option"

definition empty_documents :: ReadModelState where
  "empty_documents = \<lparr>mr_documents = [], mr_checkpoint = None\<rparr>"

definition upsert :: "DocumentState \<Rightarrow> ReadModelState \<Rightarrow> ReadModelState" where
  "upsert document st = st\<lparr>mr_documents :=
     AList.update (ds_tenant_id document, ds_document_id document) document (mr_documents st)\<rparr>"

definition set_checkpoint :: "u64 \<Rightarrow> datetime \<Rightarrow> ReadModelState \<Rightarrow> ReadModelState" where
  "set_checkpoint stream_seq updated_at st = st\<lparr>mr_checkpoint := Some (stream_seq, updated_at)\<rparr>"

definition clear_checkpoint :: "ReadModelState \<Rightarrow> ReadModelState" where
  "clear_checkpoint st = st\<lparr>mr_checkpoint := None\<rparr>"

text \<open>\<open>project\<close> panics on a stream that does not fold; here it then has no result.\<close>

definition project :: "stream \<Rightarrow> ReadModelState \<Rightarrow> ReadModelState option" where
  "project events st = (case fold_history events of
      Err _ \<Rightarrow> None
    | Ok None \<Rightarrow> Some st
    | Ok (Some document) \<Rightarrow>
        Some (set_checkpoint (last_seq events) (fixed_time 0) (upsert document st)))"

definition mem_get_document ::
  "string \<Rightarrow> string \<Rightarrow> (ReadModelState, (DocumentState option, ReadError) result) state" where
  "mem_get_document tenant document_id = State (\<lambda>st.
     (Ok (map_of (mr_documents st) (tenant, document_id)), st))"

text \<open>\<open>sort_by_key\<close> on the reversed key is a stable sort into descending order.\<close>

definition sort_desc :: "DocumentState list \<Rightarrow> DocumentState list" where
  "sort_desc ds = rev (sort_key list_key (rev ds))"

definition mem_list ::
  "string \<Rightarrow> u32 \<Rightarrow> DocumentCursor option \<Rightarrow>
     (ReadModelState, (DocumentState list, ReadError) result) state" where
  "mem_list tenant limit after = State (\<lambda>st.
     let items = filter (\<lambda>doc. case after of None \<Rightarrow> True | Some cursor \<Rightarrow> list_key doc < cursor)
           (filter (\<lambda>doc. ds_tenant_id doc = tenant) (map snd (mr_documents st)))
     in (Ok (take (unat limit) (sort_desc items)), st))"

section \<open>Work queue, scanner, validator, clock and ids\<close>

definition mem_publish :: "UploadCompleted \<Rightarrow> (UploadCompleted list, (unit, QueueError) result) state" where
  "mem_publish cmd = State (\<lambda>published.
     if list_ex (\<lambda>existing. uc_command_id existing = uc_command_id cmd) published
     then (Ok (), published) else (Ok (), published @ [cmd]))"

text \<open>\<open>read_to_end\<close>: an empty chunk is the end of the file.\<close>

fun read_to_end :: "AsyncRead \<Rightarrow> (bytes, string) result" where
  "read_to_end [] = Ok []"
| "read_to_end (Err e # _) = Err e"
| "read_to_end (Ok c # r) = (if c = [] then Ok []
     else (case read_to_end r of Ok rest \<Rightarrow> Ok (c @ rest) | Err e \<Rightarrow> Err e))"

definition stub_scan :: "DigestCrates \<Rightarrow> bool \<Rightarrow> AsyncRead \<Rightarrow> (ScanOutcome, ScanError) result" where
  "stub_scan dg force_infected blob = (case read_to_end blob of
      Err e \<Rightarrow> Err (ScanRead e)
    | Ok b \<Rightarrow> Ok
        \<lparr>so_verdict = (if force_infected then Infected ''Test.Forced'' else Clean),
         so_sha256_hex = sha256_hex (dg_sha256 dg) (dg_hex_encode dg) b,
         so_byte_count = of_nat (length b)\<rparr>)"

definition stub_validate ::
  "ContentVerdict \<Rightarrow> BlobHead \<Rightarrow> bytes \<Rightarrow> DeclaredContent \<Rightarrow> (ContentVerdict, ValidateError) result" where
  "stub_validate verdict head start declared = Ok verdict"

definition advance :: "u64 \<Rightarrow> u64 \<Rightarrow> u64" where
  "advance secs offset = offset + secs"

definition mem_now :: "(u64, datetime) state" where
  "mem_now = State (\<lambda>offset. (fixed_time (sint offset), offset))"

definition show_pad4 :: "u64 \<Rightarrow> string" where
  "show_pad4 n = (let d = show_u64 n in replicate (4 - length d) CHR ''0'' @ d)"

definition mem_ulid :: "(u64, string) state" where
  "mem_ulid = State (\<lambda>next_id. (''id-'' @ show_pad4 (next_id + 1), next_id + 1))"

end
