(* ===== verification/World.thy ===== *)
theory World
  imports Memory
begin

text \<open>
  The world the ports of Memory share, with other processes in it. The world is a pair: the
  stores, and the actions the environment will take, one before each port call. An empty list
  of actions is a world the caller has to itself. The ports run their operation on one store
  after the environment has acted, which is what the mutexes of the source allow.

  \<open>well_behaved\<close> is what is relied on of the environment: the log only grows, a record follows its
  life cycle and gets a new revision whenever it is written. The contracts of the worker are
  interpreted on these ports, for every such environment.
\<close>

section \<open>The shared world\<close>

record MemWorld =
  w_events :: EventStoreState
  w_blobs :: BlobState
  w_uploads :: UploadStateInner
  w_documents :: ReadModelState
  w_queue :: "UploadCompleted list"
  w_clock :: u64
  w_ids :: u64

type_synonym Shared = "MemWorld shared"

definition empty_world :: MemWorld where
  "empty_world = \<lparr>w_events = empty_events, w_blobs = empty_blobs, w_uploads = empty_uploads,
     w_documents = empty_documents, w_queue = [], w_clock = 0, w_ids = 0\<rparr>"

abbreviation "on_events \<equiv> locked w_events (\<lambda>s w. w\<lparr>w_events := s\<rparr>)"
abbreviation "on_blobs \<equiv> locked w_blobs (\<lambda>s w. w\<lparr>w_blobs := s\<rparr>)"
abbreviation "on_uploads \<equiv> locked w_uploads (\<lambda>s w. w\<lparr>w_uploads := s\<rparr>)"
abbreviation "on_documents \<equiv> locked w_documents (\<lambda>s w. w\<lparr>w_documents := s\<rparr>)"
abbreviation "on_queue \<equiv> locked w_queue (\<lambda>s w. w\<lparr>w_queue := s\<rparr>)"
abbreviation "on_clock \<equiv> locked w_clock (\<lambda>s w. w\<lparr>w_clock := s\<rparr>)"
abbreviation "on_ids \<equiv> locked w_ids (\<lambda>s w. w\<lparr>w_ids := s\<rparr>)"

definition MemoryEventStore :: "Shared EventStore" where
  "MemoryEventStore = \<lparr>es_append = (\<lambda>e x. on_events (mem_append e x)),
     es_last = (\<lambda>t d. on_events (mem_last t d)),
     es_read_stream = (\<lambda>t d. on_events (mem_read_stream t d))\<rparr>"

definition MemoryBlobStore :: "Shared BlobStore" where
  "MemoryBlobStore = \<lparr>bs_begin_multipart = (\<lambda>k c. on_blobs (mem_begin_multipart k c)),
     bs_presign_part = (\<lambda>k u p ttl. on_blobs (mem_presign_part k u p ttl)),
     bs_list_parts = (\<lambda>k u. on_blobs (mem_list_parts k u)),
     bs_complete_multipart = (\<lambda>k u ps. on_blobs (mem_complete_multipart k u ps)),
     bs_abort_multipart = (\<lambda>k u. on_blobs (mem_abort_multipart k u)),
     bs_head = (\<lambda>k. on_blobs (mem_head k)),
     bs_open_read = (\<lambda>k. on_blobs (mem_open_read k)),
     bs_read_prefix = (\<lambda>k n. on_blobs (mem_read_prefix k n)),
     bs_delete = (\<lambda>k. on_blobs (mem_delete_object k))\<rparr>"

definition MemoryUploadStateStore :: "Shared UploadStateStore" where
  "MemoryUploadStateStore = \<lparr>ss_create = (\<lambda>s. on_uploads (mem_create s)),
     ss_get = (\<lambda>t u i. on_uploads (mem_get t u i)),
     ss_update = (\<lambda>s v. on_uploads (mem_update s v)),
     ss_delete = (\<lambda>t u i. on_uploads (mem_delete_record t u i))\<rparr>"

definition MemoryReadModel :: "Shared DocumentReadModel" where
  "MemoryReadModel = \<lparr>rm_get = (\<lambda>t d. on_documents (mem_get_document t d)),
     rm_list = (\<lambda>t n c. on_documents (mem_list t n c))\<rparr>"

definition MemoryWorkQueue :: "Shared WorkQueue" where
  "MemoryWorkQueue = \<lparr>wq_publish_upload_completed = (\<lambda>c. on_queue (mem_publish c))\<rparr>"

definition StubScanner :: "DigestCrates \<Rightarrow> bool \<Rightarrow> Shared BlobScanner" where
  "StubScanner dg force_infected = \<lparr>sc_scan = (\<lambda>blob. ret (stub_scan dg force_infected blob))\<rparr>"

definition StubValidator :: "ContentVerdict \<Rightarrow> Shared ContentValidator" where
  "StubValidator verdict = \<lparr>cv_validate = (\<lambda>h p d. ret (stub_validate verdict h p d))\<rparr>"

definition FixedClock :: "Shared Clock" where
  "FixedClock = \<lparr>ck_now = on_clock mem_now\<rparr>"

definition SeqIdGen :: "Shared IdGen" where
  "SeqIdGen = \<lparr>ig_ulid = on_ids mem_ulid\<rparr>"

definition mem_finisher :: "DigestCrates \<Rightarrow> bool \<Rightarrow> ContentVerdict \<Rightarrow> Shared UploadFinisher" where
  "mem_finisher dg force_infected verdict = \<lparr>uf_blobs = MemoryBlobStore,
     uf_scanner = StubScanner dg force_infected, uf_validator = StubValidator verdict,
     uf_events = MemoryEventStore, uf_uploads = MemoryUploadStateStore, uf_clock = FixedClock\<rparr>"

lemmas port_defs = MemoryEventStore_def MemoryBlobStore_def MemoryUploadStateStore_def
  MemoryReadModel_def MemoryWorkQueue_def StubScanner_def StubValidator_def FixedClock_def
  SeqIdGen_def mem_finisher_def

lemmas mem_op_defs = mem_append_def mem_last_def mem_read_stream_def mem_begin_multipart_def
  mem_presign_part_def mem_list_parts_def mem_complete_multipart_def mem_abort_multipart_def
  mem_head_def mem_open_read_def mem_read_prefix_def mem_delete_object_def mem_create_def
  mem_get_def mem_update_def mem_delete_record_def mem_get_document_def mem_list_def
  mem_publish_def mem_now_def mem_ulid_def

text \<open>The ports in a world the caller has to itself.\<close>

lemma run_events_alone [simp]:
  "run_state (es_append MemoryEventStore e x) (w, []) = run_state (on_events (mem_append e x)) (w, [])"
  "run_state (es_last MemoryEventStore t d) (w, []) = run_state (on_events (mem_last t d)) (w, [])"
  "run_state (es_read_stream MemoryEventStore t d) (w, []) = run_state (on_events (mem_read_stream t d)) (w, [])"
  by (simp_all add: MemoryEventStore_def)

lemma run_blobs_alone [simp]:
  "run_state (bs_begin_multipart MemoryBlobStore k c) (w, []) = run_state (on_blobs (mem_begin_multipart k c)) (w, [])"
  "run_state (bs_presign_part MemoryBlobStore k u p ttl) (w, []) = run_state (on_blobs (mem_presign_part k u p ttl)) (w, [])"
  "run_state (bs_list_parts MemoryBlobStore k u) (w, []) = run_state (on_blobs (mem_list_parts k u)) (w, [])"
  "run_state (bs_complete_multipart MemoryBlobStore k u ps) (w, []) =
     run_state (on_blobs (mem_complete_multipart k u ps)) (w, [])"
  "run_state (bs_abort_multipart MemoryBlobStore k u) (w, []) = run_state (on_blobs (mem_abort_multipart k u)) (w, [])"
  "run_state (bs_head MemoryBlobStore k) (w, []) = run_state (on_blobs (mem_head k)) (w, [])"
  "run_state (bs_open_read MemoryBlobStore k) (w, []) = run_state (on_blobs (mem_open_read k)) (w, [])"
  "run_state (bs_read_prefix MemoryBlobStore k n) (w, []) = run_state (on_blobs (mem_read_prefix k n)) (w, [])"
  "run_state (bs_delete MemoryBlobStore k) (w, []) = run_state (on_blobs (mem_delete_object k)) (w, [])"
  by (simp_all add: MemoryBlobStore_def)

lemma run_uploads_alone [simp]:
  "run_state (ss_create MemoryUploadStateStore s) (w, []) = run_state (on_uploads (mem_create s)) (w, [])"
  "run_state (ss_get MemoryUploadStateStore t u i) (w, []) = run_state (on_uploads (mem_get t u i)) (w, [])"
  "run_state (ss_update MemoryUploadStateStore s v) (w, []) = run_state (on_uploads (mem_update s v)) (w, [])"
  "run_state (ss_delete MemoryUploadStateStore t u i) (w, []) = run_state (on_uploads (mem_delete_record t u i)) (w, [])"
  by (simp_all add: MemoryUploadStateStore_def)

lemma run_reads_alone [simp]:
  "run_state (rm_get MemoryReadModel t d) (w, []) = run_state (on_documents (mem_get_document t d)) (w, [])"
  "run_state (rm_list MemoryReadModel t n c) (w, []) = run_state (on_documents (mem_list t n c)) (w, [])"
  "run_state (wq_publish_upload_completed MemoryWorkQueue cmd) (w, []) = run_state (on_queue (mem_publish cmd)) (w, [])"
  "run_state (sc_scan (StubScanner dg forced) rd) (w, []) = (stub_scan dg forced rd, (w, []))"
  "run_state (cv_validate (StubValidator verdict) h p dc) (w, []) = (stub_validate verdict h p dc, (w, []))"
  "run_state (ck_now FixedClock) (w, []) = (fixed_time (sint (w_clock w)), (w, []))"
  "run_state (ig_ulid SeqIdGen) (w, []) = run_state (on_ids mem_ulid) (w, [])"
  by (simp_all add: MemoryReadModel_def MemoryWorkQueue_def StubScanner_def StubValidator_def FixedClock_def
      SeqIdGen_def mem_now_def)

lemma mem_finisher_simps [simp]:
  "uf_blobs (mem_finisher dg forced verdict) = MemoryBlobStore"
  "uf_scanner (mem_finisher dg forced verdict) = StubScanner dg forced"
  "uf_validator (mem_finisher dg forced verdict) = StubValidator verdict"
  "uf_events (mem_finisher dg forced verdict) = MemoryEventStore"
  "uf_uploads (mem_finisher dg forced verdict) = MemoryUploadStateStore"
  "uf_clock (mem_finisher dg forced verdict) = FixedClock"
  by (simp_all add: mem_finisher_def)

text \<open>A status transition on a record nobody else is writing.\<close>

definition put_record :: "string \<Rightarrow> StoredUpload \<Rightarrow> MemWorld \<Rightarrow> MemWorld" where
  "put_record k st w = w\<lparr>w_uploads := (w_uploads w)\<lparr>mu_entries := (mu_entries (w_uploads w))(k \<mapsto> st)\<rparr>\<rparr>"

lemma run_set_status_alone:
  assumes "mu_conflict_once (w_uploads w) = None"
    and "\<And>st. mu_entries (w_uploads w) (upload_key t u i) = Some st \<Longrightarrow> own_key (su_state st) = upload_key t u i"
  shows "run_state (set_status MemoryUploadStateStore t u i status now) (w, []) =
    (case mu_entries (w_uploads w) (upload_key t u i) of
       None \<Rightarrow> (Ok Expired, (w, []))
     | Some st \<Rightarrow> if is_terminal (us_status (su_state st)) then (Ok (AlreadyTerminal (su_state st)), (w, []))
         else (Ok (Applied (with_status (su_state st) status now)),
           (put_record (upload_key t u i) \<lparr>su_state = with_status (su_state st) status now,
              su_revision = su_revision st + 1\<rparr> w, [])))"
  using assms
  by (auto simp: set_status_def CAS_ATTEMPTS_def numeral_3_eq_3 run_state_attempt mem_get_def mem_update_def
      put_record_def Let_def split: option.split)

section \<open>Rely and guarantee\<close>

abbreviation stream_of :: "MemWorld \<Rightarrow> string \<Rightarrow> string \<Rightarrow> stream" where
  "stream_of w \<equiv> mem_stream (w_events w)"

abbreviation record_of :: "MemWorld \<Rightarrow> string \<Rightarrow> StoredUpload option" where
  "record_of w \<equiv> mu_entries (w_uploads w)"

text \<open>The deduplication table only names events of the log, records sit under their own key,
  and no competing write is scheduled inside the record store itself.\<close>

definition coherent :: "MemWorld \<Rightarrow> bool" where
  "coherent w =
     ((\<forall>t d i. me_seen (w_events w) (t, d, i) \<noteq> None \<longrightarrow> has_event_id (stream_of w t d) i)
    \<and> (\<forall>k st. record_of w k = Some st \<longrightarrow> own_key (su_state st) = k)
    \<and> mu_conflict_once (w_uploads w) = None)"

definition moves :: "MemWorld \<Rightarrow> MemWorld \<Rightarrow> bool" where
  "moves w w' = ((\<forall>t d. prefix (stream_of w t d) (stream_of w' t d))
    \<and> (\<forall>k. evolves (record_of w k) (record_of w' k)) \<and> (coherent w \<longrightarrow> coherent w'))"

text \<open>A write to a record gives it a revision it did not have.\<close>

definition revises :: "MemWorld \<Rightarrow> MemWorld \<Rightarrow> bool" where
  "revises w w' = (\<forall>k a b. record_of w k = Some a \<longrightarrow> record_of w' k = Some b \<longrightarrow>
     su_revision a = su_revision b \<longrightarrow> a = b)"

definition well_behaved :: "(MemWorld \<Rightarrow> MemWorld) \<Rightarrow> bool" where
  "well_behaved e = (\<forall>w. coherent w \<longrightarrow> moves w (e w) \<and> revises w (e w))"

fun shared_inv :: "Shared \<Rightarrow> bool" where
  "shared_inv (w, es) = (coherent w \<and> (\<forall>e \<in> set es. well_behaved e))"

fun shared_moves :: "Shared \<Rightarrow> Shared \<Rightarrow> bool" where
  "shared_moves (w, es) (w', es') = (moves w w' \<and> set es' \<subseteq> set es)"

lemma moves_refl [simp]: "moves w w"
  by (simp add: moves_def)

lemma moves_trans: "moves u v \<Longrightarrow> moves v w \<Longrightarrow> moves u w"
  unfolding moves_def using prefix_order.trans evolves_trans by blast

lemma moves_coherent: "moves w w' \<Longrightarrow> coherent w \<Longrightarrow> coherent w'"
  by (simp add: moves_def)

lemma moves_stream: "moves w w' \<Longrightarrow> prefix (stream_of w t d) (stream_of w' t d)"
  by (simp add: moves_def)

lemma moves_record: "moves w w' \<Longrightarrow> evolves (record_of w k) (record_of w' k)"
  by (simp add: moves_def)

lemma revises_refl [simp]: "revises w w"
  by (simp add: revises_def)

text \<open>One port call: the environment's step, then the operation on a coherent world.\<close>

lemma locked_run:
  assumes "shared_inv (w, es)" "run_state (locked get put m) (w, es) = (a, y)"
  obtains v es' s where "coherent v" "moves w v" "revises w v" "set es' \<subseteq> set es"
    "\<forall>e \<in> set es'. well_behaved e" "run_state m (get v) = (a, s)" "y = (put s v, es')"
proof (cases es)
  case Nil
  with assms that [of w "[]"] show ?thesis by (auto simp: locked_def split: prod.splits)
next
  case (Cons e es')
  have "coherent (e w)" "moves w (e w)" "revises w (e w)"
    using assms(1) by (auto simp: Cons well_behaved_def moves_def)
  then show ?thesis using assms that [of "e w" es'] by (auto simp: Cons locked_def split: prod.splits)
qed

lemma rg_locked:
  assumes "\<And>w a s. coherent w \<Longrightarrow> run_state m (get w) = (a, s) \<Longrightarrow> moves w (put s w) \<and> Q a (put s w)"
  shows "rg shared_moves shared_inv (locked get put m) (\<lambda>a y. shared_inv y \<and> Q a (fst y))"
proof (rule rgI)
  fix x a y
  assume x: "shared_inv x" and run: "run_state (locked get put m) x = (a, y)"
  obtain w es where we: "x = (w, es)" by fastforce
  from locked_run [OF x [unfolded we] run [unfolded we]] obtain v es' s where
    v: "coherent v" "moves w v" "set es' \<subseteq> set es" "\<forall>e \<in> set es'. well_behaved e"
    and m: "run_state m (get v) = (a, s)" and y: "y = (put s v, es')"
    by metis
  have "moves v (put s v)" "Q a (put s v)" using assms [OF v(1) m] by auto
  moreover from this(1) have "coherent (put s v)" using v(1) by (simp add: moves_def)
  ultimately show "shared_moves x y \<and> shared_inv y \<and> Q a (fst y)"
    using v y we moves_trans by auto
qed

lemma moves_keeps: "w_events w' = w_events w \<Longrightarrow> w_uploads w' = w_uploads w \<Longrightarrow> moves w w'"
  by (simp add: moves_def coherent_def)

section \<open>The contracts hold\<close>

lemma events_step:
  assumes "coherent w" "\<And>t d. prefix (stream_of w t d) (mem_stream s t d)"
    "\<And>t d i. me_seen s (t, d, i) \<noteq> None \<Longrightarrow> has_event_id (mem_stream s t d) i"
  shows "moves w (w\<lparr>w_events := s\<rparr>)"
  using assms by (auto simp: moves_def coherent_def)

lemma uploads_step:
  assumes "coherent w" "\<And>k. evolves (record_of w k) (mu_entries s k)" "mu_conflict_once s = None"
    "\<And>k st. mu_entries s k = Some st \<Longrightarrow> own_key (su_state st) = k"
  shows "moves w (w\<lparr>w_uploads := s\<rparr>)"
  using assms by (auto simp: moves_def coherent_def)

lemma mem_stream_update:
  "mem_stream (st\<lparr>me_head := h, me_seen := sn, me_streams := (me_streams st)((a, b) \<mapsto> l)\<rparr>) t d =
     (if (t, d) = (a, b) then l else mem_stream st t d)"
  by (auto simp: mem_stream_def)

text \<open>The three ways an append can end.\<close>

lemma mem_append_cases:
  assumes "run_state (mem_append e x) st = (r, st')"
  obtains
    (unchanged) err where "r = Err err" "me_streams st' = me_streams st" "me_seen st' = me_seen st"
  | (duplicate) a q where "r = Ok a" "ap_duplicate a" "st' = st"
      "me_seen st (ev_tenant_id e, ev_document_id e, ev_event_id e) = Some q"
  | (appended) a where "r = Ok a" "\<not> ap_duplicate a" "ap_version a = ev_version e"
      "last_seq (mem_stream st (ev_tenant_id e) (ev_document_id e)) = expected_seq x"
      "st' = st\<lparr>me_head := ap_stream_seq a,
         me_seen := (me_seen st)((ev_tenant_id e, ev_document_id e, ev_event_id e) \<mapsto> ap_stream_seq a),
         me_streams := (me_streams st)((ev_tenant_id e, ev_document_id e) \<mapsto>
           mem_stream st (ev_tenant_id e) (ev_document_id e) @ [(ap_stream_seq a, e)])\<rparr>"
proof (cases "me_unavailable st")
  case True
  then show ?thesis using assms unchanged by (auto simp: mem_append_def)
next
  case avail: False
  let ?k = "(ev_tenant_id e, ev_document_id e, ev_event_id e)"
  show ?thesis
  proof (cases "me_seen st ?k")
    case (Some q)
    then show ?thesis using assms avail duplicate by (auto simp: mem_append_def Let_def)
  next
    case None
    show ?thesis
    proof (cases "me_always_conflict st \<or> me_conflicts_remaining st > 0 \<or>
        last_seq (mem_stream st (ev_tenant_id e) (ev_document_id e)) \<noteq> expected_seq x")
      case True
      then show ?thesis using assms avail None unchanged
        by (auto simp: mem_append_def Let_def split: if_splits)
    next
      case False
      then show ?thesis using assms avail None appended by (auto simp: mem_append_def Let_def)
    qed
  qed
qed

lemma mem_append_step:
  assumes w: "coherent w" and run: "run_state (mem_append e x) (w_events w) = (r, s)"
  shows "moves w (w\<lparr>w_events := s\<rparr>)"
  using run
proof (cases rule: mem_append_cases)
  case (unchanged err)
  then show ?thesis using w by (intro events_step) (auto simp: coherent_def mem_stream_def)
next
  case (duplicate a q)
  then show ?thesis by (simp add: moves_keeps)
next
  case (appended a)
  have old: "me_seen (w_events w) (t, d, i) \<noteq> None \<Longrightarrow> has_event_id (stream_of w t d) i" for t d i
    using w by (simp add: coherent_def)
  show ?thesis
  proof (rule events_step [OF w])
    show "prefix (stream_of w t d) (mem_stream s t d)" for t d
      using appended by (simp add: mem_stream_update)
    show "has_event_id (mem_stream s t d) i" if "me_seen s (t, d, i) \<noteq> None" for t d i
      using that appended old [of t d i] by (auto simp: mem_stream_update has_event_id_def split: if_splits)
  qed
qed

lemma shared_inv_moves: "shared_moves x y \<Longrightarrow> shared_inv x \<Longrightarrow> shared_inv y"
  by (cases x; cases y) (auto dest: moves_coherent)

lemma shared_guarantee: "guarantee shared_moves"
proof
  show "shared_moves x x" for x by (cases x) simp
  show "shared_moves x y \<Longrightarrow> shared_moves y z \<Longrightarrow> shared_moves x z" for x y z
    using moves_trans by (cases x; cases y; cases z) auto
qed

interpretation log: event_log shared_moves MemoryEventStore "\<lambda>x. stream_of (fst x)" shared_inv
proof (intro event_log.intro shared_guarantee event_log_axioms.intro)
  show "shared_inv y" if "shared_moves x y" "shared_inv x" for x y
    using that by (rule shared_inv_moves)
  show "prefix (stream_of (fst x) t d) (stream_of (fst y) t d)" if "shared_moves x y" for x y t d
    using that by (cases x; cases y) (auto intro: moves_stream)
next
  fix x y e ex r
  assume x: "shared_inv x" and run: "run_state (es_append MemoryEventStore e ex) x = (r, y)"
  have "rg shared_moves shared_inv (on_events (mem_append e ex)) (\<lambda>a y. shared_inv y \<and> True)"
    by (rule rg_locked) (simp add: mem_append_step)
  from rgD(1) [OF this x] run show "shared_moves x y" by (simp add: MemoryEventStore_def)
next
  fix x y e ex a
  assume x: "shared_inv x" and run: "run_state (es_append MemoryEventStore e ex) x = (Ok a, y)"
    and new: "\<not> ap_duplicate a"
  obtain w es where we: "x = (w, es)" by fastforce
  from locked_run [OF x [unfolded we] run [unfolded we MemoryEventStore_def, simplified]]
  obtain v es' s where v: "moves w v" "run_state (mem_append e ex) (w_events v) = (Ok a, s)"
    and y: "y = (v\<lparr>w_events := s\<rparr>, es')"
    by metis
  from v(2) new show "ap_version a = ev_version e \<and>
    (\<exists>l. prefix (stream_of (fst x) (ev_tenant_id e) (ev_document_id e)) l \<and> last_seq l = expected_seq ex \<and>
       stream_of (fst y) (ev_tenant_id e) (ev_document_id e) = l @ [(ap_stream_seq a, e)])"
    using v(1) by (cases rule: mem_append_cases) (auto simp: y we mem_stream_update moves_def)
next
  fix x y e ex a
  assume x: "shared_inv x" and run: "run_state (es_append MemoryEventStore e ex) x = (Ok a, y)"
    and dup: "ap_duplicate a"
  obtain w es where we: "x = (w, es)" by fastforce
  from locked_run [OF x [unfolded we] run [unfolded we MemoryEventStore_def, simplified]]
  obtain v es' s where v: "coherent v" "run_state (mem_append e ex) (w_events v) = (Ok a, s)"
    and y: "y = (v\<lparr>w_events := s\<rparr>, es')"
    by metis
  from v(2) dup show "has_event_id (stream_of (fst y) (ev_tenant_id e) (ev_document_id e)) (ev_event_id e)"
    using v(1) by (cases rule: mem_append_cases) (auto simp: y coherent_def)
next
  have last: "rg shared_moves shared_inv (es_last MemoryEventStore t d)
      (\<lambda>r y. shared_inv y \<and> (\<forall>h. r = Ok h \<longrightarrow> stream_head (stream_of (fst y) t d) = h))" for t d
    by (auto simp: MemoryEventStore_def mem_last_def moves_keeps intro!: rg_locked split: if_splits)
  show "shared_moves x y" if "shared_inv x" "run_state (es_last MemoryEventStore t d) x = (q, y)" for x t d q y
    using rgD(1) [OF last that] .
  show "stream_head (stream_of (fst y) t d) = h"
    if "shared_inv x" "run_state (es_last MemoryEventStore t d) x = (Ok h, y)" for x t d h y
    using rgD(2) [OF last that] by simp
next
  have read: "rg shared_moves shared_inv (es_read_stream MemoryEventStore t d)
      (\<lambda>r y. shared_inv y \<and> (\<forall>l. r = Ok l \<longrightarrow> l = stream_of (fst y) t d))" for t d
    by (auto simp: MemoryEventStore_def mem_read_stream_def moves_keeps intro!: rg_locked split: if_splits)
  show "shared_moves x y" if "shared_inv x" "run_state (es_read_stream MemoryEventStore t d) x = (q, y)" for x t d q y
    using rgD(1) [OF read that] .
  show "l = stream_of (fst y) t d"
    if "shared_inv x" "run_state (es_read_stream MemoryEventStore t d) x = (Ok l, y)" for x t d l y
    using rgD(2) [OF read that] by simp
qed

text \<open>The ways a compare-and-swap can end when no competing write is scheduled.\<close>

lemma mem_update_cases:
  assumes "run_state (mem_update s v) st = (r, st')" "mu_conflict_once st = None"
  obtains
    (expired) "r = Err CtxExpired" "st' = st" "mu_entries st (own_key s) = None"
  | (conflict) "r = Err CtxConflict" "st' = st"
  | (updated) stored where "r = Ok (v + 1)" "mu_entries st (own_key s) = Some stored" "su_revision stored = v"
      "st' = st\<lparr>mu_entries := (mu_entries st)(own_key s \<mapsto> \<lparr>su_state = s, su_revision = v + 1\<rparr>)\<rparr>"
  using assms by (cases "mu_entries st (own_key s)") (auto simp: mem_update_def split: if_splits)

lemma mem_update_step:
  assumes w: "coherent w" and run: "run_state (mem_update s v) (w_uploads w) = (r, st')"
    and legal: "\<And>st. record_of w (own_key s) = Some st \<Longrightarrow> su_revision st = v \<Longrightarrow>
      same_upload (su_state st) s \<and> \<not> is_terminal (us_status (su_state st))"
  shows "moves w (w\<lparr>w_uploads := st'\<rparr>)"
proof -
  have "mu_conflict_once (w_uploads w) = None" using w by (simp add: coherent_def)
  with run show ?thesis
  proof (cases rule: mem_update_cases)
    case (updated stored)
    then show ?thesis using w legal [OF updated(2,3)]
      by (intro uploads_step) (auto simp: coherent_def split: if_splits)
  qed (auto intro: moves_keeps)
qed

interpretation records: upload_records shared_moves MemoryUploadStateStore "\<lambda>x. record_of (fst x)" shared_inv
proof (intro upload_records.intro shared_guarantee upload_records_axioms.intro)
  show "shared_inv y" if "shared_moves x y" "shared_inv x" for x y
    using that by (rule shared_inv_moves)
  show "evolves (record_of (fst x) k) (record_of (fst y) k)" if "shared_moves x y" for x y k
    using that by (cases x; cases y) (auto intro: moves_record)
  show "own_key (su_state st) = k" if "shared_inv x" "record_of (fst x) k = Some st" for x k st
    using that by (cases x) (auto simp: coherent_def)
next
  have get: "rg shared_moves shared_inv (ss_get MemoryUploadStateStore t u i)
      (\<lambda>r y. shared_inv y \<and> (\<forall>found. r = Ok found \<longrightarrow> record_of (fst y) (upload_key t u i) = found))" for t u i
    by (auto simp: MemoryUploadStateStore_def mem_get_def moves_keeps intro!: rg_locked)
  show "shared_moves x y" if "shared_inv x" "run_state (ss_get MemoryUploadStateStore t u i) x = (g, y)" for x t u i g y
    using rgD(1) [OF get that] .
  show "record_of (fst y) (upload_key t u i) = found"
    if "shared_inv x" "run_state (ss_get MemoryUploadStateStore t u i) x = (Ok found, y)" for x t u i found y
    using rgD(2) [OF get that] by simp
next
  fix x s st v r y
  assume x: "shared_inv x" and st: "record_of (fst x) (own_key s) = Some st" "su_revision st = v"
    "same_upload (su_state st) s" "\<not> is_terminal (us_status (su_state st))"
    and run: "run_state (ss_update MemoryUploadStateStore s v) x = (r, y)"
  obtain w es where we: "x = (w, es)" by fastforce
  from locked_run [OF x [unfolded we] run [unfolded we MemoryUploadStateStore_def, simplified]]
  obtain u es' t where u: "coherent u" "moves w u" "revises w u" "set es' \<subseteq> set es"
    and m: "run_state (mem_update s v) (w_uploads u) = (r, t)" and y: "y = (u\<lparr>w_uploads := t\<rparr>, es')"
    by metis
  have "moves u (u\<lparr>w_uploads := t\<rparr>)"
  proof (rule mem_update_step [OF u(1) m])
    fix st'
    assume "record_of u (own_key s) = Some st'" "su_revision st' = v"
    then have "st' = st" using u(3) st(1,2) unfolding revises_def we by auto
    then show "same_upload (su_state st') s \<and> \<not> is_terminal (us_status (su_state st'))"
      using st(3,4) by simp
  qed
  then show "shared_moves x y" using u moves_trans by (auto simp: we y)
next
  fix x s v y
  assume x: "shared_inv x"
  obtain w es where we: "x = (w, es)" by fastforce
  show "map_option su_state (record_of (fst y) (own_key s)) = Some s"
    if run: "run_state (ss_update MemoryUploadStateStore s v) x = (Ok n, y)" for n
  proof -
    from locked_run [OF x [unfolded we] run [unfolded we MemoryUploadStateStore_def, simplified]]
    obtain u es' t where u: "coherent u" "run_state (mem_update s v) (w_uploads u) = (Ok n, t)"
      and y: "y = (u\<lparr>w_uploads := t\<rparr>, es')" by metis
    from u(1) have "mu_conflict_once (w_uploads u) = None" by (simp add: coherent_def)
    with u(2) show ?thesis by (cases rule: mem_update_cases) (auto simp: y)
  qed
  show "record_of (fst y) (own_key s) = None"
    if run: "run_state (ss_update MemoryUploadStateStore s v) x = (Err CtxExpired, y)"
  proof -
    from locked_run [OF x [unfolded we] run [unfolded we MemoryUploadStateStore_def, simplified]]
    obtain u es' t where u: "coherent u" "run_state (mem_update s v) (w_uploads u) = (Err CtxExpired, t)"
      and y: "y = (u\<lparr>w_uploads := t\<rparr>, es')" by metis
    from u(1) have "mu_conflict_once (w_uploads u) = None" by (simp add: coherent_def)
    with u(2) show ?thesis by (cases rule: mem_update_cases) (auto simp: y)
  qed
qed

lemma rg_keeps:
  assumes "\<And>w a s. run_state m (get w) = (a, s) \<Longrightarrow>
    w_events (put s w) = w_events w \<and> w_uploads (put s w) = w_uploads w"
  shows "rg shared_moves shared_inv (locked get put m) (\<lambda>_ _. True)"
proof -
  have "rg shared_moves shared_inv (locked get put m) (\<lambda>_ y. shared_inv y \<and> True)"
    using assms moves_keeps by (intro rg_locked) blast
  then show ?thesis by (rule rg_post) simp
qed

lemma rg_shared_ret: "rg shared_moves shared_inv (ret a) (\<lambda>_ _. True)"
  by (rule guarantee.rg_ret [OF shared_guarantee]) simp

interpretation worker: finisher_ports shared_moves "mem_finisher dg force_infected verdict"
  "\<lambda>x. stream_of (fst x)" "\<lambda>x. record_of (fst x)" shared_inv
  for dg force_infected verdict
proof (intro finisher_ports.intro finisher_ports_axioms.intro)
  show "event_log shared_moves (uf_events (mem_finisher dg force_infected verdict))
      (\<lambda>x. stream_of (fst x)) shared_inv"
    by (simp add: mem_finisher_def log.event_log_axioms)
  show "upload_records shared_moves (uf_uploads (mem_finisher dg force_infected verdict))
      (\<lambda>x. record_of (fst x)) shared_inv"
    by (simp add: mem_finisher_def records.upload_records_axioms)
qed (simp_all add: mem_finisher_def MemoryBlobStore_def StubScanner_def StubValidator_def FixedClock_def
    rg_keeps rg_shared_ret)

end
