(* ===== verification/Contention.thy ===== *)
theory Contention
  imports World
begin

text \<open>
  The append paths and the status transition against other writers, on the in-memory ports:
  what they guarantee under any well-behaved environment, how often they retry, and that they
  give up rather than overwrite.
\<close>

section \<open>A worker that answers first\<close>

text \<open>An environment action: a worker writes its answer to the record of an upload, unless the
  upload already has one.\<close>

definition worker_answers :: "string \<Rightarrow> UploadStatus \<Rightarrow> datetime \<Rightarrow> MemWorld \<Rightarrow> MemWorld" where
  "worker_answers k answer now w = (case record_of w k of
      None \<Rightarrow> w
    | Some st \<Rightarrow> if is_terminal (us_status (su_state st)) then w
        else w\<lparr>w_uploads := (w_uploads w)\<lparr>mu_entries := (record_of w)(k \<mapsto>
          \<lparr>su_state = with_status (su_state st) answer now, su_revision = su_revision st + 1\<rparr>)\<rparr>\<rparr>)"

lemma well_behaved_id: "well_behaved id"
  by (simp add: well_behaved_def)

lemma well_behaved_worker_answers: "well_behaved (worker_answers k answer now)"
  unfolding well_behaved_def
proof (intro allI impI)
  fix w
  assume w: "coherent w"
  show "moves w (worker_answers k answer now w) \<and> revises w (worker_answers k answer now w)"
  proof (cases "record_of w k")
    case None
    then show ?thesis by (simp add: worker_answers_def)
  next
    case (Some st)
    then have "own_key (su_state st) = k" using w by (simp add: coherent_def)
    then show ?thesis using w Some
      by (auto simp: worker_answers_def revises_def coherent_def intro!: uploads_step split: if_splits)
  qed
qed

definition ex_upload :: "UploadStatus \<Rightarrow> UploadState" where
  "ex_upload status = \<lparr>us_tenant_id = ''acme'', us_owner_user_id = ''user-1'', us_upload_id = ''u1'',
     us_document_id = ''d1'', us_mode = Create, us_storage_key = ''k'', us_multipart_upload_id = ''mp-1'',
     us_filename = ''report.pdf'', us_content_type = ''application/pdf'', us_declared_size = 3,
     us_part_size_bytes = 5, us_part_count = 1, us_status = status, us_created_at = 0, us_updated_at = 0\<rparr>"

definition ex_uploading :: MemWorld where
  "ex_uploading = empty_world\<lparr>w_uploads := seed (ex_upload Uploading) empty_uploads\<rparr>"

lemma ex_uploading_coherent: "coherent ex_uploading"
  by (simp add: coherent_def ex_uploading_def empty_world_def empty_events_def empty_uploads_def seed_def)

definition ex_document :: "u64 \<Rightarrow> MemWorld" where
  "ex_document conflicts = empty_world\<lparr>w_events :=
     (snd (run_state (mem_append (sample_created_event \<lparr>dg_sha256 = id, dg_hex_encode = id\<rparr> ''acme'' ''d1'' ''u0'')
       CreateOnly) empty_events))\<lparr>me_conflicts_remaining := conflicts\<rparr>\<rparr>"

section \<open>Retries\<close>

text \<open>A store that answers, does not know the event id, and holds the document at version \<open>v\<close>
  and sequence \<open>s\<close>.\<close>

definition updatable :: "MemWorld \<Rightarrow> string \<Rightarrow> string \<Rightarrow> string \<Rightarrow> u64 \<Rightarrow> u64 \<Rightarrow> bool" where
  "updatable w t d i v s = (\<not> me_unavailable (w_events w) \<and> \<not> me_always_conflict (w_events w)
     \<and> me_seen (w_events w) (t, d, i) = None \<and> stream_head (stream_of w t d) = Some (v, s))"

lemma stream_head_last_seq: "stream_head l = Some (v, s) \<Longrightarrow> last_seq l = s"
  by (auto simp: stream_head_def last_seq_def split: if_splits)

lemma append_update_loop_retries:
  assumes "\<And>v. ev_tenant_id (build v) = t" "\<And>v. ev_document_id (build v) = d" "\<And>v. ev_event_id (build v) = i"
    and "updatable w t d i v s" "client = None \<or> client = Some v"
  shows "fst (run_state (append_update_loop n MemoryEventStore t d client build) (w, [])) =
    (if unat (me_conflicts_remaining (w_events w)) < n
     then Ok \<lparr>ap_stream_seq = me_head (w_events w) + 1, ap_version = ev_version (build (v + 1)), ap_duplicate = False\<rparr>
     else Err ConflictRetryExhausted)"
  using assms(4)
proof (induction n arbitrary: w)
  case (Suc n)
  let ?c = "me_conflicts_remaining (w_events w)"
  have guard: "\<not> (case client of Some c \<Rightarrow> c \<noteq> v | None \<Rightarrow> False)" using assms(5) by auto
  have last: "run_state (es_last MemoryEventStore t d) (w, []) = (Ok (Some (v, s)), (w, []))"
    using Suc.prems by (simp add: updatable_def mem_last_def)
  show ?case
  proof (cases "?c = 0")
    case True
    then show ?thesis using Suc.prems guard stream_head_last_seq [of "stream_of w t d" v s]
      by (simp add: run_state_attempt updatable_def mem_last_def mem_append_def Let_def assms(1-3) resolve_duplicate_def)
  next
    case False
    let ?w = "w\<lparr>w_events := (w_events w)\<lparr>me_conflicts_remaining := ?c - 1\<rparr>\<rparr>"
    have "run_state (es_append MemoryEventStore (build (v + 1)) (Exactly s)) (w, []) = (Err ESConflict, (?w, []))"
      using Suc.prems False
      by (simp add: updatable_def mem_append_def assms(1-3) word_gt_0)
    then have step: "run_state (append_update_loop (Suc n) MemoryEventStore t d client build) (w, []) =
        run_state (append_update_loop n MemoryEventStore t d client build) (?w, [])"
      using guard last by (simp add: run_state_attempt del: run_events_alone)
    have "updatable ?w t d i v s" using Suc.prems by (simp add: updatable_def mem_stream_def)
    from Suc.IH [OF this] have "fst (run_state (append_update_loop n MemoryEventStore t d client build) (?w, [])) =
      (if unat (?c - 1) < n
       then Ok \<lparr>ap_stream_seq = me_head (w_events w) + 1, ap_version = ev_version (build (v + 1)), ap_duplicate = False\<rparr>
       else Err ConflictRetryExhausted)"
      by simp
    moreover have "unat (?c - 1) < n \<longleftrightarrow> unat ?c < Suc n"
      using False by (simp add: unat_minus_one unat_eq_zero) (metis Suc_pred less_Suc_eq_0_disj not_less_eq unat_gt_0 word_gt_0)
    ultimately show ?thesis using step by simp
  qed
qed simp

section \<open>Properties\<close>

text \<open>C4. A terminal status is final. Whatever well-behaved processes do between its calls,
  \<open>set_status\<close> never replaces a terminal answer, never brings back an expired record and never
  changes an upload's parameters; and its answer is true: the record holds the status it
  applied, or the terminal status it deferred to, or is gone.\<close>

theorem terminal_status_is_final:
  assumes "shared_inv x"
    and "run_state (set_status MemoryUploadStateStore t u i status now) x = (r, y)"
  shows "evolves (record_of (fst x) k) (record_of (fst y) k) \<and>
    (case r of
       Ok (Applied s) \<Rightarrow> map_option su_state (record_of (fst y) (upload_key t u i)) = Some s
         \<and> us_status s = status \<and> us_updated_at s = now
     | Ok (AlreadyTerminal s) \<Rightarrow> map_option su_state (record_of (fst y) (upload_key t u i)) = Some s
         \<and> is_terminal (us_status s)
     | Ok Expired \<Rightarrow> record_of (fst y) (upload_key t u i) = None
     | Err _ \<Rightarrow> True)"
  using rgD [OF records.rg_set_status assms] records.G_rec [of x y k]
  by (auto split: result.split Transition.split)

theorem terminal_status_is_final_witness:
  "\<exists>s y. run_state (set_status MemoryUploadStateStore ''acme'' ''user-1'' ''u1'' Scanning 9)
       (ex_uploading, [id, worker_answers ''acme/user-1/u1'' (Accepted 1 False) 7]) = (Ok (AlreadyTerminal s), y)
     \<and> us_status s = Accepted 1 False
     \<and> map_option su_state (record_of (fst y) ''acme/user-1/u1'') = Some s"
proof -
  let ?x = "(ex_uploading, [id, worker_answers ''acme/user-1/u1'' (Accepted 1 False) 7])"
  let ?s = "with_status (ex_upload Uploading) (Accepted 1 False) 7"
  have "fst (run_state (set_status MemoryUploadStateStore ''acme'' ''user-1'' ''u1'' Scanning 9) ?x) =
      Ok (AlreadyTerminal ?s)"
    by code_simp
  then obtain y where y: "run_state (set_status MemoryUploadStateStore ''acme'' ''user-1'' ''u1'' Scanning 9) ?x =
      (Ok (AlreadyTerminal ?s), y)"
    by (metis prod.collapse)
  have "shared_inv ?x"
    by (simp add: ex_uploading_coherent well_behaved_id well_behaved_worker_answers)
  from terminal_status_is_final [OF this y, of k for k] y show ?thesis
    by (intro exI [of _ ?s] exI [of _ y]) (simp add: with_status_def upload_key_def)
qed



text \<open>How long an update keeps trying: with a store that answers and holds the document, a
  client that is up to date, and \<open>n\<close> conflicts ahead, \<open>append_update\<close> succeeds with the next
  version when \<open>n < 3\<close>, and otherwise reports that it gave up.\<close>

theorem update_survives_two_conflicts:
  assumes "\<And>v. ev_tenant_id (build v) = t" "\<And>v. ev_document_id (build v) = d" "\<And>v. ev_event_id (build v) = i"
    and "updatable w t d i v s" "client = None \<or> client = Some v"
  shows "fst (run_state (append_update MemoryEventStore t d client build) (w, [])) =
    (if unat (me_conflicts_remaining (w_events w)) < 3
     then Ok \<lparr>ap_stream_seq = me_head (w_events w) + 1, ap_version = ev_version (build (v + 1)), ap_duplicate = False\<rparr>
     else Err ConflictRetryExhausted)"
  using append_update_loop_retries [OF assms] by (simp add: append_update_def UPDATE_ATTEMPTS_def)

theorem update_survives_two_conflicts_witness:
  "fst (run_state (append_update MemoryEventStore ''acme'' ''d1'' None
     (sample_validated_event \<lparr>dg_sha256 = id, dg_hex_encode = id\<rparr> ''acme'' ''d1'' ''u1'')) (ex_document 2, [])) =
       Ok \<lparr>ap_stream_seq = 2, ap_version = 2, ap_duplicate = False\<rparr>
   \<and> fst (run_state (append_update MemoryEventStore ''acme'' ''d1'' None
     (sample_validated_event \<lparr>dg_sha256 = id, dg_hex_encode = id\<rparr> ''acme'' ''d1'' ''u1'')) (ex_document 3, [])) =
       Err ConflictRetryExhausted"
proof -
  let ?b = "sample_validated_event \<lparr>dg_sha256 = id, dg_hex_encode = id\<rparr> ''acme'' ''d1'' ''u1''"
  have b: "ev_tenant_id (?b v) = ''acme''" "ev_document_id (?b v) = ''d1''"
    "ev_event_id (?b v) = ''acme|u1|blob_val''" "ev_version (?b v) = v" for v
    by (simp_all add: sample_validated_event_def blob_validated_event_id_def event_id_def event_id_input_def)
  have u: "updatable (ex_document n) ''acme'' ''d1'' ''acme|u1|blob_val'' 1 1"
    "me_head (w_events (ex_document n)) = 1" "me_conflicts_remaining (w_events (ex_document n)) = n" for n
    by (simp_all add: updatable_def ex_document_def empty_world_def empty_events_def mem_append_def
        sample_created_event_def mem_stream_def last_seq_def stream_head_def created_event_id_def event_id_def
        event_id_input_def)
  show ?thesis
    using update_survives_two_conflicts [OF b(1-3) u(1), of None] by (simp add: u b)
qed

text \<open>A create starts the document: when \<open>append_create\<close> succeeds with a new event, the
  document's log consists of that event alone. A second create cannot be appended behind it.\<close>

theorem create_starts_stream:
  assumes "shared_inv x" "run_state (append_create MemoryEventStore e) x = (Ok a, y)" "\<not> ap_duplicate a"
    and "well_sequenced (stream_of (fst y) (ev_tenant_id e) (ev_document_id e))"
  shows "stream_of (fst y) (ev_tenant_id e) (ev_document_id e) = [(ap_stream_seq a, e)]"
  using log.append_create_first [OF assms] .

theorem create_starts_stream_witness:
  "\<exists>y. run_state (append_create MemoryEventStore
        (sample_created_event \<lparr>dg_sha256 = id, dg_hex_encode = id\<rparr> ''acme'' ''d1'' ''u1'')) (empty_world, []) =
      (Ok \<lparr>ap_stream_seq = 1, ap_version = 1, ap_duplicate = False\<rparr>, y)
    \<and> stream_of (fst y) ''acme'' ''d1'' =
      [(1, sample_created_event \<lparr>dg_sha256 = id, dg_hex_encode = id\<rparr> ''acme'' ''d1'' ''u1'')]"
proof -
  let ?e = "sample_created_event \<lparr>dg_sha256 = id, dg_hex_encode = id\<rparr> ''acme'' ''d1'' ''u1''"
  let ?r = "run_state (append_create MemoryEventStore ?e) (empty_world, [])"
  let ?a = "\<lparr>ap_stream_seq = 1, ap_version = 1, ap_duplicate = False\<rparr>"
  have "fst ?r = Ok ?a" "well_sequenced (stream_of (fst (snd ?r)) ''acme'' ''d1'')" by code_simp+
  then obtain y where r: "?r = (Ok ?a, y)" and seq: "well_sequenced (stream_of (fst y) ''acme'' ''d1'')"
    by (metis prod.collapse)
  have e: "ev_tenant_id ?e = ''acme''" "ev_document_id ?e = ''d1''" by (simp_all add: sample_created_event_def)
  have "shared_inv (empty_world, [])"
    by (simp add: coherent_def empty_world_def empty_uploads_def empty_events_def)
  from create_starts_stream [OF this r, unfolded e] seq r show ?thesis by simp
qed

end
