(* ===== verification/Delivery.thy ===== *)
theory Delivery
  imports World "HOL-Library.Multiset"
begin

text \<open>
  What a delivery of a work item does, on the in-memory ports: under interference, by the
  contracts of World; and in a world the worker has to itself, by two frames (which runs keep
  the stored objects, which runs leave the log alone) and by executing the pipeline.
\<close>

section \<open>A world of its own\<close>

definition alone :: "Shared \<Rightarrow> bool" where
  "alone x = (snd x = [])"

lemma rg_alone:
  assumes "\<And>w a s. run_state m (get w) = (a, s) \<Longrightarrow> R w (put s w)"
  shows "rg (\<lambda>x y. R (fst x) (fst y)) alone (locked get put m) (\<lambda>_. alone)"
  using assms by (auto simp: rg_def alone_def locked_def split: prod.splits)

lemma rg_alone_keeps:
  assumes "\<And>w a s. run_state m (get w) = (a, s) \<Longrightarrow> v (put s w) = v w" "\<And>w w'. v w' = v w \<Longrightarrow> R w w'"
  shows "rg (\<lambda>x y. R (fst x) (fst y)) alone (locked get put m) (\<lambda>_. alone)"
  by (rule rg_alone) (rule assms(2), rule assms(1))

lemma rg_alone_ret: "(\<And>w. R w w) \<Longrightarrow> rg (\<lambda>x y. R (fst x) (fst y)) alone (ret a) (\<lambda>_. alone)"
  by (auto simp: rg_def)

definition keeps_objects :: "MemWorld \<Rightarrow> MemWorld \<Rightarrow> bool" where
  "keeps_objects w w' = (dom (mb_objects (w_blobs w)) \<subseteq> dom (mb_objects (w_blobs w')))"

definition same_log :: "MemWorld \<Rightarrow> MemWorld \<Rightarrow> bool" where
  "same_log w w' = (\<forall>t d. stream_of w' t d = stream_of w t d)"

lemma keeps_objects_blobs: "w_blobs w' = w_blobs w \<Longrightarrow> keeps_objects w w'"
  by (simp add: keeps_objects_def)

lemma same_log_events: "w_events w' = w_events w \<Longrightarrow> same_log w w'"
  by (simp add: same_log_def)

lemma guarantee_keeps_objects: "guarantee (\<lambda>x y. keeps_objects (fst x) (fst y))"
  by standard (auto simp: keeps_objects_def)

lemma guarantee_same_log: "guarantee (\<lambda>x y. same_log (fst x) (fst y))"
  by standard (auto simp: same_log_def)

lemma mem_complete_objects:
  "run_state (mem_complete_multipart k u ps) st = (r, st') \<Longrightarrow> dom (mb_objects st) \<subseteq> dom (mb_objects st')"
  by (auto simp: mem_complete_multipart_def drop_multipart_def put_object_def Let_def
      split: option.splits result.splits)

lemmas keeps_objects_op = rg_alone_keeps [where R = keeps_objects and v = w_blobs, OF _ keeps_objects_blobs]
lemmas same_log_op = rg_alone_keeps [where R = same_log and v = w_events, OF _ same_log_events]

interpretation objects: finisher_frame "\<lambda>x y. keeps_objects (fst x) (fst y)"
  "mem_finisher dg force_infected verdict" alone True False
  for dg force_infected verdict
proof (intro finisher_frame.intro guarantee_keeps_objects finisher_frame_axioms.intro)
  show "rg (\<lambda>x y. keeps_objects (fst x) (fst y)) alone
      (set_status (uf_uploads (mem_finisher dg force_infected verdict)) t u i st now) (\<lambda>_. alone)" for t u i st now
    by (rule guarantee.rg_set_status_frame [OF guarantee_keeps_objects])
      (simp_all add: port_defs keeps_objects_op)
  show "rg (\<lambda>x y. keeps_objects (fst x) (fst y)) alone
      (bs_complete_multipart (uf_blobs (mem_finisher dg force_infected verdict)) k m ps) (\<lambda>_. alone)" for k m ps
    by (simp add: port_defs, rule rg_alone) (simp add: keeps_objects_def mem_complete_objects)
  fix x e ex r y
  assume "alone x" "run_state (es_append (uf_events (mem_finisher dg force_infected verdict)) e ex) x = (r, y)"
  then show "keeps_objects (fst x) (fst y) \<and> alone y"
    by (cases x) (auto simp: port_defs alone_def keeps_objects_def split: prod.splits)
qed (auto simp: port_defs mem_op_defs drop_multipart_def intro!: rg_alone_ret rg_alone simp: keeps_objects_def)

interpretation untouched: finisher_frame "\<lambda>x y. same_log (fst x) (fst y)"
  "mem_finisher dg force_infected verdict" alone False True
  for dg force_infected verdict
proof (intro finisher_frame.intro guarantee_same_log finisher_frame_axioms.intro)
  show "rg (\<lambda>x y. same_log (fst x) (fst y)) alone
      (set_status (uf_uploads (mem_finisher dg force_infected verdict)) t u i st now) (\<lambda>_. alone)" for t u i st now
    by (rule guarantee.rg_set_status_frame [OF guarantee_same_log])
      (simp_all add: port_defs same_log_op)
  fix x e ex r y
  assume x: "alone x" and run: "run_state (es_append (uf_events (mem_finisher dg force_infected verdict)) e ex) x = (r, y)"
    and r: "False \<or> \<not> added r"
  obtain w where w: "x = (w, [])" using x by (cases x) (auto simp: alone_def)
  obtain s where s: "run_state (mem_append e ex) (w_events w) = (r, s)" "y = (w\<lparr>w_events := s\<rparr>, [])"
    using run by (auto simp: w port_defs split: prod.splits)
  from s(1) r have "mem_stream s t d = stream_of w t d" for t d
    by (cases rule: mem_append_cases) (auto simp: added_def mem_stream_def)
  then show "same_log (fst x) (fst y) \<and> alone y" by (simp add: w s same_log_def alone_def)
qed (auto simp: port_defs mem_op_defs intro!: rg_alone_ret rg_alone simp: same_log_def split: if_splits)

section \<open>Running the pipeline\<close>

abbreviation cmd_key :: "UploadCompleted \<Rightarrow> string" where
  "cmd_key cmd \<equiv> upload_key (uc_tenant_id cmd) (uc_owner_user_id cmd) (uc_upload_id cmd)"

text \<open>The record of the work item, and that it is the caller's.\<close>

definition item_record :: "MemWorld \<Rightarrow> UploadCompleted \<Rightarrow> StoredUpload \<Rightarrow> bool" where
  "item_record w cmd st = (record_of w (cmd_key cmd) = Some st \<and> own_key (su_state st) = cmd_key cmd
     \<and> us_tenant_id (su_state st) = uc_tenant_id cmd \<and> us_owner_user_id (su_state st) = uc_owner_user_id cmd
     \<and> mu_conflict_once (w_uploads w) = None)"

lemma run_load_state:
  "item_record w cmd st \<Longrightarrow> run_state (load_state (mem_finisher dg forced verdict) cmd) (w, []) =
     (Ok (Some (us_status (su_state st))), (w, []))"
  by (simp add: item_record_def load_state_def load_def run_state_attempt mem_get_def)

text \<open>Recording an answer on a record that has none yet.\<close>

lemma run_record_status:
  assumes "item_record w cmd st" "\<not> is_terminal (us_status (su_state st))"
  shows "run_state (record_status (mem_finisher dg forced verdict) cmd answer) (w, []) =
    ((), (put_record (cmd_key cmd) \<lparr>su_state = with_status (su_state st) answer (fixed_time (sint (w_clock w))),
        su_revision = su_revision st + 1\<rparr> w, []))"
  using assms run_set_status_alone [of w "uc_tenant_id cmd" "uc_owner_user_id cmd" "uc_upload_id cmd"]
  by (simp add: item_record_def record_status_def finish_with_def)

text \<open>Recording an answer touches only the record store.\<close>

lemma record_status_frame:
  "rg (\<lambda>x y. w_events (fst y) = w_events (fst x) \<and> w_blobs (fst y) = w_blobs (fst x)) alone
     (record_status (mem_finisher dg forced verdict) cmd answer) (\<lambda>_. alone)"
proof -
  let ?R = "\<lambda>w w' :: MemWorld. w_events w' = w_events w \<and> w_blobs w' = w_blobs w"
  have G: "guarantee (\<lambda>x y :: Shared. ?R (fst x) (fst y))"
    by standard auto
  have "rg (\<lambda>x y. ?R (fst x) (fst y)) alone (set_status MemoryUploadStateStore t u i s now) (\<lambda>_. alone)" for t u i s now
    by (rule guarantee.rg_set_status_frame [OF G]; simp add: MemoryUploadStateStore_def)
      (auto intro!: rg_alone [where R = ?R])
  then show ?thesis unfolding record_status_def finish_with_def
    by (auto intro!: guarantee.rg_bind [OF G] guarantee.rg_ret [OF G] simp: FixedClock_def
        intro: rg_alone [where R = ?R])
qed

definition complete_part :: "UploadedPart \<Rightarrow> CompletedPart" where
  "complete_part p = \<lparr>cp_part_number = up_part_number p, cp_etag = up_etag p\<rparr>"

lemma complete_part_simps [simp]:
  "cp_part_number (complete_part p) = up_part_number p" "cp_etag (complete_part p) = up_etag p"
  by (simp_all add: complete_part_def)

lemma completed_parts_eq: "completed_parts ps = map complete_part (sort_key up_part_number ps)"
proof -
  have "completed_parts ps = sort_key cp_part_number (map complete_part ps)"
    by (simp add: completed_parts_def complete_part_def [abs_def])
  moreover have "cp_part_number \<circ> complete_part = up_part_number" by auto
  ultimately show ?thesis by (simp add: sort_key_map)
qed

lemma find_part:
  "distinct (map up_part_number ps) \<Longrightarrow> p \<in> set ps \<Longrightarrow>
     find (\<lambda>u. up_part_number u = up_part_number p) ps = Some p"
  by (induction ps) (auto simp: image_iff)

text \<open>Asking storage for exactly the parts it holds succeeds, and the object has the sum of
  their sizes.\<close>

lemma assemble_own_parts:
  assumes "distinct (map up_part_number ps)"
  shows "assemble_bytes ps (completed_parts ps) =
    Ok (replicate (sum_list (map (unat \<circ> up_size) ps)) CHR ''x'')"
proof -
  have "assemble_bytes ps (map complete_part qs) =
      Ok (replicate (sum_list (map (unat \<circ> up_size) qs)) CHR ''x'')" if "set qs \<subseteq> set ps" for qs
    using that by (induction qs) (auto simp: find_part [OF assms] replicate_add)
  moreover have "sum_list (map g (sort_key up_part_number ps)) = sum_list (map g ps)" for g :: "_ \<Rightarrow> nat"
    by (metis mset_map mset_sort sum_mset_sum_list)
  ultimately show ?thesis by (simp add: completed_parts_eq)
qed

text \<open>A create upload that is ready: its record waits, its parts are in storage and add up to
  the declared size, and the event store answers and has neither the document nor the event.\<close>

definition ready_create :: "DigestCrates \<Rightarrow> MemWorld \<Rightarrow> UploadCompleted \<Rightarrow> StoredUpload \<Rightarrow> UploadedPart list \<Rightarrow> bool" where
  "ready_create dg w cmd st ps = (item_record w cmd st \<and> \<not> is_terminal (us_status (su_state st))
     \<and> mb_complete_error (w_blobs w) = None
     \<and> mb_multiparts (w_blobs w) (uc_storage_key cmd, uc_multipart_upload_id cmd) = Some ps
     \<and> ps \<noteq> [] \<and> distinct (map up_part_number ps)
     \<and> sum_list (map (unat \<circ> up_size) ps) = unat (uc_declared_size cmd)
     \<and> uc_mode cmd = Create
     \<and> \<not> me_unavailable (w_events w) \<and> \<not> me_always_conflict (w_events w) \<and> me_conflicts_remaining (w_events w) = 0
     \<and> me_seen (w_events w) (uc_tenant_id cmd, uc_document_id cmd,
          created_event_id (dg_sha256 dg) (dg_hex_encode dg) (uc_tenant_id cmd) (uc_upload_id cmd)) = None
     \<and> stream_of w (uc_tenant_id cmd) (uc_document_id cmd) = [])"

definition assembled_world :: "MemWorld \<Rightarrow> UploadCompleted \<Rightarrow> UploadedPart list \<Rightarrow> MemWorld" where
  "assembled_world w cmd ps = w\<lparr>w_blobs := put_object (uc_storage_key cmd)
     (replicate (unat (uc_declared_size cmd)) CHR ''x'') (fixed_time 0)
     ((drop_multipart (uc_storage_key cmd) (uc_multipart_upload_id cmd) (w_blobs w))
       \<lparr>mb_assembled := (mb_assembled (w_blobs w))(uc_storage_key cmd \<mapsto> map cp_part_number (completed_parts ps))\<rparr>)\<rparr>"

lemma run_assemble_ready:
  assumes "ready_create dg w cmd st ps"
  shows "run_state (assemble (mem_finisher dg forced verdict) cmd) (w, []) =
    (Ready None, (assembled_world w cmd ps, []))"
  using assms assemble_own_parts [of ps]
  by (simp add: ready_create_def assemble_def mem_list_parts_def mem_complete_multipart_def assembled_world_def
      Let_def drop_multipart_def)

definition item_bytes :: "UploadCompleted \<Rightarrow> bytes" where
  "item_bytes cmd = replicate (unat (uc_declared_size cmd)) CHR ''x''"

text \<open>Sniffing and scanning an object of the declared size leads to the append.\<close>

lemma run_verify_ready:
  assumes "object (w_blobs w) (uc_storage_key cmd) = Some (item_bytes cmd)"
    "bh_byte_size head = uc_declared_size cmd" "uc_mode cmd = Create"
  shows "run_state (run_verify dg (mem_finisher dg False ContentOk) cmd head) (w, []) =
    run_state (append_created dg (mem_finisher dg False ContentOk) cmd
      (sha256_hex (dg_sha256 dg) (dg_hex_encode dg) (item_bytes cmd))) (w, [])"
  using assms
  by (cases "item_bytes cmd = []") (auto simp: run_verify_def run_scan_def mem_read_prefix_def validate_content_def stub_validate_def
      mem_open_read_def stub_scan_def item_bytes_def unat_eq_zero)

definition accepted_world ::
  "DigestCrates \<Rightarrow> MemWorld \<Rightarrow> UploadCompleted \<Rightarrow> StoredUpload \<Rightarrow> UploadedPart list \<Rightarrow> MemWorld" where
  "accepted_world dg w cmd st ps = put_record (cmd_key cmd)
     \<lparr>su_state = with_status (su_state st) (Accepted 1 False) (fixed_time (sint (w_clock w))),
      su_revision = su_revision st + 1\<rparr>
     ((assembled_world w cmd ps)\<lparr>w_events := snd (run_state (mem_append (created_event dg cmd
         (sha256_hex (dg_sha256 dg) (dg_hex_encode dg) (item_bytes cmd)) (fixed_time (sint (w_clock w)))) CreateOnly)
       (w_events w))\<rparr>)"

lemma run_append_created_ready:
  assumes "ready_create dg w cmd st ps"
  shows "run_state (append_created dg (mem_finisher dg False ContentOk) cmd
      (sha256_hex (dg_sha256 dg) (dg_hex_encode dg) (item_bytes cmd))) (assembled_world w cmd ps, []) =
    (FoAccepted (uc_document_id cmd) 1 False, (accepted_world dg w cmd st ps, []))"
proof -
  let ?h = "sha256_hex (dg_sha256 dg) (dg_hex_encode dg) (item_bytes cmd)"
  let ?e = "created_event dg cmd ?h (fixed_time (sint (w_clock w)))"
  have id: "ev_event_id ?e = created_event_id (dg_sha256 dg) (dg_hex_encode dg) (uc_tenant_id cmd) (uc_upload_id cmd)"
    by (simp add: created_event_def)
  obtain s where app: "run_state (mem_append ?e CreateOnly) (w_events w) =
      (Ok \<lparr>ap_stream_seq = me_head (w_events w) + 1, ap_version = 1, ap_duplicate = False\<rparr>, s)"
    using assms by (simp add: ready_create_def mem_append_def id last_seq_def Let_def)
  let ?w = "(assembled_world w cmd ps)\<lparr>w_events := s\<rparr>"
  have rec: "item_record ?w cmd st" "\<not> is_terminal (us_status (su_state st))"
    using assms by (auto simp: ready_create_def item_record_def assembled_world_def)
  have "run_state (append_create MemoryEventStore ?e) (assembled_world w cmd ps, []) =
      (Ok \<lparr>ap_stream_seq = me_head (w_events w) + 1, ap_version = 1, ap_duplicate = False\<rparr>, (?w, []))"
    using app by (simp add: append_create_def resolve_duplicate_def assembled_world_def)
  then show ?thesis using run_record_status [OF rec] app
    by (simp add: append_created_def accept_def accepted_world_def put_record_def assembled_world_def)
qed

lemma run_finish_ready:
  assumes "ready_create dg w cmd st ps"
  shows "run_state (finish dg (mem_finisher dg False ContentOk) cmd final) (w, []) =
    (FoAccepted (uc_document_id cmd) 1 False, (accepted_world dg w cmd st ps, []))"
proof -
  have rec: "item_record w cmd st" "\<not> is_terminal (us_status (su_state st))" "uc_mode cmd = Create"
    using assms by (auto simp: ready_create_def)
  have obj: "mb_objects (w_blobs (assembled_world w cmd ps)) (uc_storage_key cmd) = Some (item_bytes cmd, fixed_time 0)"
    by (simp add: assembled_world_def put_object_def item_bytes_def)
  have head: "run_state (bs_head MemoryBlobStore (uc_storage_key cmd)) (assembled_world w cmd ps, []) =
      (Ok (Some \<lparr>bh_byte_size = uc_declared_size cmd, bh_content_type = None, bh_last_modified = fixed_time 0\<rparr>),
       (assembled_world w cmd ps, []))"
    by (simp add: mem_head_def obj) (simp add: item_bytes_def)
  have "run_state (run_pipeline dg (mem_finisher dg False ContentOk) cmd) (w, []) =
      (FoAccepted (uc_document_id cmd) 1 False, (accepted_world dg w cmd st ps, []))"
    using run_assemble_ready [OF assms] head run_append_created_ready [OF assms]
      run_verify_ready [of "assembled_world w cmd ps" cmd _ dg] obj rec(3)
    by (simp add: run_pipeline_def object_def del: run_blobs_alone)
  then show ?thesis using run_load_state [OF rec(1)] rec(2) by (simp add: finish_def run_def)
qed

section \<open>Examples\<close>

definition ex_dg :: DigestCrates where
  "ex_dg = \<lparr>dg_sha256 = id, dg_hex_encode = id\<rparr>"

definition ex_cmd :: "UploadMode \<Rightarrow> UploadCompleted" where
  "ex_cmd mode = \<lparr>uc_v = 1, uc_command_id = ''upload-completed:acme:u1'', uc_tenant_id = ''acme'',
     uc_owner_user_id = ''user-1'', uc_upload_id = ''u1'', uc_document_id = ''d1'', uc_mode = mode,
     uc_storage_key = ''tenants/acme/blobs/u1/original'', uc_multipart_upload_id = ''mp-1'',
     uc_filename = ''report.pdf'', uc_content_type = ''application/pdf'', uc_declared_size = 3,
     uc_if_match = None, uc_on_conflict = Supersede, uc_patch = empty_patch, uc_ts = fixed_time 0\<rparr>"

definition ex_state :: "UploadMode \<Rightarrow> UploadStatus \<Rightarrow> UploadState" where
  "ex_state mode status = \<lparr>us_tenant_id = ''acme'', us_owner_user_id = ''user-1'', us_upload_id = ''u1'',
     us_document_id = ''d1'', us_mode = mode, us_storage_key = ''tenants/acme/blobs/u1/original'',
     us_multipart_upload_id = ''mp-1'', us_filename = ''report.pdf'', us_content_type = ''application/pdf'',
     us_declared_size = 3, us_part_size_bytes = 5, us_part_count = 1, us_status = status,
     us_created_at = fixed_time 0, us_updated_at = fixed_time 0\<rparr>"

text \<open>The upload is staged: its record waits for a scan and its one part is in storage.\<close>

definition ex_staged :: MemWorld where
  "ex_staged = empty_world
     \<lparr>w_uploads := seed (ex_state Create Scanning) empty_uploads,
      w_blobs := upload_part ''tenants/acme/blobs/u1/original'' ''mp-1''
        \<lparr>up_part_number = 1, up_etag = ''e1'', up_size = 3\<rparr> empty_blobs\<rparr>"

text \<open>The upload was accepted, but neither the acknowledgement nor the record's status got out.\<close>

definition ex_log :: "DocumentEvent list \<Rightarrow> EventStoreState" where
  "ex_log es = foldl (\<lambda>st e. snd (run_state (mem_append e
       (if mem_stream st ''acme'' ''d1'' = [] then CreateOnly
        else Exactly (last_seq (mem_stream st ''acme'' ''d1'')))) st)) empty_events es"

definition ex_unanswered :: "DocumentEvent list \<Rightarrow> MemWorld" where
  "ex_unanswered es = empty_world
     \<lparr>w_events := ex_log es,
      w_uploads := seed (ex_state Create Scanning) empty_uploads,
      w_blobs := put_object ''tenants/acme/blobs/u1/original'' ''abc'' (fixed_time 0) empty_blobs\<rparr>"

lemma ex_staged_inv: "shared_inv (ex_staged, [])"
  by (simp add: coherent_def ex_staged_def empty_world_def empty_events_def empty_uploads_def seed_def)

abbreviation "ex_finisher \<equiv> mem_finisher ex_dg False ContentOk"

lemma ex_finish:
  "\<exists>y. run_state (finish ex_dg ex_finisher (ex_cmd Create) False) (ex_staged, []) = (FoAccepted ''d1'' 1 False, y)"
proof -
  have "fst (run_state (finish ex_dg ex_finisher (ex_cmd Create) False) (ex_staged, [])) = FoAccepted ''d1'' 1 False"
    by code_simp
  then show ?thesis by (metis prod.collapse)
qed

lemma ex_cmd_simps [simp]:
  "uc_tenant_id (ex_cmd m) = ''acme''" "uc_owner_user_id (ex_cmd m) = ''user-1''"
  "uc_upload_id (ex_cmd m) = ''u1''" "uc_document_id (ex_cmd m) = ''d1''"
  "uc_storage_key (ex_cmd m) = ''tenants/acme/blobs/u1/original''" "uc_mode (ex_cmd m) = m"
  by (simp_all add: ex_cmd_def)

lemma accepted_world_stream:
  assumes "ready_create dg w cmd st ps"
  shows "stream_of (accepted_world dg w cmd st ps) (uc_tenant_id cmd) (uc_document_id cmd) =
    [(me_head (w_events w) + 1, created_event dg cmd
        (sha256_hex (dg_sha256 dg) (dg_hex_encode dg) (item_bytes cmd)) (fixed_time (sint (w_clock w))))]"
  using assms by (simp add: accepted_world_def put_record_def mem_append_def ready_create_def Let_def mem_stream_update
      last_seq_def created_event_def)

section \<open>Properties of a delivery\<close>

text \<open>The pipeline succeeds when it can. A create upload whose record is waiting, whose
  parts are all in storage and add up to the declared size, and whose document is not in the
  log yet, is accepted as version 1 by any delivery: the log then holds exactly one event for
  the document, made from the work item and the digest of the assembled bytes; the object is
  in storage; and the record says accepted.\<close>

theorem ready_upload_is_accepted:
  assumes "ready_create dg w cmd st ps"
  shows "\<exists>w'. run_state (finish dg (mem_finisher dg False ContentOk) cmd final) (w, []) =
      (FoAccepted (uc_document_id cmd) 1 False, (w', []))
    \<and> stream_of w' (uc_tenant_id cmd) (uc_document_id cmd) =
      [(me_head (w_events w) + 1, created_event dg cmd
          (sha256_hex (dg_sha256 dg) (dg_hex_encode dg) (item_bytes cmd)) (fixed_time (sint (w_clock w))))]
    \<and> object (w_blobs w') (uc_storage_key cmd) = Some (item_bytes cmd)
    \<and> map_option (us_status \<circ> su_state) (record_of w' (cmd_key cmd)) = Some (Accepted 1 False)"
proof (intro exI conjI)
  show "run_state (finish dg (mem_finisher dg False ContentOk) cmd final) (w, []) =
      (FoAccepted (uc_document_id cmd) 1 False, (accepted_world dg w cmd st ps, []))"
    using assms by (rule run_finish_ready)
  show "stream_of (accepted_world dg w cmd st ps) (uc_tenant_id cmd) (uc_document_id cmd) =
      [(me_head (w_events w) + 1, created_event dg cmd
          (sha256_hex (dg_sha256 dg) (dg_hex_encode dg) (item_bytes cmd)) (fixed_time (sint (w_clock w))))]"
    using assms by (rule accepted_world_stream)
qed (simp_all add: accepted_world_def put_record_def assembled_world_def object_def put_object_def item_bytes_def with_status_def)

theorem ready_upload_is_accepted_witness:
  "\<exists>w'. run_state (finish ex_dg ex_finisher (ex_cmd Create) True) (ex_staged, []) = (FoAccepted ''d1'' 1 False, (w', []))
     \<and> object (w_blobs w') ''tenants/acme/blobs/u1/original'' = Some ''xxx''"
proof -
  have "ready_create ex_dg ex_staged (ex_cmd Create) \<lparr>su_state = ex_state Create Scanning, su_revision = 1\<rparr>
      [\<lparr>up_part_number = 1, up_etag = ''e1'', up_size = 3\<rparr>]"
    by (simp add: ready_create_def item_record_def ex_staged_def ex_state_def ex_cmd_def seed_def own_key_def
        empty_world_def empty_uploads_def empty_blobs_def empty_events_def upload_part_def multipart_parts_def
        mem_stream_def)
  from ready_upload_is_accepted [OF this, of True] obtain w' where
    w': "run_state (finish ex_dg ex_finisher (ex_cmd Create) True) (ex_staged, []) = (FoAccepted ''d1'' 1 False, (w', []))"
    "object (w_blobs w') ''tenants/acme/blobs/u1/original'' = Some (item_bytes (ex_cmd Create))"
    by auto
  have "item_bytes (ex_cmd Create) = ''xxx''" by code_simp
  with w' show ?thesis by auto
qed

text \<open>A redelivered work item that already has its answer gets the same answer again, on
  any delivery, and nothing else happens: no port is asked to change anything.\<close>

theorem redelivery_replays_answer:
  assumes "item_record w cmd st" "is_terminal (us_status (su_state st))"
  shows "run_state (finish dg (mem_finisher dg force_infected verdict) cmd final) (w, []) =
    (replay cmd (us_status (su_state st)), (w, []))"
  using run_load_state [OF assms(1)] assms(2)
  by (cases "us_status (su_state st)") (simp_all add: finish_def run_def)

theorem redelivery_replays_answer_witness:
  "run_state (finish ex_dg ex_finisher (ex_cmd Create) True)
      (empty_world\<lparr>w_uploads := seed (ex_state Create (Rejected ''size_mismatch'')) empty_uploads\<rparr>, []) =
    (FoRejected ''size_mismatch'',
     (empty_world\<lparr>w_uploads := seed (ex_state Create (Rejected ''size_mismatch'')) empty_uploads\<rparr>, []))"
proof -
  have "item_record (empty_world\<lparr>w_uploads := seed (ex_state Create (Rejected ''size_mismatch'')) empty_uploads\<rparr>)
      (ex_cmd Create) \<lparr>su_state = ex_state Create (Rejected ''size_mismatch''), su_revision = 1\<rparr>"
    by (simp add: item_record_def seed_def own_key_def ex_state_def ex_cmd_def empty_uploads_def)
  from redelivery_replays_answer [OF this] show ?thesis by (simp add: ex_state_def)
qed

text \<open>C21. A replacement is applied once. When the log already holds an event with this upload's
  blob, anywhere in the history, appending the replacement again adds nothing, whoever has
  superseded it since, and reports the version that event has.\<close>

theorem replacement_applied_once:
  assumes "find_upload (stream_of w (uc_tenant_id cmd) (uc_document_id cmd)) (uc_upload_id cmd) = Some e"
    and "\<not> me_unavailable (w_events w)"
  shows "\<exists>w'. run_state (append_replaced dg (mem_finisher dg force_infected verdict) cmd hash) (w, []) =
      (FoAccepted (uc_document_id cmd) (ev_version e) (superseded_flag e), (w', []))
    \<and> w_events w' = w_events w \<and> w_blobs w' = w_blobs w"
proof -
  let ?f = "mem_finisher dg force_infected verdict"
  obtain y where y: "run_state (record_status ?f cmd (Accepted (ev_version e) (superseded_flag e))) (w, []) = ((), y)"
    by (cases "run_state (record_status ?f cmd (Accepted (ev_version e) (superseded_flag e))) (w, [])") auto
  from rgD [OF record_status_frame _ this] have "alone y" "w_events (fst y) = w_events w" "w_blobs (fst y) = w_blobs w"
    by (auto simp: alone_def)
  then show ?thesis using assms y
    by (cases y) (simp add: append_replaced_def mem_read_stream_def accept_def alone_def)
qed

theorem replacement_applied_once_witness:
  "\<exists>w'. run_state (append_replaced ex_dg ex_finisher (ex_cmd Replace) ''h'')
      (ex_unanswered [sample_created_event ex_dg ''acme'' ''d1'' ''u0'', replaced_event ex_dg (ex_cmd Replace) ''h'' 0 2,
         sample_validated_event ex_dg ''acme'' ''d1'' ''u9'' 3], []) = (FoAccepted ''d1'' 2 False, (w', []))"
proof -
  let ?w = "ex_unanswered [sample_created_event ex_dg ''acme'' ''d1'' ''u0'', replaced_event ex_dg (ex_cmd Replace) ''h'' 0 2,
         sample_validated_event ex_dg ''acme'' ''d1'' ''u9'' 3]"
  have "find_upload (stream_of ?w ''acme'' ''d1'') ''u1'' = Some (replaced_event ex_dg (ex_cmd Replace) ''h'' 0 2)"
    "\<not> me_unavailable (w_events ?w)"
    by code_simp+
  moreover have "superseded_flag (replaced_event ex_dg (ex_cmd Replace) ''h'' 0 2) = False" by code_simp
  ultimately show ?thesis using replacement_applied_once [of ?w "ex_cmd Replace"] by fastforce
qed



text \<open>No delivery breaks the rules the other processes rely on: whatever its outcome, no
  event is removed from or changed in any document's log, no upload record that has expired
  comes back, no parameter of an upload changes, and no terminal answer is replaced.\<close>

theorem delivery_respects_world:
  assumes "shared_inv x"
    and "run_state (finish dg (mem_finisher dg force_infected verdict) cmd final) x = (out, y)"
  shows "prefix (stream_of (fst x) t d) (stream_of (fst y) t d)
    \<and> evolves (record_of (fst x) k) (record_of (fst y) k) \<and> shared_inv y"
proof -
  have "shared_moves x y" using rgD(1) [OF worker.rg_finish assms] .
  then show ?thesis using assms(1) by (auto intro: log.G_log records.G_rec shared_inv_moves)
qed

theorem delivery_respects_world_witness:
  "\<exists>y. run_state (finish ex_dg ex_finisher (ex_cmd Create) False) (ex_staged, []) = (FoAccepted ''d1'' 1 False, y)
     \<and> prefix (stream_of ex_staged ''acme'' ''d1'') (stream_of (fst y) ''acme'' ''d1'')
     \<and> evolves (record_of ex_staged ''k'') (record_of (fst y) ''k'')"
proof -
  obtain y where y: "run_state (finish ex_dg ex_finisher (ex_cmd Create) False) (ex_staged, []) =
      (FoAccepted ''d1'' 1 False, y)"
    using ex_finish by blast
  from delivery_respects_world [OF ex_staged_inv this, of "''acme''" "''d1''" "''k''"] y
  show ?thesis by (intro exI [of _ y]) simp
qed

text \<open>Bytes are given back only by a rejection: after a delivery that is accepted or asks
  to be retried, every object that was in storage still is.\<close>

theorem objects_survive_unless_rejected:
  assumes "run_state (finish dg (mem_finisher dg force_infected verdict) cmd final) (w, []) = (out, y)"
    and "\<And>reason. out \<noteq> FoRejected reason"
  shows "dom (mb_objects (w_blobs w)) \<subseteq> dom (mb_objects (w_blobs (fst y)))"
proof -
  have "claimed True False out" using assms(2) by (cases out) auto
  from objects.finish_frame [OF _ assms(1) this] show ?thesis
    by (simp add: alone_def keeps_objects_def)
qed

theorem objects_survive_unless_rejected_witness:
  "\<exists>y. run_state (finish ex_dg ex_finisher (ex_cmd Create) False) (ex_unanswered [], []) =
       (FoAccepted ''d1'' 1 False, y)
     \<and> dom (mb_objects (w_blobs (ex_unanswered []))) \<subseteq> dom (mb_objects (w_blobs (fst y)))"
proof -
  have "fst (run_state (finish ex_dg ex_finisher (ex_cmd Create) False) (ex_unanswered [], [])) =
      FoAccepted ''d1'' 1 False"
    by code_simp
  then obtain y where y: "run_state (finish ex_dg ex_finisher (ex_cmd Create) False) (ex_unanswered [], []) =
      (FoAccepted ''d1'' 1 False, y)"
    by (metis prod.collapse)
  from objects_survive_unless_rejected [OF this] y show ?thesis by blast
qed

text \<open>Only an accepted upload reaches the log: after a delivery that is rejected or asks to
  be retried, the log of every document is what it was.\<close>

theorem only_acceptance_appends:
  assumes "run_state (finish dg (mem_finisher dg force_infected verdict) cmd final) (w, []) = (out, y)"
    and "\<And>d v s. out \<noteq> FoAccepted d v s"
  shows "stream_of (fst y) t doc = stream_of w t doc"
proof -
  have "claimed False True out" using assms(2) by (cases out) auto
  from untouched.finish_frame [OF _ assms(1) this] show ?thesis
    by (simp add: alone_def same_log_def)
qed

theorem only_acceptance_appends_witness:
  "\<exists>y. run_state (finish ex_dg (mem_finisher ex_dg True ContentOk) (ex_cmd Create) False) (ex_staged, []) =
       (FoRejected MALWARE_DETECTED, y)
     \<and> stream_of (fst y) ''acme'' ''d1'' = stream_of ex_staged ''acme'' ''d1''"
proof -
  have "fst (run_state (finish ex_dg (mem_finisher ex_dg True ContentOk) (ex_cmd Create) False) (ex_staged, [])) =
      FoRejected MALWARE_DETECTED"
    by code_simp
  then obtain y where y: "run_state (finish ex_dg (mem_finisher ex_dg True ContentOk) (ex_cmd Create) False)
      (ex_staged, []) = (FoRejected MALWARE_DETECTED, y)"
    by (metis prod.collapse)
  from only_acceptance_appends [OF this] y show ?thesis by blast
qed


text \<open>A create that is redelivered after the document has moved on is answered with the
  version at the head of the log, not with the version the upload created: here the upload
  created version 1 and is reported as version 2.\<close>

theorem redelivered_create_reports_head:
  "\<exists>w cmd y applied. find_upload (stream_of w (uc_tenant_id cmd) (uc_document_id cmd)) (uc_upload_id cmd) = Some applied
     \<and> ev_version applied = 1
     \<and> run_state (finish ex_dg ex_finisher cmd False) (w, []) = (FoAccepted (uc_document_id cmd) 2 False, y)"
proof -
  let ?e = "created_event ex_dg (ex_cmd Create) ''h'' 0"
  let ?w = "ex_unanswered [?e, sample_validated_event ex_dg ''acme'' ''d1'' ''u2'' 2]"
  have "fst (run_state (finish ex_dg ex_finisher (ex_cmd Create) False) (?w, [])) = FoAccepted ''d1'' 2 False"
    by code_simp
  then obtain y where y: "run_state (finish ex_dg ex_finisher (ex_cmd Create) False) (?w, []) =
      (FoAccepted ''d1'' 2 False, y)"
    by (metis prod.collapse)
  have "find_upload (stream_of ?w ''acme'' ''d1'') ''u1'' = Some ?e" by code_simp
  with y show ?thesis
    by (intro exI [of _ ?w] exI [of _ "ex_cmd Create"] exI [of _ y] exI [of _ ?e]) simp
qed

end
