(* ===== verification/Uploads.thy ===== *)
theory Uploads
  imports World
begin

text \<open>
  Properties of the API use cases on the in-memory ports: what preflight opens and cleans up,
  which part URLs a renewal signs, what completing an upload publishes, who can see an upload,
  and that paging through a listing is complete.
\<close>

section \<open>The service on the in-memory ports\<close>

definition mem_service :: "UploadPolicy \<Rightarrow> Shared DocumentService" where
  "mem_service po = \<lparr>sv_events = MemoryEventStore, sv_blobs = MemoryBlobStore,
     sv_uploads = MemoryUploadStateStore, sv_documents = MemoryReadModel, sv_queue = MemoryWorkQueue,
     sv_clock = FixedClock, sv_ids = SeqIdGen, sv_policy = po\<rparr>"

lemma mem_service_simps [simp]:
  "sv_events (mem_service po) = MemoryEventStore" "sv_blobs (mem_service po) = MemoryBlobStore"
  "sv_uploads (mem_service po) = MemoryUploadStateStore" "sv_documents (mem_service po) = MemoryReadModel"
  "sv_queue (mem_service po) = MemoryWorkQueue" "sv_clock (mem_service po) = FixedClock"
  "sv_ids (mem_service po) = SeqIdGen" "sv_policy (mem_service po) = po"
  by (simp_all add: mem_service_def)

text \<open>The read model holds every document under its own key, once.\<close>

definition catalogued :: "ReadModelState \<Rightarrow> bool" where
  "catalogued st = (distinct (map fst (mr_documents st))
     \<and> (\<forall>(k, doc) \<in> set (mr_documents st). k = (ds_tenant_id doc, ds_document_id doc)))"

definition tenant_documents :: "ReadModelState \<Rightarrow> string \<Rightarrow> DocumentState list" where
  "tenant_documents st t = sort_desc (filter (\<lambda>doc. ds_tenant_id doc = t) (map snd (mr_documents st)))"

lemma catalogued_empty: "catalogued empty_documents"
  by (simp add: catalogued_def empty_documents_def)

lemma catalogued_upsert: "catalogued st \<Longrightarrow> catalogued (upsert doc st)"
proof -
  assume c: "catalogued st"
  have "x \<in> set (AList.update k v ls) \<Longrightarrow> x = (k, v) \<or> x \<in> set ls" for x k v and ls :: "((string \<times> string) \<times> DocumentState) list"
    by (induction ls) (auto split: if_splits)
  with c show ?thesis by (fastforce simp: catalogued_def upsert_def distinct_update)
qed

lemma distinct_tenant_cursors:
  assumes "catalogued st"
  shows "distinct (map list_key (filter (\<lambda>doc. ds_tenant_id doc = t) (map snd (mr_documents st))))"
proof -
  have "distinct (map list_key (filter (\<lambda>doc. ds_tenant_id doc = t) (map snd l)))"
    if "distinct (map fst l)" "\<forall>(k, doc) \<in> set l. k = (ds_tenant_id doc, ds_document_id doc)"
    for l :: "((string \<times> string) \<times> DocumentState) list"
    using that
  proof (induction l)
    case (Cons x l)
    then show ?case by (cases x) (force simp: list_key_def)
  qed simp
  then show ?thesis using assms by (simp add: catalogued_def)
qed

lemma sorted_tenant_documents:
  assumes "catalogued st"
  shows "sorted_wrt (\<lambda>a b. list_key b < list_key a) (tenant_documents st t)"
proof -
  let ?l = "filter (\<lambda>doc. ds_tenant_id doc = t) (map snd (mr_documents st))"
  have "sorted (map list_key (sort_key list_key (rev ?l)))" by simp
  moreover have "distinct (map list_key (sort_key list_key (rev ?l)))"
    using distinct_tenant_cursors [OF assms, of t] by (auto simp: distinct_map)
  ultimately have "sorted_wrt (<) (map list_key (sort_key list_key (rev ?l)))"
    by (simp add: strict_sorted_iff)
  then show ?thesis by (simp add: tenant_documents_def sort_desc_def sorted_wrt_rev sorted_wrt_map)
qed

lemma filter_sort_desc: "filter P (sort_desc ds) = sort_desc (filter P ds)"
  by (simp only: sort_desc_def rev_filter [symmetric] filter_sort)

interpretation listing: read_model MemoryReadModel "\<lambda>x. tenant_documents (w_documents (fst x))"
  "\<lambda>x. snd x = [] \<and> catalogued (w_documents (fst x))"
proof
  fix x :: Shared and t n after
  assume x: "snd x = [] \<and> catalogued (w_documents (fst x))"
  then show "sorted_wrt (\<lambda>a b. list_key b < list_key a) (tenant_documents (w_documents (fst x)) t)"
    by (simp add: sorted_tenant_documents)
  obtain w where w: "x = (w, [])" using x by (cases x) auto
  have "(\<lambda>doc. case after of None \<Rightarrow> True | Some cursor \<Rightarrow> list_key doc < cursor) = past after"
    by (auto simp: past_def split: option.splits)
  then show "run_state (rm_list MemoryReadModel t n after) x =
      (Ok (take (unat n) (filter (past after) (tenant_documents (w_documents (fst x)) t))), x)"
    by (simp add: w mem_list_def tenant_documents_def filter_sort_desc)
qed

section \<open>Effects of preflight\<close>

abbreviation next_id :: "u64 \<Rightarrow> string" where
  "next_id n \<equiv> ''id-'' @ show_pad4 (n + 1)"

abbreviation next_multipart :: "MemWorld \<Rightarrow> string" where
  "next_multipart w \<equiv> ''mp-'' @ show_u64 (mb_next_multipart (w_blobs w) + 1)"

lemma run_open_upload:
  fixes w t u req d m ps n
  defines "i \<equiv> next_id (w_ids w)" and "key \<equiv> object_key t (next_id (w_ids w))"
  defines "s \<equiv> preflight_state t u req d m i (next_multipart w) ps n (fixed_time (sint (w_clock w)))"
  shows "\<exists>w'. run_state (open_upload (mem_service po) t u req d m ps n) (w, []) =
      ((if record_of w (upload_key t u i) = None
        then Ok \<lparr>pf_upload_id = i, pf_document_id = d, pf_key = key, pf_part_size_bytes = ps, pf_part_count = n\<rparr>
        else Err (from_ContextError CtxAlreadyExists)), (w', []))
    \<and> record_of w' = (record_of w)(upload_key t u i :=
        (if record_of w (upload_key t u i) = None then Some \<lparr>su_state = s, su_revision = 1\<rparr> else None))
    \<and> mb_multiparts (w_blobs w') = (mb_multiparts (w_blobs w))((key, next_multipart w) :=
        (if record_of w (upload_key t u i) = None then Some [] else None))
    \<and> w_events w' = w_events w \<and> w_queue w' = w_queue w \<and> mb_objects (w_blobs w') = mb_objects (w_blobs w)"
  unfolding assms
  by (simp add: open_upload_def run_state_attempt mem_ulid_def mem_begin_multipart_def Let_def mem_create_def
      preflight_state_def own_key_def seed_def unwind_preflight_def mem_delete_record_def mem_abort_multipart_def
      drop_multipart_def)

lemma run_preflight_target:
  "\<exists>r. run_state (preflight_target (mem_service po) t d) (w, []) =
     (r, (if d = None then w\<lparr>w_ids := w_ids w + 1\<rparr> else w, []))"
  by (auto simp: preflight_target_def resolve_replace_target_def run_state_attempt mem_ulid_def mem_last_def
      mem_get_document_def split: option.splits)

text \<open>Every run of preflight either stops before it opens anything, or opens the upload from a
  world that differs at most in the id generator.\<close>

lemma preflight_cases:
  assumes "run_state (preflight (mem_service po) t u req) (w, []) = (r, y)"
  obtains
    (stopped) e v where "r = Err e" "y = (v, [])" "v = w \<or> v = w\<lparr>w_ids := w_ids w + 1\<rparr>"
  | (opened) v d m ps n where "v = w \<or> v = w\<lparr>w_ids := w_ids w + 1\<rparr>"
      "pq_size req \<le> po_max_upload_bytes po" "trim (pq_filename req) \<noteq> []"
      "part_size_bytes (pq_size req) (po_part_size_bytes po) = Ok ps" "part_count (pq_size req) ps = Ok n"
      "run_state (open_upload (mem_service po) t u req d m ps n) (v, []) = (r, y)"
proof -
  obtain q where q: "run_state (preflight_target (mem_service po) t (pq_document_id req)) (w, []) =
      (q, (if pq_document_id req = None then w\<lparr>w_ids := w_ids w + 1\<rparr> else w, []))"
    using run_preflight_target by blast
  show thesis
  proof (cases "\<exists>ps n d m. trim (pq_filename req) \<noteq> [] \<and> pq_size req \<le> po_max_upload_bytes po \<and>
      part_size_bytes (pq_size req) (po_part_size_bytes po) = Ok ps \<and> part_count (pq_size req) ps = Ok n \<and> q = Ok (d, m)")
    case True
    then obtain ps n d m where c: "trim (pq_filename req) \<noteq> []" "pq_size req \<le> po_max_upload_bytes po"
      "part_size_bytes (pq_size req) (po_part_size_bytes po) = Ok ps" "part_count (pq_size req) ps = Ok n" "q = Ok (d, m)"
      by blast
    let ?v = "if pq_document_id req = None then w\<lparr>w_ids := w_ids w + 1\<rparr> else w"
    have "preflight (mem_service po) t u req =
        attempt id (preflight_target (mem_service po) t (pq_document_id req)) (\<lambda>(document_id, mode).
          open_upload (mem_service po) t u req document_id mode ps n)"
      using c leD [OF c(2)] by (simp add: preflight_def)
    then have "run_state (open_upload (mem_service po) t u req d m ps n) (?v, []) = (r, y)"
      using assms q c(5) by (simp only: run_state_attempt) simp
    then show thesis using c by (intro opened [of ?v ps n d m]) auto
  next
    case False
    then show thesis using assms stopped q
      by (auto simp: preflight_def run_state_attempt not_less split: if_splits result.splits)
  qed
qed

section \<open>Signing a window\<close>

lemma run_presign_window:
  "\<exists>parts. run_state (presign_window (mem_service po) ctx skip ps) (w, []) = (Ok parts, (w, []))
     \<and> map pp_part_number parts = filter (\<lambda>p. p \<notin> set skip) ps"
proof (induction ps)
  case (Cons p ps)
  then show ?case
    by (auto simp: run_state_attempt mem_presign_part_def)
qed simp

lemma run_load_context:
  "run_state (load_context (mem_service po) t u i) (w, []) =
     (case record_of w (upload_key t u i) of
        Some st \<Rightarrow> if us_owner_user_id (su_state st) = u \<and> us_tenant_id (su_state st) = t
          then Ok (su_state st) else Err NotFound
      | None \<Rightarrow> Err NotFound, (w, []))"
  by (auto simp: load_context_def load_def run_state_attempt mem_get_def split: option.splits)

lemma run_renew_start:
  "run_state (renew_start (mem_service po) ctx from_part) (w, []) =
     (case from_part of
        Some from \<Rightarrow> if 1 \<le> from \<and> from \<le> us_part_count ctx then Ok (from, [])
          else Err (Invalid (''from_part must be between 1 and '' @ show_u64 (us_part_count ctx)))
      | None \<Rightarrow> (case mb_multiparts (w_blobs w) (us_storage_key ctx, us_multipart_upload_id ctx) of
          None \<Rightarrow> Err Gone
        | Some uploaded \<Rightarrow> Ok (case find (\<lambda>p. p \<notin> set (map up_part_number uploaded)) (part_range 1 (us_part_count ctx)) of
              Some p \<Rightarrow> p | None \<Rightarrow> us_part_count ctx, map up_part_number uploaded)), (w, []))"
  by (auto simp: renew_start_def run_state_attempt mem_list_parts_def Let_def split: option.splits)

text \<open>The start of a renewal lies in the upload, and what it skips is what storage holds.\<close>

lemma renew_start_ok:
  assumes "run_state (renew_start (mem_service po) ctx from_part) (w, []) = (Ok (first, skip), y)" "us_part_count ctx \<noteq> 0"
  shows "1 \<le> first \<and> first \<le> us_part_count ctx"
    and "from_part = Some from \<Longrightarrow> skip = [] \<and> first = from"
    and "from_part = None \<Longrightarrow>
      set skip = up_part_number ` set (multipart_parts (w_blobs w) (us_storage_key ctx) (us_multipart_upload_id ctx))"
proof -
  have nz: "1 \<le> us_part_count ctx" using assms(2) by (simp add: word_le_nat_alt unat_gt_0 Suc_le_eq)
  have found: "1 \<le> p \<and> p \<le> us_part_count ctx" if "find P (part_range 1 (us_part_count ctx)) = Some p" for P p
    using that set_part_range [of 1 "us_part_count ctx"] by (auto simp: find_Some_iff dest: nth_mem)
  show "1 \<le> first \<and> first \<le> us_part_count ctx"
    using assms(1) nz found by (auto simp: run_renew_start split: option.splits if_splits)
  show "from_part = Some from \<Longrightarrow> skip = [] \<and> first = from"
    using assms(1) by (auto simp: run_renew_start split: if_splits)
  show "from_part = None \<Longrightarrow>
      set skip = up_part_number ` set (multipart_parts (w_blobs w) (us_storage_key ctx) (us_multipart_upload_id ctx))"
    using assms(1) by (auto simp: run_renew_start multipart_parts_def split: option.splits)
qed

lemma renew_window_bounds:
  assumes "first \<le> us_part_count ctx" "1 \<le> first" "p \<in> set (part_range first (renew_last ctx first count))"
  shows "1 \<le> p \<and> p \<le> us_part_count ctx"
  using assms by (auto simp: set_part_range renew_last_def split: option.splits intro: order.trans)

section \<open>Completing\<close>

text \<open>Completing an upload, step by step, when its record is the caller's and nobody else is
  writing it: the refusals, then the publication, then the transition.\<close>

definition own_record :: "MemWorld \<Rightarrow> string \<Rightarrow> string \<Rightarrow> string \<Rightarrow> StoredUpload \<Rightarrow> bool" where
  "own_record w t u i st = (record_of w (upload_key t u i) = Some st \<and> own_key (su_state st) = upload_key t u i
     \<and> us_tenant_id (su_state st) = t \<and> us_owner_user_id (su_state st) = u \<and> mu_conflict_once (w_uploads w) = None)"

definition published :: "UploadCompleted \<Rightarrow> UploadCompleted list \<Rightarrow> UploadCompleted list" where
  "published cmd q = (if \<exists>c \<in> set q. uc_command_id c = uc_command_id cmd then q else q @ [cmd])"

definition mark_scanning :: "string \<Rightarrow> StoredUpload \<Rightarrow> MemWorld \<Rightarrow> MemWorld" where
  "mark_scanning k st w = (if is_terminal (us_status (su_state st)) then w
     else put_record k \<lparr>su_state = with_status (su_state st) Scanning (fixed_time (sint (w_clock w))),
       su_revision = su_revision st + 1\<rparr> w)"

lemma run_complete:
  assumes "own_record w t u i st"
  shows "run_state (complete to_vec (mem_service po) t u i req) (w, []) =
    (case validate_metadata_patch to_vec (cr_patch req) of
       Err e \<Rightarrow> (Err (from_ValidationError e), (w, []))
     | Ok _ \<Rightarrow>
         if cr_if_match req \<noteq> None \<and> us_mode (su_state st) = Create
         then (Err (Invalid ''if_match is not valid for a new document''), (w, []))
         else (Ok (), (mark_scanning (upload_key t u i) st (w\<lparr>w_queue := published
           (completed_command t u i (su_state st) req (fixed_time (sint (w_clock w)))) (w_queue w)\<rparr>), [])))"
proof -
  let ?c = "completed_command t u i (su_state st) req (fixed_time (sint (w_clock w)))"
  let ?w = "w\<lparr>w_queue := published ?c (w_queue w)\<rparr>"
  have pub: "run_state (mem_publish ?c) (w_queue w) = (Ok (), published ?c (w_queue w))"
    by (auto simp: mem_publish_def published_def list_ex_iff)
  have "record_of ?w (upload_key t u i) = Some st" "own_key (su_state st) = upload_key t u i"
    "mu_conflict_once (w_uploads ?w) = None" using assms by (auto simp: own_record_def)
  note set_status = run_set_status_alone [of ?w t u i Scanning "fixed_time (sint (w_clock w))", OF this(3)] this
  show ?thesis
    using assms set_status pub
    by (auto simp: complete_def run_state_attempt run_load_context own_record_def mark_scanning_def
        split: result.split option.splits)
qed

section \<open>Properties\<close>


definition ex_request :: PreflightRequest where
  "ex_request = \<lparr>pq_document_id = None, pq_filename = '' report.pdf '', pq_size = 52428800, pq_content_type = None\<rparr>"

definition ex_policy :: UploadPolicy where
  "ex_policy = \<lparr>po_part_url_ttl = 300, po_max_upload_bytes = 2147483648, po_part_size_bytes = 20971520\<rparr>"

definition ex_ctx :: UploadState where
  "ex_ctx = preflight_state ''acme'' ''user-1'' ex_request ''d1'' Create ''u1'' ''mp-1'' 20971520 3 0"

lemma ex_ctx_sliced: "sliced ex_ctx 20971520"
  by (simp add: sliced_def ex_ctx_def preflight_state_def ex_request_def ex_slicing ex_count)


text \<open>What a successful preflight leaves behind: a record at the caller's own key, where none
  was before, in state uploading, for a file within the upload limit and with the geometry of
  its declared size, which is what the client is told; and an open, empty multipart upload
  under the object key of that record.\<close>

theorem preflight_opens_upload:
  assumes "run_state (preflight (mem_service po) t u req) (w, []) = (Ok resp, y)"
  shows "\<exists>s. record_of (fst y) (upload_key t u (pf_upload_id resp)) = Some \<lparr>su_state = s, su_revision = 1\<rparr>
    \<and> record_of w (upload_key t u (pf_upload_id resp)) = None
    \<and> us_status s = Uploading \<and> us_declared_size s = pq_size req \<and> pq_size req \<le> po_max_upload_bytes po
    \<and> sliced s (po_part_size_bytes po)
    \<and> us_part_size_bytes s = pf_part_size_bytes resp \<and> us_part_count s = pf_part_count resp
    \<and> us_storage_key s = object_key t (pf_upload_id resp) \<and> pf_key resp = us_storage_key s
    \<and> mb_multiparts (w_blobs (fst y)) (us_storage_key s, us_multipart_upload_id s) = Some []"
  using assms
proof (cases rule: preflight_cases)
  case (opened v d m ps n)
  then have rec: "record_of v = record_of w" by auto
  from run_open_upload [of po t u req d m ps n v] opened(6) opened(2,4,5) show ?thesis
    by (auto simp: preflight_state_def sliced_def rec split: if_splits)
qed simp

lemma ex_ids: "next_id 0 = ''id-0001''" "next_id 1 = ''id-0002''" "next_multipart empty_world = ''mp-1''"
  by code_simp+

lemma ex_trim: "trim '' report.pdf '' = ''report.pdf''"
  by code_simp

text \<open>The effects of the example request, from any world whose id generator is fresh.\<close>

lemma ex_preflight:
  assumes "w_ids w = 0"
  shows "run_state (preflight (mem_service ex_policy) ''acme'' ''user-1'' ex_request) (w, []) =
    run_state (open_upload (mem_service ex_policy) ''acme'' ''user-1'' ex_request ''id-0001'' Create 20971520 3)
      (w\<lparr>w_ids := 1\<rparr>, [])"
  using assms ex_ids(1)
  by (simp add: preflight_def ex_request_def ex_trim ex_policy_def ex_slicing ex_count preflight_target_def
      run_state_attempt mem_ulid_def)

theorem preflight_opens_upload_witness:
  "\<exists>resp y s. run_state (preflight (mem_service ex_policy) ''acme'' ''user-1'' ex_request) (empty_world, []) = (Ok resp, y)
     \<and> record_of (fst y) (upload_key ''acme'' ''user-1'' (pf_upload_id resp)) = Some \<lparr>su_state = s, su_revision = 1\<rparr>
     \<and> sliced s 20971520"
proof -
  let ?r = "run_state (preflight (mem_service ex_policy) ''acme'' ''user-1'' ex_request) (empty_world, [])"
  have "w_ids empty_world = 0" "record_of (empty_world\<lparr>w_ids := 1\<rparr>) k = None" for k
    by (simp_all add: empty_world_def empty_uploads_def)
  then obtain p y where y: "?r = (Ok p, y)"
    using run_open_upload [of ex_policy "''acme''" "''user-1''" ex_request "''id-0001''" Create 20971520 3 "empty_world\<lparr>w_ids := 1\<rparr>"]
    by (auto simp: ex_preflight)
  from preflight_opens_upload [OF this] obtain s where
    "record_of (fst y) (upload_key ''acme'' ''user-1'' (pf_upload_id p)) = Some \<lparr>su_state = s, su_revision = 1\<rparr>"
    "sliced s (po_part_size_bytes ex_policy)"
    by blast
  with y show ?thesis by (intro exI [of _ p] exI [of _ y] exI [of _ s]) (simp add: ex_policy_def)
qed

text \<open>A preflight that fails leaves nothing behind: afterwards no multipart upload is open
  that was not open before, no record exists that did not exist before, and log, queue and
  stored objects are untouched.\<close>

theorem failed_preflight_leaves_nothing:
  assumes "run_state (preflight (mem_service po) t u req) (w, []) = (Err e, y)"
  shows "dom (mb_multiparts (w_blobs (fst y))) \<subseteq> dom (mb_multiparts (w_blobs w))
    \<and> dom (record_of (fst y)) \<subseteq> dom (record_of w)
    \<and> w_events (fst y) = w_events w \<and> w_queue (fst y) = w_queue w
    \<and> mb_objects (w_blobs (fst y)) = mb_objects (w_blobs w)"
  using assms
proof (cases rule: preflight_cases)
  case (stopped e' v)
  then show ?thesis by auto
next
  case (opened v d m ps n)
  then have "w_uploads v = w_uploads w" "w_blobs v = w_blobs w" "w_events v = w_events w" "w_queue v = w_queue w" by auto
  with run_open_upload [of po t u req d m ps n v] opened(6) show ?thesis
    by (auto split: if_splits)
qed

theorem failed_preflight_leaves_nothing_witness:
  "\<exists>y. run_state (preflight (mem_service ex_policy) ''acme'' ''user-1'' (ex_request\<lparr>pq_document_id := Some ''ghost''\<rparr>))
        (empty_world, []) = (Err NotFound, y)
     \<and> dom (mb_multiparts (w_blobs (fst y))) \<subseteq> dom (mb_multiparts (w_blobs empty_world))"
proof -
  let ?r = "run_state (preflight (mem_service ex_policy) ''acme'' ''user-1'' (ex_request\<lparr>pq_document_id := Some ''ghost''\<rparr>))
        (empty_world, [])"
  have "?r = (Err NotFound, (empty_world, []))"
    by (simp add: preflight_def ex_request_def ex_trim ex_policy_def ex_slicing ex_count preflight_target_def
        resolve_replace_target_def run_state_attempt mem_last_def stream_head_def mem_stream_def empty_world_def empty_events_def)
  then show ?thesis using failed_preflight_leaves_nothing by blast
qed

text \<open>The unwinding of a failed preflight deletes by key and so can delete a record it did
  not write: when the new upload's key is already taken, the existing upload's record is gone
  afterwards, although creating a record never overwrites one.\<close>

theorem colliding_preflight_deletes_record:
  "\<exists>w t u req k. record_of w k \<noteq> None \<and>
     (case run_state (preflight (mem_service ex_policy) t u req) (w, []) of
        (r, y) \<Rightarrow> (\<exists>m. r = Err (Internal m)) \<and> record_of (fst y) k = None)"
proof -
  let ?s = "preflight_state ''acme'' ''user-1'' ex_request ''d0'' Create ''id-0002'' ''mp-0'' 20971520 3 0"
  let ?w = "empty_world\<lparr>w_uploads := seed ?s empty_uploads\<rparr>"
  let ?k = "upload_key ''acme'' ''user-1'' ''id-0002''"
  have w: "w_ids ?w = 0" "record_of ?w ?k \<noteq> None"
    by (simp_all add: empty_world_def seed_def own_key_def preflight_state_def)
  obtain v where "run_state (preflight (mem_service ex_policy) ''acme'' ''user-1'' ex_request) (?w, []) =
      (Err (from_ContextError CtxAlreadyExists), (v, []))" "record_of v ?k = None"
    using run_open_upload [of ex_policy "''acme''" "''user-1''" ex_request "''id-0001''" Create 20971520 3 "?w\<lparr>w_ids := 1\<rparr>"]
      w ex_ids(2) by (auto simp: ex_preflight)
  with w(2) show ?thesis
    by (intro exI [of _ ?w] exI [of _ "''acme''"] exI [of _ "''user-1''"] exI [of _ ex_request] exI [of _ ?k])
      (simp add: from_ContextError_def internal_def)
qed

text \<open>A renewal signs only parts of the upload. It changes nothing; every URL it returns is for
  a part number from 1 to the part count, at most one per part; a client that names its first
  part gets exactly the window it asked for, cut off at the last part; and a client that asks
  where to resume gets no URL for a part storage already holds.\<close>

theorem renew_signs_window:
  assumes "run_state (renew (mem_service po) t u i req) (w, []) = (Ok resp, y)"
    and "record_of w (upload_key t u i) = Some st" "us_part_count (su_state st) \<noteq> 0"
  shows "y = (w, []) \<and> distinct (map pp_part_number (rr_parts resp))
    \<and> (\<forall>p \<in> set (map pp_part_number (rr_parts resp)). 1 \<le> p \<and> p \<le> us_part_count (su_state st))
    \<and> (\<forall>from. rq_from_part req = Some from \<longrightarrow> map pp_part_number (rr_parts resp) =
         part_range from (renew_last (su_state st) from (rq_count req)))
    \<and> (rq_from_part req = None \<longrightarrow> (\<forall>p \<in> set (map pp_part_number (rr_parts resp)).
         p \<notin> up_part_number ` set (multipart_parts (w_blobs w) (us_storage_key (su_state st))
           (us_multipart_upload_id (su_state st)))))"
proof -
  let ?s = "su_state st" and ?ms = "mem_service po"
  have ctx: "run_state (load_context ?ms t u i) (w, []) = (Ok ?s, (w, []))"
    using assms(1,2) by (auto simp: renew_def run_state_attempt run_load_context split: if_splits)
  obtain first skip where start: "run_state (renew_start ?ms ?s (rq_from_part req)) (w, []) = (Ok (first, skip), (w, []))"
    using assms(1) ctx by (cases "fst (run_state (renew_start ?ms ?s (rq_from_part req)) (w, []))")
      (auto simp: renew_def run_state_attempt run_renew_start)
  obtain parts where parts: "run_state (presign_window ?ms ?s skip (part_range first (renew_last ?s first (rq_count req)))) (w, [])
      = (Ok parts, (w, []))"
    "map pp_part_number parts = filter (\<lambda>p. p \<notin> set skip) (part_range first (renew_last ?s first (rq_count req)))"
    using run_presign_window by metis
  have r: "resp = \<lparr>rr_parts = parts\<rparr>" "y = (w, [])"
    using assms(1) ctx start parts(1) by (auto simp: renew_def run_state_attempt)
  note first = renew_start_ok [OF start assms(3)]
  show ?thesis
    using r parts(2) first renew_window_bounds [of first ?s] by (auto simp: distinct_part_range)
qed

theorem renew_signs_window_witness:
  "\<exists>resp. run_state (renew (mem_service ex_policy) ''acme'' ''user-1'' ''u1''
        \<lparr>rq_from_part = Some 2, rq_count = None\<rparr>) (empty_world\<lparr>w_uploads := seed ex_ctx empty_uploads\<rparr>, []) =
      (Ok resp, (empty_world\<lparr>w_uploads := seed ex_ctx empty_uploads\<rparr>, []))
    \<and> map pp_part_number (rr_parts resp) = part_range 2 3"
proof -
  let ?w = "empty_world\<lparr>w_uploads := seed ex_ctx empty_uploads\<rparr>"
  let ?st = "\<lparr>su_state = ex_ctx, su_revision = 1\<rparr>"
  let ?q = "\<lparr>rq_from_part = Some 2, rq_count = None\<rparr>"
  have st: "record_of ?w (upload_key ''acme'' ''user-1'' ''u1'') = Some ?st" "us_part_count ex_ctx = 3"
    "us_tenant_id ex_ctx = ''acme''" "us_owner_user_id ex_ctx = ''user-1''"
    by (simp_all add: seed_def own_key_def ex_ctx_def preflight_state_def)
  obtain parts where "run_state (presign_window (mem_service ex_policy) ex_ctx [] (part_range 2 3)) (?w, []) = (Ok parts, (?w, []))"
    using run_presign_window by metis
  then have run: "run_state (renew (mem_service ex_policy) ''acme'' ''user-1'' ''u1'' ?q) (?w, []) =
      (Ok \<lparr>rr_parts = parts\<rparr>, (?w, []))"
    using st by (simp add: renew_def run_state_attempt run_load_context run_renew_start renew_last_def)
  from renew_signs_window [OF run st(1)] st(2) run show ?thesis by (auto simp: renew_last_def)
qed

text \<open>Completing an upload publishes exactly one work item for it, ever: a successful call
  adds the item built from the record and the request unless one with the same command id is
  already queued, marks the record as scanning unless a terminal answer is already there, and
  appends no event and touches no object.\<close>

theorem complete_publishes_once:
  assumes "own_record w t u i st"
    and "run_state (complete to_vec (mem_service po) t u i req) (w, []) = (Ok (), y)"
  shows "w_queue (fst y) = published (completed_command t u i (su_state st) req (fixed_time (sint (w_clock w)))) (w_queue w)
    \<and> length (filter (\<lambda>c. uc_command_id c = upload_completed_command_id t i) (w_queue (fst y)))
        = max 1 (length (filter (\<lambda>c. uc_command_id c = upload_completed_command_id t i) (w_queue w)))
    \<and> map_option (us_status \<circ> su_state) (record_of (fst y) (upload_key t u i)) =
        Some (if is_terminal (us_status (su_state st)) then us_status (su_state st) else Scanning)
    \<and> w_events (fst y) = w_events w \<and> w_blobs (fst y) = w_blobs w
    \<and> patch_valid to_vec (cr_patch req)"
proof -
  let ?c = "completed_command t u i (su_state st) req (fixed_time (sint (w_clock w)))"
  let ?n = "\<lambda>q. length (filter (\<lambda>c. uc_command_id c = upload_completed_command_id t i) q)"
  have ok: "validate_metadata_patch to_vec (cr_patch req) = Ok ()"
    and y: "y = (mark_scanning (upload_key t u i) st (w\<lparr>w_queue := published ?c (w_queue w)\<rparr>), [])"
    using assms(2) run_complete [OF assms(1), of to_vec po req] by (auto split: result.splits if_splits)
  have "uc_command_id ?c = upload_completed_command_id t i" by (simp add: completed_command_def)
  moreover have "0 < ?n q" if "c \<in> set q" "uc_command_id c = upload_completed_command_id t i" for c q
    using that by (auto simp: filter_empty_conv)
  ultimately have "?n (published ?c q) = max 1 (?n q)" for q
    by (fastforce simp: published_def filter_empty_conv max_def Suc_le_eq)
  then show ?thesis using assms(1) ok
    by (auto simp: y mark_scanning_def put_record_def own_record_def with_status_def validate_ok_iff)
qed

theorem complete_publishes_once_witness:
  "\<exists>y. run_state (complete (\<lambda>_. Some []) (mem_service ex_policy) ''acme'' ''user-1'' ''u1''
        \<lparr>cr_if_match = None, cr_on_conflict = Supersede, cr_patch = empty_patch\<rparr>)
        (empty_world\<lparr>w_uploads := seed ex_ctx empty_uploads\<rparr>, []) = (Ok (), y)
     \<and> length (filter (\<lambda>c. uc_command_id c = upload_completed_command_id ''acme'' ''u1'') (w_queue (fst y))) = 1"
proof -
  let ?w = "empty_world\<lparr>w_uploads := seed ex_ctx empty_uploads\<rparr>"
  let ?q = "\<lparr>cr_if_match = None, cr_on_conflict = Supersede, cr_patch = empty_patch\<rparr>"
  have own: "own_record ?w ''acme'' ''user-1'' ''u1'' \<lparr>su_state = ex_ctx, su_revision = 1\<rparr>"
    by (simp add: own_record_def seed_def own_key_def ex_ctx_def preflight_state_def empty_uploads_def)
  have "validate_metadata_patch (\<lambda>_. Some []) empty_patch = Ok ()"
    by (simp add: validate_ok_iff patch_valid_def empty_patch_def)
  then obtain y where y: "run_state (complete (\<lambda>_. Some []) (mem_service ex_policy) ''acme'' ''user-1'' ''u1'' ?q) (?w, []) =
      (Ok (), y)"
    using run_complete [OF own, of "\<lambda>_. Some []" ex_policy ?q] by simp
  from complete_publishes_once [OF own this] y show ?thesis by (auto simp: empty_world_def)
qed

text \<open>A refused completion changes nothing at all: an invalid patch, an upload that is not the
  caller's, or an expected version for a new document leave every store as it was.\<close>

theorem refused_complete_changes_nothing:
  assumes "\<And>st. record_of w (upload_key t u i) = Some st \<Longrightarrow> own_key (su_state st) = upload_key t u i"
    and "mu_conflict_once (w_uploads w) = None"
    and "run_state (complete to_vec (mem_service po) t u i req) (w, []) = (Err e, y)"
  shows "y = (w, [])"
proof (cases "\<exists>st. own_record w t u i st")
  case True
  then obtain st where "own_record w t u i st" by blast
  from run_complete [OF this, of to_vec po req] assms(3) show ?thesis
    by (auto split: result.splits if_splits)
next
  case False
  then have "run_state (load_context (mem_service po) t u i) (w, []) = (Err NotFound, (w, []))"
    using assms(1,2) by (auto simp: run_load_context own_record_def split: option.splits)
  then show ?thesis using assms(3) by (auto simp: complete_def run_state_attempt split: result.splits)
qed

theorem refused_complete_changes_nothing_witness:
  "run_state (complete (\<lambda>_. Some []) (mem_service ex_policy) ''acme'' ''user-1'' ''u1''
     \<lparr>cr_if_match = None, cr_on_conflict = Supersede, cr_patch = empty_patch\<rparr>) (empty_world, []) =
   (Err NotFound, (empty_world, []))"
proof -
  let ?q = "\<lparr>cr_if_match = None, cr_on_conflict = Supersede, cr_patch = empty_patch\<rparr>"
  have "validate_metadata_patch (\<lambda>_. Some []) empty_patch = Ok ()"
    by (simp add: validate_ok_iff patch_valid_def empty_patch_def)
  moreover have none: "record_of empty_world k = None" "mu_conflict_once (w_uploads empty_world) = None" for k
    by (simp_all add: empty_world_def empty_uploads_def)
  ultimately have "fst (run_state (complete (\<lambda>_. Some []) (mem_service ex_policy) ''acme'' ''user-1'' ''u1'' ?q) (empty_world, [])) =
      Err NotFound"
    by (simp add: complete_def run_state_attempt run_load_context)
  then obtain y where y: "run_state (complete (\<lambda>_. Some []) (mem_service ex_policy) ''acme'' ''user-1'' ''u1'' ?q) (empty_world, [])
      = (Err NotFound, y)" by (metis prod.collapse)
  from refused_complete_changes_nothing [OF _ none(2) this] none y show ?thesis by simp
qed

text \<open>Nobody sees another caller's upload: what \<open>upload_state\<close> returns belongs to the tenant
  and the user who asked, whatever the store holds and whatever other processes do.\<close>

theorem upload_state_is_callers:
  assumes "shared_inv x" "run_state (upload_state (mem_service po) t u i) x = (Ok s, y)"
  shows "us_tenant_id s = t \<and> us_owner_user_id s = u
    \<and> map_option su_state (record_of (fst y) (upload_key t u i)) = Some s"
proof -
  obtain r v where load: "run_state (load MemoryUploadStateStore t u i) x = (r, v)"
    by (cases "run_state (load MemoryUploadStateStore t u i) x")
  with assms(2) have "r = Ok (Some s)" "v = y"
    by (auto simp: upload_state_def run_state_attempt ok_or_def split: result.splits option.splits)
  with rgD(2) [OF records.rg_load assms(1) load] show ?thesis by simp
qed

theorem upload_state_is_callers_witness:
  "run_state (upload_state (mem_service ex_policy) ''acme'' ''user-1'' ''u1'')
      (empty_world\<lparr>w_uploads := seed ex_ctx empty_uploads\<rparr>, []) =
    (Ok ex_ctx, (empty_world\<lparr>w_uploads := seed ex_ctx empty_uploads\<rparr>, []))
   \<and> us_owner_user_id ex_ctx = ''user-1''"
proof -
  let ?w = "empty_world\<lparr>w_uploads := seed ex_ctx empty_uploads\<rparr>"
  have x: "shared_inv (?w, [])"
    by (simp add: coherent_def seed_def empty_world_def empty_events_def empty_uploads_def)
  have "record_of ?w (upload_key ''acme'' ''user-1'' ''u1'') = Some \<lparr>su_state = ex_ctx, su_revision = 1\<rparr>"
    "us_tenant_id ex_ctx = ''acme''" "us_owner_user_id ex_ctx = ''user-1''"
    by (simp_all add: seed_def own_key_def ex_ctx_def preflight_state_def)
  then have run: "run_state (upload_state (mem_service ex_policy) ''acme'' ''user-1'' ''u1'') (?w, []) = (Ok ex_ctx, (?w, []))"
    by (simp add: upload_state_def load_def run_state_attempt mem_get_def)
  from upload_state_is_callers [OF x run] run show ?thesis by simp
qed

text \<open>Paging is complete: a client that follows the cursors of the listing, with any page
  size, receives the documents of its tenant exactly once each, newest first, and is done after
  one request per full page plus one. Documents that share a timestamp are not skipped.\<close>

theorem pages_cover_listing:
  assumes "catalogued (w_documents w)"
    and "length (tenant_documents (w_documents w) t) div unat (clamp limit 1 MAX_LIST_LIMIT) < n"
  shows "run_state (follow_pages n (mem_service po) t limit None) (w, []) =
    (Ok (tenant_documents (w_documents w) t), (w, []))"
  by (rule listing.follow_pages_lists [where pre = "[]"])
    (use assms in \<open>auto simp: past_def\<close>)

definition ex_document_state :: "string \<Rightarrow> DocumentState" where
  "ex_document_state d = \<lparr>ds_tenant_id = ''acme'', ds_document_id = d, ds_owner_user_id = ''user-1'', ds_version = 1,
     ds_stream_seq = 1, ds_state = Active, ds_index_state = Pending, ds_index_version = None, ds_current_blob = None,
     ds_filename = None, ds_content_type = None, ds_byte_size = None, ds_checksum = None, ds_title = None,
     ds_tags = [], ds_description = None, ds_metadata = JObject [], ds_created_at = 5, ds_updated_at = 5\<rparr>"

definition ex_listing :: MemWorld where
  "ex_listing = empty_world\<lparr>w_documents :=
     upsert (ex_document_state ''d2'') (upsert (ex_document_state ''d1'') empty_documents)\<rparr>"

theorem pages_cover_listing_witness:
  "run_state (follow_pages 3 (mem_service ex_policy) ''acme'' 1 None) (ex_listing, []) =
     (Ok [ex_document_state ''d2'', ex_document_state ''d1''], (ex_listing, []))"
proof -
  have "tenant_documents (w_documents ex_listing) ''acme'' = [ex_document_state ''d2'', ex_document_state ''d1'']"
    by code_simp
  moreover have "catalogued (w_documents ex_listing)"
    by (simp add: ex_listing_def catalogued_upsert catalogued_empty)
  ultimately show ?thesis
    using pages_cover_listing [of ex_listing "''acme''" 1 3 ex_policy] by (simp add: clamp_def MAX_LIST_LIMIT_def)
qed

end
