(* ===== verification/Projection.thy ===== *)
theory Projection
  imports Fold Keys Service "HOL-Library.AList"
begin

text \<open>
  The projection of the event log into the document table: the decision logic of
  crates/document-app/src/projection.rs, the row codec of document-adapters/src/postgres/mod.rs,
  the batch transaction of postgres/projection.rs, and the queries of postgres/read\_model.rs
  over the table. The tables are maps; a statement is its effect on them, and a transaction
  either has all of its effects or none. \<open>bigint\<close> columns are integers in the range of \<open>i64\<close>,
  with the casts of the source written out.

  The parsing and printing of JSON is serde\_json's and is the parameter \<open>sj\<close>.
\<close>

section \<open>Decoding and folding one event\<close>

record SerdeJson =
  sj_from_slice :: "bytes \<Rightarrow> (json, string) result"
  sj_event_from_value :: "json \<Rightarrow> (DocumentEvent, string) result"
  sj_event_to_value :: "DocumentEvent \<Rightarrow> json option"
  sj_tags_to_value :: "string list \<Rightarrow> json option"
  sj_tags_from_value :: "json \<Rightarrow> string list option"

datatype DecodedEvent = DecodedEvent DocumentEvent | Unknown json string | Malformed string

definition decode_event :: "SerdeJson \<Rightarrow> bytes \<Rightarrow> DecodedEvent" where
  "decode_event sj payload = (case sj_from_slice sj payload of
      Err error \<Rightarrow> Malformed error
    | Ok raw \<Rightarrow> (case sj_event_from_value sj raw of
        Ok event \<Rightarrow> DecodedEvent event
      | Err error \<Rightarrow> Unknown raw error))"

datatype ProjectionOutcome = Upsert DocumentState | Failure json string bool

definition project_event :: "SerdeJson \<Rightarrow> DocumentState option \<Rightarrow> bytes \<Rightarrow> u64 \<Rightarrow> ProjectionOutcome" where
  "project_event sj prior payload stream_seq = (case decode_event sj payload of
      DecodedEvent event \<Rightarrow> (case apply_event prior event stream_seq of
          Ok state \<Rightarrow> Upsert state
        | Err error \<Rightarrow> Failure (case sj_event_to_value sj event of Some v \<Rightarrow> v | None \<Rightarrow> JNull)
            (display_FoldError error) True)
    | Unknown raw error \<Rightarrow> Failure raw error False
    | Malformed error \<Rightarrow> Failure JNull error False)"

section \<open>Rows\<close>

record DocumentRow =
  row_tenant_id :: string
  row_document_id :: string
  row_owner_user_id :: string
  row_version :: int
  row_stream_seq :: int
  row_state :: string
  row_index_state :: string
  row_index_version :: "int option"
  row_current_blob :: "string option"
  row_filename :: "string option"
  row_content_type :: "string option"
  row_byte_size :: "int option"
  row_checksum :: "string option"
  row_title :: "string option"
  row_tags :: json
  row_description :: "string option"
  row_metadata :: json
  row_created_at :: datetime
  row_updated_at :: datetime

text \<open>\<open>value as i64\<close> and \<open>value.max(0) as u64\<close>.\<close>

definition as_i64 :: "u64 \<Rightarrow> int" where
  "as_i64 v = sint v"

definition i64_as_u64 :: "int \<Rightarrow> u64" where
  "i64_as_u64 v = of_int (max v 0)"

definition row_to_document :: "SerdeJson \<Rightarrow> DocumentRow \<Rightarrow> DocumentState" where
  "row_to_document sj row =
     \<lparr>ds_tenant_id = row_tenant_id row,
      ds_document_id = row_document_id row,
      ds_owner_user_id = row_owner_user_id row,
      ds_version = i64_as_u64 (row_version row),
      ds_stream_seq = i64_as_u64 (row_stream_seq row),
      ds_state = (case DocState_parse (row_state row) of Some s \<Rightarrow> s | None \<Rightarrow> Active),
      ds_index_state = (case IndexState_parse (row_index_state row) of Some s \<Rightarrow> s | None \<Rightarrow> Pending),
      ds_index_version = map_option i64_as_u64 (row_index_version row),
      ds_current_blob = row_current_blob row,
      ds_filename = row_filename row,
      ds_content_type = row_content_type row,
      ds_byte_size = map_option i64_as_u64 (row_byte_size row),
      ds_checksum = row_checksum row,
      ds_title = row_title row,
      ds_tags = (case sj_tags_from_value sj (row_tags row) of Some ts \<Rightarrow> ts | None \<Rightarrow> []),
      ds_description = row_description row,
      ds_metadata = row_metadata row,
      ds_created_at = row_created_at row,
      ds_updated_at = row_updated_at row\<rparr>"

text \<open>The values \<open>upsert_document\<close> binds.\<close>

definition document_to_row :: "SerdeJson \<Rightarrow> DocumentState \<Rightarrow> DocumentRow" where
  "document_to_row sj state =
     \<lparr>row_tenant_id = ds_tenant_id state,
      row_document_id = ds_document_id state,
      row_owner_user_id = ds_owner_user_id state,
      row_version = as_i64 (ds_version state),
      row_stream_seq = as_i64 (ds_stream_seq state),
      row_state = DocState_as_str (ds_state state),
      row_index_state = IndexState_as_str (ds_index_state state),
      row_index_version = map_option as_i64 (ds_index_version state),
      row_current_blob = ds_current_blob state,
      row_filename = ds_filename state,
      row_content_type = ds_content_type state,
      row_byte_size = map_option as_i64 (ds_byte_size state),
      row_checksum = ds_checksum state,
      row_title = ds_title state,
      row_tags = (case sj_tags_to_value sj (ds_tags state) of Some v \<Rightarrow> v | None \<Rightarrow> JArray []),
      row_description = ds_description state,
      row_metadata = ds_metadata state,
      row_created_at = ds_created_at state,
      row_updated_at = ds_updated_at state\<rparr>"

section \<open>The database and its statements\<close>

record Pg =
  pg_document :: "(string \<times> string) \<rightharpoonup> DocumentRow"
  pg_checkpoint :: "string \<rightharpoonup> int"
  pg_failure :: "(string \<times> int) \<rightharpoonup> string \<times> json \<times> string"

definition empty_pg :: Pg where
  "empty_pg = \<lparr>pg_document = Map.empty, pg_checkpoint = Map.empty, pg_failure = Map.empty\<rparr>"

definition DOCUMENT_PROJECTION_NAME :: string where
  "DOCUMENT_PROJECTION_NAME = ''document-pg''"

definition load_document :: "SerdeJson \<Rightarrow> Pg \<Rightarrow> string \<Rightarrow> string \<Rightarrow> DocumentState option" where
  "load_document sj pg tenant document_id = map_option (row_to_document sj) (pg_document pg (tenant, document_id))"

text \<open>\<open>INSERT .. ON CONFLICT DO UPDATE .. WHERE stream_seq < EXCLUDED.stream_seq\<close>. The update
  sets every column but the key and \<open>created_at\<close>.\<close>

definition upsert_document :: "SerdeJson \<Rightarrow> DocumentState \<Rightarrow> Pg \<Rightarrow> Pg" where
  "upsert_document sj state pg =
     (let excluded = document_to_row sj state; key = (row_tenant_id excluded, row_document_id excluded) in
      case pg_document pg key of
        None \<Rightarrow> pg\<lparr>pg_document := (pg_document pg)(key \<mapsto> excluded)\<rparr>
      | Some row \<Rightarrow>
          if row_stream_seq row < row_stream_seq excluded
          then pg\<lparr>pg_document := (pg_document pg)(key \<mapsto> excluded\<lparr>row_created_at := row_created_at row\<rparr>)\<rparr>
          else pg)"

definition record_failure :: "string \<Rightarrow> u64 \<Rightarrow> string \<Rightarrow> json \<Rightarrow> string \<Rightarrow> Pg \<Rightarrow> Pg" where
  "record_failure name sequence subject payload error pg =
     (if pg_failure pg (name, as_i64 sequence) = None
      then pg\<lparr>pg_failure := (pg_failure pg)((name, as_i64 sequence) \<mapsto> (subject, payload, error))\<rparr>
      else pg)"

definition read_checkpoint :: "string \<Rightarrow> Pg \<Rightarrow> u64" where
  "read_checkpoint name pg = i64_as_u64 (case pg_checkpoint pg name of Some s \<Rightarrow> s | None \<Rightarrow> 0)"

definition reset :: "string \<Rightarrow> Pg \<Rightarrow> Pg" where
  "reset name pg = pg\<lparr>pg_document := Map.empty, pg_checkpoint := (pg_checkpoint pg)(name := None),
     pg_failure := (\<lambda>(n, s). if n = name then None else pg_failure pg (n, s))\<rparr>"

section \<open>A batch\<close>

type_synonym message = "u64 \<times> string \<times> bytes"
type_synonym folded = "((string \<times> string) \<times> DocumentState) list"

text \<open>The loop of \<open>apply_batch\<close> over the messages. The rows it reads are those of the
  transaction, which it has not written yet.\<close>

fun fold_batch :: "SerdeJson \<Rightarrow> string \<Rightarrow> message list \<Rightarrow> Pg \<times> folded \<Rightarrow> Pg \<times> folded" where
  "fold_batch sj name [] (pg, folded) = (pg, folded)"
| "fold_batch sj name ((sequence, subject, payload) # batch) (pg, folded) =
     (let prior = (case document_key_from_subject subject of
            Some key \<Rightarrow> (case map_of folded key of
                Some state \<Rightarrow> Some state
              | None \<Rightarrow> load_document sj pg (fst key) (snd key))
          | None \<Rightarrow> None)
      in case project_event sj prior payload sequence of
          Upsert state \<Rightarrow> fold_batch sj name batch
            (pg, AList.update (ds_tenant_id state, ds_document_id state) state folded)
        | Failure value error domain_violation \<Rightarrow>
            fold_batch sj name batch (record_failure name sequence subject value error pg, folded))"

definition apply_batch :: "SerdeJson \<Rightarrow> string \<Rightarrow> message list \<Rightarrow> Pg \<Rightarrow> Pg" where
  "apply_batch sj name batch pg =
     (let (pg, folded) = fold_batch sj name batch (pg, []);
          pg = fold (upsert_document sj) (map snd folded) pg;
          last_seq = (if batch = [] then 0 else fst (last batch))
      in pg\<lparr>pg_checkpoint := (pg_checkpoint pg)(name \<mapsto> as_i64 last_seq)\<rparr>)"

section \<open>Reading\<close>

definition pg_get :: "SerdeJson \<Rightarrow> Pg \<Rightarrow> string \<Rightarrow> string \<Rightarrow> DocumentState option" where
  "pg_get sj pg tenant document_id = map_option (row_to_document sj) (pg_document pg (tenant, document_id))"

section \<open>What fits into a row\<close>

definition fits :: "u64 \<Rightarrow> bool" where
  "fits v = (unat v < 2 ^ 63)"

lemma as_i64_fits: "fits v \<Longrightarrow> as_i64 v = int (unat v)"
proof -
  assume "fits v"
  then have "int (unat v) < int (2 ^ 63)" by (simp only: of_nat_less_iff fits_def)
  then have "uint v < 2 ^ 63" by simp
  moreover have "- (2 ^ 63) \<le> uint v" by (rule order_trans [of _ 0]) simp_all
  ultimately have "signed_take_bit 63 (uint v) = uint v" by (rule signed_take_bit_int_eq_self [rotated])
  then show ?thesis unfolding as_i64_def sint_uint by simp
qed

lemma as_i64_not_fits: "\<not> fits v \<Longrightarrow> as_i64 v < 0"
proof -
  assume "\<not> fits v"
  then have "int (2 ^ 63) \<le> int (unat v)" by (simp only: of_nat_le_iff fits_def not_less)
  then have lo: "2 ^ 63 \<le> uint v" by simp
  have hi: "uint v < 2 ^ 64" using unsigned_less [of v, where ?'a = int] by simp
  have "(uint v + 2 ^ 63) mod 2 ^ 64 = uint v + 2 ^ 63 - 2 ^ 64"
    using lo hi minus_mod_self2 [of "uint v + 2 ^ 63" "2 ^ 64"]
      mod_pos_pos_trivial [of "uint v + 2 ^ 63 - 2 ^ 64" "2 ^ 64"] by simp
  then show ?thesis using hi unfolding as_i64_def sint_uint
    by (simp add: signed_take_bit_eq_take_bit_shift take_bit_eq_mod)
qed

lemma i64_round_trip: "i64_as_u64 (as_i64 v) = (if fits v then v else 0)"
proof (cases "fits v")
  case True
  then show ?thesis by (simp add: i64_as_u64_def as_i64_fits)
next
  case False
  then show ?thesis using as_i64_not_fits [OF False] by (simp add: i64_as_u64_def max_def)
qed

lemma fits_0 [simp]: "fits 0"
  by (simp add: fits_def)

definition fits_state :: "DocumentState \<Rightarrow> bool" where
  "fits_state s = (fits (ds_version s) \<and> fits (ds_stream_seq s) \<and> pred_option fits (ds_index_version s)
     \<and> pred_option fits (ds_byte_size s))"

definition fits_event :: "DocumentEvent \<Rightarrow> bool" where
  "fits_event e = (fits (ev_version e) \<and> (case ev_payload e of
      DocumentCreated c \<Rightarrow> fits (dc_byte_size c)
    | DocumentBlobValidated v \<Rightarrow> fits (bv_byte_size v)
    | DocumentIndexed i \<Rightarrow> fits (di_for_version i)
    | _ \<Rightarrow> True))"

text \<open>A list of tags survives its JSON form.\<close>

definition tags_ok :: "SerdeJson \<Rightarrow> bool" where
  "tags_ok sj = (\<forall>ts. \<exists>v. sj_tags_to_value sj ts = Some v \<and> sj_tags_from_value sj v = Some ts)"

lemma parse_as_str [simp]:
  "DocState_parse (DocState_as_str a) = Some a" "IndexState_parse (IndexState_as_str b) = Some b"
  by (cases a; simp add: DocState_parse_def) (cases b; simp add: IndexState_parse_def)

lemma option_i64_round_trip:
  "map_option i64_as_u64 (map_option as_i64 x) = x \<longleftrightarrow> pred_option fits x"
  by (cases x) (auto simp: i64_round_trip)

lemma tags_round_trip:
  "tags_ok sj \<Longrightarrow> (case sj_tags_from_value sj (case sj_tags_to_value sj ts of Some v \<Rightarrow> v | None \<Rightarrow> JArray []) of
     Some ts \<Rightarrow> ts | None \<Rightarrow> []) = ts"
  by (auto simp: tags_ok_def split: option.splits) (metis option.distinct(1) option.inject)+

lemma row_round_trip_iff:
  assumes "tags_ok sj"
  shows "row_to_document sj (document_to_row sj s) = s \<longleftrightarrow> fits_state s"
  unfolding row_to_document_def document_to_row_def fits_state_def option_i64_round_trip [symmetric]
  by (cases s) (auto simp: i64_round_trip tags_round_trip [OF assms])


definition ex_serde :: SerdeJson where
  "ex_serde = \<lparr>sj_from_slice = (\<lambda>b. Ok (JString b)),
     sj_event_from_value = (\<lambda>v. if v = JString ''created'' then Ok ex_created
       else if v = JString ''indexed'' then Ok ex_indexed
       else if v = JString ''retagged'' then Ok ex_retagged else Err ''unknown variant''), sj_event_to_value = (\<lambda>e. None),
     sj_tags_to_value = (\<lambda>ts. Some (JArray (map JString ts))),
     sj_tags_from_value = (\<lambda>v. case v of
        JArray vs \<Rightarrow> Some (map (\<lambda>v. case v of JString t \<Rightarrow> t | _ \<Rightarrow> []) vs) | _ \<Rightarrow> None)\<rparr>"

lemma ex_serde_tags: "tags_ok ex_serde"
  by (simp add: tags_ok_def ex_serde_def comp_def)


lemma apply_event_fits:
  assumes "apply_event prior e seq = Ok t" "fits_event e" "fits seq" "pred_option fits_state prior"
  shows "fits_state t"
proof (cases "ev_payload e")
  case (DocumentCreated c)
  then show ?thesis using assms
    by (auto simp: apply_event_def seed_state_def fits_state_def fits_event_def split: if_splits Actor.splits)
qed (use assms in \<open>auto simp: apply_event_def fits_state_def fits_event_def split: option.splits if_splits\<close>)

end
