(* ===== verification/Projector.thy ===== *)
theory Projector
  imports Projection
begin

text \<open>
  What the projection loop of document-adapters/src/postgres/projection.rs guarantees. The
  specification is the fold of the log into a table of document states, one message at a time;
  a batch transaction refines it, and so does every run of the loop with crashes, restarts,
  lost leases and rebuilds in between.
\<close>

section \<open>The specification: one message at a time\<close>

type_synonym rows = "(string \<times> string) \<rightharpoonup> DocumentState"

definition project_one :: "SerdeJson \<Rightarrow> message \<Rightarrow> rows \<Rightarrow> rows" where
  "project_one sj m t = (case m of (sequence, subject, payload) \<Rightarrow>
     (case project_event sj (Option.bind (document_key_from_subject subject) t) payload sequence of
        Upsert s \<Rightarrow> t((ds_tenant_id s, ds_document_id s) \<mapsto> s)
      | Failure _ _ _ \<Rightarrow> t))"

definition projected :: "SerdeJson \<Rightarrow> message list \<Rightarrow> rows" where
  "projected sj ms = fold (project_one sj) ms Map.empty"

definition table :: "SerdeJson \<Rightarrow> Pg \<Rightarrow> rows" where
  "table sj pg = (\<lambda>k. map_option (row_to_document sj) (pg_document pg k))"

text \<open>What is relied on of the log: a message that decodes was published on the subject of its
  document, and its integers fit a column.\<close>

definition addressed :: "SerdeJson \<Rightarrow> message \<Rightarrow> bool" where
  "addressed sj m = (case m of (sequence, subject, payload) \<Rightarrow> fits sequence \<and>
     (case decode_event sj payload of
        DecodedEvent e \<Rightarrow> document_key_from_subject subject = Some (ev_tenant_id e, ev_document_id e) \<and> fits_event e
      | _ \<Rightarrow> True))"

definition state_key :: "DocumentState \<Rightarrow> string \<times> string" where
  "state_key s = (ds_tenant_id s, ds_document_id s)"

definition rows_keyed :: "rows \<Rightarrow> bool" where
  "rows_keyed t = (\<forall>k s. t k = Some s \<longrightarrow> state_key s = k)"

lemma apply_event_key:
  assumes "apply_event prior e seq = Ok s" "prior = None \<or> (\<exists>p. prior = Some p \<and> state_key p = (ev_tenant_id e, ev_document_id e))"
  shows "state_key s = (ev_tenant_id e, ev_document_id e)"
proof -
  have "prior = None \<Longrightarrow> is_created e"
    using assms(1) apply_event_ok_iff [of prior e seq] by auto
  then show ?thesis using assms(2) apply_event_envelope(1,7) [OF assms(1)] by (auto simp: state_key_def)
qed

lemma keyed_apply_event:
  "rows_keyed t \<Longrightarrow> apply_event (t (ev_tenant_id e, ev_document_id e)) e seq = Ok s \<Longrightarrow>
     state_key s = (ev_tenant_id e, ev_document_id e)"
  by (erule apply_event_key) (auto simp: rows_keyed_def)

text \<open>Where a message lands: at the key of its subject, and nowhere else.\<close>

lemma project_one_decoded:
  assumes "addressed sj (sequence, subject, payload)" "rows_keyed t" "decode_event sj payload = DecodedEvent e"
  shows "project_one sj (sequence, subject, payload) t =
    (let k = (ev_tenant_id e, ev_document_id e) in
     case apply_event (t k) e sequence of Ok s \<Rightarrow> t(k \<mapsto> s) | Err _ \<Rightarrow> t)"
proof -
  let ?k = "(ev_tenant_id e, ev_document_id e)"
  have k: "document_key_from_subject subject = Some ?k" using assms by (simp add: addressed_def)
  show ?thesis using k assms(3) keyed_apply_event [OF assms(2)]
    by (auto simp: project_one_def project_event_def state_key_def split: result.splits)
qed

lemma project_one_undecoded:
  "(\<And>e. decode_event sj payload \<noteq> DecodedEvent e) \<Longrightarrow> project_one sj (sequence, subject, payload) t = t"
  by (auto simp: project_one_def project_event_def split: DecodedEvent.splits)

lemma keyed_project_one:
  assumes "addressed sj m" "rows_keyed t"
  shows "rows_keyed (project_one sj m t)"
proof -
  obtain sequence subject payload where m: "m = (sequence, subject, payload)" by (cases m)
  show ?thesis
  proof (cases "\<exists>e. decode_event sj payload = DecodedEvent e")
    case True
    then obtain e where e: "decode_event sj payload = DecodedEvent e" ..
    then show ?thesis using project_one_decoded [OF assms(1) [unfolded m] assms(2) e] assms(2)
        keyed_apply_event [OF assms(2)]
      by (auto simp: m rows_keyed_def Let_def split: result.splits if_splits)
  next
    case False
    then show ?thesis using assms(2) by (simp add: m project_one_undecoded)
  qed
qed

section \<open>A batch refines the specification\<close>

text \<open>The rows of the table: each was written for a document state that fits, at its key, and
  from a message at or before \<open>hi\<close>.\<close>

definition rows_ok :: "SerdeJson \<Rightarrow> nat \<Rightarrow> Pg \<Rightarrow> bool" where
  "rows_ok sj hi pg = (\<forall>k row. pg_document pg k = Some row \<longrightarrow>
     (\<exists>s. row = document_to_row sj s \<and> fits_state s \<and> state_key s = k \<and> unat (ds_stream_seq s) \<le> hi))"

text \<open>The states the transaction has folded so far.\<close>

definition overlay_ok :: "nat \<Rightarrow> Pg \<Rightarrow> folded \<Rightarrow> bool" where
  "overlay_ok hi pg folded = (distinct (map fst folded) \<and> (\<forall>(k, s) \<in> set folded. state_key s = k \<and> fits_state s \<and>
     unat (ds_stream_seq s) \<le> hi \<and> (\<forall>row. pg_document pg k = Some row \<longrightarrow> row_created_at row = ds_created_at s)))"

abbreviation visible :: "SerdeJson \<Rightarrow> Pg \<Rightarrow> folded \<Rightarrow> rows" where
  "visible sj pg folded \<equiv> table sj pg ++ map_of folded"

text \<open>What the guarded upsert keeps of an old and a new state of a document.\<close>

definition newest :: "DocumentState option \<Rightarrow> DocumentState option \<Rightarrow> DocumentState option" where
  "newest old new = (case (old, new) of
      (Some s, Some v) \<Rightarrow> if ds_stream_seq s < ds_stream_seq v then Some v else Some s
    | (None, _) \<Rightarrow> new | (_, None) \<Rightarrow> old)"

lemma newest_simps [simp]: "newest x None = x" "newest None x = x" "newest x x = x"
  by (simp_all add: newest_def split: option.splits)

lemma table_row:
  assumes "tags_ok sj" "rows_ok sj n pg" "pg_document pg k = Some row"
  obtains s where "table sj pg k = Some s" "row = document_to_row sj s" "fits_state s" "state_key s = k"
    "unat (ds_stream_seq s) \<le> n"
proof -
  from assms(2,3) obtain s where s: "row = document_to_row sj s" "fits_state s" "state_key s = k"
    "unat (ds_stream_seq s) \<le> n" unfolding rows_ok_def by blast
  have "table sj pg k = Some s"
    using row_round_trip_iff [OF assms(1), of s] s(1,2) assms(3) by (simp add: table_def)
  then show thesis using s that by blast
qed

lemma table_Some:
  assumes "tags_ok sj" "rows_ok sj n pg" "table sj pg k = Some s"
  shows "pg_document pg k = Some (document_to_row sj s) \<and> fits_state s \<and> state_key s = k
    \<and> unat (ds_stream_seq s) \<le> n"
proof -
  from assms(3) obtain row where "pg_document pg k = Some row" by (auto simp: table_def)
  then show ?thesis using table_row [OF assms(1,2)] assms(3) by (metis option.inject)
qed

lemma rows_ok_mono: "rows_ok sj n pg \<Longrightarrow> n \<le> hi \<Longrightarrow> rows_ok sj hi pg"
  unfolding rows_ok_def by (meson order_trans)

lemma table_keyed: "tags_ok sj \<Longrightarrow> rows_ok sj n pg \<Longrightarrow> rows_keyed (table sj pg)"
  using table_Some by (auto simp: rows_keyed_def)

lemma overlay_Some:
  assumes "overlay_ok hi pg folded" "map_of folded k = Some s"
  shows "state_key s = k \<and> fits_state s \<and> unat (ds_stream_seq s) \<le> hi
    \<and> (\<forall>row. pg_document pg k = Some row \<longrightarrow> row_created_at row = ds_created_at s)"
  using assms map_of_SomeD [OF assms(2)] unfolding overlay_ok_def by blast

lemma visible_Some:
  assumes "tags_ok sj" "rows_ok sj n pg" "overlay_ok hi pg folded" "visible sj pg folded k = Some s"
  shows "state_key s = k \<and> fits_state s \<and> (\<forall>row. pg_document pg k = Some row \<longrightarrow> row_created_at row = ds_created_at s)"
proof (cases "map_of folded k")
  case None
  then have "table sj pg k = Some s" using assms(4) by (simp add: map_add_def)
  from table_Some [OF assms(1,2) this] show ?thesis by (simp add: document_to_row_def)
next
  case (Some s')
  then show ?thesis using assms(4) overlay_Some [OF assms(3) Some] by (simp add: map_add_def)
qed

lemma visible_keyed:
  assumes "tags_ok sj" "rows_ok sj n pg" "overlay_ok hi pg folded"
  shows "rows_keyed (visible sj pg folded)"
  using visible_Some [OF assms] by (simp add: rows_keyed_def)

lemma visible_update:
  "visible sj pg (AList.update k s folded) = (visible sj pg folded)(k \<mapsto> s)"
  by (simp add: update_conv' map_add_upd)

lemma fold_batch_prior:
  "(case document_key_from_subject subject of
      Some key \<Rightarrow> (case map_of folded key of Some state \<Rightarrow> Some state
        | None \<Rightarrow> load_document sj pg (fst key) (snd key))
    | None \<Rightarrow> None) = Option.bind (document_key_from_subject subject) (visible sj pg folded)"
  by (auto simp: load_document_def table_def map_add_def split: option.splits)

lemma in_set_AList_update: "x \<in> set (AList.update k v l) \<Longrightarrow> x = (k, v) \<or> x \<in> set l"
  by (induction l) (auto split: if_splits)

lemma overlay_step:
  assumes "tags_ok sj" "rows_ok sj n pg" "overlay_ok hi pg folded" "unat sequence \<le> hi"
    "fits sequence" "fits_event e" "k = (ev_tenant_id e, ev_document_id e)"
    "apply_event (visible sj pg folded k) e sequence = Ok s"
  shows "overlay_ok hi pg (AList.update k s folded)"
proof -
  note visible = visible_Some [OF assms(1,2,3)]
  have key: "state_key s = k"
    using keyed_apply_event [OF visible_keyed [OF assms(1-3)], of e sequence s] assms(7,8) by simp
  have "fits_state s"
    using apply_event_fits [OF assms(8,6,5)] visible [of k] by (cases "visible sj pg folded k") auto
  moreover have "row_created_at row = ds_created_at s" if row: "pg_document pg k = Some row" for row
  proof -
    obtain p where p: "visible sj pg folded k = Some p"
      using row by (cases "map_of folded k") (auto simp: table_def map_add_def)
    then show ?thesis using visible [OF p] row apply_event_envelope(5) [OF assms(8)] by simp
  qed
  ultimately show ?thesis
    using key assms(3,4) apply_event_envelope(3) [OF assms(8)]
    by (auto simp: overlay_ok_def distinct_update dest!: in_set_AList_update)
qed

lemma record_failure_frame [simp]:
  "pg_document (record_failure name sequence subject v error pg) = pg_document pg"
  "pg_checkpoint (record_failure name sequence subject v error pg) = pg_checkpoint pg"
  by (simp_all add: record_failure_def)

lemma frame_document:
  assumes "pg_document pg' = pg_document pg"
  shows "rows_ok sj n pg' = rows_ok sj n pg" "overlay_ok hi pg' folded = overlay_ok hi pg folded"
    "table sj pg' = table sj pg"
  using assms by (simp_all add: rows_ok_def overlay_ok_def table_def)

lemma fold_batch_refines:
  assumes "tags_ok sj" "rows_ok sj n pg" "overlay_ok hi pg folded"
    and "\<forall>m \<in> set batch. addressed sj m \<and> unat (fst m) \<le> hi"
    and "fold_batch sj name batch (pg, folded) = (pg', folded')"
  shows "pg_document pg' = pg_document pg \<and> overlay_ok hi pg folded'
    \<and> visible sj pg folded' = fold (project_one sj) batch (visible sj pg folded)"
  using assms(2-)
proof (induction batch arbitrary: pg folded)
  case Nil
  then show ?case by simp
next
  case (Cons m batch)
  obtain sequence subject payload where m: "m = (sequence, subject, payload)" by (cases m)
  have ok: "addressed sj m" "unat sequence \<le> hi" using Cons.prems(3) by (auto simp: m)
  let ?prior = "Option.bind (document_key_from_subject subject) (visible sj pg folded)"
  note keyed = visible_keyed [OF assms(1) Cons.prems(1,2)]
  show ?case
  proof (cases "project_event sj ?prior payload sequence")
    case (Upsert s)
    then obtain e where e: "decode_event sj payload = DecodedEvent e" "apply_event ?prior e sequence = Ok s"
      by (auto simp: project_event_def split: DecodedEvent.splits result.splits)
    let ?k = "(ev_tenant_id e, ev_document_id e)"
    have k: "document_key_from_subject subject = Some ?k" "fits sequence" "fits_event e"
      using ok(1) e(1) by (simp_all add: m addressed_def)
    have s: "state_key s = ?k" using keyed_apply_event [OF keyed] e(2) k(1) by simp
    then have "project_one sj m (visible sj pg folded) = visible sj pg (AList.update ?k s folded)"
      unfolding visible_update using Upsert by (simp add: m project_one_def state_key_def)
    moreover have "overlay_ok hi pg (AList.update ?k s folded)"
      using overlay_step [OF assms(1) Cons.prems(1,2) ok(2) k(2,3) refl] e(2) k(1) by simp
    moreover have "fold_batch sj name batch (pg, AList.update ?k s folded) = (pg', folded')"
      using Cons.prems(4) Upsert s by (simp add: m fold_batch_prior state_key_def)
    ultimately show ?thesis
      using Cons.IH [OF Cons.prems(1), of "AList.update ?k s folded"] Cons.prems(3)
      by (simp only: fold_Cons o_apply list.set insert_iff) blast
  next
    case (Failure v error d)
    let ?pg = "record_failure name sequence subject v error pg"
    show ?thesis
      using Cons.IH [of ?pg folded] Cons.prems Failure
      by (simp add: m fold_batch_prior project_one_def frame_document [OF record_failure_frame(1)])
  qed
qed

text \<open>The writes of the batch. A write reaches the table when it is newer than what is there; the order of the writes does not
  matter, as each has its own key.\<close>

lemma upsert_newest:
  assumes "tags_ok sj" "rows_ok sj n pg" "n \<le> hi" "state_key s = k" "fits_state s" "unat (ds_stream_seq s) \<le> hi"
    and "\<And>row. pg_document pg k = Some row \<Longrightarrow> row_created_at row = ds_created_at s"
  shows "table sj (upsert_document sj s pg) = (table sj pg)(k := newest (table sj pg k) (Some s))"
    "rows_ok sj hi (upsert_document sj s pg)"
    "j \<noteq> k \<Longrightarrow> pg_document (upsert_document sj s pg) j = pg_document pg j"
proof -
  have k: "k = (row_tenant_id (document_to_row sj s), row_document_id (document_to_row sj s))"
    using assms(4) by (simp add: state_key_def document_to_row_def)
  have c: "row_created_at (document_to_row sj s) = ds_created_at s" by (simp add: document_to_row_def)
  have s: "row_to_document sj (document_to_row sj s) = s" using row_round_trip_iff [OF assms(1)] assms(5) by simp
  have "pg_document (upsert_document sj s pg) =
      (if newest (table sj pg k) (Some s) = table sj pg k then pg_document pg else (pg_document pg)(k \<mapsto> document_to_row sj s))"
  proof (cases "pg_document pg k")
    case None
    then show ?thesis unfolding upsert_document_def Let_def k [symmetric] by (simp add: table_def)
  next
    case (Some row)
    obtain r where r: "table sj pg k = Some r" "row = document_to_row sj r" "fits_state r"
      using table_row [OF assms(1,2) Some] by blast
    have "row_stream_seq row < row_stream_seq (document_to_row sj s) \<longleftrightarrow> ds_stream_seq r < ds_stream_seq s"
      using r(2,3) assms(5) by (simp add: document_to_row_def fits_state_def as_i64_fits word_less_def)
    then show ?thesis using Some r c assms(7) unfolding upsert_document_def Let_def k [symmetric]
      by (auto simp: newest_def)
  qed
  note doc = this
  show "table sj (upsert_document sj s pg) = (table sj pg)(k := newest (table sj pg k) (Some s))"
  proof (cases "newest (table sj pg k) (Some s) = table sj pg k")
    case True
    then show ?thesis by (auto simp: table_def doc)
  next
    case False
    then have "newest (table sj pg k) (Some s) = Some s" by (auto simp: newest_def split: option.splits if_splits)
    then show ?thesis using False s by (auto simp: table_def doc fun_eq_iff)
  qed
  show "rows_ok sj hi (upsert_document sj s pg)"
    unfolding rows_ok_def doc
  proof (intro allI impI)
    fix j row assume "(if newest (table sj pg k) (Some s) = table sj pg k then pg_document pg
      else (pg_document pg)(k \<mapsto> document_to_row sj s)) j = Some row"
    then have "pg_document pg j = Some row \<or> j = k \<and> row = document_to_row sj s" by (auto split: if_splits)
    then show "\<exists>s. row = document_to_row sj s \<and> fits_state s \<and> state_key s = j \<and> unat (ds_stream_seq s) \<le> hi"
      using assms(4-6) table_row [OF assms(1) rows_ok_mono [OF assms(2,3)]] by metis
  qed
  show "j \<noteq> k \<Longrightarrow> pg_document (upsert_document sj s pg) j = pg_document pg j" by (simp add: doc)
qed

lemma fold_upserts:
  assumes "tags_ok sj" "rows_ok sj n pg" "n \<le> hi" "overlay_ok hi pg folded"
  shows "table sj (fold (upsert_document sj) (map snd folded) pg) = (\<lambda>k. newest (table sj pg k) (map_of folded k))
    \<and> rows_ok sj hi (fold (upsert_document sj) (map snd folded) pg)"
  using assms(2-)
proof (induction folded arbitrary: pg n)
  case Nil
  then show ?case by (simp add: rows_ok_mono)
next
  case (Cons x folded)
  obtain k s where x: "x = (k, s)" by (cases x)
  have s: "state_key s = k" "fits_state s" "unat (ds_stream_seq s) \<le> hi"
      "\<And>row. pg_document pg k = Some row \<Longrightarrow> row_created_at row = ds_created_at s"
    and fresh: "k \<notin> fst ` set folded" using Cons.prems(3) by (auto simp: x overlay_ok_def)
  note up = upsert_newest [OF assms(1) Cons.prems(1,2) s(1-3)]
  have "pg_document (upsert_document sj s pg) (fst y) = pg_document pg (fst y)" if "y \<in> set folded" for y
    using up(3) s(4) that fresh by (metis imageI)
  then have "overlay_ok hi (upsert_document sj s pg) folded"
    using Cons.prems(3) by (fastforce simp: overlay_ok_def x)
  from Cons.IH [OF up(2) order_refl this] up(1)
  have "table sj (fold (upsert_document sj) (map snd folded) (upsert_document sj s pg)) =
      (\<lambda>j. newest (((table sj pg)(k := newest (table sj pg k) (Some s))) j) (map_of folded j))"
    "rows_ok sj hi (fold (upsert_document sj) (map snd folded) (upsert_document sj s pg))" using s(4) by simp_all
  moreover have "map_of folded k = None" using fresh by (simp add: map_of_eq_None_iff)
  ultimately show ?case by (auto simp: x fun_eq_iff)
qed

text \<open>What a batch does, whatever rows it meets: for each document the newer of the row and of what folding the batch onto the row
  gives.\<close>

lemma apply_batch_newest:
  assumes "tags_ok sj" "rows_ok sj n pg" "n \<le> hi" "\<forall>m \<in> set batch. addressed sj m \<and> unat (fst m) \<le> hi"
  shows "table sj (apply_batch sj name batch pg) = (\<lambda>k. newest (table sj pg k) (fold (project_one sj) batch (table sj pg) k))
    \<and> rows_ok sj hi (apply_batch sj name batch pg)"
proof -
  obtain pg' folded where f: "fold_batch sj name batch (pg, []) = (pg', folded)" by fastforce
  have "overlay_ok hi pg []" by (simp add: overlay_ok_def)
  from fold_batch_refines [OF assms(1,2) this assms(4) f]
  have r: "pg_document pg' = pg_document pg" "overlay_ok hi pg folded"
    "visible sj pg folded = fold (project_one sj) batch (table sj pg)" by simp_all
  let ?pg = "fold (upsert_document sj) (map snd folded) pg'"
  have "rows_ok sj n pg'" "overlay_ok hi pg' folded" using assms(2) r(2) frame_document [OF r(1)] by simp_all
  note up = fold_upserts [OF assms(1) this(1) assms(3) this(2)]
  have "newest (table sj pg k) (map_of folded k) = newest (table sj pg k) (visible sj pg folded k)" for k
    by (auto simp: map_add_def split: option.splits)
  then have "table sj ?pg = (\<lambda>k. newest (table sj pg k) (fold (project_one sj) batch (table sj pg) k))" "rows_ok sj hi ?pg"
    using up frame_document(3) [OF r(1)] r(3) by auto
  moreover have "pg_document (apply_batch sj name batch pg) = pg_document ?pg"
    by (simp add: apply_batch_def f Let_def)
  ultimately show ?thesis by (metis frame_document(1,3))
qed

lemma project_one_seq:
  assumes "project_one sj m t k \<noteq> t k"
  shows "\<exists>s. project_one sj m t k = Some s \<and> ds_stream_seq s = fst m"
  using assms by (auto simp: project_one_def project_event_def dest: apply_event_envelope(3)
      split: prod.splits ProjectionOutcome.splits DecodedEvent.splits result.splits if_splits)

lemma fold_project_seq:
  "fold (project_one sj) ms t k = t k \<or> (\<exists>s. fold (project_one sj) ms t k = Some s \<and> ds_stream_seq s \<in> fst ` set ms)"
proof (induction ms arbitrary: t)
  case (Cons m ms)
  show ?case
  proof (cases "project_one sj m t k = t k")
    case True
    then show ?thesis using Cons.IH [of "project_one sj m t"] by auto
  next
    case False
    then show ?thesis using Cons.IH [of "project_one sj m t"] project_one_seq [OF False] by auto
  qed
qed simp

lemma apply_batch_refines:
  assumes "tags_ok sj" "rows_ok sj lo pg" "lo \<le> hi"
    and "\<forall>m \<in> set batch. addressed sj m \<and> lo < unat (fst m) \<and> unat (fst m) \<le> hi"
  shows "table sj (apply_batch sj name batch pg) = fold (project_one sj) batch (table sj pg)
    \<and> rows_ok sj hi (apply_batch sj name batch pg)"
proof -
  have "newest (table sj pg k) (fold (project_one sj) batch (table sj pg) k) = fold (project_one sj) batch (table sj pg) k" for k
    using fold_project_seq [of sj batch "table sj pg" k]
  proof
    assume "\<exists>s. fold (project_one sj) batch (table sj pg) k = Some s \<and> ds_stream_seq s \<in> fst ` set batch"
    then obtain s where s: "fold (project_one sj) batch (table sj pg) k = Some s" "lo < unat (ds_stream_seq s)"
      using assms(4) by auto
    then show ?thesis using table_Some [OF assms(1,2), of k]
      by (cases "table sj pg k") (auto simp: newest_def word_less_nat_alt)
  qed simp
  then show ?thesis using apply_batch_newest [OF assms(1-3), of batch name] assms(4) by auto
qed

section \<open>Runs of the loop\<close>

text \<open>The log, the database, and the position of the ordered consumer while a run is in
  progress: the sequence number of the last message it has delivered.\<close>

record Projector =
  pr_log :: "message list"
  pr_pg :: Pg
  pr_at :: "nat option"

abbreviation seq_of :: "message \<Rightarrow> nat" where
  "seq_of m \<equiv> unat (fst m)"

definition deliverable :: "nat \<Rightarrow> message list \<Rightarrow> message list" where
  "deliverable at log = filter (\<lambda>m. at + 1 \<le> seq_of m) log"

text \<open>\<open>ProjectionLoop::run\<close>, one step for what a transaction makes visible. \<open>stop\<close> stands for a
  crash, a failed query, a lost lease or the end of the stream; a rebuild is \<open>reset\<close> while no
  run is in progress.\<close>

inductive projector_step :: "SerdeJson \<Rightarrow> string \<Rightarrow> nat \<Rightarrow> Projector \<Rightarrow> Projector \<Rightarrow> bool"
  for sj :: SerdeJson and name :: string and batch_size :: nat where
  publish: "addressed sj m \<Longrightarrow> 0 < seq_of m \<Longrightarrow> \<forall>m' \<in> set (pr_log s). seq_of m' < seq_of m \<Longrightarrow>
    projector_step sj name batch_size s (s\<lparr>pr_log := pr_log s @ [m]\<rparr>)"
| start: "pr_at s = None \<Longrightarrow>
    projector_step sj name batch_size s (s\<lparr>pr_at := Some (unat (read_checkpoint name (pr_pg s)))\<rparr>)"
| commit: "pr_at s = Some at \<Longrightarrow> deliverable at (pr_log s) = batch @ rest \<Longrightarrow> batch \<noteq> [] \<Longrightarrow>
    length batch \<le> max batch_size 1 \<Longrightarrow>
    projector_step sj name batch_size s
      (s\<lparr>pr_pg := apply_batch sj name batch (pr_pg s), pr_at := Some (seq_of (last batch))\<rparr>)"
| stop: "projector_step sj name batch_size s (s\<lparr>pr_at := None\<rparr>)"
| rebuild: "pr_at s = None \<Longrightarrow> projector_step sj name batch_size s (s\<lparr>pr_pg := reset name (pr_pg s)\<rparr>)"

inductive_cases projector_stepE: "projector_step sj name batch_size s s'"

inductive projector_reaches :: "SerdeJson \<Rightarrow> string \<Rightarrow> nat \<Rightarrow> Projector \<Rightarrow> bool"
  for sj :: SerdeJson and name :: string and batch_size :: nat where
  fresh: "projector_reaches sj name batch_size \<lparr>pr_log = [], pr_pg = empty_pg, pr_at = None\<rparr>"
| step: "projector_reaches sj name batch_size s \<Longrightarrow> projector_step sj name batch_size s s' \<Longrightarrow>
    projector_reaches sj name batch_size s'"

abbreviation checkpoint :: "string \<Rightarrow> Projector \<Rightarrow> nat" where
  "checkpoint name s \<equiv> unat (read_checkpoint name (pr_pg s))"

definition up_to :: "nat \<Rightarrow> message list \<Rightarrow> message list" where
  "up_to c log = filter (\<lambda>m. seq_of m \<le> c) log"

definition log_ok :: "SerdeJson \<Rightarrow> message list \<Rightarrow> bool" where
  "log_ok sj log = (sorted_wrt (\<lambda>a b. seq_of a < seq_of b) log \<and> (\<forall>m \<in> set log. addressed sj m \<and> 0 < seq_of m))"

definition projector_inv :: "SerdeJson \<Rightarrow> string \<Rightarrow> Projector \<Rightarrow> bool" where
  "projector_inv sj name s = (log_ok sj (pr_log s)
     \<and> (checkpoint name s = 0 \<or> checkpoint name s \<in> seq_of ` set (pr_log s))
     \<and> pr_at s \<in> {None, Some (checkpoint name s)}
     \<and> rows_ok sj (checkpoint name s) (pr_pg s)
     \<and> table sj (pr_pg s) = projected sj (up_to (checkpoint name s) (pr_log s)))"

lemma split_at:
  assumes "sorted_wrt (\<lambda>a b. seq_of a < seq_of b) log"
  shows "up_to c log @ deliverable c log = log"
  using assms
proof (induction log)
  case (Cons m log)
  show ?case
  proof (cases "seq_of m \<le> c")
    case False
    then have "up_to c log = []" using Cons.prems by (fastforce simp: up_to_def filter_empty_conv)
    then show ?thesis using Cons False by (simp add: up_to_def deliverable_def)
  qed (use Cons in \<open>simp add: up_to_def deliverable_def\<close>)
qed (simp add: up_to_def deliverable_def)

lemma up_to_last:
  assumes "sorted_wrt (\<lambda>a b. seq_of a < seq_of b) (xs @ b # rest)"
  shows "up_to (seq_of b) (xs @ b # rest) = xs @ [b]"
proof -
  have "up_to (seq_of b) xs = xs"
    using assms unfolding up_to_def by (intro filter_True) (auto simp: sorted_wrt_append intro: less_imp_le)
  moreover have "up_to (seq_of b) rest = []"
    using assms by (auto simp: up_to_def sorted_wrt_append filter_empty_conv not_le)
  ultimately show ?thesis by (simp add: up_to_def)
qed

lemma up_to_batch:
  assumes "sorted_wrt (\<lambda>a b. seq_of a < seq_of b) log" "deliverable c log = batch @ rest" "batch \<noteq> []"
  shows "up_to (seq_of (last batch)) log = up_to c log @ batch"
proof -
  obtain bs b where b: "batch = bs @ [b]" using assms(3) by (cases batch rule: rev_cases) auto
  have "log = (up_to c log @ bs) @ b # rest" using split_at [OF assms(1), of c] assms(2) b by simp
  then show ?thesis using up_to_last [of "up_to c log @ bs" b rest] assms(1) b by simp
qed

lemma checkpoint_apply_batch:
  assumes "batch \<noteq> []" "fits (fst (last batch))"
  shows "read_checkpoint name (apply_batch sj name batch pg) = fst (last batch)"
  using assms i64_round_trip [of "fst (last batch)"]
  by (simp add: read_checkpoint_def apply_batch_def Let_def case_prod_unfold)

lemma projector_inv_commit:
  assumes "tags_ok sj" "projector_inv sj name s" "pr_at s = Some at" "deliverable at (pr_log s) = batch @ rest"
    "batch \<noteq> []"
  shows "projector_inv sj name
    (s\<lparr>pr_pg := apply_batch sj name batch (pr_pg s), pr_at := Some (seq_of (last batch))\<rparr>)"
proof -
  let ?c = "checkpoint name s" and ?c' = "seq_of (last batch)"
  have at: "at = ?c" and log: "log_ok sj (pr_log s)" and rows: "rows_ok sj ?c (pr_pg s)"
    and tab: "table sj (pr_pg s) = projected sj (up_to ?c (pr_log s))"
    using assms(2,3) by (auto simp: projector_inv_def)
  have sorted: "sorted_wrt (\<lambda>a b. seq_of a < seq_of b) (pr_log s)" using log by (simp add: log_ok_def)
  have sub: "set batch \<subseteq> set (deliverable at (pr_log s))" using assms(4) by simp
  then have last: "last batch \<in> set (pr_log s)" using last_in_set [OF assms(5)] by (auto simp: deliverable_def)
  note ut = up_to_batch [OF sorted assms(4,5)]
  have "m \<in> set batch \<Longrightarrow> seq_of m \<le> ?c'" for m
  proof -
    assume "m \<in> set batch"
    then have "m \<in> set (up_to ?c' (pr_log s))" using ut by simp
    then show ?thesis by (simp add: up_to_def)
  qed
  then have b: "\<forall>m \<in> set batch. addressed sj m \<and> ?c < seq_of m \<and> seq_of m \<le> ?c'"
    using sub log by (auto simp: deliverable_def at log_ok_def)
  then have le: "?c \<le> ?c'" using assms(5) by (meson last_in_set less_imp_le)
  have "fits (fst (last batch))" using b assms(5) by (auto simp: addressed_def case_prod_unfold)
  note cp = checkpoint_apply_batch [OF assms(5) this, of name sj "pr_pg s"]
  have "projected sj (up_to ?c' (pr_log s)) = fold (project_one sj) batch (table sj (pr_pg s))"
    unfolding ut [unfolded at] tab by (simp add: projected_def)
  then show ?thesis using apply_batch_refines [OF assms(1) rows le b, of name] log last
    by (auto simp: projector_inv_def cp)
qed

lemma read_checkpoint_reset [simp]: "read_checkpoint name (reset name pg) = 0"
  by (simp add: read_checkpoint_def reset_def i64_as_u64_def)

lemma pg_document_reset [simp]: "pg_document (reset name pg) = Map.empty"
  by (simp add: reset_def)

lemma rows_ok_empty [simp]: "pg_document pg = Map.empty \<Longrightarrow> rows_ok sj n pg"
  by (simp add: rows_ok_def)

lemma up_to_0: "log_ok sj log \<Longrightarrow> up_to 0 log = []"
  by (auto simp: up_to_def log_ok_def filter_empty_conv)

lemma projector_inv_reset:
  assumes "log_ok sj (pr_log s)" "pr_at s = None" "pg_document (pr_pg s) = Map.empty" "checkpoint name s = 0"
  shows "projector_inv sj name s"
  using assms by (simp add: projector_inv_def up_to_0 projected_def table_def)

lemma projector_inv_publish:
  assumes "projector_inv sj name s" "addressed sj m" "0 < seq_of m" "\<forall>m' \<in> set (pr_log s). seq_of m' < seq_of m"
  shows "projector_inv sj name (s\<lparr>pr_log := pr_log s @ [m]\<rparr>)"
proof -
  have "checkpoint name s < seq_of m" using assms(1,3,4) by (auto simp: projector_inv_def)
  then have "up_to (checkpoint name s) (pr_log s @ [m]) = up_to (checkpoint name s) (pr_log s)"
    by (simp add: up_to_def)
  then show ?thesis using assms by (auto simp: projector_inv_def log_ok_def sorted_wrt_append)
qed

lemma projector_inv_step:
  assumes "tags_ok sj" "projector_step sj name batch_size s s'" "projector_inv sj name s"
  shows "projector_inv sj name s'"
  using assms(2)
proof (cases rule: projector_step.cases)
  case (publish m)
  then show ?thesis using projector_inv_publish [OF assms(3)] by simp
next
  case (commit at batch rest)
  then show ?thesis using projector_inv_commit [OF assms(1,3)] by simp
next
  case rebuild
  then show ?thesis using assms(3) by (intro projector_inv_reset) (auto simp: projector_inv_def)
qed (use assms(3) in \<open>auto simp: projector_inv_def\<close>)

lemma projector_reaches_inv:
  assumes "tags_ok sj" "projector_reaches sj name batch_size s"
  shows "projector_inv sj name s"
  using assms(2)
proof induction
  case fresh
  then show ?case by (intro projector_inv_reset)
      (simp_all add: log_ok_def empty_pg_def read_checkpoint_def i64_as_u64_def)
next
  case (step s s')
  then show ?case using projector_inv_step [OF assms(1)] by blast
qed

section \<open>The table and the histories\<close>

text \<open>The history of one document in the log, as the worker would read it.\<close>

definition history_of :: "SerdeJson \<Rightarrow> string \<times> string \<Rightarrow> message list \<Rightarrow> (u64 \<times> DocumentEvent) list" where
  "history_of sj k ms = List.map_filter (\<lambda>(sequence, subject, payload).
     case decode_event sj payload of
       DecodedEvent e \<Rightarrow> if document_key_from_subject subject = Some k then Some (sequence, e) else None
     | _ \<Rightarrow> None) ms"

lemma keyed_projected: "\<forall>m \<in> set ms. addressed sj m \<Longrightarrow> rows_keyed (projected sj ms)"
  by (induction ms rule: rev_induct) (auto simp: projected_def keyed_project_one, simp add: rows_keyed_def)

lemma projected_history:
  assumes "\<forall>m \<in> set ms. addressed sj m" "fold_history (history_of sj k ms) = Ok st"
  shows "projected sj ms k = st"
  using assms
proof (induction ms arbitrary: st rule: rev_induct)
  case Nil
  then show ?case by (simp add: history_of_def map_filter_simps projected_def)
next
  case (snoc m ms)
  obtain sequence subject payload where m: "m = (sequence, subject, payload)" by (cases m)
  have ms: "\<forall>m \<in> set ms. addressed sj m" "addressed sj m" using snoc.prems(1) by simp_all
  have p: "projected sj (ms @ [m]) = project_one sj m (projected sj ms)" by (simp add: projected_def)
  show ?case
  proof (cases "\<exists>e. decode_event sj payload = DecodedEvent e")
    case True
    then obtain e where e: "decode_event sj payload = DecodedEvent e" ..
    have key: "document_key_from_subject subject = Some (ev_tenant_id e, ev_document_id e)"
      using ms(2) e by (simp add: m addressed_def)
    note one = project_one_decoded [OF ms(2) [unfolded m] keyed_projected [OF ms(1)] e]
    show ?thesis
    proof (cases "k = (ev_tenant_id e, ev_document_id e)")
      case True
      then have "history_of sj k (ms @ [m]) = history_of sj k ms @ [(sequence, e)]"
        using key e by (simp add: history_of_def map_filter_def m)
      moreover obtain t where "st = Some t"
        using snoc.prems(2) calculation fold_history_None_iff by (cases st) auto
      ultimately obtain st' where "fold_history (history_of sj k ms) = Ok st'" "apply_event st' e sequence = Ok t"
        "st = Some t" using snoc.prems(2) fold_history_snoc by auto
      then show ?thesis using snoc.IH [OF ms(1)] True one by (simp add: p [unfolded m] m Let_def)
    next
      case False
      then have "history_of sj k (ms @ [m]) = history_of sj k ms"
        using key e by (simp add: history_of_def map_filter_def m)
      then show ?thesis using snoc.IH [OF ms(1)] snoc.prems(2) False one
        by (simp add: p [unfolded m] m Let_def split: result.splits)
    qed
  next
    case False
    then have "history_of sj k (ms @ [m]) = history_of sj k ms"
      by (auto simp: history_of_def map_filter_def m split: DecodedEvent.splits)
    then show ?thesis using False snoc.IH [OF ms(1)] snoc.prems(2) by (simp add: p [unfolded m] m project_one_undecoded)
  qed
qed

section \<open>Catching up\<close>

lemma commit_one:
  assumes "tags_ok sj" "projector_inv sj name s" "pr_at s = Some c" "deliverable c (pr_log s) = m # rest"
  obtains s' where "projector_step sj name batch_size s s'" "pr_log s' = pr_log s" "projector_inv sj name s'"
    "pr_at s' = Some (seq_of m)" "deliverable (seq_of m) (pr_log s) = rest"
proof -
  let ?s = "s\<lparr>pr_pg := apply_batch sj name [m] (pr_pg s), pr_at := Some (seq_of (last [m]))\<rparr>"
  have d: "deliverable c (pr_log s) = [m] @ rest" using assms(4) by simp
  have sorted: "sorted_wrt (\<lambda>a b. seq_of a < seq_of b) (pr_log s)"
    using assms(2) by (simp add: projector_inv_def log_ok_def)
  have "up_to c (pr_log s) @ m # rest = pr_log s" using split_at [OF sorted, of c] assms(4) by simp
  moreover have "up_to c (pr_log s) @ m # deliverable (seq_of m) (pr_log s) = pr_log s"
    using split_at [OF sorted, of "seq_of m"] up_to_batch [OF sorted d] by simp
  ultimately have r: "deliverable (seq_of m) (pr_log s) = rest" by (metis list.inject same_append_eq)
  have "projector_step sj name batch_size s ?s" by (rule commit [OF assms(3) d]) simp_all
  moreover have "projector_inv sj name ?s" by (rule projector_inv_commit [OF assms(1-3) d]) simp
  ultimately show thesis using that [of ?s] r by simp
qed

lemma catch_up_running:
  assumes "tags_ok sj" "projector_inv sj name s" "pr_at s = Some c"
  shows "\<exists>s'. (projector_step sj name batch_size)\<^sup>*\<^sup>* s s' \<and> pr_log s' = pr_log s
    \<and> up_to (checkpoint name s') (pr_log s) = pr_log s"
  using assms(2,3)
proof (induction "deliverable c (pr_log s)" arbitrary: s c)
  case Nil
  have "checkpoint name s = c" "sorted_wrt (\<lambda>a b. seq_of a < seq_of b) (pr_log s)"
    using Nil.prems by (auto simp: projector_inv_def log_ok_def)
  then show ?case using split_at [of "pr_log s" c] Nil.hyps by (intro exI [of _ s]) simp
next
  case (Cons m rest)
  obtain s1 where s1: "projector_step sj name batch_size s s1" "pr_log s1 = pr_log s" "projector_inv sj name s1"
    "pr_at s1 = Some (seq_of m)" "deliverable (seq_of m) (pr_log s) = rest"
    using commit_one [OF assms(1) Cons.prems Cons.hyps(2) [symmetric]] by blast
  then show ?case using Cons.hyps(1) [of "seq_of m" s1]
    by (metis converse_rtranclp_into_rtranclp)
qed

lemma catch_up:
  assumes "tags_ok sj" "projector_inv sj name s"
  shows "\<exists>s'. (projector_step sj name batch_size)\<^sup>*\<^sup>* s s' \<and> pr_log s' = pr_log s
    \<and> up_to (checkpoint name s') (pr_log s) = pr_log s"
proof (cases "pr_at s")
  case None
  let ?s = "s\<lparr>pr_at := Some (checkpoint name s)\<rparr>"
  have step: "projector_step sj name batch_size s ?s" by (rule start [OF None])
  from catch_up_running [OF assms(1) projector_inv_step [OF assms(1) step assms(2)], of _ batch_size]
  obtain s' where "(projector_step sj name batch_size)\<^sup>*\<^sup>* ?s s'" "pr_log s' = pr_log s"
    "up_to (checkpoint name s') (pr_log s) = pr_log s" by auto
  then show ?thesis using step by (meson converse_rtranclp_into_rtranclp)
next
  case (Some c)
  then show ?thesis using catch_up_running [OF assms] by blast
qed

lemma reaches_steps:
  "(projector_step sj name batch_size)\<^sup>*\<^sup>* s s' \<Longrightarrow> projector_reaches sj name batch_size s \<Longrightarrow>
     projector_reaches sj name batch_size s'"
  by (induction rule: rtranclp_induct) (auto intro: projector_reaches.step)

section \<open>An example run\<close>

text \<open>Three messages of one document and one that does not decode, projected in two batches.\<close>

definition ex_messages :: "message list" where
  "ex_messages = [(1, ''documents.acme.09.doc-1'', ''created''), (4, ''documents.acme.09.doc-1'', ''indexed''),
     (7, ''documents.acme.03.doc-2'', ''renamed''), (9, ''documents.acme.09.doc-1'', ''retagged'')]"

definition ex_projector :: Projector where
  "ex_projector = \<lparr>pr_log = ex_messages, pr_pg = apply_batch ex_serde DOCUMENT_PROJECTION_NAME (drop 2 ex_messages)
     (apply_batch ex_serde DOCUMENT_PROJECTION_NAME (take 2 ex_messages) empty_pg), pr_at = Some 9\<rparr>"

lemma ex_decode:
  "decode_event ex_serde ''created'' = DecodedEvent ex_created"
  "decode_event ex_serde ''indexed'' = DecodedEvent ex_indexed"
  "decode_event ex_serde ''retagged'' = DecodedEvent ex_retagged"
  "decode_event ex_serde ''renamed'' = Unknown (JString ''renamed'') ''unknown variant''"
  by (simp_all add: decode_event_def ex_serde_def)

lemma ex_subject:
  "document_key_from_subject ''documents.acme.09.doc-1'' = Some (''acme'', ''doc-1'')"
  by code_simp

lemma ex_addressed: "\<forall>m \<in> set ex_messages. addressed ex_serde m"
  by (simp add: ex_messages_def addressed_def ex_decode ex_subject fits_def fits_event_def ex_defs)

lemma publish_all:
  assumes "projector_reaches sj name bs \<lparr>pr_log = [], pr_pg = pg, pr_at = None\<rparr>"
    "\<forall>m \<in> set ms. addressed sj m \<and> 0 < seq_of m" "sorted_wrt (\<lambda>a b. seq_of a < seq_of b) ms"
  shows "projector_reaches sj name bs \<lparr>pr_log = ms, pr_pg = pg, pr_at = None\<rparr>"
  using assms(2,3)
proof (induction ms rule: rev_induct)
  case (snoc m ms)
  then have "projector_reaches sj name bs \<lparr>pr_log = ms, pr_pg = pg, pr_at = None\<rparr>"
    by (simp add: sorted_wrt_append)
  from projector_reaches.step [OF this publish [of sj m]] snoc.prems show ?case
    by (auto simp: sorted_wrt_append)
qed (simp add: assms(1))

lemma ex_projector_reaches: "projector_reaches ex_serde DOCUMENT_PROJECTION_NAME 2 ex_projector"
proof -
  let ?N = DOCUMENT_PROJECTION_NAME
  let ?s = "\<lambda>pg at. \<lparr>pr_log = ex_messages, pr_pg = pg, pr_at = at\<rparr>"
  let ?pg = "apply_batch ex_serde ?N (take 2 ex_messages) empty_pg"
  have "projector_reaches ex_serde ?N 2 (?s empty_pg None)"
    using publish_all [OF projector_reaches.fresh, of ex_messages] ex_addressed by (simp add: ex_messages_def)
  from projector_reaches.step [OF this start]
  have "projector_reaches ex_serde ?N 2 (?s empty_pg (Some 0))"
    by (simp add: read_checkpoint_def empty_pg_def i64_as_u64_def)
  from projector_reaches.step [OF this commit [of _ 0 "take 2 ex_messages" "drop 2 ex_messages"]]
  have "projector_reaches ex_serde ?N 2 (?s ?pg (Some 4))"
    by (simp add: deliverable_def ex_messages_def)
  from projector_reaches.step [OF this commit [of _ 4 "drop 2 ex_messages" "[]"]]
  show ?thesis by (simp add: ex_projector_def deliverable_def ex_messages_def)
qed

section \<open>Properties\<close>

text \<open>C17. The read model is exactly the fold of the log up to the checkpoint. In every state that
  runs of the projection loop can reach, with any batches, crashes, restarts and rebuilds, the
  rows decode to what folding the log one message at a time gives for the messages up to the
  checkpoint: no message is applied twice and none is skipped.\<close>

theorem projection_refines_log:
  assumes "tags_ok sj" "projector_reaches sj name batch_size s"
  shows "table sj (pr_pg s) = projected sj (up_to (unat (read_checkpoint name (pr_pg s))) (pr_log s))"
  using projector_reaches_inv [OF assms] by (simp add: projector_inv_def)

theorem projection_refines_log_witness:
  "table ex_serde (pr_pg ex_projector) = projected ex_serde
     (up_to (unat (read_checkpoint DOCUMENT_PROJECTION_NAME (pr_pg ex_projector))) ex_messages)"
  using projection_refines_log [OF ex_serde_tags ex_projector_reaches] by (simp add: ex_projector_def)

text \<open>Readers and writers see one document. Once the projection has caught up with the log, a
  read returns for a document what the worker's \<open>fold_history\<close> computes from the events of its
  stream.\<close>

theorem caught_up_read_is_fold:
  assumes "tags_ok sj" "projector_reaches sj name batch_size s"
    and "\<forall>m \<in> set (pr_log s). unat (fst m) \<le> unat (read_checkpoint name (pr_pg s))"
    and "fold_history (history_of sj (tenant, document_id) (pr_log s)) = Ok st"
  shows "pg_get sj (pr_pg s) tenant document_id = st"
proof -
  have ok: "projector_inv sj name s" by (rule projector_reaches_inv [OF assms(1,2)])
  have "up_to (checkpoint name s) (pr_log s) = pr_log s"
    using assms(3) unfolding up_to_def by (intro filter_True) simp
  then have "pg_get sj (pr_pg s) tenant document_id = projected sj (pr_log s) (tenant, document_id)"
    using ok by (simp add: projector_inv_def pg_get_def table_def fun_eq_iff)
  moreover have "\<forall>m \<in> set (pr_log s). addressed sj m" using ok by (simp add: projector_inv_def log_ok_def)
  ultimately show ?thesis using projected_history [OF _ assms(4)] by simp
qed

theorem caught_up_read_is_fold_witness:
  "pg_get ex_serde (pr_pg ex_projector) ''acme'' ''doc-1'' = Some ex_folded"
proof -
  have "read_checkpoint DOCUMENT_PROJECTION_NAME (pr_pg ex_projector) = 9"
    by (simp add: ex_projector_def ex_messages_def checkpoint_apply_batch fits_def)
  then have all: "\<forall>m \<in> set (pr_log ex_projector). unat (fst m)
      \<le> unat (read_checkpoint DOCUMENT_PROJECTION_NAME (pr_pg ex_projector))"
    by (simp add: ex_projector_def ex_messages_def)
  have "history_of ex_serde (''acme'', ''doc-1'') (pr_log ex_projector) = ex_history"
    by (simp add: ex_projector_def ex_messages_def history_of_def map_filter_simps ex_decode ex_subject ex_history_def)
  then have "fold_history (history_of ex_serde (''acme'', ''doc-1'') (pr_log ex_projector)) = Ok (Some ex_folded)"
    using fold_ex_history by simp
  from caught_up_read_is_fold [OF ex_serde_tags ex_projector_reaches all this] show ?thesis .
qed

text \<open>The projection can always catch up: from every reachable state, whatever the messages
  contain, there are steps that publish nothing and bring the table to the fold of the whole log.
  Messages that do not decode or do not fold never block it.\<close>

theorem projection_catches_up:
  assumes "tags_ok sj" "projector_reaches sj name batch_size s"
  shows "\<exists>s'. (projector_step sj name batch_size)\<^sup>*\<^sup>* s s' \<and> pr_log s' = pr_log s
    \<and> table sj (pr_pg s') = projected sj (pr_log s)"
proof -
  from catch_up [OF assms(1) projector_reaches_inv [OF assms]]
  obtain s' where s': "(projector_step sj name batch_size)\<^sup>*\<^sup>* s s'" "pr_log s' = pr_log s"
    "up_to (checkpoint name s') (pr_log s) = pr_log s" by blast
  have "projector_inv sj name s'"
    by (rule projector_reaches_inv [OF assms(1) reaches_steps [OF s'(1) assms(2)]])
  then show ?thesis using s' by (auto simp: projector_inv_def)
qed

theorem projection_catches_up_witness:
  "\<exists>s'. (projector_step ex_serde DOCUMENT_PROJECTION_NAME 2)\<^sup>*\<^sup>* ex_projector s' \<and> pr_log s' = ex_messages
    \<and> table ex_serde (pr_pg s') = projected ex_serde ex_messages"
  using projection_catches_up [OF ex_serde_tags ex_projector_reaches] by (simp add: ex_projector_def)

end
