(* ===== verification/Verification.thy ===== *)
theory Verification
  imports World "HOL-Library.Sublist"
begin

text \<open>
  The verification adapters the worker runs with in production
  (crates/document-adapters/src/verification.rs): the scanner, which looks for the EICAR test
  signature in a stream it never holds in memory, and the content validator with its magic-byte
  sniffing. The theorems show that the scanner's answer does not depend on how the stream is cut
  into chunks, and exactly which uploads the validator refuses.

  A reader is the list of results of its reads, as in Ports. The incremental hasher of sha2 is the
  digest of the bytes it was given.
\<close>

section \<open>The scanner\<close>

definition EICAR :: bytes where
  "EICAR = ''X5O!P%@AP[4'' @ [CHR 0x5C] @ ''PZX54(P^)7CC)7}$EICAR-STANDARD-ANTIVIRUS-TEST-FILE!$H+H*''"

text \<open>\<open>haystack.windows(needle.len()).any(..)\<close> for a needle that is not empty.\<close>

fun contains :: "bytes \<Rightarrow> bytes \<Rightarrow> bool" where
  "contains [] needle = (needle = [])"
| "contains (b # bs) needle = (starts_with (b # bs) needle \<or> contains bs needle)"

record ScanState =
  sn_hashed :: bytes
  sn_byte_count :: u64
  sn_window :: bytes
  sn_infected :: bool

definition scan_start :: ScanState where
  "scan_start = \<lparr>sn_hashed = [], sn_byte_count = 0, sn_window = [], sn_infected = False\<rparr>"

text \<open>The body of the loop for one chunk that is not empty.\<close>

definition scan_chunk :: "bytes \<Rightarrow> ScanState \<Rightarrow> ScanState" where
  "scan_chunk chunk st =
     (let st = st\<lparr>sn_hashed := sn_hashed st @ chunk, sn_byte_count := sn_byte_count st + of_nat (length chunk)\<rparr> in
      if sn_infected st then st
      else (let window = sn_window st @ chunk;
                infected = contains window EICAR;
                window = (if length window > length EICAR
                  then drop (length window - (length EICAR - 1)) window else window)
            in st\<lparr>sn_window := window, sn_infected := infected\<rparr>))"

fun scan_loop :: "AsyncRead \<Rightarrow> ScanState \<Rightarrow> (ScanState, ScanError) result" where
  "scan_loop [] st = Ok st"
| "scan_loop (Err error # blob) st = Err (ScanRead error)"
| "scan_loop (Ok chunk # blob) st = (if chunk = [] then Ok st else scan_loop blob (scan_chunk chunk st))"

definition permissive_scan :: "DigestCrates \<Rightarrow> AsyncRead \<Rightarrow> (ScanOutcome, ScanError) result" where
  "permissive_scan dg blob = (case scan_loop blob scan_start of
      Err error \<Rightarrow> Err error
    | Ok st \<Rightarrow> Ok
        \<lparr>so_verdict = (if sn_infected st then Infected ''Eicar-Test-Signature'' else Clean),
         so_sha256_hex = dg_hex_encode dg (dg_sha256 dg (sn_hashed st)),
         so_byte_count = sn_byte_count st\<rparr>)"

definition PermissiveScanner :: "DigestCrates \<Rightarrow> 'w BlobScanner" where
  "PermissiveScanner dg = \<lparr>sc_scan = (\<lambda>blob. ret (permissive_scan dg blob))\<rparr>"

section \<open>The validator\<close>

definition SIGNATURES :: "(bytes \<times> string) list" where
  "SIGNATURES =
     [(''%PDF-'', ''application/pdf''),
      ([CHR 0x89] @ ''PNG'' @ [CHR 0x0D, CHR 0x0A, CHR 0x1A, CHR 0x0A], ''image/png''),
      ([CHR 0xFF, CHR 0xD8, CHR 0xFF], ''image/jpeg''),
      (''GIF87a'', ''image/gif''),
      (''GIF89a'', ''image/gif''),
      (''PK'' @ [CHR 0x03, CHR 0x04], ''application/zip''),
      ([CHR 0x1F, CHR 0x8B], ''application/gzip''),
      (''%!PS'', ''application/postscript'')]"

definition sniff :: "bytes \<Rightarrow> string option" where
  "sniff start = map_option snd (find (\<lambda>(magic, _). starts_with start magic) SIGNATURES)"

definition content_type_matches :: "string \<Rightarrow> string \<Rightarrow> bool" where
  "content_type_matches sniffed declared =
     (let declared = to_ascii_lowercase (trim (hd (split_on CHR '';'' declared))) in
      if declared = [] \<or> declared = ''application/octet-stream'' then True
      else if declared = sniffed then True
      else sniffed = ''application/zip''
        \<and> (starts_with declared ''application/vnd.openxmlformats-officedocument.''
           \<or> starts_with declared ''application/vnd.oasis.opendocument.''
           \<or> declared = ''application/epub+zip''
           \<or> declared = ''application/java-archive''))"

definition basic_validate ::
  "BlobHead \<Rightarrow> bytes \<Rightarrow> DeclaredContent \<Rightarrow> (ContentVerdict, ValidateError) result" where
  "basic_validate head start declared =
     (if bh_byte_size head \<noteq> dl_byte_size declared
      then Ok (ContentRejected (''declared '' @ show_u64 (dl_byte_size declared)
        @ '' bytes but the object is '' @ show_u64 (bh_byte_size head)))
      else (case sniff start of
        Some sniffed \<Rightarrow>
          if content_type_matches sniffed (dl_content_type declared) then Ok ContentOk
          else Ok (ContentRejected (''content looks like '' @ sniffed @ '' but was declared as ''
            @ dl_content_type declared))
      | None \<Rightarrow> Ok ContentOk))"

definition BasicContentValidator :: "'w ContentValidator" where
  "BasicContentValidator = \<lparr>cv_validate = (\<lambda>head start declared. ret (basic_validate head start declared))\<rparr>"

section \<open>The window is enough\<close>

lemma starts_with_prefix: "starts_with s p = prefix p s"
  by (metis append_eq_conv_conj append_take_drop_id prefixE prefixI starts_with_def)

lemma contains_sublist: "contains haystack needle = sublist needle haystack"
  by (induction haystack) (simp_all add: starts_with_prefix sublist_Cons_right)

text \<open>A needle that is new once the chunk has arrived lies in the window and the chunk.\<close>

lemma new_needle_in_window:
  assumes "\<not> sublist n (pre @ win)" "pre = [] \<or> length n \<le> Suc (length win)"
  shows "sublist n (pre @ win @ chunk) = sublist n (win @ chunk)"
proof
  assume "sublist n (pre @ win @ chunk)"
  then obtain ps ss where eq: "pre @ win @ chunk = ps @ n @ ss" by (auto simp: sublist_def)
  show "sublist n (win @ chunk)"
  proof (cases "length pre \<le> length ps")
    case True
    have "win @ chunk = drop (length pre) (ps @ n @ ss)" by (simp flip: eq)
    then have "win @ chunk = drop (length pre) ps @ n @ ss" using True by simp
    then show ?thesis by (auto simp: sublist_def)
  next
    case False
    then have "length (ps @ n) \<le> length (pre @ win)" using assms(2) by auto
    then have "take (length (ps @ n)) (pre @ win) = ps @ n"
      using arg_cong [OF eq, of "take (length (ps @ n))"] by simp
    then have "prefix (ps @ n) (pre @ win)" by (metis take_is_prefix)
    then obtain rest where "pre @ win = ps @ n @ rest" by (auto simp: prefix_def)
    then have "sublist n (pre @ win)" unfolding sublist_def by blast
    then show ?thesis using assms(1) by simp
  qed
next
  assume "sublist n (win @ chunk)"
  then obtain ps ss where "win @ chunk = ps @ n @ ss" by (auto simp: sublist_def)
  then have "pre @ win @ chunk = (pre @ ps) @ n @ ss" by simp
  then show "sublist n (pre @ win @ chunk)" unfolding sublist_def by blast
qed

definition scan_inv :: "ScanState \<Rightarrow> bool" where
  "scan_inv st = (sn_byte_count st = of_nat (length (sn_hashed st))
     \<and> sn_infected st = sublist EICAR (sn_hashed st)
     \<and> (sn_infected st \<or> (\<exists>pre. sn_hashed st = pre @ sn_window st
          \<and> (pre = [] \<or> length EICAR \<le> Suc (length (sn_window st))))))"

lemma length_EICAR: "length EICAR = 68"
  by (simp add: EICAR_def)

lemma scan_inv_chunk:
  assumes "scan_inv st"
  shows "scan_inv (scan_chunk chunk st)" "sn_hashed (scan_chunk chunk st) = sn_hashed st @ chunk"
proof -
  show "sn_hashed (scan_chunk chunk st) = sn_hashed st @ chunk" by (simp add: scan_chunk_def Let_def)
  show "scan_inv (scan_chunk chunk st)"
  proof (cases "sn_infected st")
    case True
    then show ?thesis using assms
      by (auto simp: scan_inv_def scan_chunk_def Let_def intro: sublist_append_rightI sublist_order.order_trans)
  next
    case False
    let ?w = "sn_window st @ chunk"
    obtain pre where pre: "sn_hashed st = pre @ sn_window st" "pre = [] \<or> length EICAR \<le> Suc (length (sn_window st))"
      using assms False by (auto simp: scan_inv_def)
    have clean: "\<not> sublist EICAR (pre @ sn_window st)" using assms False pre(1) by (auto simp: scan_inv_def)
    have infected: "sublist EICAR (sn_hashed st @ chunk) = contains ?w EICAR"
      using new_needle_in_window [OF clean pre(2), of chunk] by (simp add: pre(1) contains_sublist)
    let ?cut = "length ?w - (length EICAR - 1)"
    let ?w' = "if length ?w > length EICAR then drop ?cut ?w else ?w"
    have window: "\<exists>p. sn_hashed st @ chunk = p @ ?w' \<and> (p = [] \<or> length EICAR \<le> Suc (length ?w'))"
    proof (cases "length ?w > length EICAR")
      case True
      have "sn_hashed st @ chunk = (pre @ take ?cut ?w) @ drop ?cut ?w"
        by (simp only: pre(1) append.assoc append_take_drop_id)
      moreover have "length EICAR \<le> Suc (length (drop ?cut ?w))" using True by simp
      ultimately show ?thesis unfolding if_P [OF True] by blast
    next
      case False
      have "sn_hashed st @ chunk = pre @ ?w" by (simp add: pre(1))
      moreover have "pre = [] \<or> length EICAR \<le> Suc (length ?w)" using pre(2) by auto
      ultimately show ?thesis unfolding if_not_P [OF False] by blast
    qed
    have "scan_chunk chunk st = st\<lparr>sn_hashed := sn_hashed st @ chunk,
        sn_byte_count := sn_byte_count st + of_nat (length chunk), sn_window := ?w', sn_infected := contains ?w EICAR\<rparr>"
      using False by (simp add: scan_chunk_def Let_def)
    then show ?thesis using assms infected window by (simp add: scan_inv_def)
  qed
qed

lemma scan_loop_spec:
  assumes "scan_inv st"
  shows "case read_to_end blob of
      Err error \<Rightarrow> scan_loop blob st = Err (ScanRead error)
    | Ok b \<Rightarrow> (\<exists>st'. scan_loop blob st = Ok st' \<and> scan_inv st' \<and> sn_hashed st' = sn_hashed st @ b)"
  using assms
proof (induction blob st rule: scan_loop.induct)
  case (3 chunk blob st)
  then show ?case
  proof (cases "chunk = []")
    case False
    then show ?thesis using "3.IH" [OF False scan_inv_chunk(1) [OF "3.prems"]] scan_inv_chunk(2) [OF "3.prems", of chunk]
      by (auto split: result.splits)
  qed simp
qed simp_all

section \<open>Sniffing\<close>

lemma signatures_disjoint_all:
  "\<forall>x \<in> set SIGNATURES. \<forall>y \<in> set SIGNATURES. prefix (fst x) (fst y) \<longrightarrow> snd x = snd y"
  by (simp add: SIGNATURES_def)

lemma signatures_disjoint:
  "(m, t) \<in> set SIGNATURES \<Longrightarrow> (m', t') \<in> set SIGNATURES \<Longrightarrow> prefix m m' \<Longrightarrow> t = t'"
  using bspec [OF bspec [OF signatures_disjoint_all], of "(m, t)" "(m', t')"] by simp

text \<open>No signature is the beginning of another, so the order of the table does not matter.\<close>

lemma sniff_iff: "sniff start = Some mime \<longleftrightarrow> (\<exists>magic. (magic, mime) \<in> set SIGNATURES \<and> prefix magic start)"
proof
  assume "sniff start = Some mime"
  then show "\<exists>magic. (magic, mime) \<in> set SIGNATURES \<and> prefix magic start"
    by (auto simp: sniff_def find_Some_iff starts_with_prefix) (metis nth_mem)
next
  assume "\<exists>magic. (magic, mime) \<in> set SIGNATURES \<and> prefix magic start"
  then obtain magic where magic: "(magic, mime) \<in> set SIGNATURES" "prefix magic start" by blast
  then obtain magic' mime' where f: "find (\<lambda>(magic, _). starts_with start magic) SIGNATURES = Some (magic', mime')"
    by (cases "find (\<lambda>(magic, _). starts_with start magic) SIGNATURES")
      (auto simp: find_None_iff starts_with_prefix)
  then have "(magic', mime') \<in> set SIGNATURES" "prefix magic' start"
    by (auto simp: find_Some_iff starts_with_prefix) (metis nth_mem)
  with magic have "prefix magic magic' \<or> prefix magic' magic" using prefix_same_cases by metis
  then have "mime' = mime"
    using signatures_disjoint [OF magic(1) \<open>(magic', mime') \<in> set SIGNATURES\<close>]
      signatures_disjoint [OF \<open>(magic', mime') \<in> set SIGNATURES\<close> magic(1)] by metis
  then show "sniff start = Some mime" by (simp add: sniff_def f)
qed

section \<open>Properties\<close>

text \<open>The scanner's answer depends only on the bytes, not on how the stream was cut: it finds
  the signature exactly when the object contains it, across any chunk boundary, and its digest and
  byte count are those of the whole object. A read error is reported as such.\<close>

theorem scan_ignores_chunking:
  "permissive_scan dg blob = (case read_to_end blob of
     Err error \<Rightarrow> Err (ScanRead error)
   | Ok b \<Rightarrow> Ok \<lparr>so_verdict = (if sublist EICAR b then Infected ''Eicar-Test-Signature'' else Clean),
       so_sha256_hex = sha256_hex (dg_sha256 dg) (dg_hex_encode dg) b, so_byte_count = of_nat (length b)\<rparr>)"
proof -
  have "scan_inv scan_start"
    by (simp add: scan_inv_def scan_start_def) (simp add: EICAR_def)
  from scan_loop_spec [OF this, of blob] show ?thesis
    by (auto simp: permissive_scan_def scan_inv_def scan_start_def sha256_hex_def split: result.splits)
qed

text \<open>What the validator refuses: an object whose size is not the declared one, or whose first
  bytes are one of the known signatures of a type that contradicts the declaration. An object it
  does not recognise is accepted. The order of the signature table does not matter, and it never
  fails.\<close>

theorem validator_rejects_iff:
  "(\<exists>reason. basic_validate head start declared = Ok (ContentRejected reason)) \<longleftrightarrow>
     bh_byte_size head \<noteq> dl_byte_size declared \<or>
     (\<exists>magic mime. (magic, mime) \<in> set SIGNATURES \<and> prefix magic start
        \<and> \<not> content_type_matches mime (dl_content_type declared))"
proof -
  have "(\<exists>reason. basic_validate head start declared = Ok (ContentRejected reason)) \<longleftrightarrow>
     bh_byte_size head \<noteq> dl_byte_size declared \<or>
     (\<exists>mime. sniff start = Some mime \<and> \<not> content_type_matches mime (dl_content_type declared))"
    by (auto simp: basic_validate_def split: option.splits)
  then show ?thesis by (simp only: sniff_iff) blast
qed

text \<open>A PDF declared as text is refused.\<close>

theorem validator_rejects_iff_witness:
  "\<exists>reason. basic_validate \<lparr>bh_byte_size = 9, bh_content_type = None, bh_last_modified = 0\<rparr> ''%PDF-1.7''
     \<lparr>dl_filename = ''a.txt'', dl_content_type = ''text/plain; charset=utf-8'', dl_byte_size = 9\<rparr>
       = Ok (ContentRejected reason)"
proof -
  have "(''%PDF-'', ''application/pdf'') \<in> set SIGNATURES" "prefix ''%PDF-'' ''%PDF-1.7''"
    by (simp_all add: SIGNATURES_def)
  moreover have "\<not> content_type_matches ''application/pdf'' ''text/plain; charset=utf-8''" by code_simp
  ultimately show ?thesis unfolding validator_rejects_iff
    by (intro disjI2 exI [of _ "''%PDF-''"] exI [of _ "''application/pdf''"]) simp
qed

end
