(* ===== verification/Chat.thy ===== *)
theory Chat
  imports Rust_Prelude
begin

text \<open>
  The vocabulary of the chat side: the contract types of crates/contracts/src/lib.rs, the turn
  lock, the replay index, the subjects and the bus trait of crates/nats/src/lib.rs, and the errors
  and the repository trait of crates/storage/src/lib.rs. As in Ports, a trait is a record of
  state-monad operations over an arbitrary world. The \<open>subscribe_*\<close> operations, which hand out a
  channel, are not part of the record: what a channel delivers is an argument of the code that
  receives from it.

  \<open>Utc::now()\<close> is read once per operation, and the duration \<open>chat_lock_ttl()\<close>, which the source
  reads from the process environment, is the parameter \<open>ttl\<close>, in the unit of the clock.
\<close>

section \<open>Contracts\<close>

definition CONTRACT_VERSION :: u16 where
  "CONTRACT_VERSION = 1"

record AuthUser =
  au_user_id :: string
  au_tenant_id :: string
  au_email :: "string option"
  au_roles :: "string list"

record ConversationSummary =
  cs_id :: string
  cs_title :: string
  cs_updated_at :: datetime

datatype MessageRole = RoleUser | RoleAssistant | RoleSystem

record CitationEntry =
  ce_index :: u32
  ce_label :: string
  ce_url :: "string option"

record MessageDto =
  md_id :: string
  md_role :: MessageRole
  md_content :: string
  md_parent_message_id :: "string option"
  md_citations :: "CitationEntry list"
  md_turn_id :: "string option"
  md_interrupted :: bool
  md_finish_reason :: "string option"
  md_created_at :: datetime

record ConversationDetail =
  cd_id :: string
  cd_title :: string
  cd_messages :: "MessageDto list"
  cd_updated_at :: datetime

record SubmitTurnRequest =
  sr_user_message_id :: string
  sr_turn_id :: string
  sr_text :: string
  sr_parent_message_id :: "string option"

record SubmitChatMessageRequest =
  sm_text :: string
  sm_parent_message_id :: "string option"
  sm_user_message_id :: "string option"
  sm_turn_id :: "string option"

datatype ApiErrorCode = CodeUnauthorized | CodeForbidden | CodeNotFound | CodeInvalidRequest
  | CodeStaleParent | CodeInFlight | CodeConflict | CodeGone | CodeTooLarge | CodeInternal

record TurnRequested =
  tr_v :: u16
  tr_command_id :: string
  tr_tenant_id :: string
  tr_user_id :: string
  tr_conversation_id :: string
  tr_turn_id :: string
  tr_ts :: datetime

datatype FinishReason = FinishStop | FinishError
datatype InterruptReason = UserInterrupted
datatype ClearReason = Cancelled | WorkerLost | FailedBeforeCommit

datatype ChatEvent =
    TurnStarted string
  | UserMessage string "string option" string
  | Citations "CitationEntry list"
  | TextDelta string
  | Finish string FinishReason
  | TurnInterrupted string string InterruptReason
  | Clear ClearReason
  | ChatError string
  | TitleUpdated string

record ChatEventEnvelope =
  ee_v :: u16
  ee_tenant_id :: string
  ee_user_id :: string
  ee_conversation_id :: string
  ee_turn_id :: string
  ee_ts :: datetime
  ee_event :: ChatEvent

datatype ClientWsMessage =
    SubscribeConversation string "string option"
  | UnsubscribeConversation string
  | Ping "string option"

datatype ServerWsMessage =
    Subscribed string
  | WsEvent string string ChatEvent
  | ResyncRequired string
  | WsError string string
  | Pong "string option"

section \<open>The lock of a conversation\<close>

datatype ChatBusError = BusUnavailable | BusPayload string | InFlight

fun display_ChatBusError :: "ChatBusError \<Rightarrow> string" where
  "display_ChatBusError BusUnavailable = ''chat bus unavailable''"
| "display_ChatBusError (BusPayload m) = ''chat bus payload error: '' @ m"
| "display_ChatBusError InFlight = ''chat conversation already has an in-flight turn''"

datatype ChatLockState = LockRequested | LockRunning | LockCommitted | LockInterrupted | LockFailed

record ChatLock =
  cl_tenant_id :: string
  cl_user_id :: string
  cl_conversation_id :: string
  cl_turn_id :: string
  cl_user_message_id :: string
  cl_text :: string
  cl_parent_message_id :: "string option"
  cl_bearer_subject :: string
  cl_state :: ChatLockState
  cl_worker_id :: "string option"
  cl_stop_requested :: bool
  cl_stop_requested_by :: "string option"
  cl_stop_requested_at :: "datetime option"
  cl_lease_expires_at :: datetime
  cl_assistant_message_id :: "string option"
  cl_terminal_content :: "string option"
  cl_terminal_error :: "string option"
  cl_terminal_event_published :: bool

definition lock_expires_at :: "int \<Rightarrow> datetime \<Rightarrow> datetime" where
  "lock_expires_at ttl now = now + ttl"

definition lock_requested ::
  "int \<Rightarrow> datetime \<Rightarrow> string \<Rightarrow> string \<Rightarrow> string \<Rightarrow> string \<Rightarrow> string \<Rightarrow> string \<Rightarrow> string option \<Rightarrow> string \<Rightarrow> ChatLock" where
  "lock_requested ttl now tenant_id user_id conversation_id turn_id user_message_id txt parent_message_id bearer_subject =
     \<lparr>cl_tenant_id = tenant_id, cl_user_id = user_id, cl_conversation_id = conversation_id,
      cl_turn_id = turn_id, cl_user_message_id = user_message_id, cl_text = txt,
      cl_parent_message_id = parent_message_id, cl_bearer_subject = bearer_subject,
      cl_state = LockRequested, cl_worker_id = None, cl_stop_requested = False,
      cl_stop_requested_by = None, cl_stop_requested_at = None,
      cl_lease_expires_at = lock_expires_at ttl now, cl_assistant_message_id = None,
      cl_terminal_content = None, cl_terminal_error = None, cl_terminal_event_published = False\<rparr>"

definition lock_is_expired :: "datetime \<Rightarrow> ChatLock \<Rightarrow> bool" where
  "lock_is_expired now lock = (cl_lease_expires_at lock \<le> now)"

definition lock_is_terminal :: "ChatLock \<Rightarrow> bool" where
  "lock_is_terminal lock = (case cl_state lock of
      LockCommitted \<Rightarrow> True | LockInterrupted \<Rightarrow> True | LockFailed \<Rightarrow> True | _ \<Rightarrow> False)"

record ChatTerminalUpdate =
  tu_state :: ChatLockState
  tu_assistant_message_id :: "string option"
  tu_content :: "string option"
  tu_error :: "string option"

record StopSignal =
  sg_tenant_id :: string
  sg_conversation_id :: string
  sg_turn_id :: string

section \<open>Events and replay\<close>

record SequencedChatEvent =
  se_event_id :: string
  se_envelope :: ChatEventEnvelope

record ReplayTurn =
  rt_turn_id :: string
  rt_start_seq :: u64
  rt_end_seq :: "u64 option"

record ReplayIndex =
  ri_previous_turn :: "ReplayTurn option"
  ri_current_turn :: "ReplayTurn option"

definition default_ReplayIndex :: ReplayIndex where
  "default_ReplayIndex = \<lparr>ri_previous_turn = None, ri_current_turn = None\<rparr>"

fun is_replay_index_event :: "ChatEvent \<Rightarrow> bool" where
  "is_replay_index_event (TurnStarted _) = True"
| "is_replay_index_event (Finish _ _) = True"
| "is_replay_index_event (TurnInterrupted _ _ _) = True"
| "is_replay_index_event (Clear _) = True"
| "is_replay_index_event _ = False"

text \<open>The branch for an event that ends a turn.\<close>

definition close_turn :: "ReplayIndex \<Rightarrow> string \<Rightarrow> u64 \<Rightarrow> ReplayIndex" where
  "close_turn ix turn_id sequence = (case ri_current_turn ix of
      Some turn \<Rightarrow>
        if rt_turn_id turn = turn_id then ix\<lparr>ri_current_turn := Some (turn\<lparr>rt_end_seq := Some sequence\<rparr>)\<rparr>
        else (case ri_previous_turn ix of
            Some p \<Rightarrow> if rt_turn_id p = turn_id
              then ix\<lparr>ri_previous_turn := Some (p\<lparr>rt_end_seq := Some sequence\<rparr>)\<rparr> else ix
          | None \<Rightarrow> ix)
    | None \<Rightarrow> (case ri_previous_turn ix of
          Some p \<Rightarrow> if rt_turn_id p = turn_id
            then ix\<lparr>ri_previous_turn := Some (p\<lparr>rt_end_seq := Some sequence\<rparr>)\<rparr> else ix
        | None \<Rightarrow> ix))"

fun apply_replay_event :: "ReplayIndex \<Rightarrow> ChatEventEnvelope \<Rightarrow> u64 \<Rightarrow> ChatEvent \<Rightarrow> ReplayIndex" where
  "apply_replay_event ix envelope sequence (TurnStarted _) =
     (if (case ri_current_turn ix of Some turn \<Rightarrow> rt_turn_id turn = ee_turn_id envelope | None \<Rightarrow> False)
      then ix
      else \<lparr>ri_previous_turn = ri_current_turn ix,
        ri_current_turn = Some \<lparr>rt_turn_id = ee_turn_id envelope, rt_start_seq = sequence, rt_end_seq = None\<rparr>\<rparr>)"
| "apply_replay_event ix envelope sequence (Finish _ _) = close_turn ix (ee_turn_id envelope) sequence"
| "apply_replay_event ix envelope sequence (TurnInterrupted _ _ _) = close_turn ix (ee_turn_id envelope) sequence"
| "apply_replay_event ix envelope sequence (Clear _) = close_turn ix (ee_turn_id envelope) sequence"
| "apply_replay_event ix envelope sequence _ = ix"

section \<open>Subjects\<close>

definition command_turn_requested :: string where
  "command_turn_requested = ''chat.commands.turn_requested''"

definition events_subject :: "string \<Rightarrow> string \<Rightarrow> string" where
  "events_subject tenant_id conversation_id = ''chat.events.'' @ tenant_id @ ''.'' @ conversation_id"

definition control_subject :: "string \<Rightarrow> string" where
  "control_subject worker_id = ''chat.control.worker.'' @ worker_id @ ''.stop''"

definition lock_key :: "string \<Rightarrow> string \<Rightarrow> string" where
  "lock_key tenant_id conversation_id = tenant_id @ ''/'' @ conversation_id"

section \<open>The bus and the repository\<close>

record 'w ChatBus =
  cb_acquire_lock :: "ChatLock \<Rightarrow> ('w, (unit, ChatBusError) result) state"
  cb_load_lock :: "string \<Rightarrow> string \<Rightarrow> ('w, (ChatLock option, ChatBusError) result) state"
  cb_claim_lock :: "string \<Rightarrow> string \<Rightarrow> string \<Rightarrow> string \<Rightarrow> ('w, (ChatLock, ChatBusError) result) state"
  cb_mark_lock_terminal :: "string \<Rightarrow> string \<Rightarrow> string \<Rightarrow> string option \<Rightarrow> ChatTerminalUpdate \<Rightarrow>
    ('w, (ChatLock, ChatBusError) result) state"
  cb_mark_terminal_event_published :: "string \<Rightarrow> string \<Rightarrow> string \<Rightarrow> ('w, (unit, ChatBusError) result) state"
  cb_request_stop :: "string \<Rightarrow> string \<Rightarrow> string \<Rightarrow> ('w, (ChatLock option, ChatBusError) result) state"
  cb_stop_requested :: "string \<Rightarrow> string \<Rightarrow> string \<Rightarrow> ('w, (bool, ChatBusError) result) state"
  cb_renew_lock :: "string \<Rightarrow> string \<Rightarrow> string \<Rightarrow> string \<Rightarrow> ('w, (ChatLock, ChatBusError) result) state"
  cb_release_lock :: "string \<Rightarrow> string \<Rightarrow> string \<Rightarrow> ('w, unit) state"
  cb_publish_turn_requested :: "TurnRequested \<Rightarrow> ('w, (unit, ChatBusError) result) state"
  cb_progress_turn_requested :: "string \<Rightarrow> ('w, (unit, ChatBusError) result) state"
  cb_ack_turn_requested :: "string \<Rightarrow> ('w, (unit, ChatBusError) result) state"
  cb_publish_event :: "ChatEventEnvelope \<Rightarrow> ('w, (string, ChatBusError) result) state"
  cb_load_replay_index :: "string \<Rightarrow> string \<Rightarrow> ('w, (ReplayIndex option, ChatBusError) result) state"
  cb_replay_events :: "string \<Rightarrow> string \<Rightarrow> u64 \<Rightarrow> u64 \<Rightarrow> ('w, (SequencedChatEvent list, ChatBusError) result) state"
  cb_latest_event_sequence :: "('w, (u64, ChatBusError) result) state"
  cb_publish_stop :: "string \<Rightarrow> string \<Rightarrow> string \<Rightarrow> string \<Rightarrow> ('w, (unit, ChatBusError) result) state"

datatype StorageError = StNotFound | StForbidden | StStaleParent | StInternal string

fun display_StorageError :: "StorageError \<Rightarrow> string" where
  "display_StorageError StNotFound = ''not found''"
| "display_StorageError StForbidden = ''forbidden''"
| "display_StorageError StStaleParent = ''stale parent''"
| "display_StorageError (StInternal m) = ''storage error: '' @ m"

text \<open>The turn a commit writes; the source passes these positionally.\<close>

record TurnCommit =
  tc_turn_id :: string
  tc_user_message_id :: string
  tc_user_text :: string
  tc_parent_message_id :: "string option"
  tc_assistant_message_id :: string
  tc_assistant_text :: string
  tc_citations :: "CitationEntry list"

record 'w ChatRepository =
  cr_list_conversations :: "string \<Rightarrow> string \<Rightarrow> ('w, (ConversationSummary list, StorageError) result) state"
  cr_create_conversation :: "string \<Rightarrow> string \<Rightarrow> string option \<Rightarrow> ('w, (ConversationDetail, StorageError) result) state"
  cr_get_conversation :: "string \<Rightarrow> string \<Rightarrow> string \<Rightarrow> ('w, (ConversationDetail, StorageError) result) state"
  cr_rename_conversation :: "string \<Rightarrow> string \<Rightarrow> string \<Rightarrow> string \<Rightarrow> ('w, (ConversationDetail, StorageError) result) state"
  cr_rename_conversation_if_default :: "string \<Rightarrow> string \<Rightarrow> string \<Rightarrow> string \<Rightarrow>
    ('w, (ConversationDetail option, StorageError) result) state"
  cr_delete_conversation :: "string \<Rightarrow> string \<Rightarrow> string \<Rightarrow> ('w, (unit, StorageError) result) state"
  cr_assert_parent_tail :: "string \<Rightarrow> string \<Rightarrow> string \<Rightarrow> string option \<Rightarrow> ('w, (unit, StorageError) result) state"
  cr_record_turn_failed :: "string \<Rightarrow> string \<Rightarrow> string \<Rightarrow> string \<Rightarrow> string \<Rightarrow> ('w, (unit, StorageError) result) state"
  cr_commit_turn :: "string \<Rightarrow> string \<Rightarrow> string \<Rightarrow> TurnCommit \<Rightarrow> ('w, (ConversationDetail, StorageError) result) state"
  cr_commit_interrupted_turn :: "string \<Rightarrow> string \<Rightarrow> string \<Rightarrow> TurnCommit \<Rightarrow>
    ('w, (ConversationDetail, StorageError) result) state"

end
