(* ===== verification/Chat_Bus.thy ===== *)
theory Chat_Bus
  imports Chat
begin

text \<open>
  \<open>InMemoryChatBus\<close> of crates/nats/src/lib.rs: the fields its mutexes guard as a record, and one
  operation per method of the bus. Channels are the list of what was sent into them. The theorems
  are about the lock protocol that lets exactly one worker run a turn: a fresh lease excludes every
  other worker and every other turn, and a stop request is not lost.
\<close>

section \<open>State and operations\<close>

record ChatInner =
  ci_commands :: "TurnRequested list"
  ci_events :: "SequencedChatEvent list"
  ci_stops :: "StopSignal list"
  ci_locks :: "string \<rightharpoonup> ChatLock"
  ci_replay :: "string \<rightharpoonup> ReplayIndex"
  ci_event_log :: "SequencedChatEvent list"
  ci_next_event_sequence :: u64

definition default_ChatInner :: ChatInner where
  "default_ChatInner = \<lparr>ci_commands = [], ci_events = [], ci_stops = [], ci_locks = Map.empty,
     ci_replay = Map.empty, ci_event_log = [], ci_next_event_sequence = 0\<rparr>"

definition set_lock :: "string \<Rightarrow> ChatLock \<Rightarrow> ChatInner \<Rightarrow> ChatInner" where
  "set_lock key lock st = st\<lparr>ci_locks := (ci_locks st)(key \<mapsto> lock)\<rparr>"

definition drop_lock :: "string \<Rightarrow> ChatInner \<Rightarrow> ChatInner" where
  "drop_lock key st = st\<lparr>ci_locks := (ci_locks st)(key := None)\<rparr>"

definition mem_acquire_lock :: "datetime \<Rightarrow> ChatLock \<Rightarrow> (ChatInner, (unit, ChatBusError) result) state" where
  "mem_acquire_lock now lock = State (\<lambda>st.
     let key = lock_key (cl_tenant_id lock) (cl_conversation_id lock) in
     if (case ci_locks st key of Some existing \<Rightarrow> \<not> lock_is_expired now existing | None \<Rightarrow> False)
     then (Err InFlight, st) else (Ok (), set_lock key lock st))"

definition mem_load_lock :: "string \<Rightarrow> string \<Rightarrow> (ChatInner, (ChatLock option, ChatBusError) result) state" where
  "mem_load_lock tenant_id conversation_id = State (\<lambda>st. (Ok (ci_locks st (lock_key tenant_id conversation_id)), st))"

definition claimed_lock :: "int \<Rightarrow> datetime \<Rightarrow> string \<Rightarrow> ChatLock \<Rightarrow> ChatLock" where
  "claimed_lock ttl now worker_id lock = lock\<lparr>cl_state := LockRunning, cl_worker_id := Some worker_id,
     cl_lease_expires_at := lock_expires_at ttl now\<rparr>"

definition mem_claim_lock ::
  "int \<Rightarrow> datetime \<Rightarrow> string \<Rightarrow> string \<Rightarrow> string \<Rightarrow> string \<Rightarrow> (ChatInner, (ChatLock, ChatBusError) result) state" where
  "mem_claim_lock ttl now tenant_id conversation_id turn_id worker_id = State (\<lambda>st.
     let key = lock_key tenant_id conversation_id in
     case ci_locks st key of
       Some existing \<Rightarrow>
         if cl_turn_id existing = turn_id then
           (if lock_is_terminal existing then (Ok existing, st)
            else if lock_is_expired now existing
            then (Err (BusPayload ''chat lock payload expired before worker claim''), st)
            else if cl_state existing = LockRunning \<and> cl_worker_id existing \<noteq> Some worker_id
            then (Err InFlight, st)
            else (Ok (claimed_lock ttl now worker_id existing),
                  set_lock key (claimed_lock ttl now worker_id existing) st))
         else if \<not> lock_is_expired now existing then (Err InFlight, st)
         else (Err (BusPayload ''chat lock payload missing before worker claim''), st)
     | None \<Rightarrow> (Err (BusPayload ''chat lock payload missing before worker claim''), st))"

definition terminal_lock :: "int \<Rightarrow> datetime \<Rightarrow> ChatTerminalUpdate \<Rightarrow> ChatLock \<Rightarrow> ChatLock" where
  "terminal_lock ttl now terminal lock = lock\<lparr>cl_state := tu_state terminal,
     cl_assistant_message_id := tu_assistant_message_id terminal, cl_terminal_content := tu_content terminal,
     cl_terminal_error := tu_error terminal, cl_terminal_event_published := False,
     cl_lease_expires_at := lock_expires_at ttl now\<rparr>"

definition mem_mark_lock_terminal ::
  "int \<Rightarrow> datetime \<Rightarrow> string \<Rightarrow> string \<Rightarrow> string \<Rightarrow> string option \<Rightarrow> ChatTerminalUpdate \<Rightarrow>
     (ChatInner, (ChatLock, ChatBusError) result) state" where
  "mem_mark_lock_terminal ttl now tenant_id conversation_id turn_id worker_id terminal = State (\<lambda>st.
     let key = lock_key tenant_id conversation_id in
     case ci_locks st key of
       None \<Rightarrow> (Err InFlight, st)
     | Some lock \<Rightarrow>
         if cl_turn_id lock \<noteq> turn_id then (Err InFlight, st)
         else if (case worker_id of Some worker_id \<Rightarrow> cl_worker_id lock \<noteq> Some worker_id | None \<Rightarrow> False)
         then (Err InFlight, st)
         else (Ok (terminal_lock ttl now terminal lock), set_lock key (terminal_lock ttl now terminal lock) st))"

definition mem_mark_terminal_event_published ::
  "string \<Rightarrow> string \<Rightarrow> string \<Rightarrow> (ChatInner, (unit, ChatBusError) result) state" where
  "mem_mark_terminal_event_published tenant_id conversation_id turn_id = State (\<lambda>st.
     let key = lock_key tenant_id conversation_id in
     case ci_locks st key of
       None \<Rightarrow> (Ok (), st)
     | Some lock \<Rightarrow>
         if cl_turn_id lock = turn_id \<and> lock_is_terminal lock
         then (Ok (), set_lock key (lock\<lparr>cl_terminal_event_published := True\<rparr>) st)
         else (Ok (), st))"

definition stopped_lock :: "datetime \<Rightarrow> string \<Rightarrow> ChatLock \<Rightarrow> ChatLock" where
  "stopped_lock now requested_by lock = lock\<lparr>cl_stop_requested := True,
     cl_stop_requested_by := Some requested_by, cl_stop_requested_at := Some now\<rparr>"

definition mem_request_stop ::
  "datetime \<Rightarrow> string \<Rightarrow> string \<Rightarrow> string \<Rightarrow> (ChatInner, (ChatLock option, ChatBusError) result) state" where
  "mem_request_stop now tenant_id conversation_id requested_by = State (\<lambda>st.
     let key = lock_key tenant_id conversation_id in
     case ci_locks st key of
       Some lock \<Rightarrow>
         if \<not> lock_is_expired now lock
         then (Ok (Some (stopped_lock now requested_by lock)), set_lock key (stopped_lock now requested_by lock) st)
         else (Ok None, drop_lock key st)
     | None \<Rightarrow> (Ok None, st))"

definition mem_stop_requested ::
  "datetime \<Rightarrow> string \<Rightarrow> string \<Rightarrow> string \<Rightarrow> (ChatInner, (bool, ChatBusError) result) state" where
  "mem_stop_requested now tenant_id conversation_id turn_id = State (\<lambda>st.
     (Ok (case ci_locks st (lock_key tenant_id conversation_id) of
        Some lock \<Rightarrow> \<not> lock_is_expired now lock \<and> cl_turn_id lock = turn_id \<and> cl_stop_requested lock
      | None \<Rightarrow> False), st))"

definition mem_renew_lock ::
  "int \<Rightarrow> datetime \<Rightarrow> string \<Rightarrow> string \<Rightarrow> string \<Rightarrow> string \<Rightarrow> (ChatInner, (ChatLock, ChatBusError) result) state" where
  "mem_renew_lock ttl now tenant_id conversation_id turn_id worker_id = State (\<lambda>st.
     let key = lock_key tenant_id conversation_id in
     case ci_locks st key of
       None \<Rightarrow> (Err InFlight, st)
     | Some lock \<Rightarrow>
         if cl_turn_id lock \<noteq> turn_id \<or> cl_worker_id lock \<noteq> Some worker_id \<or> lock_is_expired now lock
         then (Err InFlight, st)
         else (let lock = lock\<lparr>cl_lease_expires_at := lock_expires_at ttl now\<rparr> in (Ok lock, set_lock key lock st)))"

definition mem_release_lock :: "string \<Rightarrow> string \<Rightarrow> string \<Rightarrow> (ChatInner, unit) state" where
  "mem_release_lock tenant_id conversation_id turn_id = State (\<lambda>st.
     let key = lock_key tenant_id conversation_id in
     if (case ci_locks st key of Some lock \<Rightarrow> cl_turn_id lock = turn_id | None \<Rightarrow> False)
     then ((), drop_lock key st) else ((), st))"

definition mem_publish_turn_requested :: "TurnRequested \<Rightarrow> (ChatInner, (unit, ChatBusError) result) state" where
  "mem_publish_turn_requested command = State (\<lambda>st. (Ok (), st\<lparr>ci_commands := ci_commands st @ [command]\<rparr>))"

definition update_in_memory_replay ::
  "ChatEventEnvelope \<Rightarrow> u64 \<Rightarrow> ChatEvent \<Rightarrow> (string \<rightharpoonup> ReplayIndex) \<Rightarrow> (string \<rightharpoonup> ReplayIndex)" where
  "update_in_memory_replay envelope sequence event replay =
     (if \<not> is_replay_index_event event then replay
      else (let key = lock_key (ee_tenant_id envelope) (ee_conversation_id envelope);
                ix = (case replay key of Some ix \<Rightarrow> ix | None \<Rightarrow> default_ReplayIndex)
            in replay(key \<mapsto> apply_replay_event ix envelope sequence event)))"

definition mem_publish_event :: "ChatEventEnvelope \<Rightarrow> (ChatInner, (string, ChatBusError) result) state" where
  "mem_publish_event event = State (\<lambda>st.
     let sequence = ci_next_event_sequence st + 1;
         sequenced = \<lparr>se_event_id = show_u64 sequence, se_envelope = event\<rparr>
     in (Ok (show_u64 sequence), st\<lparr>ci_next_event_sequence := sequence,
          ci_replay := update_in_memory_replay event sequence (ee_event event) (ci_replay st),
          ci_event_log := ci_event_log st @ [sequenced],
          ci_events := ci_events st @ [sequenced]\<rparr>))"

definition mem_load_replay_index ::
  "string \<Rightarrow> string \<Rightarrow> (ChatInner, (ReplayIndex option, ChatBusError) result) state" where
  "mem_load_replay_index tenant_id conversation_id = State (\<lambda>st.
     (Ok (ci_replay st (lock_key tenant_id conversation_id)), st))"

definition in_replay :: "string \<Rightarrow> string \<Rightarrow> u64 \<Rightarrow> u64 \<Rightarrow> SequencedChatEvent \<Rightarrow> bool" where
  "in_replay tenant_id conversation_id start_seq end_seq event =
     ((case parse_u64_str (se_event_id event) of Some sequence \<Rightarrow> start_seq \<le> sequence \<and> sequence \<le> end_seq | None \<Rightarrow> False)
      \<and> ee_tenant_id (se_envelope event) = tenant_id \<and> ee_conversation_id (se_envelope event) = conversation_id)"

definition mem_replay_events ::
  "string \<Rightarrow> string \<Rightarrow> u64 \<Rightarrow> u64 \<Rightarrow> (ChatInner, (SequencedChatEvent list, ChatBusError) result) state" where
  "mem_replay_events tenant_id conversation_id start_seq end_seq = State (\<lambda>st.
     (Ok (filter (in_replay tenant_id conversation_id start_seq end_seq) (ci_event_log st)), st))"

definition mem_latest_event_sequence :: "(ChatInner, (u64, ChatBusError) result) state" where
  "mem_latest_event_sequence = State (\<lambda>st. (Ok (ci_next_event_sequence st), st))"

definition mem_publish_stop ::
  "string \<Rightarrow> string \<Rightarrow> string \<Rightarrow> (ChatInner, (unit, ChatBusError) result) state" where
  "mem_publish_stop tenant_id conversation_id turn_id = State (\<lambda>st. (Ok (), st\<lparr>ci_stops := ci_stops st
     @ [\<lparr>sg_tenant_id = tenant_id, sg_conversation_id = conversation_id, sg_turn_id = turn_id\<rparr>]\<rparr>))"

section \<open>The lock protocol as sequences of operations\<close>

text \<open>The operations that write a lock, as any process may issue them, and their outcome.\<close>

datatype LockOp =
    Acquire ChatLock
  | Claim string string string string
  | MarkTerminal string string string "string option" ChatTerminalUpdate
  | MarkPublished string string string
  | RequestStop string string string
  | Renew string string string string
  | Release string string string

abbreviation outcome :: "('a, 'e) result \<times> 's \<Rightarrow> (unit, 'e) result \<times> 's" where
  "outcome r \<equiv> (case r of (Ok _, st) \<Rightarrow> (Ok (), st) | (Err e, st) \<Rightarrow> (Err e, st))"

fun perform :: "int \<Rightarrow> datetime \<Rightarrow> LockOp \<Rightarrow> ChatInner \<Rightarrow> (unit, ChatBusError) result \<times> ChatInner" where
  "perform ttl now (Acquire lock) st = run_state (mem_acquire_lock now lock) st"
| "perform ttl now (Claim t c turn w) st = outcome (run_state (mem_claim_lock ttl now t c turn w) st)"
| "perform ttl now (MarkTerminal t c turn w upd) st = outcome (run_state (mem_mark_lock_terminal ttl now t c turn w upd) st)"
| "perform ttl now (MarkPublished t c turn) st = run_state (mem_mark_terminal_event_published t c turn) st"
| "perform ttl now (RequestStop t c user) st = outcome (run_state (mem_request_stop now t c user) st)"
| "perform ttl now (Renew t c turn w) st = outcome (run_state (mem_renew_lock ttl now t c turn w) st)"
| "perform ttl now (Release t c turn) st = (Ok (), snd (run_state (mem_release_lock t c turn) st))"

fun perform_all :: "int \<Rightarrow> (datetime \<times> LockOp) list \<Rightarrow> ChatInner \<Rightarrow> ChatInner" where
  "perform_all ttl [] st = st"
| "perform_all ttl ((now, op) # ops) st = perform_all ttl ops (snd (perform ttl now op st))"

lemmas lock_op_defs = mem_acquire_lock_def mem_claim_lock_def mem_mark_lock_terminal_def
  mem_mark_terminal_event_published_def mem_request_stop_def mem_renew_lock_def mem_release_lock_def
  set_lock_def drop_lock_def Let_def

text \<open>Worker \<open>w\<close> runs the turn, with a lease that lasts at least until \<open>until\<close>.\<close>

definition holds_turn :: "string \<Rightarrow> string \<Rightarrow> string \<Rightarrow> datetime \<Rightarrow> ChatInner \<Rightarrow> bool" where
  "holds_turn key turn w until st = (case ci_locks st key of
      Some l \<Rightarrow> cl_turn_id l = turn \<and> cl_state l = LockRunning \<and> cl_worker_id l = Some w \<and> until \<le> cl_lease_expires_at l
    | None \<Rightarrow> False)"

text \<open>The operations of the turn's own end: its release, and its terminal marking by its worker or
  without naming one. Only they can take a fresh lease away.\<close>

fun ends_turn :: "string \<Rightarrow> string \<Rightarrow> string \<Rightarrow> LockOp \<Rightarrow> bool" where
  "ends_turn key turn w (Release t c u) = (lock_key t c = key \<and> u = turn)"
| "ends_turn key turn w (MarkTerminal t c u v _) = (lock_key t c = key \<and> u = turn \<and> v \<in> {None, Some w})"
| "ends_turn key turn w _ = False"

lemma perform_other_key:
  "(case op of Acquire l \<Rightarrow> lock_key (cl_tenant_id l) (cl_conversation_id l) \<noteq> key
      | Claim t c _ _ \<Rightarrow> lock_key t c \<noteq> key | MarkTerminal t c _ _ _ \<Rightarrow> lock_key t c \<noteq> key
      | MarkPublished t c _ \<Rightarrow> lock_key t c \<noteq> key | RequestStop t c _ \<Rightarrow> lock_key t c \<noteq> key
      | Renew t c _ _ \<Rightarrow> lock_key t c \<noteq> key | Release t c _ \<Rightarrow> lock_key t c \<noteq> key) \<Longrightarrow>
    ci_locks (snd (perform ttl now op st)) key = ci_locks st key"
  by (cases op) (auto simp: lock_op_defs split: option.splits result.splits prod.splits if_splits)

lemma holds_turn_step:
  assumes "holds_turn key turn w until st" "now < until" "until \<le> now + ttl" "\<not> ends_turn key turn w op"
  shows "holds_turn key turn w until (snd (perform ttl now op st))"
proof -
  obtain l where l: "ci_locks st key = Some l" "cl_turn_id l = turn" "cl_state l = LockRunning"
    "cl_worker_id l = Some w" "until \<le> cl_lease_expires_at l"
    using assms(1) by (auto simp: holds_turn_def split: option.splits)
  have fresh: "\<not> lock_is_expired now l" using l(5) assms(2) by (simp add: lock_is_expired_def)
  have "\<not> lock_is_terminal l" using l(3) by (simp add: lock_is_terminal_def)
  then show ?thesis using l fresh assms(3,4) perform_other_key [where op = op and key = key and ttl = ttl and now = now and st = st]
    by (cases op) (auto simp: holds_turn_def lock_op_defs claimed_lock_def stopped_lock_def lock_expires_at_def
        split: option.splits result.splits prod.splits if_splits)
qed

lemma holds_turn_perform_all:
  assumes "holds_turn key turn w until st"
    and "\<And>now op. (now, op) \<in> set ops \<Longrightarrow> now < until \<and> until \<le> now + ttl \<and> \<not> ends_turn key turn w op"
  shows "holds_turn key turn w until (perform_all ttl ops st)"
  using assms by (induction ttl ops st rule: perform_all.induct) (auto intro: holds_turn_step)

text \<open>What a holder excludes: another turn that wants the conversation, and another worker that
  claims the turn, renews it or ends it in its own name.\<close>

fun intrudes :: "string \<Rightarrow> string \<Rightarrow> string \<Rightarrow> LockOp \<Rightarrow> bool" where
  "intrudes key turn w (Acquire l) = (lock_key (cl_tenant_id l) (cl_conversation_id l) = key)"
| "intrudes key turn w (Claim t c u v) = (lock_key t c = key \<and> (u, v) \<noteq> (turn, w))"
| "intrudes key turn w (Renew t c u v) = (lock_key t c = key \<and> (u, v) \<noteq> (turn, w))"
| "intrudes key turn w (MarkTerminal t c u (Some v) _) = (lock_key t c = key \<and> (u, v) \<noteq> (turn, w))"
| "intrudes key turn w _ = False"

lemma holds_turn_excludes:
  assumes "holds_turn key turn w until st" "now < until" "intrudes key turn w op"
  shows "perform ttl now op st = (Err InFlight, st)"
  using assms by (cases "(key, turn, w, op)" rule: intrudes.cases)
    (auto simp: holds_turn_def lock_op_defs lock_is_expired_def lock_is_terminal_def split: option.splits)

lemma claim_holds_turn:
  assumes "run_state (mem_claim_lock ttl t0 t c turn w) st = (Ok l, st')" "\<not> lock_is_terminal l"
  shows "holds_turn (lock_key t c) turn w (t0 + ttl) st'"
  using assms by (auto simp: holds_turn_def lock_op_defs claimed_lock_def lock_expires_at_def
      split: option.splits if_splits)

text \<open>A lease is exclusive. Once a worker has claimed a turn that is not over, then whatever
  operations any processes issue before the lease of that claim runs out, as long as the turn's own
  worker does not end it and nobody releases it, an attempt to acquire the conversation for another
  turn, or to claim, renew or end the turn as another worker, is refused and changes nothing.\<close>

theorem claimed_turn_is_exclusive:
  assumes "run_state (mem_claim_lock ttl t0 t c turn w) st = (Ok l, st0)" "\<not> lock_is_terminal l"
    and "\<forall>(now, op) \<in> set ops. t0 \<le> now \<and> now < t0 + ttl \<and> \<not> ends_turn (lock_key t c) turn w op"
    and "now < t0 + ttl" "intrudes (lock_key t c) turn w op" "st' = perform_all ttl ops st0"
  shows "perform ttl now op st' = (Err InFlight, st') \<and> holds_turn (lock_key t c) turn w (t0 + ttl) st'"
proof -
  have steps: "now < t0 + ttl \<and> t0 + ttl \<le> now + ttl \<and> \<not> ends_turn (lock_key t c) turn w op"
    if "(now, op) \<in> set ops" for now op
    using assms(3) that by auto
  have hold: "holds_turn (lock_key t c) turn w (t0 + ttl) st'"
    unfolding assms(6) by (rule holds_turn_perform_all [OF claim_holds_turn [OF assms(1,2)] steps])
  show ?thesis using holds_turn_excludes [OF hold assms(4,5)] hold assms(6) by simp
qed

text \<open>A turn that worker \<open>w1\<close> claims at time 0 with a lease of 900: a stop request, a claim of a
  second worker and a renewal later, the conversation is still closed to others.\<close>

definition sample_lock :: ChatLock where
  "sample_lock = lock_requested 900 0 ''t'' ''u'' ''c'' ''k'' ''m'' ''hi'' None ''u''"

definition sample_locked :: ChatInner where
  "sample_locked = snd (run_state (mem_acquire_lock 0 sample_lock) default_ChatInner)"

definition sample_ops :: "(datetime \<times> LockOp) list" where
  "sample_ops = [(5, RequestStop ''t'' ''c'' ''u''), (6, Claim ''t'' ''c'' ''k'' ''w2''), (7, Renew ''t'' ''c'' ''k'' ''w1'')]"

lemmas sample_lock_defs = sample_lock_def sample_locked_def sample_ops_def lock_requested_def
  lock_expires_at_def default_ChatInner_def lock_op_defs lock_key_def lock_is_expired_def lock_is_terminal_def
  claimed_lock_def stopped_lock_def

theorem claimed_turn_is_exclusive_witness:
  "fst (perform 900 800 (Claim ''t'' ''c'' ''k'' ''w2'')
     (perform_all 900 sample_ops (snd (run_state (mem_claim_lock 900 1 ''t'' ''c'' ''k'' ''w1'') sample_locked))))
   = Err InFlight"
proof -
  let ?r = "run_state (mem_claim_lock 900 1 ''t'' ''c'' ''k'' ''w1'') sample_locked"
  let ?l = "claimed_lock 900 1 ''w1'' sample_lock"
  have "?r = (Ok ?l, snd ?r)" "\<not> lock_is_terminal ?l" by (simp_all add: sample_lock_defs)
  moreover have "\<forall>(now, op) \<in> set sample_ops. 1 \<le> now \<and> now < 1 + 900
      \<and> \<not> ends_turn (lock_key ''t'' ''c'') ''k'' ''w1'' op"
    by (simp add: sample_ops_def)
  ultimately show ?thesis
    using claimed_turn_is_exclusive [of 900 1 "''t''" "''c''" "''k''" "''w1''" sample_locked ?l "snd ?r"
        sample_ops 800 "Claim ''t'' ''c'' ''k'' ''w2''" "perform_all 900 sample_ops (snd ?r)"] by simp
qed

section \<open>Stop requests\<close>

text \<open>The lock of the turn carries a stop request, on a lease that lasts at least until \<open>until\<close>.\<close>

definition stop_pending :: "string \<Rightarrow> string \<Rightarrow> datetime \<Rightarrow> ChatInner \<Rightarrow> bool" where
  "stop_pending key turn until st = (case ci_locks st key of
      Some l \<Rightarrow> cl_turn_id l = turn \<and> cl_stop_requested l \<and> until \<le> cl_lease_expires_at l
    | None \<Rightarrow> False)"

fun releases_turn :: "string \<Rightarrow> string \<Rightarrow> LockOp \<Rightarrow> bool" where
  "releases_turn key turn (Release t c u) = (lock_key t c = key \<and> u = turn)"
| "releases_turn key turn _ = False"

lemma stop_pending_step:
  assumes "stop_pending key turn until st" "now < until" "until \<le> now + ttl" "\<not> releases_turn key turn op"
  shows "stop_pending key turn until (snd (perform ttl now op st))"
proof -
  obtain l where l: "ci_locks st key = Some l" "cl_turn_id l = turn" "cl_stop_requested l"
    "until \<le> cl_lease_expires_at l"
    using assms(1) by (auto simp: stop_pending_def split: option.splits)
  have "\<not> lock_is_expired now l" using l(4) assms(2) by (simp add: lock_is_expired_def)
  then show ?thesis
    using l assms(3,4) perform_other_key [where op = op and key = key and ttl = ttl and now = now and st = st]
    by (cases op) (auto simp: stop_pending_def lock_op_defs claimed_lock_def stopped_lock_def terminal_lock_def
        lock_expires_at_def split: option.splits result.splits prod.splits if_splits)
qed

lemma stop_pending_perform_all:
  assumes "stop_pending key turn until st"
    and "\<And>now op. (now, op) \<in> set ops \<Longrightarrow> now < until \<and> until \<le> now + ttl \<and> \<not> releases_turn key turn op"
  shows "stop_pending key turn until (perform_all ttl ops st)"
  using assms by (induction ttl ops st rule: perform_all.induct) (auto intro: stop_pending_step)

text \<open>A stop request is not lost. When \<open>request_stop\<close> returns the lock of a turn, the flag it sets
  survives every later operation on the bus, the claim of a worker that only then picks the turn
  up, its renewals and its terminal marking included: until the lease that the lock had runs out, a
  worker that asks is told to stop, unless the turn was released.\<close>

theorem stop_request_reaches_worker:
  assumes "run_state (mem_request_stop t0 t c user) st = (Ok (Some l), st0)"
    and "cl_lease_expires_at l \<le> t0 + ttl"
    and "\<forall>(now, op) \<in> set ops. t0 \<le> now \<and> now < cl_lease_expires_at l \<and> \<not> releases_turn (lock_key t c) (cl_turn_id l) op"
    and "now < cl_lease_expires_at l"
  shows "fst (run_state (mem_stop_requested now t c (cl_turn_id l)) (perform_all ttl ops st0)) = Ok True"
proof -
  have start: "stop_pending (lock_key t c) (cl_turn_id l) (cl_lease_expires_at l) st0"
    using assms(1) by (auto simp: stop_pending_def lock_op_defs stopped_lock_def split: option.splits if_splits)
  have "now < cl_lease_expires_at l \<and> cl_lease_expires_at l \<le> now + ttl
      \<and> \<not> releases_turn (lock_key t c) (cl_turn_id l) op" if "(now, op) \<in> set ops" for now op
    using assms(2,3) that by force
  from stop_pending_perform_all [OF start this]
  have "stop_pending (lock_key t c) (cl_turn_id l) (cl_lease_expires_at l) (perform_all ttl ops st0)" .
  then show ?thesis using assms(4)
    by (auto simp: stop_pending_def mem_stop_requested_def lock_is_expired_def split: option.splits)
qed

theorem stop_request_reaches_worker_witness:
  "fst (run_state (mem_stop_requested 300 ''t'' ''c'' ''k'')
     (perform_all 900 [(2, Claim ''t'' ''c'' ''k'' ''w1''), (200, Renew ''t'' ''c'' ''k'' ''w1'')]
       (snd (run_state (mem_request_stop 1 ''t'' ''c'' ''u'') sample_locked)))) = Ok True"
  using stop_request_reaches_worker [where ?t0.0 = 1 and t = "''t''" and c = "''c''" and user = "''u''"
      and st = sample_locked and l = "stopped_lock 1 ''u'' sample_lock" and ttl = 900 and now = 300
      and ?st0.0 = "snd (run_state (mem_request_stop 1 ''t'' ''c'' ''u'') sample_locked)"
      and ops = "[(2, Claim ''t'' ''c'' ''k'' ''w1''), (200, Renew ''t'' ''c'' ''k'' ''w1'')]"]
  by (simp add: sample_lock_defs)

end
