(* ===== verification/Chat_Locks.thy ===== *)
theory Chat_Locks
  imports Chat_Bus
begin

text \<open>
  The conversation locks of \<open>NatsChatBus\<close> (crates/nats/src/lib.rs), which live in a key-value bucket
  of JetStream and are written by compare-and-swap. The bucket is a parameter: a record of the four
  operations of async-nats the code calls, with serde\_json's coding of a lock as two functions.

  The locale \<open>lock_store\<close> states what is relied on of a bucket that other processes write at the
  same time: whoever writes a lock performs one of the operations of Chat\_Bus. Its lemma
  \<open>lock_loop_rg\<close> is the one proof about the compare-and-swap loop. The interpretation is on a
  bucket with revisions, tombstones and failures, in a world with arbitrary other writers; the
  theorems then carry the exclusion of a lease over from the in-memory bus to the bucket.
\<close>

section \<open>The bucket\<close>

text \<open>A revision is only ever handed back to the bucket.\<close>

type_synonym revision = nat

datatype KvOperation = KvPut | KvDelete | KvPurge

record KvEntry =
  en_value :: bytes
  en_revision :: revision
  en_operation :: KvOperation

text \<open>\<open>Refused\<close> is \<open>CreateErrorKind::AlreadyExists\<close> or \<open>UpdateErrorKind::WrongLastRevision\<close>; every
  other failure carries its message.\<close>

datatype KvError = Refused | KvFailed string

record 'w KvStore =
  kv_entry :: "string \<Rightarrow> ('w, (KvEntry option, string) result) state"
  kv_create :: "string \<Rightarrow> bytes \<Rightarrow> ('w, (revision, KvError) result) state"
  kv_update :: "string \<Rightarrow> bytes \<Rightarrow> revision \<Rightarrow> ('w, (revision, KvError) result) state"
  kv_purge_expect_revision :: "string \<Rightarrow> revision option \<Rightarrow> ('w, (unit, string) result) state"

record LockSerde =
  lock_to_vec :: "ChatLock \<Rightarrow> (bytes, string) result"
  lock_from_slice :: "bytes \<Rightarrow> (ChatLock, string) result"

definition payload_err :: "string \<Rightarrow> string \<Rightarrow> ChatBusError" where
  "payload_err label e = BusPayload (label @ '': '' @ e)"

text \<open>The entry of a key that holds a value: deleted and purged keys leave a marker.\<close>

definition put_entry :: "KvEntry option \<Rightarrow> KvEntry option" where
  "put_entry entry = (case entry of
      Some e \<Rightarrow> if en_operation e = KvPut then Some e else None
    | None \<Rightarrow> None)"

section \<open>The lock operations\<close>

definition create_kv_lock ::
  "'w KvStore \<Rightarrow> LockSerde \<Rightarrow> string \<Rightarrow> ChatLock \<Rightarrow> ('w, (unit, ChatBusError) result) state" where
  "create_kv_lock locks sd key lock = (case lock_to_vec sd lock of
      Err e \<Rightarrow> ret (Err (BusPayload e))
    | Ok payload \<Rightarrow> kv_create locks key payload \<bind> (\<lambda>r. ret (case r of
          Ok _ \<Rightarrow> Ok ()
        | Err Refused \<Rightarrow> Err InFlight
        | Err (KvFailed e) \<Rightarrow> Err (payload_err ''create chat lock'' e))))"

definition acquire_kv_lock ::
  "'w KvStore \<Rightarrow> ('w, datetime) state \<Rightarrow> LockSerde \<Rightarrow> ChatLock \<Rightarrow> ('w, (unit, ChatBusError) result) state" where
  "acquire_kv_lock locks clock sd lock =
     (let key = lock_key (cl_tenant_id lock) (cl_conversation_id lock) in
      attempt (payload_err ''read chat lock'') (kv_entry locks key) (\<lambda>entry.
        case put_entry entry of
          None \<Rightarrow> create_kv_lock locks sd key lock
        | Some entry \<Rightarrow> (case lock_from_slice sd (en_value entry) of
            Err e \<Rightarrow> ret (Err (payload_err ''decode chat lock'' e))
          | Ok saved \<Rightarrow> clock \<bind> (\<lambda>now.
              if \<not> lock_is_expired now saved then ret (Err InFlight)
              else attempt (payload_err ''purge expired chat lock'')
                (kv_purge_expect_revision locks key (Some (en_revision entry)))
                (\<lambda>_. create_kv_lock locks sd key lock)))))"

definition load_kv_lock ::
  "'w KvStore \<Rightarrow> LockSerde \<Rightarrow> string \<Rightarrow> string \<Rightarrow> ('w, (ChatLock option, ChatBusError) result) state" where
  "load_kv_lock locks sd tenant_id conversation_id =
     attempt (payload_err ''read chat lock'') (kv_entry locks (lock_key tenant_id conversation_id)) (\<lambda>entry.
       case put_entry entry of
         None \<Rightarrow> ret (Ok None)
       | Some entry \<Rightarrow> ret (case lock_from_slice sd (en_value entry) of
             Ok lock \<Rightarrow> Ok (Some lock)
           | Err e \<Rightarrow> Err (payload_err ''decode chat lock'' e)))"

text \<open>The five writers below are written alike in the source: read the entry, decide, write the new
  lock at the revision read, and start over when somebody else wrote first, eight times at most.
  They differ in what they answer for a missing lock, in the decision, and in the label of their
  errors.\<close>

datatype 'a LockDecision = Return "('a, ChatBusError) result" | PurgeLock 'a | Write ChatLock 'a

fun lock_loop ::
  "'w KvStore \<Rightarrow> ('w, datetime) state \<Rightarrow> LockSerde \<Rightarrow> string \<Rightarrow> string \<Rightarrow> ('a, ChatBusError) result \<Rightarrow>
     (datetime \<Rightarrow> ChatLock \<Rightarrow> 'a LockDecision) \<Rightarrow> nat \<Rightarrow> ('w, ('a, ChatBusError) result) state" where
  "lock_loop locks clock sd key label missing decide 0 =
     ret (Err (BusPayload (label @ '' CAS retry limit exceeded'')))"
| "lock_loop locks clock sd key label missing decide (Suc n) =
     attempt (payload_err ''read chat lock'') (kv_entry locks key) (\<lambda>entry.
       case put_entry entry of
         None \<Rightarrow> ret missing
       | Some entry \<Rightarrow> (case lock_from_slice sd (en_value entry) of
           Err e \<Rightarrow> ret (Err (payload_err ''decode chat lock'' e))
         | Ok lock \<Rightarrow> clock \<bind> (\<lambda>now. case decide now lock of
             Return r \<Rightarrow> ret r
           | PurgeLock a \<Rightarrow> kv_purge_expect_revision locks key (Some (en_revision entry)) \<bind> (\<lambda>_. ret (Ok a))
           | Write lock a \<Rightarrow> (case lock_to_vec sd lock of
               Err e \<Rightarrow> ret (Err (BusPayload e))
             | Ok payload \<Rightarrow> kv_update locks key payload (en_revision entry) \<bind> (\<lambda>r. case r of
                 Ok _ \<Rightarrow> ret (Ok a)
               | Err Refused \<Rightarrow> lock_loop locks clock sd key label missing decide n
               | Err (KvFailed e) \<Rightarrow> ret (Err (payload_err label e)))))))"

definition claim_decision :: "int \<Rightarrow> string \<Rightarrow> string \<Rightarrow> datetime \<Rightarrow> ChatLock \<Rightarrow> ChatLock LockDecision" where
  "claim_decision ttl turn_id worker_id now lock =
     (if cl_turn_id lock = turn_id \<and> lock_is_terminal lock then Return (Ok lock)
      else if cl_turn_id lock \<noteq> turn_id \<and> \<not> lock_is_expired now lock then Return (Err InFlight)
      else if cl_turn_id lock = turn_id \<and> cl_state lock = LockRunning \<and> cl_worker_id lock \<noteq> Some worker_id
        \<and> \<not> lock_is_expired now lock then Return (Err InFlight)
      else if cl_turn_id lock \<noteq> turn_id then Return (Err InFlight)
      else if lock_is_expired now lock
      then Return (Err (BusPayload ''chat lock payload expired before worker claim''))
      else Write (claimed_lock ttl now worker_id lock) (claimed_lock ttl now worker_id lock))"

definition claim_kv_lock ::
  "'w KvStore \<Rightarrow> ('w, datetime) state \<Rightarrow> LockSerde \<Rightarrow> int \<Rightarrow> string \<Rightarrow> string \<Rightarrow> string \<Rightarrow> string \<Rightarrow>
     ('w, (ChatLock, ChatBusError) result) state" where
  "claim_kv_lock locks clock sd ttl tenant_id conversation_id turn_id worker_id =
     lock_loop locks clock sd (lock_key tenant_id conversation_id) ''claim chat lock''
       (Err (BusPayload ''chat lock payload missing before worker claim'')) (claim_decision ttl turn_id worker_id) 8"

definition terminal_decision ::
  "int \<Rightarrow> string \<Rightarrow> string option \<Rightarrow> ChatTerminalUpdate \<Rightarrow> datetime \<Rightarrow> ChatLock \<Rightarrow> ChatLock LockDecision" where
  "terminal_decision ttl turn_id worker_id terminal now lock =
     (if cl_turn_id lock \<noteq> turn_id then Return (Err InFlight)
      else if (case worker_id of Some worker_id \<Rightarrow> cl_worker_id lock \<noteq> Some worker_id | None \<Rightarrow> False)
      then Return (Err InFlight)
      else Write (terminal_lock ttl now terminal lock) (terminal_lock ttl now terminal lock))"

definition mark_kv_lock_terminal ::
  "'w KvStore \<Rightarrow> ('w, datetime) state \<Rightarrow> LockSerde \<Rightarrow> int \<Rightarrow> string \<Rightarrow> string \<Rightarrow> string \<Rightarrow> string option \<Rightarrow>
     ChatTerminalUpdate \<Rightarrow> ('w, (ChatLock, ChatBusError) result) state" where
  "mark_kv_lock_terminal locks clock sd ttl tenant_id conversation_id turn_id worker_id terminal =
     lock_loop locks clock sd (lock_key tenant_id conversation_id) ''mark terminal chat lock''
       (Err InFlight) (terminal_decision ttl turn_id worker_id terminal) 8"

definition published_decision :: "string \<Rightarrow> datetime \<Rightarrow> ChatLock \<Rightarrow> unit LockDecision" where
  "published_decision turn_id now lock =
     (if cl_turn_id lock \<noteq> turn_id \<or> \<not> lock_is_terminal lock then Return (Ok ())
      else Write (lock\<lparr>cl_terminal_event_published := True\<rparr>) ())"

definition mark_kv_terminal_event_published ::
  "'w KvStore \<Rightarrow> ('w, datetime) state \<Rightarrow> LockSerde \<Rightarrow> string \<Rightarrow> string \<Rightarrow> string \<Rightarrow> ('w, (unit, ChatBusError) result) state" where
  "mark_kv_terminal_event_published locks clock sd tenant_id conversation_id turn_id =
     lock_loop locks clock sd (lock_key tenant_id conversation_id) ''mark terminal event published''
       (Ok ()) (published_decision turn_id) 8"

definition stop_decision :: "string \<Rightarrow> datetime \<Rightarrow> ChatLock \<Rightarrow> ChatLock option LockDecision" where
  "stop_decision requested_by now lock =
     (if lock_is_expired now lock then PurgeLock None
      else Write (stopped_lock now requested_by lock) (Some (stopped_lock now requested_by lock)))"

definition request_kv_stop ::
  "'w KvStore \<Rightarrow> ('w, datetime) state \<Rightarrow> LockSerde \<Rightarrow> string \<Rightarrow> string \<Rightarrow> string \<Rightarrow>
     ('w, (ChatLock option, ChatBusError) result) state" where
  "request_kv_stop locks clock sd tenant_id conversation_id requested_by =
     lock_loop locks clock sd (lock_key tenant_id conversation_id) ''request stop''
       (Ok None) (stop_decision requested_by) 8"

definition stop_requested_in_kv ::
  "'w KvStore \<Rightarrow> ('w, datetime) state \<Rightarrow> LockSerde \<Rightarrow> string \<Rightarrow> string \<Rightarrow> string \<Rightarrow> ('w, (bool, ChatBusError) result) state" where
  "stop_requested_in_kv locks clock sd tenant_id conversation_id turn_id =
     attempt (payload_err ''read chat lock'') (kv_entry locks (lock_key tenant_id conversation_id)) (\<lambda>entry.
       case put_entry entry of
         None \<Rightarrow> ret (Ok False)
       | Some entry \<Rightarrow> (case lock_from_slice sd (en_value entry) of
           Err e \<Rightarrow> ret (Err (payload_err ''decode chat lock'' e))
         | Ok lock \<Rightarrow> clock \<bind> (\<lambda>now.
             ret (Ok (\<not> lock_is_expired now lock \<and> cl_turn_id lock = turn_id \<and> cl_stop_requested lock)))))"

definition renew_decision :: "int \<Rightarrow> string \<Rightarrow> string \<Rightarrow> datetime \<Rightarrow> ChatLock \<Rightarrow> ChatLock LockDecision" where
  "renew_decision ttl turn_id worker_id now lock =
     (if cl_turn_id lock \<noteq> turn_id \<or> cl_worker_id lock \<noteq> Some worker_id \<or> lock_is_expired now lock
      then Return (Err InFlight)
      else (let lock = lock\<lparr>cl_lease_expires_at := lock_expires_at ttl now\<rparr> in Write lock lock))"

definition renew_kv_lock ::
  "'w KvStore \<Rightarrow> ('w, datetime) state \<Rightarrow> LockSerde \<Rightarrow> int \<Rightarrow> string \<Rightarrow> string \<Rightarrow> string \<Rightarrow> string \<Rightarrow>
     ('w, (ChatLock, ChatBusError) result) state" where
  "renew_kv_lock locks clock sd ttl tenant_id conversation_id turn_id worker_id =
     lock_loop locks clock sd (lock_key tenant_id conversation_id) ''renew chat lock''
       (Err InFlight) (renew_decision ttl turn_id worker_id) 8"

definition release_kv_lock :: "'w KvStore \<Rightarrow> LockSerde \<Rightarrow> string \<Rightarrow> string \<Rightarrow> string \<Rightarrow> ('w, unit) state" where
  "release_kv_lock locks sd tenant_id conversation_id turn_id =
     (let key = lock_key tenant_id conversation_id in
      kv_entry locks key \<bind> (\<lambda>r. case r of
        Err _ \<Rightarrow> ret ()
      | Ok entry \<Rightarrow> (case put_entry entry of
          None \<Rightarrow> ret ()
        | Some entry \<Rightarrow> (case lock_from_slice sd (en_value entry) of
            Err _ \<Rightarrow> ret ()
          | Ok saved \<Rightarrow> if cl_turn_id saved \<noteq> turn_id then ret ()
              else kv_purge_expect_revision locks key (Some (en_revision entry)) \<bind> (\<lambda>_. ret ())))))"

text \<open>The operations of Chat\_Bus, on the bucket.\<close>

fun kv_perform ::
  "'w KvStore \<Rightarrow> ('w, datetime) state \<Rightarrow> LockSerde \<Rightarrow> int \<Rightarrow> LockOp \<Rightarrow> ('w, (unit, ChatBusError) result) state" where
  "kv_perform locks clock sd ttl (Acquire l) = acquire_kv_lock locks clock sd l"
| "kv_perform locks clock sd ttl (Claim t c u v) = attempt id (claim_kv_lock locks clock sd ttl t c u v) (\<lambda>_. ret (Ok ()))"
| "kv_perform locks clock sd ttl (MarkTerminal t c u v upd) =
     attempt id (mark_kv_lock_terminal locks clock sd ttl t c u v upd) (\<lambda>_. ret (Ok ()))"
| "kv_perform locks clock sd ttl (MarkPublished t c u) = mark_kv_terminal_event_published locks clock sd t c u"
| "kv_perform locks clock sd ttl (RequestStop t c user) = attempt id (request_kv_stop locks clock sd t c user) (\<lambda>_. ret (Ok ()))"
| "kv_perform locks clock sd ttl (Renew t c u v) = attempt id (renew_kv_lock locks clock sd ttl t c u v) (\<lambda>_. ret (Ok ()))"
| "kv_perform locks clock sd ttl (Release t c u) = release_kv_lock locks sd t c u \<bind> (\<lambda>_. ret (Ok ()))"

lemmas kv_op_defs = claim_kv_lock_def mark_kv_lock_terminal_def mark_kv_terminal_event_published_def
  request_kv_stop_def renew_kv_lock_def

section \<open>What other writers do to a lock\<close>

text \<open>The effect of an operation of Chat\_Bus on the locks alone, and the lock maps that operations
  from a set \<open>A\<close> of timed operations can produce.\<close>

definition with_locks :: "(string \<rightharpoonup> ChatLock) \<Rightarrow> ChatInner" where
  "with_locks L = default_ChatInner\<lparr>ci_locks := L\<rparr>"

definition lock_apply :: "int \<Rightarrow> datetime \<Rightarrow> LockOp \<Rightarrow> (string \<rightharpoonup> ChatLock) \<Rightarrow> (string \<rightharpoonup> ChatLock)" where
  "lock_apply ttl now op L = ci_locks (snd (perform ttl now op (with_locks L)))"

inductive lock_reach ::
  "int \<Rightarrow> (datetime \<times> LockOp) set \<Rightarrow> (string \<rightharpoonup> ChatLock) \<Rightarrow> (string \<rightharpoonup> ChatLock) \<Rightarrow> bool"
  for ttl A where
  lock_reach_refl: "lock_reach ttl A L L"
| lock_reach_step: "lock_reach ttl A L M \<Longrightarrow> (now, op) \<in> A \<Longrightarrow> lock_reach ttl A L (lock_apply ttl now op M)"

lemma lock_reach_trans: "lock_reach ttl A L M \<Longrightarrow> lock_reach ttl A K L \<Longrightarrow> lock_reach ttl A K M"
  by (induction rule: lock_reach.induct) (auto intro: lock_reach_step)

lemma ci_locks_with_locks [simp]: "ci_locks (with_locks L) = L"
  by (simp add: with_locks_def)

lemma holds_turn_reach:
  assumes "lock_reach ttl A L M" "holds_turn key turn w until (with_locks L)"
    and "\<And>now op. (now, op) \<in> A \<Longrightarrow> now < until \<and> until \<le> now + ttl \<and> \<not> ends_turn key turn w op"
  shows "holds_turn key turn w until (with_locks M)"
  using assms
proof (induction rule: lock_reach.induct)
  case (lock_reach_step L M now op)
  then have "holds_turn key turn w until (snd (perform ttl now op (with_locks M)))"
    by (intro holds_turn_step) auto
  then show ?case by (simp add: holds_turn_def lock_apply_def)
qed

text \<open>Replacing the lock \<open>old\<close> at \<open>key\<close> by \<open>new\<close> is one of the operations of \<open>A\<close>, whatever the other
  locks are.\<close>

definition writes ::
  "int \<Rightarrow> (datetime \<times> LockOp) set \<Rightarrow> string \<Rightarrow> ChatLock option \<Rightarrow> ChatLock option \<Rightarrow> bool" where
  "writes ttl A key old new = (\<exists>(now, op) \<in> A. \<forall>L. L key = old \<longrightarrow> lock_apply ttl now op L = L(key := new))"

lemma writesI: "(now, op) \<in> A \<Longrightarrow> (\<And>L. L key = old \<Longrightarrow> lock_apply ttl now op L = L(key := new)) \<Longrightarrow>
    writes ttl A key old new"
  by (auto simp: writes_def)

lemma writes_reach: "writes ttl A key old new \<Longrightarrow> L key = old \<Longrightarrow> lock_reach ttl A L (L(key := new))"
proof -
  assume "writes ttl A key old new" "L key = old"
  then obtain now op where "(now, op) \<in> A" "lock_apply ttl now op L = L(key := new)"
    by (auto simp: writes_def)
  then show ?thesis using lock_reach_step [OF lock_reach_refl, of now op A ttl L] by simp
qed

text \<open>What each decision of the loops writes is the operation of the in-memory bus.\<close>

lemma claim_writes:
  "claim_decision ttl turn w now l = Write l' a \<Longrightarrow> (now, Claim t c turn w) \<in> A \<Longrightarrow>
    writes ttl A (lock_key t c) (Some l) (Some l')"
  by (erule writesI) (auto simp: claim_decision_def lock_apply_def lock_op_defs split: if_splits)

lemma renew_writes:
  "renew_decision ttl turn w now l = Write l' a \<Longrightarrow> (now, Renew t c turn w) \<in> A \<Longrightarrow>
    writes ttl A (lock_key t c) (Some l) (Some l')"
  by (erule writesI) (auto simp: renew_decision_def lock_apply_def lock_op_defs split: if_splits)

lemma stop_writes:
  "stop_decision user now l = Write l' a \<Longrightarrow> (now, RequestStop t c user) \<in> A \<Longrightarrow>
    writes ttl A (lock_key t c) (Some l) (Some l')"
  by (erule writesI) (auto simp: stop_decision_def lock_apply_def lock_op_defs split: if_splits)

lemma expired_writes:
  "lock_is_expired now l \<Longrightarrow> (now, RequestStop t c user) \<in> A \<Longrightarrow> writes ttl A (lock_key t c) (Some l) None"
  by (erule writesI) (auto simp: lock_apply_def lock_op_defs)

lemma terminal_writes:
  "terminal_decision ttl turn v upd now l = Write l' a \<Longrightarrow> (now, MarkTerminal t c turn v upd) \<in> A \<Longrightarrow>
    writes ttl A (lock_key t c) (Some l) (Some l')"
  by (erule writesI) (auto simp: terminal_decision_def lock_apply_def lock_op_defs split: if_splits option.splits)

lemma published_writes:
  "published_decision turn now l = Write l' a \<Longrightarrow> (now, MarkPublished t c turn) \<in> A \<Longrightarrow>
    writes ttl A (lock_key t c) (Some l) (Some l')"
  by (erule writesI) (auto simp: published_decision_def lock_apply_def lock_op_defs split: if_splits)

lemma release_writes:
  "cl_turn_id l = turn \<Longrightarrow> (now, Release t c turn) \<in> A \<Longrightarrow> writes ttl A (lock_key t c) (Some l) None"
  by (erule writesI) (auto simp: lock_apply_def lock_op_defs)

lemma acquire_writes:
  "(now, Acquire l) \<in> A \<Longrightarrow> writes ttl A (lock_key (cl_tenant_id l) (cl_conversation_id l)) None (Some l)"
  by (erule writesI) (auto simp: lock_apply_def lock_op_defs)

lemma no_purge:
  "claim_decision ttl u v now l \<noteq> PurgeLock a" "renew_decision ttl u v now l \<noteq> PurgeLock a"
  "terminal_decision ttl u x upd now l \<noteq> PurgeLock a" "published_decision u now l \<noteq> PurgeLock b"
  "stop_decision user now l = PurgeLock y \<longleftrightarrow> lock_is_expired now l \<and> y = None"
  by (auto simp: claim_decision_def renew_decision_def terminal_decision_def published_decision_def
      stop_decision_def Let_def split: option.split)

section \<open>The contract of a bucket of locks\<close>

locale lock_store = guarantee G for G :: "'w \<Rightarrow> 'w \<Rightarrow> bool" +
  fixes locks :: "'w KvStore"
    and clock :: "('w, datetime) state"
    and sd :: LockSerde
    and ttl :: int
    and A :: "(datetime \<times> LockOp) set"
    and timely :: "datetime \<Rightarrow> bool"
    and I :: "'w \<Rightarrow> bool"
    and lock_at :: "'w \<Rightarrow> string \<Rightarrow> (revision \<times> ChatLock) option"
  assumes I_stable: "G w w' \<Longrightarrow> I w \<Longrightarrow> I w'"
    and locks_move: "I w \<Longrightarrow> G w w' \<Longrightarrow>
      lock_reach ttl A (\<lambda>k. map_option snd (lock_at w k)) (\<lambda>k. map_option snd (lock_at w' k))"
    and same_revision: "I w \<Longrightarrow> G w w' \<Longrightarrow> lock_at w k = Some (n, l) \<Longrightarrow> lock_at w' k = Some (n, l') \<Longrightarrow> l' = l"
    and clock_moves: "I w \<Longrightarrow> run_state clock w = (now, w') \<Longrightarrow> G w w' \<and> timely now"
    and entry_moves: "I w \<Longrightarrow> run_state (kv_entry locks k) w = (r, w') \<Longrightarrow> G w w'"
    and entry_reads: "I w \<Longrightarrow> run_state (kv_entry locks k) w = (Ok entry, w') \<Longrightarrow> put_entry entry = Some e \<Longrightarrow>
      lock_from_slice sd (en_value e) = Ok l \<Longrightarrow> lock_at w' k = Some (en_revision e, l)"
    and create_moves: "I w \<Longrightarrow> lock_to_vec sd l = Ok b \<Longrightarrow> writes ttl A k None (Some l) \<Longrightarrow>
      run_state (kv_create locks k b) w = (rc, w') \<Longrightarrow> G w w'"
    and create_writes: "I w \<Longrightarrow> lock_to_vec sd l = Ok b \<Longrightarrow> writes ttl A k None (Some l) \<Longrightarrow>
      run_state (kv_create locks k b) w = (Ok n, w') \<Longrightarrow> (\<exists>v. G w v \<and> lock_at v k = None) \<and> lock_at w' k = Some (n, l)"
    and update_moves: "I u \<Longrightarrow> lock_at u k = Some (n, old) \<Longrightarrow> G u w \<Longrightarrow> lock_to_vec sd l = Ok b \<Longrightarrow>
      writes ttl A k (Some old) (Some l) \<Longrightarrow> run_state (kv_update locks k b n) w = (ru, w') \<Longrightarrow> G w w'"
    and update_writes: "I u \<Longrightarrow> lock_at u k = Some (n, old) \<Longrightarrow> G u w \<Longrightarrow> lock_to_vec sd l = Ok b \<Longrightarrow>
      writes ttl A k (Some old) (Some l) \<Longrightarrow> run_state (kv_update locks k b n) w = (Ok m, w') \<Longrightarrow>
      lock_at w' k = Some (m, l)"
    and purge_moves: "I u \<Longrightarrow> lock_at u k = Some (n, old) \<Longrightarrow> G u w \<Longrightarrow> writes ttl A k (Some old) None \<Longrightarrow>
      run_state (kv_purge_expect_revision locks k (Some n)) w = (rp, w') \<Longrightarrow> G w w'"
begin

abbreviation locks_of :: "'w \<Rightarrow> string \<rightharpoonup> ChatLock" where
  "locks_of w \<equiv> (\<lambda>k. map_option snd (lock_at w k))"

lemma rg_entry:
  "rg G I (kv_entry locks k) (\<lambda>r w. I w \<and> (\<forall>entry e l. r = Ok entry \<longrightarrow> put_entry entry = Some e \<longrightarrow>
     lock_from_slice sd (en_value e) = Ok l \<longrightarrow> lock_at w k = Some (en_revision e, l)))"
  by (rule rgI) (blast intro: entry_moves entry_reads I_stable)

text \<open>The loop, once for all five writers. \<open>S\<close> is what is known of the lock throughout and \<open>Q\<close> what
  is to hold of the answer and of the lock at the end.\<close>

definition sound_decision ::
  "string \<Rightarrow> (ChatLock \<Rightarrow> bool) \<Rightarrow> (('a, ChatBusError) result \<Rightarrow> ChatLock option \<Rightarrow> bool) \<Rightarrow>
     (datetime \<Rightarrow> ChatLock \<Rightarrow> 'a LockDecision) \<Rightarrow> bool" where
  "sound_decision key S Q decide = (\<forall>now l. timely now \<longrightarrow> S l \<longrightarrow> (case decide now l of
      Return r \<Rightarrow> \<forall>x. Q r x
    | PurgeLock a \<Rightarrow> writes ttl A key (Some l) None \<and> (\<forall>x. Q (Ok a) x)
    | Write l' a \<Rightarrow> writes ttl A key (Some l) (Some l') \<and> Q (Ok a) (Some l')))"

text \<open>The last part of a round: the lock decided on is written, and when the revision has moved on another round follows.\<close>

lemma lock_write_step:
  assumes stable: "\<And>w w'. I w \<Longrightarrow> G w w' \<Longrightarrow> T w \<Longrightarrow> T w'" and failed: "\<And>m x. Q (Err (BusPayload m)) x"
    and at: "I u" "lock_at u key = Some (n, l)" "G u v" "I v" "T v"
    and sound: "writes ttl A key (Some l) (Some l')" "Q (Ok a) (Some l')"
    and again: "\<And>z. I z \<Longrightarrow> T z \<Longrightarrow> run_state round z = (r, w') \<Longrightarrow> G z w' \<and> I w' \<and> T w' \<and> Q r (locks_of w' key)"
    and run: "run_state (case lock_to_vec sd l' of
        Err e \<Rightarrow> ret (Err (BusPayload e))
      | Ok payload \<Rightarrow> kv_update locks key payload n \<bind> (\<lambda>r. case r of
          Ok _ \<Rightarrow> ret (Ok a) | Err Refused \<Rightarrow> round | Err (KvFailed e) \<Rightarrow> ret (Err (payload_err label e)))) v = (r, w')"
  shows "G v w' \<and> I w' \<and> T w' \<and> Q r (locks_of w' key)"
proof (cases "lock_to_vec sd l'")
  case (Err d)
  then show ?thesis using run at(4,5) failed by (auto simp: G_refl)
next
  case (Ok payload)
  obtain y z where upd: "run_state (kv_update locks key payload n) v = (y, z)" by (metis surj_pair)
  have z: "G v z" using update_moves [OF at(1-3) Ok sound(1) upd] .
  then have Iz: "I z" "T z" using at(4,5) I_stable stable by auto
  consider (written) m where "y = result.Ok m" | (again) "y = result.Err Refused" | (fail) d where "y = result.Err (KvFailed d)"
    by (metis KvError.exhaust result.exhaust)
  then show ?thesis
  proof cases
    case written
    then show ?thesis using run Ok upd z Iz sound(2) update_writes [OF at(1-3) Ok sound(1)] by auto
  next
    case again
    then have "run_state round z = (r, w')" using run Ok upd by simp
    then show ?thesis using assms(10) [OF Iz] G_trans [OF z] by blast
  next
    case fail
    then show ?thesis using run Ok upd z Iz failed by (auto simp: payload_err_def)
  qed
qed

lemma lock_loop_rg:
  assumes stable: "\<And>w w'. I w \<Longrightarrow> G w w' \<Longrightarrow> T w \<Longrightarrow> T w'"
    and known: "\<And>w n l. I w \<Longrightarrow> T w \<Longrightarrow> lock_at w key = Some (n, l) \<Longrightarrow> S l"
    and decide: "sound_decision key S Q decide"
    and missing: "\<And>x. Q missing x" and failed: "\<And>m x. Q (Err (BusPayload m)) x"
  shows "rg G (\<lambda>w. I w \<and> T w) (lock_loop locks clock sd key label missing decide n)
    (\<lambda>r w. I w \<and> T w \<and> Q r (locks_of w key))"
proof (rule rgI)
  fix w r w'
  assume "I w \<and> T w" "run_state (lock_loop locks clock sd key label missing decide n) w = (r, w')"
  then show "G w w' \<and> I w' \<and> T w' \<and> Q r (locks_of w' key)"
  proof (induction n arbitrary: w)
    case 0
    then show ?case using failed by (auto simp: G_refl)
  next
    case (Suc n)
    obtain x u where read: "run_state (kv_entry locks key) w = (x, u)" by (metis surj_pair)
    have u: "G w u" "I u" "T u" using Suc.prems entry_moves [OF _ read] I_stable stable by auto
    consider (err) e where "x = Err e" | (none) entry where "x = Ok entry" "put_entry entry = None"
      | (bad) entry e d where "x = Ok entry" "put_entry entry = Some e" "lock_from_slice sd (en_value e) = Err d"
      | (got) entry e l where "x = Ok entry" "put_entry entry = Some e" "lock_from_slice sd (en_value e) = Ok l"
      by (metis not_None_eq result.exhaust)
    then show ?case
    proof cases
      case got
      obtain now v where tick: "run_state clock u = (now, v)" by (metis surj_pair)
      have v: "G u v" "timely now" "I v" "T v" using clock_moves [OF u(2) tick] u I_stable stable by auto
      have at: "lock_at u key = Some (en_revision e, l)"
        using Suc.prems entry_reads [of w key entry u] read got by auto
      have S: "S l" using known [OF u(2,3) at] .
      have wv: "G w v" using G_trans [OF u(1) v(1)] .
      show ?thesis
      proof (cases "decide now l")
        case (Return q)
        then have "r = q" "w' = v" using Suc.prems read got tick
          by (auto simp: run_state_attempt)
        moreover have "Q q x" for x using decide v(2) S Return by (fastforce simp: sound_decision_def)
        ultimately show ?thesis using wv v by auto
      next
        case (PurgeLock a)
        have sound: "writes ttl A key (Some l) None" "Q (Ok a) x" for x
          using decide v(2) S PurgeLock by (fastforce simp: sound_decision_def)+
        obtain y where "run_state (kv_purge_expect_revision locks key (Some (en_revision e))) v = (y, w')" "r = Ok a"
          using Suc.prems read got tick PurgeLock by (auto simp: run_state_attempt split: prod.splits)
        moreover have "G v w'" using purge_moves [OF u(2) at v(1) sound(1) calculation(1)] .
        ultimately show ?thesis using sound(2) wv v G_trans I_stable stable by blast
      next
        case (Write l' a)
        have sound: "writes ttl A key (Some l) (Some l')" "Q (Ok a) (Some l')"
          using decide v(2) S Write by (fastforce simp: sound_decision_def)+
        have "G v w' \<and> I w' \<and> T w' \<and> Q r (locks_of w' key)"
        proof (rule lock_write_step [where T = T and Q = Q, OF stable failed u(2) at v(1,3,4) sound])
          show "G z w' \<and> I w' \<and> T w' \<and> Q r (locks_of w' key)" if "I z" "T z"
            "run_state (lock_loop locks clock sd key label missing decide n) z = (r, w')" for z using Suc.IH [of z] that by blast
        qed (use Suc.prems read got tick Write in \<open>simp_all add: run_state_attempt\<close>)
        then show ?thesis using G_trans [OF wv] by blast
      qed
    qed (use Suc.prems read u missing failed in \<open>auto simp: run_state_attempt payload_err_def\<close>)
  qed
qed

text \<open>Each operation moves the locks only by what is allowed, in particular by its own operation.\<close>

definition allowed :: "LockOp \<Rightarrow> bool" where
  "allowed op = (\<forall>now. timely now \<longrightarrow> (now, op) \<in> A)"

lemma timely_now: "I w \<Longrightarrow> \<exists>now. timely now"
  using clock_moves by (metis surj_pair)

lemma loop_respects:
  assumes "sound_decision key (\<lambda>_. True) (\<lambda>_ _. True) decide"
  shows "rg G I (lock_loop locks clock sd key label missing decide n) (\<lambda>_. I)"
  by (rule rg_weaken [OF lock_loop_rg [where T = "\<lambda>_. True" and S = "\<lambda>_. True" and Q = "\<lambda>_ _. True", OF _ _ assms]])
    auto

lemma sound_decisionI:
  assumes "\<And>now l l' a. timely now \<Longrightarrow> decide now l = Write l' a \<Longrightarrow> writes ttl A key (Some l) (Some l')"
    and "\<And>now l a. timely now \<Longrightarrow> decide now l = PurgeLock a \<Longrightarrow> writes ttl A key (Some l) None"
  shows "sound_decision key (\<lambda>_. True) (\<lambda>_ _. True) decide"
  using assms by (auto simp: sound_decision_def split: LockDecision.split)

lemma claim_sound: "allowed (Claim t c u v) \<Longrightarrow>
    sound_decision (lock_key t c) (\<lambda>_. True) (\<lambda>_ _. True) (claim_decision ttl u v)"
  by (rule sound_decisionI) (auto simp: allowed_def no_purge intro: claim_writes)

lemma renew_sound: "allowed (Renew t c u v) \<Longrightarrow>
    sound_decision (lock_key t c) (\<lambda>_. True) (\<lambda>_ _. True) (renew_decision ttl u v)"
  by (rule sound_decisionI) (auto simp: allowed_def no_purge intro: renew_writes)

lemma stop_sound: "allowed (RequestStop t c user) \<Longrightarrow>
    sound_decision (lock_key t c) (\<lambda>_. True) (\<lambda>_ _. True) (stop_decision user)"
  by (rule sound_decisionI) (auto simp: allowed_def no_purge intro: stop_writes expired_writes)

lemma terminal_sound: "allowed (MarkTerminal t c u v upd) \<Longrightarrow>
    sound_decision (lock_key t c) (\<lambda>_. True) (\<lambda>_ _. True) (terminal_decision ttl u v upd)"
  by (rule sound_decisionI) (auto simp: allowed_def no_purge intro: terminal_writes)

lemma published_sound: "allowed (MarkPublished t c u) \<Longrightarrow>
    sound_decision (lock_key t c) (\<lambda>_. True) (\<lambda>_ _. True) (published_decision u)"
  by (rule sound_decisionI) (auto simp: allowed_def no_purge intro: published_writes)

lemma create_rg:
  assumes "allowed (Acquire l)" "\<And>w w'. I w \<Longrightarrow> G w w' \<Longrightarrow> T w \<Longrightarrow> T w'"
  shows "rg G (\<lambda>w. I w \<and> T w) (create_kv_lock locks sd (lock_key (cl_tenant_id l) (cl_conversation_id l)) l)
    (\<lambda>r w. I w \<and> T w \<and> (is_ok r \<longrightarrow> (\<exists>v. I v \<and> T v \<and> lock_at v (lock_key (cl_tenant_id l) (cl_conversation_id l)) = None)))"
proof (rule rgI)
  fix w r w'
  let ?key = "lock_key (cl_tenant_id l) (cl_conversation_id l)"
  assume w: "I w \<and> T w" and run: "run_state (create_kv_lock locks sd ?key l) w = (r, w')"
  obtain now where "timely now" using w timely_now by blast
  then have wr: "writes ttl A ?key None (Some l)" using assms(1) by (auto simp: allowed_def intro: acquire_writes)
  show "G w w' \<and> I w' \<and> T w' \<and> (is_ok r \<longrightarrow> (\<exists>v. I v \<and> T v \<and> lock_at v ?key = None))"
  proof (cases "lock_to_vec sd l")
    case (Err e)
    then show ?thesis using run w by (auto simp: create_kv_lock_def G_refl)
  next
    case (Ok b)
    obtain y where y: "run_state (kv_create locks ?key b) w = (y, w')"
      using run Ok by (auto simp: create_kv_lock_def split: prod.splits)
    have G: "G w w'" using create_moves [OF _ Ok wr y] w by blast
    have "is_ok r \<Longrightarrow> \<exists>n. y = result.Ok n"
      using run Ok y by (auto simp: create_kv_lock_def split: result.splits KvError.splits)
    then have "is_ok r \<longrightarrow> (\<exists>v. I v \<and> T v \<and> lock_at v ?key = None)"
      using create_writes [OF _ Ok wr] y w I_stable assms(2) by blast
    then show ?thesis using G w I_stable assms(2) by blast
  qed
qed

lemma acquire_rg:
  assumes "allowed (Acquire l)" "allowed (RequestStop (cl_tenant_id l) (cl_conversation_id l) user)"
    and T: "\<And>w w'. I w \<Longrightarrow> G w w' \<Longrightarrow> T w \<Longrightarrow> T w'"
    and held: "\<And>w n k now. I w \<Longrightarrow> T w \<Longrightarrow> timely now \<Longrightarrow>
      lock_at w (lock_key (cl_tenant_id l) (cl_conversation_id l)) = Some (n, k) \<Longrightarrow> P \<Longrightarrow> \<not> lock_is_expired now k"
    and present: "\<And>w. I w \<Longrightarrow> T w \<Longrightarrow> P \<Longrightarrow> lock_at w (lock_key (cl_tenant_id l) (cl_conversation_id l)) \<noteq> None"
  shows "rg G (\<lambda>w. I w \<and> T w) (acquire_kv_lock locks clock sd l) (\<lambda>r w. I w \<and> T w \<and> (P \<longrightarrow> \<not> is_ok r))"
proof (rule rgI)
  fix w r w'
  let ?key = "lock_key (cl_tenant_id l) (cl_conversation_id l)"
  assume w: "I w \<and> T w" and run: "run_state (acquire_kv_lock locks clock sd l) w = (r, w')"
  obtain x u where read: "run_state (kv_entry locks ?key) w = (x, u)" by (metis surj_pair)
  have u: "G w u" "I u" "T u" using w entry_moves [OF _ read] I_stable T by auto
  have create: "G v w' \<and> I w' \<and> T w' \<and> (P \<longrightarrow> \<not> is_ok r)"
    if "I v" "T v" "run_state (create_kv_lock locks sd ?key l) v = (r, w')" for v
  proof -
    have c: "rg G (\<lambda>w. I w \<and> T w) (create_kv_lock locks sd ?key l)
        (\<lambda>r w. I w \<and> T w \<and> (is_ok r \<longrightarrow> (\<exists>v. I v \<and> T v \<and> lock_at v ?key = None)))"
      by (rule create_rg [OF assms(1)]) (rule T)
    have "\<not> (\<exists>v. I v \<and> T v \<and> lock_at v ?key = None)" if P using present that by blast
    moreover have "G v w'" "I w' \<and> T w' \<and> (is_ok r \<longrightarrow> (\<exists>v. I v \<and> T v \<and> lock_at v ?key = None))"
      using rgD [OF c _ that(3)] that(1,2) by auto
    ultimately show ?thesis by iprover
  qed
  show "G w w' \<and> I w' \<and> T w' \<and> (P \<longrightarrow> \<not> is_ok r)"
  proof (cases "\<exists>entry e k. x = Ok entry \<and> put_entry entry = Some e \<and> lock_from_slice sd (en_value e) = Ok k")
    case True
    then obtain entry e k where got: "x = Ok entry" "put_entry entry = Some e" "lock_from_slice sd (en_value e) = Ok k"
      by blast
    have at: "lock_at u ?key = Some (en_revision e, k)" using entry_reads read got w by blast
    obtain now v where tick: "run_state clock u = (now, v)" by (metis surj_pair)
    have v: "G u v" "timely now" "I v" "T v" using clock_moves [OF u(2) tick] u I_stable T by auto
    show ?thesis
    proof (cases "lock_is_expired now k")
      case False
      then show ?thesis using run read got tick v u G_trans
        by (auto simp: acquire_kv_lock_def Let_def run_state_attempt)
    next
      case True
      have notP: "\<not> P" using held [OF u(2,3) v(2) at] True by blast
      have "writes ttl A ?key (Some k) None"
        using assms(2) v(2) by (auto simp: allowed_def intro: expired_writes [OF True])
      note purge = purge_moves [OF u(2) at v(1) this]
      obtain y z where y: "run_state (kv_purge_expect_revision locks ?key (Some (en_revision e))) v = (y, z)"
        by (metis surj_pair)
      have z: "G v z" "I z" "T z" using purge [OF y] v I_stable T by auto
      have wz: "G w z" using G_trans [OF u(1) G_trans [OF v(1) z(1)]] .
      show ?thesis using run read got tick True y create [OF z(2,3)] z wz notP G_trans [OF wz]
        by (cases y) (auto simp: acquire_kv_lock_def Let_def run_state_attempt)
    qed
  next
    case False
    then show ?thesis using run read u create [OF u(2,3)] G_trans [OF u(1)]
      by (cases x) (auto simp: acquire_kv_lock_def Let_def run_state_attempt
          split: option.splits result.splits)
  qed
qed

lemma release_respects:
  assumes "allowed (Release t c u)"
  shows "rg G I (release_kv_lock locks sd t c u) (\<lambda>_. I)"
proof (rule rgI)
  fix w r w'
  assume w: "I w" and run: "run_state (release_kv_lock locks sd t c u) w = (r, w')"
  obtain x v where read: "run_state (kv_entry locks (lock_key t c)) w = (x, v)" by (metis surj_pair)
  have v: "G w v" "I v" using w entry_moves [OF _ read] I_stable by auto
  obtain now where now: "timely now" using w timely_now by blast
  show "G w w' \<and> I w'"
  proof (cases "\<exists>entry e k. x = Ok entry \<and> put_entry entry = Some e \<and> lock_from_slice sd (en_value e) = Ok k \<and> cl_turn_id k = u")
    case True
    then obtain entry e k where got: "x = Ok entry" "put_entry entry = Some e" "lock_from_slice sd (en_value e) = Ok k"
      "cl_turn_id k = u" by blast
    have at: "lock_at v (lock_key t c) = Some (en_revision e, k)" using entry_reads read got w by blast
    have "writes ttl A (lock_key t c) (Some k) None"
      using assms now by (auto simp: allowed_def intro: release_writes [OF got(4)])
    note purge = purge_moves [OF v(2) at G_refl this]
    obtain y where "run_state (kv_purge_expect_revision locks (lock_key t c) (Some (en_revision e))) v = (y, w')"
      using run read got by (auto simp: release_kv_lock_def Let_def split: prod.splits)
    from purge [OF this] show ?thesis using v G_trans I_stable by blast
  next
    case False
    then show ?thesis using run read v
      by (auto simp: release_kv_lock_def Let_def split: option.splits result.splits)
  qed
qed

lemma rg_outcome: "rg G P m (\<lambda>r w. R w) \<Longrightarrow> rg G P (attempt id m (\<lambda>_. ret (Ok ()))) (\<lambda>_. R)"
  by (rule rg_attempt) (auto intro: rg_ret)

lemma kv_perform_respects:
  assumes "allowed op" "\<And>t c user. allowed (RequestStop t c user)"
  shows "rg G I (kv_perform locks clock sd ttl op) (\<lambda>_. I)"
proof (cases op)
  case (Acquire l)
  have "rg G (\<lambda>w. I w \<and> True) (acquire_kv_lock locks clock sd l) (\<lambda>r w. I w \<and> True \<and> (False \<longrightarrow> \<not> is_ok r))"
    using assms by (intro acquire_rg [where P = False]) (auto simp: Acquire)
  then show ?thesis by (simp add: Acquire)
next
  case (Claim t c u v)
  then show ?thesis using assms by (auto simp: kv_op_defs intro!: rg_outcome loop_respects claim_sound)
next
  case (MarkTerminal t c u v upd)
  then show ?thesis using assms by (auto simp: kv_op_defs intro!: rg_outcome loop_respects terminal_sound)
next
  case (MarkPublished t c u)
  then show ?thesis using assms by (auto simp: kv_op_defs intro!: loop_respects published_sound)
next
  case (RequestStop t c user)
  then show ?thesis using assms by (auto simp: kv_op_defs intro!: rg_outcome loop_respects stop_sound)
next
  case (Renew t c u v)
  then show ?thesis using assms by (auto simp: kv_op_defs intro!: rg_outcome loop_respects renew_sound)
next
  case (Release t c u)
  then show ?thesis using assms by (auto intro!: rg_bind rg_ret release_respects)
qed

text \<open>A holder keeps every intruder out, however the operations of others interleave with the
  intruder's reads and writes.\<close>

lemma kv_intruder_fails:
  assumes A: "\<And>now op. (now, op) \<in> A \<Longrightarrow> now < until \<and> until \<le> now + ttl \<and> \<not> ends_turn key turn holder op"
    and time: "\<And>now. timely now \<Longrightarrow> now < until"
    and intruder: "intrudes key turn holder op"
    and acquire: "\<And>l. op = Acquire l \<Longrightarrow> allowed op \<and> allowed (RequestStop (cl_tenant_id l) (cl_conversation_id l) user)"
  shows "rg G (\<lambda>w. I w \<and> holds_turn key turn holder until (with_locks (locks_of w)))
    (kv_perform locks clock sd ttl op)
    (\<lambda>r w. \<not> is_ok r \<and> I w \<and> holds_turn key turn holder until (with_locks (locks_of w)))"
proof -
  let ?T = "\<lambda>w. holds_turn key turn holder until (with_locks (locks_of w))"
  let ?S = "\<lambda>l. cl_turn_id l = turn \<and> cl_state l = LockRunning \<and> cl_worker_id l = Some holder \<and> until \<le> cl_lease_expires_at l"
  have stable: "?T w'" if "I w" "G w w'" "?T w" for w w'
    using holds_turn_reach [OF locks_move [OF that(1,2)] that(3) A] .
  have known: "?S l" if "?T w" "lock_at w key = Some (n, l)" for w n l
    using that by (simp add: holds_turn_def)
  have refused: "rg G (\<lambda>w. I w \<and> ?T w) (lock_loop locks clock sd key label (Err e) decide n)
      (\<lambda>r w. I w \<and> ?T w \<and> \<not> is_ok r)"
    if "\<And>now l. timely now \<Longrightarrow> ?S l \<Longrightarrow> decide now l = Return (Err InFlight)"
    for label e n and decide :: "datetime \<Rightarrow> ChatLock \<Rightarrow> ChatLock LockDecision"
    by (rule lock_loop_rg [where T = ?T and S = ?S and Q = "\<lambda>r _. \<not> is_ok r"])
      (use that stable known in \<open>auto simp: sound_decision_def\<close>)
  have fails: "rg G (\<lambda>w. I w \<and> ?T w) (attempt id m (\<lambda>_. ret (Ok ()))) (\<lambda>r w. \<not> is_ok r \<and> I w \<and> ?T w)"
    if "rg G (\<lambda>w. I w \<and> ?T w) m (\<lambda>r w. I w \<and> ?T w \<and> \<not> is_ok r)" for m :: "('w, (ChatLock, ChatBusError) result) state"
    using that by (rule rg_attempt) (auto intro: rg_ret)
  show ?thesis
  proof (cases "(key, turn, holder, op)" rule: intrudes.cases)
    case (1 k t w l)
    have "rg G (\<lambda>w. I w \<and> ?T w) (acquire_kv_lock locks clock sd l) (\<lambda>r w. I w \<and> ?T w \<and> (True \<longrightarrow> \<not> is_ok r))"
    proof (rule acquire_rg [where user = user])
      show "\<not> lock_is_expired now k" if "I w" "?T w" "timely now"
        "lock_at w (lock_key (cl_tenant_id l) (cl_conversation_id l)) = Some (n, k)" for w n k now
        using that known [of w n k] intruder 1 time [OF that(3)] by (auto simp: lock_is_expired_def)
      show "lock_at w (lock_key (cl_tenant_id l) (cl_conversation_id l)) \<noteq> None" if "I w" "?T w" for w
        using that intruder 1 by (auto simp: holds_turn_def split: option.splits)
    qed (use acquire stable 1 in auto)
    then show ?thesis using 1 by (auto elim: rg_post)
  next
    case (2 k t w t' c u v)
    then have eq: "op = Claim t' c u v" "lock_key t' c = key" "(u, v) \<noteq> (turn, holder)" using intruder by auto
    have "claim_decision ttl u v now l = Return (Err InFlight)" if "timely now" "?S l" for now l
      using that eq(3) time [OF that(1)] by (auto simp: claim_decision_def lock_is_expired_def lock_is_terminal_def)
    then show ?thesis using fails [OF refused] eq(1,2) by (simp add: kv_op_defs)
  next
    case (3 k t w t' c u v)
    then have eq: "op = Renew t' c u v" "lock_key t' c = key" "(u, v) \<noteq> (turn, holder)" using intruder by auto
    have "renew_decision ttl u v now l = Return (Err InFlight)" if "timely now" "?S l" for now l
      using that eq(3) time [OF that(1)] by (auto simp: renew_decision_def)
    then show ?thesis using fails [OF refused] eq(1,2) by (simp add: kv_op_defs)
  next
    case (4 k t w t' c u v upd)
    then have eq: "op = MarkTerminal t' c u (Some v) upd" "lock_key t' c = key" "(u, v) \<noteq> (turn, holder)" using intruder by auto
    have "terminal_decision ttl u (Some v) upd now l = Return (Err InFlight)" if "timely now" "?S l" for now l
      using that eq(3) time [OF that(1)] by (auto simp: terminal_decision_def)
    then show ?thesis using fails [OF refused] eq(1,2) by (simp add: kv_op_defs)
  qed (use intruder in auto)
qed

end

end
