(* ===== verification/Chat_Bucket.thy ===== *)
theory Chat_Bucket
  imports Chat_Locks
begin

text \<open>
  A bucket with the documented behaviour of a JetStream key-value store, in a world with other
  writers and a clock: revisions that grow with every write, markers for purged keys, and spells in
  which it answers with an error. The contract of Chat\_Locks is interpreted on it, for every
  environment that only performs lock operations, and the two theorems follow: what processes do to
  the bucket is a sequence of in-memory operations, and a lease keeps intruders out.
\<close>

section \<open>The bucket\<close>

record KvWorld =
  kw_entries :: "string \<rightharpoonup> KvEntry"
  kw_revision :: revision
  kw_now :: datetime
  kw_down :: "string option"

definition kv_write :: "string \<Rightarrow> bytes \<Rightarrow> KvOperation \<Rightarrow> KvWorld \<Rightarrow> KvWorld" where
  "kv_write k b op w = w\<lparr>kw_revision := kw_revision w + 1,
     kw_entries := (kw_entries w)(k \<mapsto> \<lparr>en_value = b, en_revision = kw_revision w + 1, en_operation = op\<rparr>)\<rparr>"

definition at_revision :: "string \<Rightarrow> revision \<Rightarrow> KvWorld \<Rightarrow> bool" where
  "at_revision k n w = (case kw_entries w k of Some e \<Rightarrow> en_revision e = n | None \<Rightarrow> False)"

definition bucket_entry :: "string \<Rightarrow> (KvWorld, (KvEntry option, string) result) state" where
  "bucket_entry k = State (\<lambda>w. (case kw_down w of Some e \<Rightarrow> Err e | None \<Rightarrow> Ok (kw_entries w k), w))"

definition bucket_create :: "string \<Rightarrow> bytes \<Rightarrow> (KvWorld, (revision, KvError) result) state" where
  "bucket_create k b = State (\<lambda>w. case kw_down w of
      Some e \<Rightarrow> (Err (KvFailed e), w)
    | None \<Rightarrow> if put_entry (kw_entries w k) = None then (Ok (kw_revision w + 1), kv_write k b KvPut w)
        else (Err Refused, w))"

definition bucket_update :: "string \<Rightarrow> bytes \<Rightarrow> revision \<Rightarrow> (KvWorld, (revision, KvError) result) state" where
  "bucket_update k b n = State (\<lambda>w. case kw_down w of
      Some e \<Rightarrow> (Err (KvFailed e), w)
    | None \<Rightarrow> if at_revision k n w then (Ok (kw_revision w + 1), kv_write k b KvPut w) else (Err Refused, w))"

definition bucket_purge :: "string \<Rightarrow> revision option \<Rightarrow> (KvWorld, (unit, string) result) state" where
  "bucket_purge k expected = State (\<lambda>w. case kw_down w of
      Some e \<Rightarrow> (Err e, w)
    | None \<Rightarrow> if (case expected of Some n \<Rightarrow> at_revision k n w | None \<Rightarrow> True) then (Ok (), kv_write k [] KvPurge w)
        else (Err ''wrong last sequence'', w))"

abbreviation on_bucket :: "(KvWorld, 'a) state \<Rightarrow> (KvWorld shared, 'a) state" where
  "on_bucket \<equiv> locked (\<lambda>w. w) (\<lambda>s w. s)"

definition LocksBucket :: "KvWorld shared KvStore" where
  "LocksBucket = \<lparr>kv_entry = (\<lambda>k. on_bucket (bucket_entry k)), kv_create = (\<lambda>k b. on_bucket (bucket_create k b)),
     kv_update = (\<lambda>k b n. on_bucket (bucket_update k b n)),
     kv_purge_expect_revision = (\<lambda>k n. on_bucket (bucket_purge k n))\<rparr>"

definition UtcNow :: "(KvWorld shared, datetime) state" where
  "UtcNow = on_bucket (State (\<lambda>w. (kw_now w, w)))"

section \<open>The rules of the bucket\<close>

definition round_trips :: "LockSerde \<Rightarrow> bool" where
  "round_trips sd = (\<forall>l b. lock_to_vec sd l = Ok b \<longrightarrow> lock_from_slice sd b = Ok l)"

definition bucket_lock :: "LockSerde \<Rightarrow> KvWorld \<Rightarrow> string \<Rightarrow> (revision \<times> ChatLock) option" where
  "bucket_lock sd w k = (case put_entry (kw_entries w k) of
      Some e \<Rightarrow> (case lock_from_slice sd (en_value e) of Ok l \<Rightarrow> Some (en_revision e, l) | Err _ \<Rightarrow> None)
    | None \<Rightarrow> None)"

abbreviation bucket_locks :: "LockSerde \<Rightarrow> KvWorld \<Rightarrow> string \<rightharpoonup> ChatLock" where
  "bucket_locks sd w \<equiv> (\<lambda>k. map_option snd (bucket_lock sd w k))"

definition bounded :: "KvWorld \<Rightarrow> bool" where
  "bounded w = (\<forall>k e. kw_entries w k = Some e \<longrightarrow> en_revision e \<le> kw_revision w)"

definition bucket_moves ::
  "int \<Rightarrow> (datetime \<times> LockOp) set \<Rightarrow> LockSerde \<Rightarrow> (datetime \<Rightarrow> bool) \<Rightarrow> KvWorld \<Rightarrow> KvWorld \<Rightarrow> bool" where
  "bucket_moves ttl A sd timely w w' =
     (lock_reach ttl A (bucket_locks sd w) (bucket_locks sd w') \<and> kw_revision w \<le> kw_revision w'
    \<and> (\<forall>k. kw_entries w' k = kw_entries w k \<or> kw_entries w' k = None
         \<or> (\<exists>e. kw_entries w' k = Some e \<and> kw_revision w < en_revision e))
    \<and> (bounded w \<longrightarrow> bounded w') \<and> (timely (kw_now w) \<longrightarrow> timely (kw_now w')))"

text \<open>An environment that only performs operations of \<open>A\<close>, at times the clock may show.\<close>

definition lock_writer ::
  "int \<Rightarrow> (datetime \<times> LockOp) set \<Rightarrow> LockSerde \<Rightarrow> (datetime \<Rightarrow> bool) \<Rightarrow> (KvWorld \<Rightarrow> KvWorld) \<Rightarrow> bool" where
  "lock_writer ttl A sd timely e = (\<forall>w. bounded w \<longrightarrow> timely (kw_now w) \<longrightarrow> bucket_moves ttl A sd timely w (e w))"

fun bucket_inv ::
  "int \<Rightarrow> (datetime \<times> LockOp) set \<Rightarrow> LockSerde \<Rightarrow> (datetime \<Rightarrow> bool) \<Rightarrow> KvWorld shared \<Rightarrow> bool" where
  "bucket_inv ttl A sd timely (w, es) = (round_trips sd \<and> bounded w \<and> timely (kw_now w)
     \<and> (\<forall>e \<in> set es. lock_writer ttl A sd timely e))"

fun shared_bucket_moves ::
  "int \<Rightarrow> (datetime \<times> LockOp) set \<Rightarrow> LockSerde \<Rightarrow> (datetime \<Rightarrow> bool) \<Rightarrow> KvWorld shared \<Rightarrow> KvWorld shared \<Rightarrow> bool" where
  "shared_bucket_moves ttl A sd timely (w, es) (w', es') = (bucket_moves ttl A sd timely w w' \<and> set es' \<subseteq> set es)"

lemma bucket_moves_refl [simp]: "bucket_moves ttl A sd timely w w"
  by (simp add: bucket_moves_def lock_reach_refl)

lemma bucket_moves_trans:
  assumes "bucket_moves ttl A sd timely u v" "bucket_moves ttl A sd timely v w"
  shows "bucket_moves ttl A sd timely u w"
proof -
  have "kw_entries w k = kw_entries u k \<or> kw_entries w k = None
      \<or> (\<exists>e. kw_entries w k = Some e \<and> kw_revision u < en_revision e)" for k
  proof -
    have "kw_entries w k = kw_entries v k \<or> kw_entries w k = None
        \<or> (\<exists>e. kw_entries w k = Some e \<and> kw_revision v < en_revision e)"
      "kw_entries v k = kw_entries u k \<or> kw_entries v k = None
        \<or> (\<exists>e. kw_entries v k = Some e \<and> kw_revision u < en_revision e)" "kw_revision u \<le> kw_revision v"
      using assms by (auto simp: bucket_moves_def)
    then show ?thesis by auto
  qed
  moreover have "lock_reach ttl A (bucket_locks sd u) (bucket_locks sd w)"
    using assms by (auto simp: bucket_moves_def intro: lock_reach_trans)
  ultimately show ?thesis using assms unfolding bucket_moves_def by auto
qed

lemma bucket_inv_moves:
  "shared_bucket_moves ttl A sd timely x y \<Longrightarrow> bucket_inv ttl A sd timely x \<Longrightarrow> bucket_inv ttl A sd timely y"
  by (cases x; cases y) (auto simp: bucket_moves_def)

lemma env_step_bucket:
  "bucket_inv ttl A sd timely x \<Longrightarrow> shared_bucket_moves ttl A sd timely x (env_step x)"
  by (cases x rule: env_step.cases) (auto simp: lock_writer_def)

text \<open>A write of a lock over the lock it was decided on.\<close>

lemma kv_write_locks:
  "bucket_locks sd (kv_write k b op w) = (bucket_locks sd w)(k :=
     (if op = KvPut then (case lock_from_slice sd b of Ok l \<Rightarrow> Some l | Err _ \<Rightarrow> None) else None))"
  by (auto simp: bucket_lock_def kv_write_def put_entry_def fun_eq_iff split: result.splits)

lemma kv_write_moves:
  assumes "writes ttl A k (map_option snd (bucket_lock sd w k)) (map_option snd (bucket_lock sd (kv_write k b op w) k))"
  shows "bucket_moves ttl A sd timely w (kv_write k b op w)"
proof -
  let ?new = "if op = KvPut then (case lock_from_slice sd b of Ok l \<Rightarrow> Some l | Err _ \<Rightarrow> None) else None"
  have at: "bucket_locks sd (kv_write k b op w) k = ?new" by (rule fun_cong [OF kv_write_locks, THEN trans]) simp
  have "lock_reach ttl A (bucket_locks sd w) ((bucket_locks sd w)(k := ?new))"
    by (rule writes_reach [of ttl A k "bucket_locks sd w k"]) (use assms at in auto)
  then have "lock_reach ttl A (bucket_locks sd w) (bucket_locks sd (kv_write k b op w))"
    unfolding kv_write_locks .
  then show ?thesis
    unfolding bucket_moves_def bounded_def by (auto simp: kv_write_def le_SucI)
qed

lemma same_entry:
  assumes "bucket_moves ttl A sd timely u w" "bounded u" "bucket_lock sd u k = Some (n, l)" "at_revision k n w"
  shows "bucket_lock sd w k = Some (n, l)"
proof -
  obtain e where e: "kw_entries u k = Some e" "en_revision e = n"
    using assms(3) by (auto simp: bucket_lock_def put_entry_def split: option.splits if_splits result.splits)
  have "n \<le> kw_revision u" using assms(2) e by (auto simp: bounded_def)
  moreover have "kw_entries w k = kw_entries u k \<or> kw_entries w k = None
      \<or> (\<exists>e. kw_entries w k = Some e \<and> kw_revision u < en_revision e)"
    using assms(1) by (simp add: bucket_moves_def)
  ultimately have "kw_entries w k = kw_entries u k"
    using assms(4) by (auto simp: at_revision_def)
  then show ?thesis using assms(3) by (simp add: bucket_lock_def)
qed

lemma bucket_lock_revision: "bucket_lock sd w k = Some (n, l) \<Longrightarrow> at_revision k n w"
  by (auto simp: bucket_lock_def put_entry_def at_revision_def split: option.splits if_splits result.splits)

lemma bucket_lock_write:
  "round_trips sd \<Longrightarrow> lock_to_vec sd l = Ok b \<Longrightarrow> bucket_lock sd (kv_write k b KvPut w) k = Some (kw_revision w + 1, l)"
  by (simp add: bucket_lock_def kv_write_def put_entry_def round_trips_def)

lemma bucket_lock_purge: "bucket_lock sd (kv_write k b KvPurge w) k = None"
  by (simp add: bucket_lock_def kv_write_def put_entry_def)

section \<open>The contract holds\<close>

text \<open>An operation on the bucket first lets the environment act.\<close>

lemma on_bucket_run:
  assumes "bucket_inv ttl A sd timely x" "run_state (on_bucket m) x = (a, y)"
  obtains w es w' where "env_step x = (w, es)" "run_state m w = (a, w')" "y = (w', es)"
    "shared_bucket_moves ttl A sd timely x (w, es)" "bounded w" "timely (kw_now w)"
proof -
  obtain w es where z: "env_step x = (w, es)" by (metis surj_pair)
  have "shared_bucket_moves ttl A sd timely x (w, es)" using env_step_bucket [OF assms(1)] z by simp
  moreover from bucket_inv_moves [OF this assms(1)] have "bounded w" "timely (kw_now w)" by auto
  ultimately show thesis using that z assms(2) by (auto simp: locked_def split: prod.splits)
qed

lemma shared_bucket_trans:
  "shared_bucket_moves ttl A sd timely x (w, es) \<Longrightarrow> bucket_moves ttl A sd timely w w' \<Longrightarrow>
    shared_bucket_moves ttl A sd timely x (w', es)"
  by (cases x) (auto intro: bucket_moves_trans)

lemma LocksBucket_simps [simp]:
  "kv_entry LocksBucket k = on_bucket (bucket_entry k)" "kv_create LocksBucket k b = on_bucket (bucket_create k b)"
  "kv_update LocksBucket k b n = on_bucket (bucket_update k b n)"
  "kv_purge_expect_revision LocksBucket k p = on_bucket (bucket_purge k p)"
  by (simp_all add: LocksBucket_def)

lemma bucket_create_run:
  assumes "run_state (bucket_create k b) w = (r, w')"
  obtains (kept) "w' = w" "\<not> is_ok r"
    | (created) "put_entry (kw_entries w k) = None" "w' = kv_write k b KvPut w" "r = Ok (kw_revision w + 1)"
proof (cases "kw_down w = None \<and> put_entry (kw_entries w k) = None")
  case True
  then have "(r, w') = (Ok (kw_revision w + 1), kv_write k b KvPut w)" using assms by (simp add: bucket_create_def)
  with True show ?thesis using created by blast
next
  case False
  then have "\<exists>e. (r, w') = (Err e, w)" using assms by (auto simp: bucket_create_def split: option.splits)
  then show ?thesis using kept by auto
qed

lemma bucket_update_run:
  assumes "run_state (bucket_update k b n) w = (r, w')"
  obtains (kept) "w' = w" "\<not> is_ok r"
    | (updated) "at_revision k n w" "w' = kv_write k b KvPut w" "r = Ok (kw_revision w + 1)"
proof (cases "kw_down w = None \<and> at_revision k n w")
  case True
  then have "(r, w') = (Ok (kw_revision w + 1), kv_write k b KvPut w)" using assms by (simp add: bucket_update_def)
  with True show ?thesis using updated by blast
next
  case False
  then have "\<exists>e. (r, w') = (Err e, w)" using assms by (auto simp: bucket_update_def split: option.splits)
  then show ?thesis using kept by auto
qed

lemma bucket_purge_run:
  assumes "run_state (bucket_purge k (Some n)) w = (r, w')"
  obtains (kept) "w' = w" | (purged) "at_revision k n w" "w' = kv_write k [] KvPurge w"
proof (cases "kw_down w = None \<and> at_revision k n w")
  case True
  then have "(r, w') = (Ok (), kv_write k [] KvPurge w)" using assms by (simp add: bucket_purge_def)
  with True show ?thesis using purged by blast
next
  case False
  then have "\<exists>e. (r, w') = (Err e, w)" using assms by (auto simp: bucket_purge_def split: option.splits)
  then show ?thesis using kept by auto
qed

lemma bucket_create_cases:
  assumes "bucket_inv ttl A sd timely x" "lock_to_vec sd l = Ok b" "writes ttl A k None (Some l)"
    and "run_state (on_bucket (bucket_create k b)) x = (r, y)"
  shows "shared_bucket_moves ttl A sd timely x y \<and>
    (\<forall>n. r = Ok n \<longrightarrow> (\<exists>v. shared_bucket_moves ttl A sd timely x v \<and> bucket_lock sd (fst v) k = None)
      \<and> bucket_lock sd (fst y) k = Some (n, l))"
proof -
  obtain w es w' where "env_step x = (w, es)" and run: "run_state (bucket_create k b) w = (r, w')" "y = (w', es)"
    "shared_bucket_moves ttl A sd timely x (w, es)"
    by (rule on_bucket_run [OF assms(1,4)])
  have trip: "round_trips sd" using assms(1) by (cases x) auto
  show ?thesis using run(1)
  proof (cases rule: bucket_create_run)
    case kept
    then show ?thesis using run(2,3) by auto
  next
    case created
    have none: "bucket_lock sd w k = None" using created(1) by (simp add: bucket_lock_def)
    have "bucket_moves ttl A sd timely w (kv_write k b KvPut w)"
      by (rule kv_write_moves) (use none bucket_lock_write [OF trip assms(2)] assms(3) in simp)
    from shared_bucket_trans [OF run(3) this] have "shared_bucket_moves ttl A sd timely x y"
      by (simp add: run(2) created(2))
    moreover have "bucket_lock sd (fst y) k = Some (kw_revision w + 1, l)"
      using bucket_lock_write [OF trip assms(2)] by (simp add: run(2) created(2))
    ultimately show ?thesis using none run(3) created(3) by (auto intro!: exI [of _ "(w, es)"])
  qed
qed

lemma bucket_update_cases:
  assumes "bucket_inv ttl A sd timely u" "bucket_lock sd (fst u) k = Some (n, old)" "shared_bucket_moves ttl A sd timely u x"
    and "lock_to_vec sd l = Ok b" "writes ttl A k (Some old) (Some l)"
    and "run_state (on_bucket (bucket_update k b n)) x = (r, y)"
  shows "shared_bucket_moves ttl A sd timely x y \<and> (\<forall>m. r = Ok m \<longrightarrow> bucket_lock sd (fst y) k = Some (m, l))"
proof -
  have x: "bucket_inv ttl A sd timely x" using bucket_inv_moves [OF assms(3,1)] .
  obtain w es w' where "env_step x = (w, es)" and run: "run_state (bucket_update k b n) w = (r, w')" "y = (w', es)"
    "shared_bucket_moves ttl A sd timely x (w, es)"
    by (rule on_bucket_run [OF x assms(6)])
  have trip: "round_trips sd" and u: "bounded (fst u)" using assms(1) by (cases u; auto)+
  have uw: "bucket_moves ttl A sd timely (fst u) w"
    using assms(3) run(3) by (cases u; cases x) (auto intro: bucket_moves_trans)
  show ?thesis using run(1)
  proof (cases rule: bucket_update_run)
    case kept
    then show ?thesis using run(2,3) by auto
  next
    case updated
    have "bucket_lock sd w k = Some (n, old)" using same_entry [OF uw u assms(2) updated(1)] .
    then have "bucket_moves ttl A sd timely w (kv_write k b KvPut w)"
      by (intro kv_write_moves) (use bucket_lock_write [OF trip assms(4)] assms(5) in simp)
    from shared_bucket_trans [OF run(3) this] have "shared_bucket_moves ttl A sd timely x y"
      by (simp add: run(2) updated(2))
    then show ?thesis using bucket_lock_write [OF trip assms(4)] by (simp add: run(2) updated(2,3))
  qed
qed

lemma bucket_purge_cases:
  assumes "bucket_inv ttl A sd timely u" "bucket_lock sd (fst u) k = Some (n, old)" "shared_bucket_moves ttl A sd timely u x"
    and "writes ttl A k (Some old) None" "run_state (on_bucket (bucket_purge k (Some n))) x = (r, y)"
  shows "shared_bucket_moves ttl A sd timely x y"
proof -
  have x: "bucket_inv ttl A sd timely x" using bucket_inv_moves [OF assms(3,1)] .
  obtain w es w' where "env_step x = (w, es)" and run: "run_state (bucket_purge k (Some n)) w = (r, w')" "y = (w', es)"
    "shared_bucket_moves ttl A sd timely x (w, es)"
    by (rule on_bucket_run [OF x assms(5)])
  have u: "bounded (fst u)" using assms(1) by (cases u) auto
  have uw: "bucket_moves ttl A sd timely (fst u) w"
    using assms(3) run(3) by (cases u; cases x) (auto intro: bucket_moves_trans)
  show ?thesis using run(1)
  proof (cases rule: bucket_purge_run)
    case kept
    then show ?thesis using run(2,3) by auto
  next
    case purged
    have "bucket_lock sd w k = Some (n, old)" using same_entry [OF uw u assms(2) purged(1)] .
    then have "bucket_moves ttl A sd timely w (kv_write k [] KvPurge w)"
      by (intro kv_write_moves) (use bucket_lock_purge [of sd k] assms(4) in simp)
    from shared_bucket_trans [OF run(3) this] show ?thesis by (simp add: run(2) purged(2))
  qed
qed

interpretation bucket: lock_store "shared_bucket_moves ttl A sd timely" LocksBucket UtcNow sd ttl A timely
  "bucket_inv ttl A sd timely" "\<lambda>x. bucket_lock sd (fst x)"
  for ttl A sd timely
proof (unfold_locales, goal_cases)
  case (1 w)
  then show ?case by (cases w) auto
next
  case (2 u v w)
  then show ?case by (cases u; cases v; cases w) (auto intro: bucket_moves_trans)
next
  case (3 w w')
  then show ?case by (rule bucket_inv_moves)
next
  case (4 w w')
  then show ?case by (cases w; cases w') (auto simp: bucket_moves_def)
next
  case (5 w w' k n l l')
  then have "bucket_moves ttl A sd timely (fst w) (fst w')" "bounded (fst w)" by (cases w; cases w'; simp)+
  from same_entry [OF this 5(3) bucket_lock_revision [OF 5(4)]] 5(4) show ?case by simp
next
  case (6 w now w')
  then show ?case by (auto simp: UtcNow_def elim!: on_bucket_run)
next
  case (7 w k r w')
  then show ?case by (auto simp: bucket_entry_def elim!: on_bucket_run)
next
  case (8 w k entry w' e l)
  then show ?case
    by (auto simp: bucket_entry_def bucket_lock_def elim!: on_bucket_run split: option.splits)
next
  case (9 w l b k rc w')
  then show ?case using bucket_create_cases [OF 9(1-3)] by simp
next
  case (10 w l b k n w')
  then show ?case using bucket_create_cases [OF 10(1-3)] by simp
next
  case (11 u k n old w l b ru w')
  then show ?case using bucket_update_cases [OF 11(1-5)] by simp
next
  case (12 u k n old w l b m w')
  then show ?case using bucket_update_cases [OF 12(1-5)] by simp
next
  case (13 u k n old w rp w')
  then show ?case using bucket_purge_cases [OF 13(1-4)] by simp
qed

section \<open>Theorems\<close>

text \<open>A process that runs one of the operations to its end is itself such an environment.\<close>

lemma process_is_lock_writer:
  assumes "round_trips sd" "\<forall>now. timely now \<longrightarrow> (now, op) \<in> A \<and> (\<forall>t c u. (now, RequestStop t c u) \<in> A)"
  shows "lock_writer ttl A sd timely (\<lambda>w. fst (snd (run_state (kv_perform LocksBucket UtcNow sd ttl op) (w, []))))"
  unfolding lock_writer_def
proof (intro allI impI)
  fix w
  assume w: "bounded w" "timely (kw_now w)"
  obtain r w' es where run: "run_state (kv_perform LocksBucket UtcNow sd ttl op) (w, []) = (r, (w', es))"
    by (metis surj_pair)
  have "rg (shared_bucket_moves ttl A sd timely) (bucket_inv ttl A sd timely)
      (kv_perform LocksBucket UtcNow sd ttl op) (\<lambda>_. bucket_inv ttl A sd timely)"
    using assms(2) by (intro bucket.kv_perform_respects) (auto simp: bucket.allowed_def)
  from rgD(1) [OF this _ run] show "bucket_moves ttl A sd timely w
      (fst (snd (run_state (kv_perform LocksBucket UtcNow sd ttl op) (w, []))))"
    using assms(1) w run by simp
qed

text \<open>C11. What the compare-and-swap loops do to the bucket is what operations of the in-memory bus do to
  its locks. While a process runs any of the lock operations and other processes write the same
  bucket between its reads and its writes, the locks go through a sequence of in-memory operations,
  its own among them, each taken whole.\<close>

theorem bucket_refines_memory_bus:
  assumes "round_trips sd" "bounded w" "timely (kw_now w)" "\<forall>e \<in> set es. lock_writer ttl A sd timely e"
    and "\<forall>now. timely now \<longrightarrow> (now, op) \<in> A \<and> (\<forall>t c u. (now, RequestStop t c u) \<in> A)"
    and "run_state (kv_perform LocksBucket UtcNow sd ttl op) (w, es) = (r, (w', es'))"
  shows "lock_reach ttl A (bucket_locks sd w) (bucket_locks sd w')"
proof -
  have "rg (shared_bucket_moves ttl A sd timely) (bucket_inv ttl A sd timely)
      (kv_perform LocksBucket UtcNow sd ttl op) (\<lambda>_. bucket_inv ttl A sd timely)"
    using assms(5) by (intro bucket.kv_perform_respects) (auto simp: bucket.allowed_def)
  from rgD(1) [OF this _ assms(6)] show ?thesis using assms(1-4) by (simp add: bucket_moves_def)
qed

text \<open>The operations of a lease's time that do not end the turn.\<close>

definition during_lease :: "int \<Rightarrow> datetime \<Rightarrow> datetime \<Rightarrow> bool" where
  "during_lease ttl t0 now = (t0 \<le> now \<and> now < t0 + ttl)"

definition peaceful :: "int \<Rightarrow> datetime \<Rightarrow> string \<Rightarrow> string \<Rightarrow> string \<Rightarrow> (datetime \<times> LockOp) set" where
  "peaceful ttl t0 key turn holder = {(now, op). during_lease ttl t0 now \<and> \<not> ends_turn key turn holder op}"

lemma peacefulD: "(now, op) \<in> peaceful ttl t0 key turn holder \<Longrightarrow>
    now < t0 + ttl \<and> t0 + ttl \<le> now + ttl \<and> \<not> ends_turn key turn holder op"
  by (auto simp: peaceful_def during_lease_def)

text \<open>C12. The lease on the bucket is exclusive: while it runs, whoever else tries to acquire the
  conversation, to claim or renew the turn or to end it in another worker's name fails, whatever
  the other processes write between the reads and the writes of the attempt, and the holder still
  holds the turn afterwards.\<close>

theorem lease_keeps_intruders_out:
  assumes "round_trips sd" "bounded w" "during_lease ttl t0 (kw_now w)"
    and "\<forall>e \<in> set es. lock_writer ttl (peaceful ttl t0 key turn holder) sd (during_lease ttl t0) e"
    and "holds_turn key turn holder (t0 + ttl) (with_locks (bucket_locks sd w))"
    and "intrudes key turn holder op"
    and "run_state (kv_perform LocksBucket UtcNow sd ttl op) (w, es) = (r, (w', es'))"
  shows "\<not> is_ok r \<and> holds_turn key turn holder (t0 + ttl) (with_locks (bucket_locks sd w'))"
proof -
  let ?A = "peaceful ttl t0 key turn holder" and ?T = "during_lease ttl t0"
  have "\<not> ends_turn key turn holder (Acquire l)" for l by simp
  then have "bucket.allowed ?A ?T op \<and> bucket.allowed ?A ?T (RequestStop (cl_tenant_id l) (cl_conversation_id l) ''user'')"
    if "op = Acquire l" for l
    using that by (auto simp: bucket.allowed_def peaceful_def)
  then have rule: "rg (shared_bucket_moves ttl ?A sd ?T)
      (\<lambda>x. bucket_inv ttl ?A sd ?T x \<and> holds_turn key turn holder (t0 + ttl) (with_locks (bucket_locks sd (fst x))))
      (kv_perform LocksBucket UtcNow sd ttl op)
      (\<lambda>r x. \<not> is_ok r \<and> bucket_inv ttl ?A sd ?T x
        \<and> holds_turn key turn holder (t0 + ttl) (with_locks (bucket_locks sd (fst x))))"
    by (intro bucket.kv_intruder_fails [OF peacefulD _ assms(6)]) (auto simp: during_lease_def)
  show ?thesis using rgD(2) [OF rule _ assms(7)] assms(1-5) by simp
qed

text \<open>A worker that tries to claim the turn of another while a third process asks for a stop.\<close>

definition sample_serde :: LockSerde where
  "sample_serde =
     (let held = claimed_lock 900 1 ''w1'' sample_lock; halted = stopped_lock 5 ''u'' (claimed_lock 900 1 ''w1'' sample_lock) in
      \<lparr>lock_to_vec = (\<lambda>l. if l = held then Ok ''held'' else if l = halted then Ok ''halted'' else Err ''unknown''),
       lock_from_slice = (\<lambda>b. if b = ''held'' then Ok held else if b = ''halted'' then Ok halted else Err ''unknown'')\<rparr>)"

definition sample_bucket :: KvWorld where
  "sample_bucket = \<lparr>kw_entries = [''t/c'' \<mapsto> \<lparr>en_value = ''held'', en_revision = 7, en_operation = KvPut\<rparr>],
     kw_revision = 7, kw_now = 5, kw_down = None\<rparr>"

definition stop_process :: "KvWorld \<Rightarrow> KvWorld" where
  "stop_process w = fst (snd (run_state (kv_perform LocksBucket UtcNow sample_serde 900 (RequestStop ''t'' ''c'' ''u'')) (w, [])))"

lemma sample_round_trips: "round_trips sample_serde"
  by (auto simp: round_trips_def sample_serde_def Let_def split: if_splits)

lemma sample_bounded: "bounded sample_bucket"
  by (simp add: bounded_def sample_bucket_def)

lemma sample_holds: "holds_turn ''t/c'' ''k'' ''w1'' 901 (with_locks (bucket_locks sample_serde sample_bucket))"
  by (simp add: holds_turn_def bucket_lock_def sample_bucket_def sample_serde_def put_entry_def Let_def sample_lock_defs)

lemma stop_process_peaceful:
  "lock_writer 900 (peaceful 900 1 ''t/c'' ''k'' ''w1'') sample_serde (during_lease 900 1) stop_process"
  unfolding stop_process_def [abs_def]
  by (rule process_is_lock_writer [OF sample_round_trips]) (simp add: peaceful_def)

theorem lease_keeps_intruders_out_witness:
  "\<not> is_ok (fst (run_state (kv_perform LocksBucket UtcNow sample_serde 900 (Claim ''t'' ''c'' ''k'' ''w2''))
     (sample_bucket, [id, stop_process])))"
proof -
  obtain r w' es' where run: "run_state (kv_perform LocksBucket UtcNow sample_serde 900 (Claim ''t'' ''c'' ''k'' ''w2''))
     (sample_bucket, [id, stop_process]) = (r, (w', es'))" by (metis surj_pair)
  have "lock_writer 900 (peaceful 900 1 ''t/c'' ''k'' ''w1'') sample_serde (during_lease 900 1) id"
    by (simp add: lock_writer_def)
  then have "\<not> is_ok r"
    using lease_keeps_intruders_out [OF sample_round_trips sample_bounded, of 900 1 "[id, stop_process]" "''t/c''" "''k''" "''w1''",
        OF _ _ _ _ run] stop_process_peaceful sample_holds
    by (simp add: during_lease_def sample_bucket_def lock_key_def)
  then show ?thesis unfolding run by simp
qed

definition claims_and_stops :: "(datetime \<times> LockOp) set" where
  "claims_and_stops = {5} \<times> ({Claim ''t'' ''c'' ''k'' ''w2''} \<union> {RequestStop t c u | t c u. True})"

theorem bucket_refines_memory_bus_witness:
  "lock_reach 900 claims_and_stops (bucket_locks sample_serde sample_bucket)
     (bucket_locks sample_serde (fst (snd (run_state (kv_perform LocksBucket UtcNow sample_serde 900 (Claim ''t'' ''c'' ''k'' ''w2''))
       (sample_bucket, [id, stop_process])))))"
proof -
  obtain r w' es' where run: "run_state (kv_perform LocksBucket UtcNow sample_serde 900 (Claim ''t'' ''c'' ''k'' ''w2''))
     (sample_bucket, [id, stop_process]) = (r, (w', es'))" by (metis surj_pair)
  have "lock_writer 900 claims_and_stops sample_serde (\<lambda>now. now = 5) stop_process"
    unfolding stop_process_def [abs_def]
    by (rule process_is_lock_writer [OF sample_round_trips]) (auto simp: claims_and_stops_def)
  moreover have "lock_writer 900 claims_and_stops sample_serde (\<lambda>now. now = 5) id" by (simp add: lock_writer_def)
  ultimately show ?thesis
    unfolding run fst_conv snd_conv
    by (intro bucket_refines_memory_bus [OF sample_round_trips sample_bounded _ _ _ run, of "\<lambda>now. now = 5"])
      (auto simp: claims_and_stops_def sample_bucket_def)
qed

end
