(* ===== verification/Realtime.thy ===== *)
theory Realtime
  imports Chat_Bus
begin

text \<open>
  services/realtime-service/src/main.rs: what a websocket sends. A session keeps the conversations it
  is subscribed to and the last sequence it sent for each; a subscription first replays what the
  client missed, from the replay index and the event log of the bus, and then forwards live events.

  The \<open>tokio::select!\<close> loop is a function of the list of inputs it is given, in the order the
  runtime delivers them. The outbound channel is bounded: a message that finds it full ends the
  session. The writer task that drains it is an input as well. A text frame is given decoded, as
  serde\_json decodes it or fails to. The bus and the repository are the records of Chat.
\<close>

section \<open>Replay decisions\<close>

record ReplayPlan =
  rp_events :: "SequencedChatEvent list"
  rp_last_seen_sequence :: u64

record ReplayRange =
  rr_start_seq :: u64
  rr_end_seq :: u64
  rr_last_seen_sequence :: u64
  rr_required_start_seq :: "u64 option"
  rr_required_end_seq :: "u64 option"

datatype ReplayDecisionError = DecisionResyncRequired | DecisionInternal string

definition parse_event_id :: "string \<Rightarrow> u64 option" where
  "parse_event_id = parse_u64_str"

definition unwrap_or :: "'a \<Rightarrow> 'a option \<Rightarrow> 'a" where
  "unwrap_or d x = (case x of Some a \<Rightarrow> a | None \<Rightarrow> d)"

definition turn_contains_sequence :: "ReplayTurn \<Rightarrow> u64 \<Rightarrow> u64 \<Rightarrow> bool" where
  "turn_contains_sequence turn sequence latest_sequence =
     (let end_seq = unwrap_or latest_sequence (rt_end_seq turn) in
      rt_start_seq turn \<le> sequence \<and> sequence \<le> end_seq)"

definition conversation_has_turn :: "ConversationDetail \<Rightarrow> string \<Rightarrow> bool" where
  "conversation_has_turn conversation turn_id =
     list_ex (\<lambda>message. md_turn_id message = Some turn_id) (cd_messages conversation)"

definition resume_range :: "u64 \<Rightarrow> u64 \<Rightarrow> u64 option \<Rightarrow> ReplayRange option" where
  "resume_range last_sequence end_seq required_end =
     (if end_seq \<le> last_sequence then None
      else Some \<lparr>rr_start_seq = last_sequence + 1, rr_end_seq = end_seq, rr_last_seen_sequence = last_sequence,
        rr_required_start_seq = None, rr_required_end_seq = required_end\<rparr>)"

definition replay_range ::
  "ReplayIndex \<Rightarrow> string option \<Rightarrow> ConversationDetail \<Rightarrow> u64 \<Rightarrow> (ReplayRange option, ReplayDecisionError) result" where
  "replay_range ix last_event_id conversation latest_sequence = (case last_event_id of
      None \<Rightarrow> (case ri_current_turn ix of
          None \<Rightarrow> Ok None
        | Some current \<Rightarrow>
            if rt_end_seq current \<noteq> None \<or> conversation_has_turn conversation (rt_turn_id current) then Ok None
            else Ok (Some \<lparr>rr_start_seq = rt_start_seq current,
              rr_end_seq = unwrap_or latest_sequence (rt_end_seq current), rr_last_seen_sequence = 0,
              rr_required_start_seq = Some (rt_start_seq current), rr_required_end_seq = rt_end_seq current\<rparr>))
    | Some last_event_id \<Rightarrow> (case parse_event_id last_event_id of
          None \<Rightarrow> Err DecisionResyncRequired
        | Some last_sequence \<Rightarrow>
            let from_previous = (case ri_previous_turn ix of
                Some previous \<Rightarrow>
                  if turn_contains_sequence previous last_sequence latest_sequence then
                    Ok (resume_range last_sequence
                      (case ri_current_turn ix of
                         Some turn \<Rightarrow> unwrap_or latest_sequence (rt_end_seq turn)
                       | None \<Rightarrow> unwrap_or latest_sequence (rt_end_seq previous))
                      (case ri_current_turn ix of
                         Some current \<Rightarrow> rt_end_seq current | None \<Rightarrow> rt_end_seq previous))
                  else Err DecisionResyncRequired
              | None \<Rightarrow> Err DecisionResyncRequired)
            in (case ri_current_turn ix of
                Some current \<Rightarrow>
                  if turn_contains_sequence current last_sequence latest_sequence then
                    Ok (resume_range last_sequence (unwrap_or latest_sequence (rt_end_seq current)) (rt_end_seq current))
                  else from_previous
              | None \<Rightarrow> from_previous)))"

definition first_sequence :: "SequencedChatEvent list \<Rightarrow> u64 option" where
  "first_sequence events = (case events of [] \<Rightarrow> None | e # _ \<Rightarrow> parse_event_id (se_event_id e))"

definition last_sequence_of :: "SequencedChatEvent list \<Rightarrow> u64 option" where
  "last_sequence_of events = (if events = [] then None else parse_event_id (se_event_id (List.last events)))"

definition replay_is_incomplete :: "SequencedChatEvent list \<Rightarrow> ReplayRange \<Rightarrow> bool" where
  "replay_is_incomplete events rng =
     (if rr_required_start_seq rng \<noteq> None \<and> events = [] then True
      else if (case rr_required_start_seq rng of
          Some required \<Rightarrow> first_sequence events \<noteq> Some required | None \<Rightarrow> False) then True
      else if (case rr_required_end_seq rng of
          Some required \<Rightarrow> last_sequence_of events \<noteq> Some required | None \<Rightarrow> False) then True
      else False)"

definition build_replay_plan ::
  "'w ChatBus \<Rightarrow> string \<Rightarrow> string \<Rightarrow> string option \<Rightarrow> ConversationDetail \<Rightarrow>
     ('w, (ReplayPlan, ReplayDecisionError) result) state" where
  "build_replay_plan bus tenant_id conversation_id last_event_id conversation =
     (let internal = (\<lambda>e. DecisionInternal (display_ChatBusError e)) in
      attempt internal (cb_load_replay_index bus tenant_id conversation_id) (\<lambda>ix.
      attempt internal (cb_latest_event_sequence bus) (\<lambda>latest_sequence.
        case ix of
          None \<Rightarrow> ret (if last_event_id \<noteq> None then Err DecisionResyncRequired
            else Ok \<lparr>rp_events = [], rp_last_seen_sequence = 0\<rparr>)
        | Some ix \<Rightarrow> (case replay_range ix last_event_id conversation latest_sequence of
            Err e \<Rightarrow> ret (Err e)
          | Ok None \<Rightarrow> ret (Ok \<lparr>rp_events = [],
              rp_last_seen_sequence = unwrap_or 0 (Option.bind last_event_id parse_event_id)\<rparr>)
          | Ok (Some rng) \<Rightarrow>
              attempt internal (cb_replay_events bus tenant_id conversation_id (rr_start_seq rng) (rr_end_seq rng))
                (\<lambda>events. ret (if replay_is_incomplete events rng then Err DecisionResyncRequired
                   else Ok \<lparr>rp_events = events, rp_last_seen_sequence = rr_last_seen_sequence rng\<rparr>))))))"

section \<open>Sessions\<close>

datatype OutFrame = ServerText ServerWsMessage | PongFrame bytes

record Session =
  ws_subscriptions :: "string set"
  ws_last_sent_sequences :: "string \<rightharpoonup> u64"
  ws_outbound :: "OutFrame list"
  ws_written :: "OutFrame list"

definition new_session :: Session where
  "new_session = \<lparr>ws_subscriptions = {}, ws_last_sent_sequences = Map.empty, ws_outbound = [], ws_written = []\<rparr>"

text \<open>\<open>try_send\<close> on the outbound channel: it fails when the channel is full.\<close>

definition send_ws_message :: "nat \<Rightarrow> OutFrame \<Rightarrow> Session \<Rightarrow> Session option" where
  "send_ws_message capacity frame s =
     (if length (ws_outbound s) < capacity then Some (s\<lparr>ws_outbound := ws_outbound s @ [frame]\<rparr>) else None)"

definition send_server_message :: "nat \<Rightarrow> ServerWsMessage \<Rightarrow> Session \<Rightarrow> Session option" where
  "send_server_message capacity msg = send_ws_message capacity (ServerText msg)"

text \<open>A handler returns whether the loop goes on, and the session.\<close>

definition sending :: "nat \<Rightarrow> ServerWsMessage \<Rightarrow> Session \<Rightarrow> bool \<times> Session" where
  "sending capacity msg s = (case send_server_message capacity msg s of Some s' \<Rightarrow> (True, s') | None \<Rightarrow> (False, s))"

text \<open>The loop over the events of a replay plan.\<close>

fun send_replay ::
  "nat \<Rightarrow> string \<Rightarrow> string \<Rightarrow> SequencedChatEvent list \<Rightarrow> u64 \<Rightarrow> Session \<Rightarrow> bool \<times> u64 \<times> Session" where
  "send_replay capacity user_id conversation_id [] last_sent s = (True, last_sent, s)"
| "send_replay capacity user_id conversation_id (event # events) last_sent s =
     (if ee_user_id (se_envelope event) \<noteq> user_id
      then send_replay capacity user_id conversation_id events last_sent s
      else (let sequence = unwrap_or 0 (parse_event_id (se_event_id event)) in
        if sequence \<le> last_sent then send_replay capacity user_id conversation_id events last_sent s
        else (case send_server_message capacity
              (WsEvent conversation_id (se_event_id event) (ee_event (se_envelope event))) s of
            None \<Rightarrow> (False, last_sent, s)
          | Some s' \<Rightarrow> send_replay capacity user_id conversation_id events sequence s')))"

definition start_replay :: "nat \<Rightarrow> AuthUser \<Rightarrow> string \<Rightarrow> ReplayPlan \<Rightarrow> Session \<Rightarrow> bool \<times> Session" where
  "start_replay capacity auth conversation_id plan s =
     (case send_server_message capacity (Subscribed conversation_id) s of
        None \<Rightarrow> (False, s)
      | Some s \<Rightarrow> (case send_replay capacity (au_user_id auth) conversation_id (rp_events plan)
              (rp_last_seen_sequence plan) s of
            (False, _, s) \<Rightarrow> (False, s)
          | (True, last_sent, s) \<Rightarrow> (True, s\<lparr>ws_last_sent_sequences := (ws_last_sent_sequences s)(conversation_id \<mapsto> last_sent)\<rparr>)))"

text \<open>\<open>subscribe\<close> is \<open>subscribe_socket_to_conversation\<close>, which starts the task that forwards the
  events of the conversation into the loop.\<close>

definition handle_client_message ::
  "nat \<Rightarrow> 'w ChatBus \<Rightarrow> 'w ChatRepository \<Rightarrow> (string \<Rightarrow> string \<Rightarrow> ('w, (unit, ChatBusError) result) state) \<Rightarrow> AuthUser \<Rightarrow>
     ClientWsMessage option \<Rightarrow> Session \<Rightarrow> ('w, bool \<times> Session) state" where
  "handle_client_message capacity bus repo subscribe auth decoded s = (case decoded of
      Some (SubscribeConversation conversation_id last_event_id) \<Rightarrow>
        cr_get_conversation repo (au_tenant_id auth) (au_user_id auth) conversation_id \<bind> (\<lambda>r. case r of
          Err _ \<Rightarrow> ret (sending capacity (WsError ''not_found'' ''conversation not found'') s)
        | Ok conversation \<Rightarrow>
            (if conversation_id \<in> ws_subscriptions s then ret (Ok ())
             else subscribe (au_tenant_id auth) conversation_id) \<bind> (\<lambda>r. case r of
              Err _ \<Rightarrow> ret (sending capacity (WsError ''subscribe_failed'' ''failed to subscribe to conversation events'') s)
            | Ok _ \<Rightarrow> (let s = s\<lparr>ws_subscriptions := insert conversation_id (ws_subscriptions s)\<rparr> in
                build_replay_plan bus (au_tenant_id auth) conversation_id last_event_id conversation \<bind> (\<lambda>plan.
                  ret (case plan of
                    Ok plan \<Rightarrow> start_replay capacity auth conversation_id plan s
                  | Err DecisionResyncRequired \<Rightarrow> sending capacity (ResyncRequired conversation_id) s
                  | Err (DecisionInternal _) \<Rightarrow>
                      sending capacity (WsError ''replay_failed'' ''failed to prepare websocket replay'') s)))))
    | Some (UnsubscribeConversation conversation_id) \<Rightarrow>
        ret (True, s\<lparr>ws_subscriptions := ws_subscriptions s - {conversation_id},
          ws_last_sent_sequences := (ws_last_sent_sequences s)(conversation_id := None)\<rparr>)
    | Some (Ping nonce) \<Rightarrow> ret (sending capacity (Pong nonce) s)
    | None \<Rightarrow> ret (sending capacity (WsError ''invalid_message'' ''invalid websocket message'') s))"

section \<open>The loop\<close>

datatype SocketInput =
    TextFrame "ClientWsMessage option"
  | PingFrame bytes
  | OtherFrame
  | SocketClosed
  | SocketEvent SequencedChatEvent
  | Lagged string u64
  | EventsClosed
  | WriterTakes

definition forward_event :: "nat \<Rightarrow> AuthUser \<Rightarrow> SequencedChatEvent \<Rightarrow> Session \<Rightarrow> bool \<times> Session" where
  "forward_event capacity auth event s =
     (let envelope = se_envelope event; conversation_id = ee_conversation_id envelope in
      if ee_tenant_id envelope \<noteq> au_tenant_id auth then (True, s)
      else if conversation_id \<notin> ws_subscriptions s then (True, s)
      else if ee_user_id envelope \<noteq> au_user_id auth then (True, s)
      else (let sequence = unwrap_or 0 (parse_event_id (se_event_id event));
                last_sent = unwrap_or 0 (ws_last_sent_sequences s conversation_id)
            in if sequence \<le> last_sent then (True, s)
               else (case send_server_message capacity (WsEvent conversation_id (se_event_id event) (ee_event envelope)) s of
                   None \<Rightarrow> (False, s)
                 | Some s \<Rightarrow> (True, s\<lparr>ws_last_sent_sequences := (ws_last_sent_sequences s)(conversation_id \<mapsto> sequence)\<rparr>))))"

definition socket_step ::
  "nat \<Rightarrow> 'w ChatBus \<Rightarrow> 'w ChatRepository \<Rightarrow> (string \<Rightarrow> string \<Rightarrow> ('w, (unit, ChatBusError) result) state) \<Rightarrow> AuthUser \<Rightarrow>
     SocketInput \<Rightarrow> Session \<Rightarrow> ('w, bool \<times> Session) state" where
  "socket_step capacity bus repo subscribe auth input s = (case input of
      TextFrame decoded \<Rightarrow> handle_client_message capacity bus repo subscribe auth decoded s
    | PingFrame payload \<Rightarrow> ret (case send_ws_message capacity (PongFrame payload) s of Some s' \<Rightarrow> (True, s') | None \<Rightarrow> (False, s))
    | OtherFrame \<Rightarrow> ret (True, s)
    | SocketClosed \<Rightarrow> ret (False, s)
    | SocketEvent event \<Rightarrow> ret (forward_event capacity auth event s)
    | Lagged conversation_id skipped \<Rightarrow>
        ret (case send_server_message capacity (ResyncRequired conversation_id) s of
            None \<Rightarrow> (False, s)
          | Some s \<Rightarrow> (True, s\<lparr>ws_last_sent_sequences := (ws_last_sent_sequences s)(conversation_id := None)\<rparr>))
    | EventsClosed \<Rightarrow> ret (False, s)
    | WriterTakes \<Rightarrow> ret (True, case ws_outbound s of
          [] \<Rightarrow> s
        | m # ms \<Rightarrow> s\<lparr>ws_outbound := ms, ws_written := ws_written s @ [m]\<rparr>))"

fun run_socket ::
  "nat \<Rightarrow> 'w ChatBus \<Rightarrow> 'w ChatRepository \<Rightarrow> (string \<Rightarrow> string \<Rightarrow> ('w, (unit, ChatBusError) result) state) \<Rightarrow> AuthUser \<Rightarrow>
     SocketInput list \<Rightarrow> Session \<Rightarrow> ('w, bool \<times> Session) state" where
  "run_socket capacity bus repo subscribe auth [] s = ret (True, s)"
| "run_socket capacity bus repo subscribe auth (input # inputs) s =
     socket_step capacity bus repo subscribe auth input s \<bind> (\<lambda>(go, s).
       if go then run_socket capacity bus repo subscribe auth inputs s else ret (False, s))"

section \<open>Numbered logs\<close>

definition sequence_of :: "SequencedChatEvent \<Rightarrow> u64" where
  "sequence_of e = unwrap_or 0 (parse_event_id (se_event_id e))"

text \<open>The events of the in-memory log carry their position, from one on, as their id.\<close>

definition numbered :: "SequencedChatEvent list \<Rightarrow> bool" where
  "numbered L = (length L < 2 ^ 64 \<and> (\<forall>i < length L. se_event_id (L ! i) = show_nat (Suc i)))"

lemma numbered_nth:
  assumes "numbered L" "i < length L"
  shows "parse_event_id (se_event_id (L ! i)) = Some (of_nat (Suc i))" "unat (sequence_of (L ! i)) = Suc i"
proof -
  have "Suc i < 2 ^ 64" using assms by (simp add: numbered_def)
  then show "parse_event_id (se_event_id (L ! i)) = Some (of_nat (Suc i))"
    using assms parse_u64_show_nat [of "Suc i"] by (simp add: numbered_def parse_event_id_def)
  then show "unat (sequence_of (L ! i)) = Suc i"
    using \<open>Suc i < 2 ^ 64\<close> by (simp add: sequence_of_def unwrap_or_def unat_of_nat_small del: of_nat_Suc)
qed

lemma numbered_sorted: "numbered L \<Longrightarrow> sorted_wrt (<) (map sequence_of L)"
  by (auto simp: sorted_wrt_iff_nth_less word_less_nat_alt numbered_nth(2))

lemma numbered_drop:
  assumes "numbered L"
  shows "drop n L = filter (\<lambda>e. n < unat (sequence_of e)) L" (is "_ = filter ?P L")
proof -
  have "filter ?P (take n L) = []"
    using assms by (auto simp: filter_empty_conv in_set_conv_nth numbered_nth(2))
  moreover have "filter ?P (drop n L) = drop n L"
    using assms by (auto simp: filter_id_conv in_set_conv_nth numbered_nth(2))
  ultimately show ?thesis by (metis append_take_drop_id append_Nil filter_append)
qed

lemma numbered_take:
  assumes "numbered L"
  shows "take n L = filter (\<lambda>e. unat (sequence_of e) \<le> n) L" (is "_ = filter ?P L")
proof -
  have "filter ?P (take n L) = take n L"
    using assms by (auto simp: filter_id_conv in_set_conv_nth numbered_nth(2))
  moreover have "filter ?P (drop n L) = []"
    using assms by (auto simp: filter_empty_conv in_set_conv_nth numbered_nth(2))
  ultimately show ?thesis by (metis append_take_drop_id append_Nil2 filter_append)
qed

text \<open>What the bus replays between two sequences is that part of the conversation's log.\<close>

definition of_conversation :: "string \<Rightarrow> string \<Rightarrow> SequencedChatEvent \<Rightarrow> bool" where
  "of_conversation t c e = (ee_tenant_id (se_envelope e) = t \<and> ee_conversation_id (se_envelope e) = c)"

lemma replay_is_log_part:
  assumes "numbered L" "k < n" "n \<le> length L"
  shows "filter (in_replay t c (of_nat k + 1) (of_nat n)) L = filter (of_conversation t c) (drop k (take n L))"
proof -
  have n: "n < 2 ^ 64" using assms by (simp add: numbered_def)
  have k: "unat (of_nat k + 1 :: u64) = Suc k"
  proof -
    have "of_nat k + 1 = (of_nat (Suc k) :: u64)" by simp
    moreover have "Suc k < 2 ^ LENGTH(64)" using assms(2) n by simp
    ultimately show ?thesis using unat_of_nat_small [of "Suc k", where ?'n = 64] by presburger
  qed
  have "in_replay t c (of_nat k + 1) (of_nat n) e \<longleftrightarrow>
      of_conversation t c e \<and> unat (sequence_of e) \<le> n \<and> k < unat (sequence_of e)" if "e \<in> set L" for e
  proof -
    obtain i where i: "i < length L" "e = L ! i" using \<open>e \<in> set L\<close> by (auto simp: in_set_conv_nth)
    have "parse_u64_str (se_event_id e) = Some (sequence_of e)"
      using numbered_nth(1) [OF assms(1) i(1)] by (simp add: i(2) sequence_of_def unwrap_or_def parse_event_id_def)
    then show ?thesis
      using k n by (auto simp: in_replay_def of_conversation_def word_le_nat_alt unat_of_nat_small)
  qed
  then have "filter (in_replay t c (of_nat k + 1) (of_nat n)) L =
      filter (\<lambda>e. of_conversation t c e \<and> unat (sequence_of e) \<le> n \<and> k < unat (sequence_of e)) L"
    by (intro filter_cong refl)
  also have "\<dots> = filter (of_conversation t c) (filter (\<lambda>e. k < unat (sequence_of e)) (take n L))"
    unfolding numbered_take [OF assms(1), of n] filter_filter by (simp add: conj_ac)
  also have "filter (\<lambda>e. k < unat (sequence_of e)) (take n L) = drop k (take n L)"
    using assms(1) by (intro numbered_drop [symmetric]) (auto simp: numbered_def)
  finally show ?thesis .
qed

section \<open>The in-memory bus as a port\<close>

text \<open>A process publishes whenever it likes: before each call of the session the environment may
  append events to the log.\<close>

definition log_wf :: "ChatInner \<Rightarrow> bool" where
  "log_wf st = (numbered (ci_event_log st) \<and> ci_next_event_sequence st = of_nat (length (ci_event_log st)))"

definition publisher :: "(ChatInner \<Rightarrow> ChatInner) \<Rightarrow> bool" where
  "publisher e = (\<forall>st. log_wf st \<longrightarrow> log_wf (e st) \<and> (\<exists>new. ci_event_log (e st) = ci_event_log st @ new))"

abbreviation with_bus :: "(ChatInner, 'a) state \<Rightarrow> (ChatInner shared, 'a) state" where
  "with_bus \<equiv> locked (\<lambda>st. st) (\<lambda>st' st. st')"

definition InMemoryChatBus :: "int \<Rightarrow> datetime \<Rightarrow> ChatInner shared ChatBus" where
  "InMemoryChatBus ttl now = \<lparr>
     cb_acquire_lock = (\<lambda>l. with_bus (mem_acquire_lock now l)),
     cb_load_lock = (\<lambda>t c. with_bus (mem_load_lock t c)),
     cb_claim_lock = (\<lambda>t c u w. with_bus (mem_claim_lock ttl now t c u w)),
     cb_mark_lock_terminal = (\<lambda>t c u w upd. with_bus (mem_mark_lock_terminal ttl now t c u w upd)),
     cb_mark_terminal_event_published = (\<lambda>t c u. with_bus (mem_mark_terminal_event_published t c u)),
     cb_request_stop = (\<lambda>t c user. with_bus (mem_request_stop now t c user)),
     cb_stop_requested = (\<lambda>t c u. with_bus (mem_stop_requested now t c u)),
     cb_renew_lock = (\<lambda>t c u w. with_bus (mem_renew_lock ttl now t c u w)),
     cb_release_lock = (\<lambda>t c u. with_bus (mem_release_lock t c u)),
     cb_publish_turn_requested = (\<lambda>cmd. with_bus (mem_publish_turn_requested cmd)),
     cb_progress_turn_requested = (\<lambda>_. ret (Ok ())),
     cb_ack_turn_requested = (\<lambda>_. ret (Ok ())),
     cb_publish_event = (\<lambda>e. with_bus (mem_publish_event e)),
     cb_load_replay_index = (\<lambda>t c. with_bus (mem_load_replay_index t c)),
     cb_replay_events = (\<lambda>t c a b. with_bus (mem_replay_events t c a b)),
     cb_latest_event_sequence = with_bus mem_latest_event_sequence,
     cb_publish_stop = (\<lambda>_ t c u. with_bus (mem_publish_stop t c u))\<rparr>"

definition log_grows :: "ChatInner shared \<Rightarrow> ChatInner shared \<Rightarrow> bool" where
  "log_grows x y = (log_wf (fst x) \<and> (\<forall>e \<in> set (snd x). publisher e) \<longrightarrow>
     log_wf (fst y) \<and> set (snd y) \<subseteq> set (snd x) \<and> (\<exists>new. ci_event_log (fst y) = ci_event_log (fst x) @ new))"

lemma log_grows_env: "log_grows x (env_step x)"
  by (cases x rule: env_step.cases) (auto simp: log_grows_def publisher_def)

lemma publish_keeps_log:
  assumes "log_wf st" "Suc (length (ci_event_log st)) < 2 ^ 64"
  shows "log_wf (snd (run_state (mem_publish_event e) st))"
proof -
  let ?n = "length (ci_event_log st)"
  have eq: "of_nat ?n + 1 = (of_nat (Suc ?n) :: u64)" by simp
  have "Suc ?n < 2 ^ LENGTH(64)" using assms(2) by simp
  then have "show_u64 (of_nat (Suc ?n) :: u64) = show_nat (Suc ?n)"
    unfolding show_u64_def by (subst unat_of_nat_small) auto
  then show ?thesis using assms unfolding log_wf_def numbered_def mem_publish_event_def
    by (simp add: Let_def nth_append less_Suc_eq eq del: of_nat_Suc)
qed

section \<open>Sent frames\<close>

abbreviation sent :: "Session \<Rightarrow> OutFrame list" where
  "sent s \<equiv> ws_written s @ ws_outbound s"

definition event_frames :: "string \<Rightarrow> SequencedChatEvent list \<Rightarrow> OutFrame list" where
  "event_frames c es = map (\<lambda>e. ServerText (WsEvent c (se_event_id e) (ee_event (se_envelope e)))) es"

lemma event_frames_simps [simp]:
  "event_frames c [] = []" "event_frames c (es @ fs) = event_frames c es @ event_frames c fs"
  "event_frames c (e # es) = ServerText (WsEvent c (se_event_id e) (ee_event (se_envelope e))) # event_frames c es"
  by (simp_all add: event_frames_def)

lemma send_server_message_Some:
  "send_server_message capacity m s = Some s' \<Longrightarrow>
    s' = s\<lparr>ws_outbound := ws_outbound s @ [ServerText m]\<rparr>"
  by (auto simp: send_server_message_def send_ws_message_def split: if_splits)

text \<open>The sequence after the events of a list, when they are sent in ascending order.\<close>

fun highest :: "u64 \<Rightarrow> SequencedChatEvent list \<Rightarrow> u64" where
  "highest m [] = m"
| "highest m (e # es) = highest (sequence_of e) es"

lemma send_replay_sends_all:
  assumes "send_replay capacity u c es last_sent s = (True, m, s')"
    and "sorted_wrt (<) (map sequence_of es)" "\<And>e. e \<in> set es \<Longrightarrow> last_sent < sequence_of e"
    and "\<And>e. e \<in> set es \<Longrightarrow> ee_user_id (se_envelope e) = u"
  shows "sent s' = sent s @ event_frames c es \<and> m = highest last_sent es
    \<and> ws_subscriptions s' = ws_subscriptions s \<and> ws_last_sent_sequences s' = ws_last_sent_sequences s"
  using assms
proof (induction es arbitrary: last_sent s)
  case (Cons e es)
  have less: "\<not> sequence_of e \<le> last_sent" using Cons.prems(3) [of e] by simp
  obtain s1 where s1: "send_server_message capacity (WsEvent c (se_event_id e) (ee_event (se_envelope e))) s = Some s1"
    "send_replay capacity u c es (sequence_of e) s1 = (True, m, s')"
    using Cons.prems(1,4) less by (auto simp: Let_def split: if_splits option.splits simp flip: sequence_of_def)
  have "sent s' = sent s1 @ event_frames c es \<and> m = highest (sequence_of e) es
      \<and> ws_subscriptions s' = ws_subscriptions s1 \<and> ws_last_sent_sequences s' = ws_last_sent_sequences s1"
    using Cons.prems(2,4) by (intro Cons.IH [OF s1(2)]) auto
  then show ?case using send_server_message_Some [OF s1(1)] by simp
qed simp

text \<open>Forwarding: of the events of a conversation that the session is subscribed to, in ascending
  order, the ones behind the last sequence sent go out, each once.\<close>

lemma forward_event_run:
  assumes "forward_event capacity auth e s = (True, s')" "of_conversation (au_tenant_id auth) c e"
    and "ee_user_id (se_envelope e) = au_user_id auth" "c \<in> ws_subscriptions s" "ws_last_sent_sequences s c = Some m"
  shows "if sequence_of e \<le> m then s' = s
    else sent s' = sent s @ event_frames c [e] \<and> ws_subscriptions s' = ws_subscriptions s
      \<and> ws_last_sent_sequences s' c = Some (sequence_of e)"
  using assms unfolding forward_event_def of_conversation_def sequence_of_def
  by (auto simp: Let_def unwrap_or_def split: if_splits option.splits dest!: send_server_message_Some)

lemma run_socket_forwards:
  assumes "run_state (run_socket capacity bus repo subscribe auth (map SocketEvent es) s) w = ((True, s'), w')"
    and "sorted_wrt (<) (map sequence_of es)"
    and "\<And>e. e \<in> set es \<Longrightarrow> of_conversation (au_tenant_id auth) c e \<and> ee_user_id (se_envelope e) = au_user_id auth"
    and "c \<in> ws_subscriptions s" "ws_last_sent_sequences s c = Some m"
  shows "sent s' = sent s @ event_frames c (filter (\<lambda>e. m < sequence_of e) es)"
  using assms
proof (induction es arbitrary: s m)
  case (Cons e es)
  obtain s1 where s1: "forward_event capacity auth e s = (True, s1)"
    "run_state (run_socket capacity bus repo subscribe auth (map SocketEvent es) s1) w = ((True, s'), w')"
    using Cons.prems(1) by (auto simp: socket_step_def split: prod.splits if_splits)
  have step: "if sequence_of e \<le> m then s1 = s
    else sent s1 = sent s @ event_frames c [e] \<and> ws_subscriptions s1 = ws_subscriptions s
      \<and> ws_last_sent_sequences s1 c = Some (sequence_of e)"
    using Cons.prems(3-5) by (intro forward_event_run [OF s1(1)]) auto
  show ?case
  proof (cases "sequence_of e \<le> m")
    case True
    then show ?thesis using step Cons.prems(2-5) Cons.IH [of s m] s1(2) by auto
  next
    case False
    have after: "\<And>x. x \<in> set es \<Longrightarrow> sequence_of e < sequence_of x" using Cons.prems(2) by auto
    moreover have m: "m < sequence_of e" using False by simp
    ultimately have "filter (\<lambda>x. m < sequence_of x) es = es" "filter (\<lambda>x. sequence_of e < sequence_of x) es = es"
      by (auto simp: filter_id_conv intro: less_trans [OF m])
    moreover have "sent s' = sent s1 @ event_frames c (filter (\<lambda>x. sequence_of e < sequence_of x) es)"
      using step False Cons.prems(2-4) by (intro Cons.IH [OF s1(2)]) auto
    ultimately show ?thesis using step False by simp
  qed
qed simp

lemma highest_bounds:
  assumes "sorted_wrt (<) (map sequence_of es)" "\<And>e. e \<in> set es \<Longrightarrow> m < sequence_of e"
  shows "m \<le> highest m es" "e \<in> set es \<Longrightarrow> sequence_of e \<le> highest m es"
    "highest m es \<in> insert m (sequence_of ` set es)"
  using assms
proof (induction es arbitrary: m e)
  case (Cons x es)
  {
    case 1
    then show ?case using Cons.IH(1) [of "sequence_of x"] by force
  next
    case 2
    then show ?case using Cons.IH(1) [of "sequence_of x"] Cons.IH(2) [of e "sequence_of x"] by auto
  next
    case 3
    then show ?case using Cons.IH(3) [of "sequence_of x"] by auto
  }
qed simp_all

section \<open>Resuming a conversation\<close>

lemma on_bus_read:
  assumes "run_state m (fst (env_step x)) = (a, fst (env_step x))"
  shows "run_state (with_bus m) x = (a, env_step x)"
  using assms by (cases "env_step x") (simp add: locked_def)

lemma log_grows_step:
  assumes "log_wf (fst x)" "\<forall>e \<in> set (snd x). publisher e"
  shows "log_wf (fst (env_step x))" "\<forall>e \<in> set (snd (env_step x)). publisher e"
    "\<exists>new. ci_event_log (fst (env_step x)) = ci_event_log (fst x) @ new"
  using log_grows_env [of x] assms unfolding log_grows_def by auto

lemma replay_range_open:
  assumes "ri_current_turn ix = Some cur" "rt_end_seq cur = None" "rt_start_seq cur \<le> of_nat k"
    and "k \<le> n" "n < 2 ^ 64"
  shows "replay_range ix (Some (show_nat k)) conversation (of_nat n) =
    Ok (if n \<le> k then None else Some \<lparr>rr_start_seq = of_nat k + 1, rr_end_seq = of_nat n,
      rr_last_seen_sequence = of_nat k, rr_required_start_seq = None, rr_required_end_seq = None\<rparr>)"
proof -
  have "(of_nat n :: u64) \<le> of_nat k \<longleftrightarrow> n \<le> k" "(of_nat k :: u64) \<le> of_nat n"
    using assms(4,5) by (simp_all add: word_le_nat_alt unat_of_nat_small)
  moreover have "parse_event_id (show_nat k) = Some (of_nat k)"
    using assms(4,5) by (simp add: parse_event_id_def parse_u64_show_nat)
  ultimately show ?thesis using assms(1-3)
    by (simp add: replay_range_def turn_contains_sequence_def unwrap_or_def resume_range_def)
qed

lemma InMemoryChatBus_reads:
  "run_state (cb_load_replay_index (InMemoryChatBus ttl now) t c) x = (Ok (ci_replay (fst (env_step x)) (lock_key t c)), env_step x)"
  "run_state (cb_latest_event_sequence (InMemoryChatBus ttl now)) x = (Ok (ci_next_event_sequence (fst (env_step x))), env_step x)"
  "run_state (cb_replay_events (InMemoryChatBus ttl now) t c a b) x =
     (Ok (filter (in_replay t c a b) (ci_event_log (fst (env_step x)))), env_step x)"
  unfolding InMemoryChatBus_def
  by (simp_all add: mem_load_replay_index_def mem_latest_event_sequence_def mem_replay_events_def on_bus_read)

lemma open_turn_plan:
  assumes "log_wf st" "\<forall>e \<in> set es. publisher e" "k \<le> length (ci_event_log st)"
    and ix: "ci_replay (fst (env_step (st, es))) (lock_key t c) = Some ix"
    and cur: "ri_current_turn ix = Some cur" "rt_end_seq cur = None" "rt_start_seq cur \<le> of_nat k"
  obtains n st' es' where
    "run_state (build_replay_plan (InMemoryChatBus ttl now) t c (Some (show_nat k)) conversation) (st, es) =
      (Ok \<lparr>rp_events = filter (of_conversation t c) (drop k (take n (ci_event_log st'))), rp_last_seen_sequence = of_nat k\<rparr>, (st', es'))"
    "log_wf st'" "\<exists>new. ci_event_log st' = ci_event_log st @ new" "length (ci_event_log st) \<le> n" "n \<le> length (ci_event_log st')"
proof -
  define x1 x2 x3 where "x1 = env_step (st, es)" and "x2 = env_step x1" and "x3 = env_step x2"
  let ?L = "\<lambda>x. ci_event_log (fst x)"
  have x1: "log_wf (fst x1)" "\<forall>e \<in> set (snd x1). publisher e" "\<exists>new. ?L x1 = ci_event_log st @ new"
    using log_grows_step [of "(st, es)", unfolded fst_conv snd_conv, OF assms(1,2)] unfolding x1_def by - assumption+
  have x2: "log_wf (fst x2)" "\<forall>e \<in> set (snd x2). publisher e" "\<exists>new. ?L x2 = ?L x1 @ new"
    using log_grows_step [OF x1(1,2)] unfolding x2_def by - assumption+
  have x3: "log_wf (fst x3)" "\<exists>new. ?L x3 = ?L x2 @ new"
    using log_grows_step [OF x2(1,2)] unfolding x3_def by - assumption+
  define n where "n = length (?L x2)"
  have n: "length (ci_event_log st) \<le> n" "k \<le> n" "n < 2 ^ 64"
  proof -
    have "numbered (?L x2)" using x2(1) by (simp add: log_wf_def)
    then show "n < 2 ^ 64" by (simp add: numbered_def n_def)
    show "length (ci_event_log st) \<le> n" using x1(3) x2(3) by (auto simp: n_def)
    then show "k \<le> n" using assms(3) by simp
  qed
  have grow: "\<exists>new. ?L x2 = ci_event_log st @ new" "\<exists>new. ?L x3 = ci_event_log st @ new" "n \<le> length (?L x3)"
    using x1(3) x2(3) x3(2) by (auto simp: n_def)
  have reads: "run_state (cb_load_replay_index (InMemoryChatBus ttl now) t c) (st, es) = (Ok (Some ix), x1)"
    "run_state (cb_latest_event_sequence (InMemoryChatBus ttl now)) x1 = (Ok (of_nat n), x2)"
    "run_state (cb_replay_events (InMemoryChatBus ttl now) t c a b) x2 = (Ok (filter (in_replay t c a b) (?L x3)), x3)" for a b
    using ix x2(1) by (simp_all add: InMemoryChatBus_reads log_wf_def n_def flip: x1_def x2_def x3_def)
  note rng = replay_range_open [OF cur n(2,3), of conversation]
  show thesis
  proof (cases "n \<le> k")
    case True
    have "parse_event_id (show_nat k) = Some (of_nat k)" using n parse_u64_show_nat [of k] by (simp add: parse_event_id_def)
    then have "run_state (build_replay_plan (InMemoryChatBus ttl now) t c (Some (show_nat k)) conversation) (st, es) =
        (Ok \<lparr>rp_events = filter (of_conversation t c) (drop k (take n (?L x2))), rp_last_seen_sequence = of_nat k\<rparr>, x2)"
      using True rng reads(1,2) by (simp add: build_replay_plan_def Let_def run_state_attempt unwrap_or_def)
    then show ?thesis using grow(1) n(1) x2(1) by (intro that [of n "fst x2" "snd x2"]) (simp_all add: n_def)
  next
    case False
    have part: "filter (in_replay t c (of_nat k + 1) (of_nat n)) (?L x3) = filter (of_conversation t c) (drop k (take n (?L x3)))"
      using False grow(3) x3(1) by (intro replay_is_log_part) (simp_all add: log_wf_def)
    have "run_state (build_replay_plan (InMemoryChatBus ttl now) t c (Some (show_nat k)) conversation) (st, es) =
        (Ok \<lparr>rp_events = filter (of_conversation t c) (drop k (take n (?L x3))), rp_last_seen_sequence = of_nat k\<rparr>, x3)"
      using False rng reads part
      by (simp add: build_replay_plan_def Let_def run_state_attempt replay_is_incomplete_def)
    then show ?thesis using grow(2,3) n(1) x3(1) by (intro that [of n "fst x3" "snd x3"]) simp_all
  qed
qed

text \<open>Replay up to position \<open>n\<close> and live events from an earlier position on fit together.\<close>

lemma replay_meets_live:
  assumes L: "numbered L" "k \<le> n" "n \<le> length L" "n0 \<le> n"
    and R: "R = filter P (drop k (take n L))" and m: "m = highest (of_nat k) R"
  shows "R @ filter (\<lambda>e. m < sequence_of e) (filter P (drop n0 L)) = filter P (drop k L)"
    and "sorted_wrt (<) (map sequence_of R)" and "\<And>e. e \<in> set R \<Longrightarrow> of_nat k < sequence_of e"
proof -
  have bound: "k < 2 ^ 64" "n < 2 ^ 64" using L by (auto simp: numbered_def)
  have uk: "unat (of_nat k :: u64) = k" using bound(1) by (simp add: unat_of_nat_small)
  have inR: "e \<in> set R \<longleftrightarrow> e \<in> set L \<and> P e \<and> k < unat (sequence_of e) \<and> unat (sequence_of e) \<le> n" for e
  proof -
    have "numbered (take n L)" using L(1) by (auto simp: numbered_def)
    then show ?thesis by (auto simp: R numbered_drop numbered_take [OF L(1)])
  qed
  show sorted: "sorted_wrt (<) (map sequence_of R)"
    unfolding R sorted_wrt_map using numbered_sorted [OF L(1)]
    by (intro sorted_wrt_filter sorted_wrt_drop sorted_wrt_take) (simp add: sorted_wrt_map)
  show above: "of_nat k < sequence_of e" if "e \<in> set R" for e
    using that inR uk by (simp add: word_less_nat_alt)
  note high = highest_bounds [OF sorted above, folded m]
  have "unat m \<le> n" using high(3) inR uk L(2) by auto
  have same: "m < sequence_of e \<and> n0 < unat (sequence_of e) \<longleftrightarrow> n < unat (sequence_of e)"
    if "e \<in> set L" "P e" for e
  proof
    assume less: "m < sequence_of e \<and> n0 < unat (sequence_of e)"
    have "k < unat (sequence_of e)" using less high(1) uk by (simp add: word_less_nat_alt word_le_nat_alt)
    then show "n < unat (sequence_of e)" using inR [of e] that high(2) [of e] less by fastforce
  next
    assume "n < unat (sequence_of e)"
    then show "m < sequence_of e \<and> n0 < unat (sequence_of e)"
      using \<open>unat m \<le> n\<close> L(4) by (simp add: word_less_nat_alt)
  qed
  have "filter (\<lambda>e. m < sequence_of e) (filter P (drop n0 L)) = filter P (drop n L)"
    unfolding numbered_drop [OF L(1)] filter_filter using same by (intro filter_cong) auto
  moreover have "drop k L = drop k (take n L) @ drop n L"
    using L(2,3) drop_append [of k "take n L" "drop n L"] by (simp add: min_absorb2)
  ultimately show "R @ filter (\<lambda>e. m < sequence_of e) (filter P (drop n0 L)) = filter P (drop k L)"
    by (simp add: R)
qed

lemma start_replay_run:
  assumes "start_replay capacity auth c plan s = (True, s')"
    and "sorted_wrt (<) (map sequence_of (rp_events plan))"
    and "\<And>e. e \<in> set (rp_events plan) \<Longrightarrow> rp_last_seen_sequence plan < sequence_of e"
    and "\<And>e. e \<in> set (rp_events plan) \<Longrightarrow> ee_user_id (se_envelope e) = au_user_id auth"
  shows "sent s' = sent s @ ServerText (Subscribed c) # event_frames c (rp_events plan)
    \<and> ws_subscriptions s' = ws_subscriptions s
    \<and> ws_last_sent_sequences s' c = Some (highest (rp_last_seen_sequence plan) (rp_events plan))"
proof -
  obtain s1 m s2 where s1: "send_server_message capacity (Subscribed c) s = Some s1"
    and run: "send_replay capacity (au_user_id auth) c (rp_events plan) (rp_last_seen_sequence plan) s1 = (True, m, s2)"
    and s': "s' = s2\<lparr>ws_last_sent_sequences := (ws_last_sent_sequences s2)(c \<mapsto> m)\<rparr>"
    using assms(1) by (auto simp: start_replay_def split: option.splits prod.splits bool.splits)
  from send_replay_sends_all [OF run assms(2-4)] show ?thesis
    using send_server_message_Some [OF s1] by (simp add: s')
qed

text \<open>C15. A client that reconnects while a turn is running misses nothing and sees nothing twice. It names
  the last event it saw; the session answers with a replay and then forwards the live events of its
  subscription, which began at some earlier point of the log. However the publishers interleave with
  the reads of the replay, what the client is sent is exactly the conversation's log behind the event
  it named, in order. The session lives on, that is, its queue never ran full.\<close>

theorem resumed_client_misses_nothing:
  assumes log: "log_wf st" "\<forall>e \<in> set es. publisher e" "k \<le> length (ci_event_log st)" "n0 \<le> length (ci_event_log st)"
    and index: "ci_replay (fst (env_step (st, es))) (lock_key (au_tenant_id auth) c) = Some ix"
      "ri_current_turn ix = Some cur" "rt_end_seq cur = None" "rt_start_seq cur \<le> of_nat k"
    and others: "run_state (cr_get_conversation repo (au_tenant_id auth) (au_user_id auth) c) (st, es) = (Ok conversation, (st, es))"
      "run_state (subscribe (au_tenant_id auth) c) (st, es) = (Ok (), (st, es))"
    and resume: "run_state (handle_client_message capacity (InMemoryChatBus ttl now) repo subscribe auth
        (Some (SubscribeConversation c (Some (show_nat k)))) s) (st, es) = ((True, s1), (st1, es1))"
    and later: "log_wf st2" "ci_event_log st2 = ci_event_log st1 @ new"
      "\<forall>e \<in> set (ci_event_log st2). of_conversation (au_tenant_id auth) c e \<longrightarrow> ee_user_id (se_envelope e) = au_user_id auth"
    and live: "run_state (run_socket capacity bus repo subscribe auth
        (map SocketEvent (filter (of_conversation (au_tenant_id auth) c) (drop n0 (ci_event_log st2)))) s1) w = ((True, s2), w')"
  shows "sent s2 = sent s @ ServerText (Subscribed c)
    # event_frames c (filter (of_conversation (au_tenant_id auth) c) (drop k (ci_event_log st2)))"
proof -
  let ?t = "au_tenant_id auth"
  let ?P = "of_conversation ?t c" and ?L = "ci_event_log st2"
  let ?s = "s\<lparr>ws_subscriptions := insert c (ws_subscriptions s)\<rparr>"
  obtain n st' es' where plan: "run_state (build_replay_plan (InMemoryChatBus ttl now) ?t c (Some (show_nat k)) conversation) (st, es) =
      (Ok \<lparr>rp_events = filter ?P (drop k (take n (ci_event_log st'))), rp_last_seen_sequence = of_nat k\<rparr>, (st', es'))"
    and n: "length (ci_event_log st) \<le> n" "n \<le> length (ci_event_log st')"
    by (rule open_turn_plan [OF log(1-3) index, where ttl = ttl and now = now and conversation = conversation])
  define R where "R = filter ?P (drop k (take n ?L))"
  have st': "st' = st1" and start: "start_replay capacity auth c \<lparr>rp_events = filter ?P (drop k (take n (ci_event_log st'))),
      rp_last_seen_sequence = of_nat k\<rparr> ?s = (True, s1)"
    using resume others plan by (auto simp: handle_client_message_def Let_def split: if_splits)
  then have R: "R = filter ?P (drop k (take n (ci_event_log st')))" using n(2) later(2) by (simp add: R_def)
  have L: "numbered ?L" "k \<le> n" "n \<le> length ?L" "n0 \<le> n" using later n log st' by (auto simp: log_wf_def)
  note meet = replay_meets_live [OF L R_def refl]
  have own: "ee_user_id (se_envelope e) = au_user_id auth" if "e \<in> set R" for e
    using that later(3) by (auto simp: R_def dest: in_set_dropD in_set_takeD)
  have s1: "sent s1 = sent s @ ServerText (Subscribed c) # event_frames c R" "c \<in> ws_subscriptions s1"
    "ws_last_sent_sequences s1 c = Some (highest (of_nat k) R)"
    using start_replay_run [OF start] meet(2,3) own by (simp_all flip: R)
  have "sent s2 = sent s1 @ event_frames c (filter (\<lambda>e. highest (of_nat k) R < sequence_of e) (filter ?P (drop n0 ?L)))"
  proof (rule run_socket_forwards [OF live _ _ s1(2,3)])
    show "sorted_wrt (<) (map sequence_of (filter ?P (drop n0 ?L)))"
      unfolding sorted_wrt_map using numbered_sorted [OF L(1)]
      by (intro sorted_wrt_filter sorted_wrt_drop) (simp add: sorted_wrt_map)
    show "?P e \<and> ee_user_id (se_envelope e) = au_user_id auth" if "e \<in> set (filter ?P (drop n0 ?L))" for e
      using that later(3) by (auto dest: in_set_dropD)
  qed
  then show ?thesis using meet(1) s1(1) by (simp flip: event_frames_simps(2))
qed

text \<open>A turn with three events; the client saw the first one and another event is published while the
  session prepares the replay.\<close>

definition sample_event :: "ChatEvent \<Rightarrow> ChatEventEnvelope" where
  "sample_event e = \<lparr>ee_v = CONTRACT_VERSION, ee_tenant_id = ''t'', ee_user_id = ''u'', ee_conversation_id = ''c'',
     ee_turn_id = ''k'', ee_ts = 0, ee_event = e\<rparr>"

definition publish_if_room :: "ChatEventEnvelope \<Rightarrow> ChatInner \<Rightarrow> ChatInner" where
  "publish_if_room e st = (if ci_next_event_sequence st = - 1 then st else snd (run_state (mem_publish_event e) st))"

lemma publish_if_room_publisher: "publisher (publish_if_room e)"
  unfolding publisher_def
proof (intro allI impI)
  fix st
  assume wf: "log_wf st"
  let ?n = "length (ci_event_log st)"
  have "Suc ?n < 2 ^ 64" if "ci_next_event_sequence st \<noteq> - 1"
  proof (rule ccontr)
    assume "\<not> Suc ?n < 2 ^ 64"
    then have "Suc ?n = 2 ^ 64" using wf by (simp add: log_wf_def numbered_def)
    then have "(of_nat (Suc ?n) :: u64) = of_nat (2 ^ LENGTH(64))" by simp
    then have "(of_nat ?n :: u64) + 1 = 0" by (simp only: of_nat_Suc word_of_nat_eq_0_iff) simp
    then show False using that wf by (simp add: log_wf_def eq_neg_iff_add_eq_0)
  qed
  then show "log_wf (publish_if_room e st) \<and> (\<exists>new. ci_event_log (publish_if_room e st) = ci_event_log st @ new)"
    using wf publish_keeps_log [OF wf, of e]
    by (auto simp: publish_if_room_def) (simp add: mem_publish_event_def Let_def)
qed

definition sample_user :: AuthUser where
  "sample_user = \<lparr>au_user_id = ''u'', au_tenant_id = ''t'', au_email = None, au_roles = []\<rparr>"

definition sample_log :: ChatInner where
  "sample_log = foldr publish_if_room (map sample_event [TextDelta ''b'', TextDelta ''a'', TurnStarted ''k'']) default_ChatInner"

definition sample_detail :: ConversationDetail where
  "sample_detail = \<lparr>cd_id = ''c'', cd_title = ''New chat'', cd_messages = [], cd_updated_at = 0\<rparr>"

definition sample_repo :: "ChatInner shared ChatRepository" where
  "sample_repo = \<lparr>cr_list_conversations = (\<lambda>_ _. ret (Ok [])), cr_create_conversation = (\<lambda>_ _ _. ret (Err StForbidden)),
     cr_get_conversation = (\<lambda>_ _ _. ret (Ok sample_detail)), cr_rename_conversation = (\<lambda>_ _ _ _. ret (Err StForbidden)),
     cr_rename_conversation_if_default = (\<lambda>_ _ _ _. ret (Err StForbidden)),
     cr_delete_conversation = (\<lambda>_ _ _. ret (Err StForbidden)), cr_assert_parent_tail = (\<lambda>_ _ _ _. ret (Ok ())),
     cr_record_turn_failed = (\<lambda>_ _ _ _ _. ret (Ok ())), cr_commit_turn = (\<lambda>_ _ _ _. ret (Err StForbidden)),
     cr_commit_interrupted_turn = (\<lambda>_ _ _ _. ret (Err StForbidden))\<rparr>"

definition sample_resume :: "(bool \<times> Session) \<times> ChatInner shared" where
  "sample_resume = run_state (handle_client_message 16 (InMemoryChatBus 900 0) sample_repo (\<lambda>_ _. ret (Ok ())) sample_user
     (Some (SubscribeConversation ''c'' (Some (show_nat 1)))) new_session) (sample_log, [id, publish_if_room (sample_event (TextDelta ''d''))])"

definition sample_live :: "(bool \<times> Session) \<times> ChatInner shared" where
  "sample_live = run_state (run_socket 16 (InMemoryChatBus 900 0) sample_repo (\<lambda>_ _. ret (Ok ())) sample_user
     (map SocketEvent (filter (of_conversation ''t'' ''c'') (drop 2 (ci_event_log (fst (snd sample_resume))))))
     (snd (fst sample_resume))) (snd sample_resume)"

definition sample_index :: ReplayIndex where
  "sample_index = \<lparr>ri_previous_turn = None, ri_current_turn = Some \<lparr>rt_turn_id = ''k'', rt_start_seq = 1, rt_end_seq = None\<rparr>\<rparr>"

lemma log_wf_foldr: "log_wf st \<Longrightarrow> log_wf (foldr publish_if_room es st)"
  using publish_if_room_publisher by (induction es) (auto simp: publisher_def)

lemma log_wf_sample: "log_wf (foldr publish_if_room es default_ChatInner)"
  by (rule log_wf_foldr) (simp add: log_wf_def numbered_def default_ChatInner_def)

definition sample_later :: ChatInner where
  "sample_later = publish_if_room (sample_event (TextDelta ''d'')) sample_log"

lemma sample_later_log:
  "ci_event_log (fst (snd sample_resume)) = ci_event_log sample_later"
  "\<forall>e \<in> set (ci_event_log sample_later). ee_user_id (se_envelope e) = ''u''"
  "event_frames ''c'' (filter (of_conversation ''t'' ''c'') (drop 1 (ci_event_log sample_later))) =
     [ServerText (WsEvent ''c'' ''2'' (TextDelta ''a'')), ServerText (WsEvent ''c'' ''3'' (TextDelta ''b'')),
      ServerText (WsEvent ''c'' ''4'' (TextDelta ''d''))]"
  "ci_replay sample_log ''t/c'' = Some sample_index" "length (ci_event_log sample_log) = 3"
  by code_simp+

lemma sample_runs: "fst (fst sample_resume)" "fst (fst sample_live)"
  by code_simp+

theorem resumed_client_misses_nothing_witness:
  "sent (snd (fst sample_live)) = [ServerText (Subscribed ''c''), ServerText (WsEvent ''c'' ''2'' (TextDelta ''a'')),
     ServerText (WsEvent ''c'' ''3'' (TextDelta ''b'')), ServerText (WsEvent ''c'' ''4'' (TextDelta ''d''))]"
proof -
  obtain s1 st1 es1 where r: "sample_resume = ((True, s1), (st1, es1))"
    using sample_runs(1) by (metis (full_types) prod.collapse)
  obtain s2 w' where l: "sample_live = ((True, s2), w')"
    using sample_runs(2) by (metis (full_types) prod.collapse)
  have wf: "log_wf sample_later" "log_wf sample_log"
    using log_wf_sample [of "map sample_event [TextDelta ''d'', TextDelta ''b'', TextDelta ''a'', TurnStarted ''k'']"]
      log_wf_sample [of "map sample_event [TextDelta ''b'', TextDelta ''a'', TurnStarted ''k'']"]
    by (simp_all add: sample_later_def sample_log_def)
  have env: "\<forall>e \<in> set [id, publish_if_room (sample_event (TextDelta ''d''))]. publisher e"
    using publish_if_room_publisher by (simp add: publisher_def)
  note resume = r [unfolded sample_resume_def]
  have log: "ci_event_log sample_later = ci_event_log st1" using sample_later_log(1) by (simp add: r)
  have live: "run_state (run_socket 16 (InMemoryChatBus 900 0) sample_repo (\<lambda>_ _. ret (Ok ())) sample_user
     (map SocketEvent (filter (of_conversation (au_tenant_id sample_user) ''c'') (drop 2 (ci_event_log sample_later)))) s1) (st1, es1)
     = ((True, s2), w')"
    using l sample_later_log(1) by (simp add: sample_live_def r sample_user_def)
  have "sent s2 = sent new_session @ ServerText (Subscribed ''c'')
      # event_frames ''c'' (filter (of_conversation (au_tenant_id sample_user) ''c'') (drop 1 (ci_event_log sample_later)))"
    by (rule resumed_client_misses_nothing [OF wf(2) env _ _ _ _ _ _ _ _ resume wf(1) _ _ live,
          where ix = sample_index and cur = "\<lparr>rt_turn_id = ''k'', rt_start_seq = 1, rt_end_seq = None\<rparr>" and new = "[]"])
      (use log sample_later_log(2,4,5) in \<open>simp_all add: sample_user_def sample_index_def sample_repo_def lock_key_def\<close>)
  then show ?thesis using sample_later_log(3) by (simp add: l new_session_def sample_user_def)
qed

end
