(* ===== verification/Chat_Repository.thy ===== *)
theory Chat_Repository
  imports Chat
begin

text \<open>
  \<open>MemoryChatRepository\<close> of crates/storage/src/lib.rs. The clock reading and the fresh ULID an
  operation takes are its first arguments; the order in which a \<open>HashMap\<close> yields its values is an
  argument of the listing. The theorems: whatever operations are applied, the messages of every
  conversation form one chain from its first message to its last, and a caller neither reads nor
  changes a conversation of somebody else.
\<close>

section \<open>State and operations\<close>

record StoredConversation =
  sc_id :: string
  sc_tenant_id :: string
  sc_user_id :: string
  sc_title :: string
  sc_updated_at :: datetime
  sc_deleted_at :: "datetime option"
  sc_next_message_ordinal :: u64
  sc_messages :: "MessageDto list"

type_synonym MemoryState = "string \<rightharpoonup> StoredConversation"

definition visible_to :: "StoredConversation \<Rightarrow> string \<Rightarrow> string \<Rightarrow> bool" where
  "visible_to row tenant_id user_id =
     (sc_deleted_at row = None \<and> sc_tenant_id row = tenant_id \<and> sc_user_id row = user_id)"

definition ensure_visible :: "StoredConversation \<Rightarrow> string \<Rightarrow> string \<Rightarrow> (unit, StorageError) result" where
  "ensure_visible row tenant_id user_id =
     (if visible_to row tenant_id user_id then Ok ()
      else if sc_tenant_id row = tenant_id then Err StForbidden
      else Err StNotFound)"

definition to_detail :: "StoredConversation \<Rightarrow> ConversationDetail" where
  "to_detail row = \<lparr>cd_id = sc_id row, cd_title = sc_title row, cd_messages = sc_messages row,
     cd_updated_at = sc_updated_at row\<rparr>"

text \<open>Every operation on one conversation starts alike: look the row up, check who asks, then go on
  with the row.\<close>

definition with_visible_row ::
  "string \<Rightarrow> string \<Rightarrow> string \<Rightarrow> (StoredConversation \<Rightarrow> ('a, StorageError) result \<times> StoredConversation) \<Rightarrow>
     (MemoryState, ('a, StorageError) result) state" where
  "with_visible_row tenant_id user_id conversation_id f = State (\<lambda>st. case st conversation_id of
      None \<Rightarrow> (Err StNotFound, st)
    | Some row \<Rightarrow> (case ensure_visible row tenant_id user_id of
        Err e \<Rightarrow> (Err e, st)
      | Ok _ \<Rightarrow> (case f row of (r, row') \<Rightarrow> (r, st(conversation_id \<mapsto> row')))))"

definition summary_of :: "StoredConversation \<Rightarrow> ConversationSummary" where
  "summary_of row = \<lparr>cs_id = sc_id row, cs_title = sc_title row, cs_updated_at = sc_updated_at row\<rparr>"

definition repo_list_conversations ::
  "string list \<Rightarrow> string \<Rightarrow> string \<Rightarrow> (MemoryState, (ConversationSummary list, StorageError) result) state" where
  "repo_list_conversations order tenant_id user_id = State (\<lambda>st.
     (Ok (sort_key (\<lambda>row. - cs_updated_at row)
        (map summary_of (filter (\<lambda>row. visible_to row tenant_id user_id) (List.map_filter st order)))), st))"

definition repo_create_conversation ::
  "datetime \<Rightarrow> string \<Rightarrow> string \<Rightarrow> string \<Rightarrow> string option \<Rightarrow> (MemoryState, (ConversationDetail, StorageError) result) state" where
  "repo_create_conversation now ulid tenant_id user_id title = State (\<lambda>st.
     let row = \<lparr>sc_id = ulid, sc_tenant_id = tenant_id, sc_user_id = user_id,
       sc_title = (case title of Some t \<Rightarrow> t | None \<Rightarrow> ''New chat''), sc_updated_at = now, sc_deleted_at = None,
       sc_next_message_ordinal = 1, sc_messages = []\<rparr>
     in (Ok (to_detail row), st(ulid \<mapsto> row)))"

definition repo_get_conversation ::
  "string \<Rightarrow> string \<Rightarrow> string \<Rightarrow> (MemoryState, (ConversationDetail, StorageError) result) state" where
  "repo_get_conversation tenant_id user_id conversation_id =
     with_visible_row tenant_id user_id conversation_id (\<lambda>row. (Ok (to_detail row), row))"

definition repo_rename_conversation ::
  "datetime \<Rightarrow> string \<Rightarrow> string \<Rightarrow> string \<Rightarrow> string \<Rightarrow> (MemoryState, (ConversationDetail, StorageError) result) state" where
  "repo_rename_conversation now tenant_id user_id conversation_id title =
     with_visible_row tenant_id user_id conversation_id (\<lambda>row.
       let row = row\<lparr>sc_title := title, sc_updated_at := now\<rparr> in (Ok (to_detail row), row))"

definition repo_rename_conversation_if_default ::
  "datetime \<Rightarrow> string \<Rightarrow> string \<Rightarrow> string \<Rightarrow> string \<Rightarrow> (MemoryState, (ConversationDetail option, StorageError) result) state" where
  "repo_rename_conversation_if_default now tenant_id user_id conversation_id title =
     with_visible_row tenant_id user_id conversation_id (\<lambda>row.
       if sc_title row \<noteq> ''New chat'' then (Ok None, row)
       else (let row = row\<lparr>sc_title := title, sc_updated_at := now\<rparr> in (Ok (Some (to_detail row)), row)))"

definition repo_delete_conversation ::
  "datetime \<Rightarrow> string \<Rightarrow> string \<Rightarrow> string \<Rightarrow> (MemoryState, (unit, StorageError) result) state" where
  "repo_delete_conversation now tenant_id user_id conversation_id =
     with_visible_row tenant_id user_id conversation_id (\<lambda>row. (Ok (), row\<lparr>sc_deleted_at := Some now\<rparr>))"

definition message_tail :: "MessageDto list \<Rightarrow> string option" where
  "message_tail messages = (if messages = [] then None else Some (md_id (List.last messages)))"

definition repo_assert_parent_tail ::
  "string \<Rightarrow> string \<Rightarrow> string \<Rightarrow> string option \<Rightarrow> (MemoryState, (unit, StorageError) result) state" where
  "repo_assert_parent_tail tenant_id user_id conversation_id parent_message_id =
     with_visible_row tenant_id user_id conversation_id (\<lambda>row.
       (if message_tail (sc_messages row) = parent_message_id then Ok () else Err StStaleParent, row))"

definition repo_record_turn_failed ::
  "string \<Rightarrow> string \<Rightarrow> string \<Rightarrow> string \<Rightarrow> string \<Rightarrow> (MemoryState, (unit, StorageError) result) state" where
  "repo_record_turn_failed tenant_id user_id conversation_id turn_id error =
     with_visible_row tenant_id user_id conversation_id (\<lambda>row. (Ok (), row))"

text \<open>\<open>iter().position(..)\<close>.\<close>

fun position :: "('a \<Rightarrow> bool) \<Rightarrow> 'a list \<Rightarrow> nat option" where
  "position P [] = None"
| "position P (x # xs) = (if P x then Some 0 else map_option Suc (position P xs))"

definition retain_len :: "string option \<Rightarrow> MessageDto list \<Rightarrow> nat option" where
  "retain_len parent_message_id messages = (case parent_message_id of
      Some parent_id \<Rightarrow> map_option Suc (position (\<lambda>m. md_id m = parent_id) messages)
    | None \<Rightarrow> Some 0)"

definition user_message :: "datetime \<Rightarrow> TurnCommit \<Rightarrow> MessageDto" where
  "user_message now turn = \<lparr>md_id = tc_user_message_id turn, md_role = RoleUser, md_content = tc_user_text turn,
     md_parent_message_id = tc_parent_message_id turn, md_citations = [], md_turn_id = Some (tc_turn_id turn),
     md_interrupted = False, md_finish_reason = None, md_created_at = now\<rparr>"

definition assistant_message :: "datetime \<Rightarrow> TurnCommit \<Rightarrow> bool \<Rightarrow> string option \<Rightarrow> MessageDto" where
  "assistant_message now turn interrupted finish_reason = \<lparr>md_id = tc_assistant_message_id turn, md_role = RoleAssistant,
     md_content = tc_assistant_text turn, md_parent_message_id = Some (tc_user_message_id turn),
     md_citations = tc_citations turn, md_turn_id = Some (tc_turn_id turn), md_interrupted = interrupted,
     md_finish_reason = finish_reason, md_created_at = now\<rparr>"

definition commit_turn_with_metadata ::
  "datetime \<Rightarrow> string \<Rightarrow> string \<Rightarrow> string \<Rightarrow> TurnCommit \<Rightarrow> bool \<Rightarrow> string option \<Rightarrow>
     (MemoryState, (ConversationDetail, StorageError) result) state" where
  "commit_turn_with_metadata now tenant_id user_id conversation_id turn interrupted finish_reason =
     with_visible_row tenant_id user_id conversation_id (\<lambda>row.
       case retain_len (tc_parent_message_id turn) (sc_messages row) of
         None \<Rightarrow> (Err StStaleParent, row)
       | Some n \<Rightarrow>
           (let messages = take n (sc_messages row) @ [user_message now turn, assistant_message now turn interrupted finish_reason];
                row = row\<lparr>sc_messages := messages, sc_updated_at := now,
                  sc_next_message_ordinal := of_nat (length messages) + 1\<rparr>
            in (Ok (to_detail row), row)))"

definition repo_commit_turn ::
  "datetime \<Rightarrow> string \<Rightarrow> string \<Rightarrow> string \<Rightarrow> TurnCommit \<Rightarrow> (MemoryState, (ConversationDetail, StorageError) result) state" where
  "repo_commit_turn now tenant_id user_id conversation_id turn =
     commit_turn_with_metadata now tenant_id user_id conversation_id turn False None"

definition repo_commit_interrupted_turn ::
  "datetime \<Rightarrow> string \<Rightarrow> string \<Rightarrow> string \<Rightarrow> TurnCommit \<Rightarrow> (MemoryState, (ConversationDetail, StorageError) result) state" where
  "repo_commit_interrupted_turn now tenant_id user_id conversation_id turn =
     commit_turn_with_metadata now tenant_id user_id conversation_id turn True (Some ''user_interrupted'')"

section \<open>Sequences of operations\<close>

datatype RepoOp =
    CreateConversation string "string option"
  | RenameConversation string string
  | RenameIfDefault string string
  | DeleteConversation string
  | CommitTurn string TurnCommit
  | CommitInterrupted string TurnCommit
  | ReadConversation string
  | RecordFailed string string string

fun repo_perform :: "datetime \<Rightarrow> string \<Rightarrow> string \<Rightarrow> RepoOp \<Rightarrow> MemoryState \<Rightarrow> MemoryState" where
  "repo_perform now t u (CreateConversation ulid title) st = snd (run_state (repo_create_conversation now ulid t u title) st)"
| "repo_perform now t u (RenameConversation c title) st = snd (run_state (repo_rename_conversation now t u c title) st)"
| "repo_perform now t u (RenameIfDefault c title) st = snd (run_state (repo_rename_conversation_if_default now t u c title) st)"
| "repo_perform now t u (DeleteConversation c) st = snd (run_state (repo_delete_conversation now t u c) st)"
| "repo_perform now t u (CommitTurn c turn) st = snd (run_state (repo_commit_turn now t u c turn) st)"
| "repo_perform now t u (CommitInterrupted c turn) st = snd (run_state (repo_commit_interrupted_turn now t u c turn) st)"
| "repo_perform now t u (ReadConversation c) st = snd (run_state (repo_get_conversation t u c) st)"
| "repo_perform now t u (RecordFailed c turn e) st = snd (run_state (repo_record_turn_failed t u c turn e) st)"

text \<open>The states the repository can be in: any callers, any operations, any times.\<close>

inductive repo_reachable :: "MemoryState \<Rightarrow> bool" where
  repo_start: "repo_reachable Map.empty"
| repo_step: "repo_reachable st \<Longrightarrow> repo_reachable (repo_perform now t u op st)"

lemmas repo_op_defs = repo_create_conversation_def repo_get_conversation_def repo_rename_conversation_def
  repo_rename_conversation_if_default_def repo_delete_conversation_def repo_assert_parent_tail_def
  repo_record_turn_failed_def repo_commit_turn_def repo_commit_interrupted_turn_def commit_turn_with_metadata_def

section \<open>The chain of messages\<close>

text \<open>Every message names its predecessor, and the first one names none.\<close>

fun chained :: "string option \<Rightarrow> MessageDto list \<Rightarrow> bool" where
  "chained p [] = True"
| "chained p (m # ms) = (md_parent_message_id m = p \<and> chained (Some (md_id m)) ms)"

definition row_ok :: "string \<Rightarrow> StoredConversation \<Rightarrow> bool" where
  "row_ok c row = (sc_id row = c \<and> chained None (sc_messages row)
    \<and> sc_next_message_ordinal row = of_nat (length (sc_messages row)) + 1)"

lemma chained_append:
  "chained p (ms @ ns) \<longleftrightarrow> chained p ms \<and> chained (if ms = [] then p else Some (md_id (List.last ms))) ns"
  by (induction ms arbitrary: p) auto

lemma chained_take: "chained p ms \<Longrightarrow> chained p (take n ms)"
  by (metis append_take_drop_id chained_append)

lemma position_Some: "position P xs = Some i \<Longrightarrow> i < length xs \<and> P (xs ! i)"
  by (induction xs arbitrary: i) (auto split: if_splits)

lemma last_retained:
  assumes "retain_len parent ms = Some n"
  shows "n \<le> length ms" "(if take n ms = [] then None else Some (md_id (List.last (take n ms)))) = parent"
proof -
  have "n \<le> length ms \<and> (if take n ms = [] then None else Some (md_id (List.last (take n ms)))) = parent"
  proof (cases parent)
    case None
    then show ?thesis using assms by (simp add: retain_len_def)
  next
    case (Some p)
    then obtain i where i: "n = Suc i" "i < length ms" "md_id (ms ! i) = p"
      using assms position_Some [of "\<lambda>m. md_id m = p" ms] by (auto simp: retain_len_def)
    then show ?thesis using Some by (simp add: take_Suc_conv_app_nth)
  qed
  then show "n \<le> length ms" "(if take n ms = [] then None else Some (md_id (List.last (take n ms)))) = parent" by auto
qed

lemma commit_chained:
  assumes "retain_len (tc_parent_message_id turn) ms = Some n" "chained None ms"
  shows "chained None (take n ms @ [user_message now turn, assistant_message later turn interrupted reason])"
  using chained_take [OF assms(2)] last_retained(2) [OF assms(1)]
  by (auto simp: chained_append user_message_def assistant_message_def)

definition all_rows :: "(string \<Rightarrow> StoredConversation \<Rightarrow> bool) \<Rightarrow> MemoryState \<Rightarrow> bool" where
  "all_rows P st = (\<forall>c row. st c = Some row \<longrightarrow> P c row)"

text \<open>An operation on one row keeps what every row is required to be.\<close>

lemma with_visible_row_keeps:
  assumes "all_rows P st" "\<And>row. P conversation_id row \<Longrightarrow> visible_to row t u \<Longrightarrow> P conversation_id (snd (f row))"
  shows "all_rows P (snd (run_state (with_visible_row t u conversation_id f) st))"
proof (cases "\<exists>row. st conversation_id = Some row \<and> visible_to row t u")
  case True
  then obtain row where row: "st conversation_id = Some row" "visible_to row t u" by blast
  then have "snd (run_state (with_visible_row t u conversation_id f) st) = st(conversation_id \<mapsto> snd (f row))"
    by (simp add: with_visible_row_def ensure_visible_def split: prod.split)
  moreover have "P conversation_id row" using assms(1) row(1) by (simp add: all_rows_def)
  ultimately show ?thesis using assms row by (simp add: all_rows_def)
next
  case False
  then have "snd (run_state (with_visible_row t u conversation_id f) st) = st"
    by (auto simp: with_visible_row_def ensure_visible_def split: option.split)
  then show ?thesis using assms(1) by simp
qed

lemma row_ok_updates [simp]:
  "row_ok c (row\<lparr>sc_title := title, sc_updated_at := now\<rparr>) = row_ok c row"
  "row_ok c (row\<lparr>sc_deleted_at := x\<rparr>) = row_ok c row"
  by (simp_all add: row_ok_def)

lemma repo_perform_ok: "all_rows row_ok st \<Longrightarrow> all_rows row_ok (repo_perform now t u op st)"
proof (cases op)
  case (CreateConversation ulid title)
  then show "all_rows row_ok st \<Longrightarrow> all_rows row_ok (repo_perform now t u op st)"
    by (simp add: repo_create_conversation_def Let_def all_rows_def row_ok_def)
next
  case (CommitTurn c turn)
  then show "all_rows row_ok st \<Longrightarrow> all_rows row_ok (repo_perform now t u op st)"
    by (auto simp: repo_op_defs Let_def row_ok_def commit_chained intro!: with_visible_row_keeps split: option.split)
next
  case (CommitInterrupted c turn)
  then show "all_rows row_ok st \<Longrightarrow> all_rows row_ok (repo_perform now t u op st)"
    by (auto simp: repo_op_defs Let_def row_ok_def commit_chained intro!: with_visible_row_keeps split: option.split)
qed (auto simp: repo_op_defs Let_def intro!: with_visible_row_keeps)

text \<open>C32. In every state the repository can reach, the messages of every conversation form one chain:
  the first has no parent, each later one names the one before it, also after turns that were
  committed on an earlier message and cut the rest off, and the next ordinal counts them.\<close>

theorem messages_form_chain:
  assumes "repo_reachable st" "st c = Some row"
  shows "chained None (sc_messages row) \<and> sc_id row = c
    \<and> sc_next_message_ordinal row = of_nat (length (sc_messages row)) + 1"
proof -
  have "all_rows row_ok st"
    using assms(1) by induction (auto intro: repo_perform_ok simp: all_rows_def [of row_ok Map.empty])
  then show ?thesis using assms(2) by (simp add: all_rows_def row_ok_def)
qed

definition sample_turn :: "string \<Rightarrow> string option \<Rightarrow> TurnCommit" where
  "sample_turn k parent = \<lparr>tc_turn_id = k, tc_user_message_id = k @ ''u'', tc_user_text = ''hi'', tc_parent_message_id = parent,
     tc_assistant_message_id = k @ ''a'', tc_assistant_text = ''hello'', tc_citations = []\<rparr>"

definition sample_repo_state :: MemoryState where
  "sample_repo_state = repo_perform 3 ''t'' ''u'' (CommitTurn ''c'' (sample_turn ''y'' (Some ''xa'')))
     (repo_perform 2 ''t'' ''u'' (CommitInterrupted ''c'' (sample_turn ''x'' None))
       (repo_perform 1 ''t'' ''u'' (CreateConversation ''c'' None) Map.empty))"

theorem messages_form_chain_witness:
  "\<exists>row. sample_repo_state ''c'' = Some row \<and> map md_id (sc_messages row) = [''xu'', ''xa'', ''yu'', ''ya'']
    \<and> chained None (sc_messages row)"
proof -
  have reach: "repo_reachable sample_repo_state"
    unfolding sample_repo_state_def by (intro repo_step repo_start)
  obtain row where row: "sample_repo_state ''c'' = Some row" "map md_id (sc_messages row) = [''xu'', ''xa'', ''yu'', ''ya'']"
    by (simp add: sample_repo_state_def repo_op_defs with_visible_row_def ensure_visible_def visible_to_def Let_def
        retain_len_def sample_turn_def user_message_def assistant_message_def)
  show ?thesis using messages_form_chain [of sample_repo_state "''c''" row] reach row by (intro exI [of _ row]) simp
qed

section \<open>Privacy\<close>

text \<open>What belongs to a caller, and what does not.\<close>

definition owned_by :: "string \<Rightarrow> string \<Rightarrow> StoredConversation \<Rightarrow> bool" where
  "owned_by t u row = (sc_tenant_id row = t \<and> sc_user_id row = u)"

lemma with_visible_row_private:
  assumes "st c = Some row" "\<not> owned_by t u row"
  shows "snd (run_state (with_visible_row t u conversation_id f) st) c = Some row"
  using assms
  by (auto simp: with_visible_row_def ensure_visible_def visible_to_def owned_by_def split: option.split prod.split if_splits)

text \<open>The result of asking for a conversation depends on its owner's rows only.\<close>

lemma with_visible_row_result:
  assumes "\<And>row. st c = Some row \<Longrightarrow> \<not> visible_to row t u"
  shows "\<not> is_ok (fst (run_state (with_visible_row t u c f) st))"
  using assms by (auto simp: with_visible_row_def ensure_visible_def split: option.split)

text \<open>Conversations are private. An operation of one user leaves a conversation of somebody else
  exactly as it is (a create takes an id no conversation has), to read it or to commit a turn to it is
  refused, and a listing shows the caller's own undeleted conversations and nothing else.\<close>

theorem conversations_are_private:
  assumes "st c = Some row" "\<not> owned_by t u row" "\<forall>title. op \<noteq> CreateConversation c title"
  shows "repo_perform now t u op st c = Some row
    \<and> \<not> is_ok (fst (run_state (repo_get_conversation t u c) st))
    \<and> \<not> is_ok (fst (run_state (repo_assert_parent_tail t u c p) st))
    \<and> \<not> is_ok (fst (run_state (repo_commit_turn now t u c turn) st))
    \<and> (\<exists>rows. fst (run_state (repo_list_conversations order t u) st) = Ok rows
        \<and> set rows \<subseteq> {summary_of row | c row. st c = Some row \<and> owned_by t u row \<and> sc_deleted_at row = None})"
proof (intro conjI)
  show "repo_perform now t u op st c = Some row"
    using assms by (cases op) (auto simp: repo_op_defs Let_def intro: with_visible_row_private)
  have hidden: "\<not> visible_to r t u" if "st c = Some r" for r
    using that assms(1,2) by (simp add: visible_to_def owned_by_def)
  show "\<not> is_ok (fst (run_state (repo_get_conversation t u c) st))"
    "\<not> is_ok (fst (run_state (repo_assert_parent_tail t u c p) st))"
    "\<not> is_ok (fst (run_state (repo_commit_turn now t u c turn) st))"
    using with_visible_row_result [of st c t u, OF hidden] by (simp_all add: repo_op_defs)
  show "\<exists>rows. fst (run_state (repo_list_conversations order t u) st) = Ok rows
      \<and> set rows \<subseteq> {summary_of row | c row. st c = Some row \<and> owned_by t u row \<and> sc_deleted_at row = None}"
    by (auto simp: repo_list_conversations_def List.map_filter_def visible_to_def owned_by_def) blast
qed

theorem conversations_are_private_witness:
  "repo_perform 9 ''t'' ''v'' (RenameConversation ''c'' ''mine'') sample_repo_state ''c'' = sample_repo_state ''c''
    \<and> \<not> is_ok (fst (run_state (repo_get_conversation ''t'' ''v'' ''c'') sample_repo_state))"
proof -
  obtain row where row: "sample_repo_state ''c'' = Some row" "\<not> owned_by ''t'' ''v'' row"
    by (simp add: sample_repo_state_def repo_op_defs with_visible_row_def ensure_visible_def visible_to_def Let_def
        retain_len_def sample_turn_def user_message_def assistant_message_def owned_by_def)
  show ?thesis
    using conversations_are_private [where st = sample_repo_state and c = "''c''" and op = "RenameConversation ''c'' ''mine''",
        OF row(1,2)] row(1) by simp
qed

end
