(* ===== verification/Chat_Postgres.thy ===== *)
theory Chat_Postgres
  imports Chat_Repository
begin

text \<open>
  \<open>PgRepository\<close> of crates/storage/src/lib.rs on the chat tables of migrations/0001\_pg\_cutover.sql. A
  table is the list of its rows, an SQL statement its effect on the tables, and a transaction takes
  effect as a whole or not at all. The constraints the statements can run into, the primary key of
  \<open>chat_message\<close> and its unique ordinal per conversation, are checked where a statement writes the
  table. The conversion of citations to and from jsonb is serde's, a parameter. Failures of the
  connection itself are not modelled.

  The theorems compare the committing transaction with the in-memory repository, and show what the
  upsert by message id does to a message of another conversation.
\<close>

section \<open>Tables\<close>

record PgConversationRow =
  pc_tenant_id :: string
  pc_user_id :: string
  pc_conversation_id :: string
  pc_title :: string
  pc_next_message_ordinal :: int
  pc_updated_at :: datetime
  pc_deleted_at :: "datetime option"

record PgMessage =
  pm_tenant_id :: string
  pm_user_id :: string
  pm_conversation_id :: string
  pm_message_id :: string
  pm_role :: string
  pm_content :: string
  pm_parent_message_id :: "string option"
  pm_citations :: json
  pm_turn_id :: "string option"
  pm_interrupted :: bool
  pm_finish_reason :: "string option"
  pm_ordinal :: int
  pm_created_at :: datetime

record PgTurnRow =
  pt_tenant_id :: string
  pt_turn_id :: string
  pt_user_id :: string
  pt_conversation_id :: string
  pt_user_message_id :: "string option"
  pt_assistant_message_id :: "string option"
  pt_parent_message_id :: "string option"
  pt_status :: string
  pt_error :: "string option"
  pt_updated_at :: datetime

record PgChatDb =
  db_tenants :: "string list"
  db_users :: "((string \<times> string) \<times> datetime) list"
  db_conversations :: "PgConversationRow list"
  db_messages :: "PgMessage list"
  db_turns :: "PgTurnRow list"

record CitationSerde =
  citations_to_value :: "CitationEntry list \<Rightarrow> (json, string) result"
  citations_from_value :: "json \<Rightarrow> (CitationEntry list, string) result"

text \<open>\<open>INSERT .. ON CONFLICT (key) DO UPDATE\<close>: the row with the same key is updated, or the new row
  added.\<close>

definition upsert_on :: "('r \<Rightarrow> 'k) \<Rightarrow> ('r \<Rightarrow> 'r) \<Rightarrow> 'r \<Rightarrow> 'r list \<Rightarrow> 'r list" where
  "upsert_on key upd row rows =
     (if list_ex (\<lambda>r. key r = key row) rows then map (\<lambda>r. if key r = key row then upd r else r) rows
      else rows @ [row])"

definition message_key :: "PgMessage \<Rightarrow> string \<times> string" where
  "message_key r = (pm_tenant_id r, pm_message_id r)"

definition ordinal_key :: "PgMessage \<Rightarrow> string \<times> string \<times> int" where
  "ordinal_key r = (pm_tenant_id r, pm_conversation_id r, pm_ordinal r)"

definition turn_key :: "PgTurnRow \<Rightarrow> string \<times> string" where
  "turn_key r = (pt_tenant_id r, pt_turn_id r)"

section \<open>Reads\<close>

definition ensure_principal :: "datetime \<Rightarrow> string \<Rightarrow> string \<Rightarrow> PgChatDb \<Rightarrow> PgChatDb" where
  "ensure_principal now tenant_id user_id db = db\<lparr>
     db_tenants := (if tenant_id \<in> set (db_tenants db) then db_tenants db else db_tenants db @ [tenant_id]),
     db_users := upsert_on fst (\<lambda>(k, _). (k, now)) ((tenant_id, user_id), now) (db_users db)\<rparr>"

definition conversation_row :: "string \<Rightarrow> string \<Rightarrow> string \<Rightarrow> PgConversationRow \<Rightarrow> bool" where
  "conversation_row tenant_id user_id conversation_id r =
     (pc_tenant_id r = tenant_id \<and> pc_user_id r = user_id \<and> pc_conversation_id r = conversation_id \<and> pc_deleted_at r = None)"

definition visible_conversation ::
  "datetime \<Rightarrow> string \<Rightarrow> string \<Rightarrow> string \<Rightarrow> (PgChatDb, (PgConversationRow, StorageError) result) state" where
  "visible_conversation now tenant_id user_id conversation_id = State (\<lambda>db.
     (ok_or StNotFound (find (conversation_row tenant_id user_id conversation_id) (db_conversations db)),
      ensure_principal now tenant_id user_id db))"

definition pg_message_to_dto :: "CitationSerde \<Rightarrow> PgMessage \<Rightarrow> (MessageDto, StorageError) result" where
  "pg_message_to_dto sd row = (case citations_from_value sd (pm_citations row) of
      Err e \<Rightarrow> Err (StInternal (''decode citations: '' @ e))
    | Ok citations \<Rightarrow> Ok \<lparr>md_id = pm_message_id row,
        md_role = (if pm_role row = ''assistant'' then RoleAssistant else if pm_role row = ''system'' then RoleSystem else RoleUser),
        md_content = pm_content row, md_parent_message_id = pm_parent_message_id row, md_citations = citations,
        md_turn_id = pm_turn_id row, md_interrupted = pm_interrupted row, md_finish_reason = pm_finish_reason row,
        md_created_at = pm_created_at row\<rparr>)"

text \<open>\<open>collect\<close> into a result stops at the first error.\<close>

fun collect_results :: "('a, 'e) result list \<Rightarrow> ('a list, 'e) result" where
  "collect_results [] = Ok []"
| "collect_results (Err e # rs) = Err e"
| "collect_results (Ok a # rs) = (case collect_results rs of Ok as \<Rightarrow> Ok (a # as) | Err e \<Rightarrow> Err e)"

definition message_row :: "string \<Rightarrow> string \<Rightarrow> string \<Rightarrow> PgMessage \<Rightarrow> bool" where
  "message_row tenant_id user_id conversation_id r =
     (pm_tenant_id r = tenant_id \<and> pm_user_id r = user_id \<and> pm_conversation_id r = conversation_id)"

definition ordered_rows :: "string \<Rightarrow> string \<Rightarrow> string \<Rightarrow> PgMessage list \<Rightarrow> PgMessage list" where
  "ordered_rows tenant_id user_id conversation_id rows = sort_key pm_ordinal (filter (message_row tenant_id user_id conversation_id) rows)"

definition list_pg_messages ::
  "CitationSerde \<Rightarrow> string \<Rightarrow> string \<Rightarrow> string \<Rightarrow> PgChatDb \<Rightarrow> (MessageDto list, StorageError) result" where
  "list_pg_messages sd tenant_id user_id conversation_id db =
     collect_results (map (pg_message_to_dto sd) (ordered_rows tenant_id user_id conversation_id (db_messages db)))"

definition pg_conversation_detail ::
  "CitationSerde \<Rightarrow> PgConversationRow \<Rightarrow> PgChatDb \<Rightarrow> (ConversationDetail, StorageError) result" where
  "pg_conversation_detail sd conversation db =
     (case list_pg_messages sd (pc_tenant_id conversation) (pc_user_id conversation) (pc_conversation_id conversation) db of
        Err e \<Rightarrow> Err e
      | Ok messages \<Rightarrow> Ok \<lparr>cd_id = pc_conversation_id conversation, cd_title = pc_title conversation,
          cd_messages = messages, cd_updated_at = pc_updated_at conversation\<rparr>)"

definition pg_get_conversation ::
  "CitationSerde \<Rightarrow> datetime \<Rightarrow> string \<Rightarrow> string \<Rightarrow> string \<Rightarrow> (PgChatDb, (ConversationDetail, StorageError) result) state" where
  "pg_get_conversation sd now tenant_id user_id conversation_id =
     attempt (\<lambda>e. e) (visible_conversation now tenant_id user_id conversation_id) (\<lambda>conversation.
       State (\<lambda>db. (pg_conversation_detail sd conversation db, db)))"

definition pg_list_conversations ::
  "datetime \<Rightarrow> string \<Rightarrow> string \<Rightarrow> (PgChatDb, (ConversationSummary list, StorageError) result) state" where
  "pg_list_conversations now tenant_id user_id = State (\<lambda>db.
     (Ok (map (\<lambda>r. \<lparr>cs_id = pc_conversation_id r, cs_title = pc_title r, cs_updated_at = pc_updated_at r\<rparr>)
        (sort_key (\<lambda>r. - pc_updated_at r) (filter (\<lambda>r. pc_tenant_id r = tenant_id \<and> pc_user_id r = user_id
          \<and> pc_deleted_at r = None) (db_conversations db)))),
      ensure_principal now tenant_id user_id db))"

definition pg_assert_parent_tail ::
  "datetime \<Rightarrow> string \<Rightarrow> string \<Rightarrow> string \<Rightarrow> string option \<Rightarrow> (PgChatDb, (unit, StorageError) result) state" where
  "pg_assert_parent_tail now tenant_id user_id conversation_id parent_message_id =
     attempt (\<lambda>e. e) (visible_conversation now tenant_id user_id conversation_id) (\<lambda>_.
       State (\<lambda>db. (let rows = ordered_rows tenant_id user_id conversation_id (db_messages db);
            tail = (if rows = [] then None else Some (pm_message_id (List.last rows)))
         in if tail = parent_message_id then Ok () else Err StStaleParent, db)))"

section \<open>Writes to a conversation\<close>

definition pg_create_conversation ::
  "datetime \<Rightarrow> string \<Rightarrow> string \<Rightarrow> string \<Rightarrow> string option \<Rightarrow> (PgChatDb, (ConversationDetail, StorageError) result) state" where
  "pg_create_conversation now ulid tenant_id user_id title = State (\<lambda>db.
     let db = ensure_principal now tenant_id user_id db;
         row = \<lparr>pc_tenant_id = tenant_id, pc_user_id = user_id, pc_conversation_id = ulid,
           pc_title = (case title of Some t \<Rightarrow> t | None \<Rightarrow> ''New chat''), pc_next_message_ordinal = 1,
           pc_updated_at = now, pc_deleted_at = None\<rparr>
     in if list_ex (\<lambda>r. pc_tenant_id r = tenant_id \<and> pc_conversation_id r = ulid) (db_conversations db)
        then (Err (StInternal ''duplicate key''), db)
        else (Ok \<lparr>cd_id = ulid, cd_title = pc_title row, cd_messages = [], cd_updated_at = now\<rparr>,
              db\<lparr>db_conversations := db_conversations db @ [row]\<rparr>))"

text \<open>\<open>UPDATE .. WHERE .. RETURNING\<close> on the one conversation the caller sees.\<close>

definition update_conversation ::
  "(PgConversationRow \<Rightarrow> bool) \<Rightarrow> (PgConversationRow \<Rightarrow> PgConversationRow) \<Rightarrow> PgChatDb \<Rightarrow> PgConversationRow option \<times> PgChatDb" where
  "update_conversation P upd db = (map_option upd (find P (db_conversations db)),
     db\<lparr>db_conversations := map (\<lambda>r. if P r then upd r else r) (db_conversations db)\<rparr>)"

definition pg_rename_conversation ::
  "CitationSerde \<Rightarrow> datetime \<Rightarrow> string \<Rightarrow> string \<Rightarrow> string \<Rightarrow> string \<Rightarrow>
     (PgChatDb, (ConversationDetail, StorageError) result) state" where
  "pg_rename_conversation sd now tenant_id user_id conversation_id title = State (\<lambda>db.
     case update_conversation (conversation_row tenant_id user_id conversation_id)
         (\<lambda>r. r\<lparr>pc_title := title, pc_updated_at := now\<rparr>) db of
       (None, db) \<Rightarrow> (Err StNotFound, db)
     | (Some row, db) \<Rightarrow> (pg_conversation_detail sd row db, db))"

definition pg_rename_conversation_if_default ::
  "CitationSerde \<Rightarrow> datetime \<Rightarrow> string \<Rightarrow> string \<Rightarrow> string \<Rightarrow> string \<Rightarrow>
     (PgChatDb, (ConversationDetail option, StorageError) result) state" where
  "pg_rename_conversation_if_default sd now tenant_id user_id conversation_id title =
     State (\<lambda>db. update_conversation
       (\<lambda>r. conversation_row tenant_id user_id conversation_id r \<and> pc_title r = ''New chat'')
       (\<lambda>r. r\<lparr>pc_title := title, pc_updated_at := now\<rparr>) db) \<bind> (\<lambda>row. case row of
         None \<Rightarrow> attempt (\<lambda>e. e) (visible_conversation now tenant_id user_id conversation_id) (\<lambda>_. ret (Ok None))
       | Some row \<Rightarrow> State (\<lambda>db. (case pg_conversation_detail sd row db of Ok d \<Rightarrow> Ok (Some d) | Err e \<Rightarrow> Err e, db)))"

definition pg_delete_conversation ::
  "datetime \<Rightarrow> string \<Rightarrow> string \<Rightarrow> string \<Rightarrow> (PgChatDb, (unit, StorageError) result) state" where
  "pg_delete_conversation now tenant_id user_id conversation_id = State (\<lambda>db.
     case update_conversation (conversation_row tenant_id user_id conversation_id)
         (\<lambda>r. r\<lparr>pc_deleted_at := Some now, pc_updated_at := now\<rparr>) db of
       (None, db) \<Rightarrow> (Err StNotFound, db)
     | (Some _, db) \<Rightarrow> (Ok (), db))"

definition pg_record_turn_failed ::
  "datetime \<Rightarrow> string \<Rightarrow> string \<Rightarrow> string \<Rightarrow> string \<Rightarrow> string \<Rightarrow> (PgChatDb, (unit, StorageError) result) state" where
  "pg_record_turn_failed now tenant_id user_id conversation_id turn_id error =
     attempt (\<lambda>e. e) (visible_conversation now tenant_id user_id conversation_id) (\<lambda>_.
       State (\<lambda>db. (Ok (), db\<lparr>db_turns := upsert_on turn_key
         (\<lambda>r. r\<lparr>pt_status := ''failed'', pt_error := Some error, pt_updated_at := now\<rparr>)
         \<lparr>pt_tenant_id = tenant_id, pt_turn_id = turn_id, pt_user_id = user_id, pt_conversation_id = conversation_id,
          pt_user_message_id = None, pt_assistant_message_id = None, pt_parent_message_id = None,
          pt_status = ''failed'', pt_error = Some error, pt_updated_at = now\<rparr> (db_turns db)\<rparr>)))"

section \<open>The committing transaction\<close>

definition user_row :: "datetime \<Rightarrow> string \<Rightarrow> string \<Rightarrow> string \<Rightarrow> TurnCommit \<Rightarrow> int \<Rightarrow> PgMessage" where
  "user_row now tenant_id user_id conversation_id turn ordinal = \<lparr>pm_tenant_id = tenant_id, pm_user_id = user_id,
     pm_conversation_id = conversation_id, pm_message_id = tc_user_message_id turn, pm_role = ''user'',
     pm_content = tc_user_text turn, pm_parent_message_id = tc_parent_message_id turn, pm_citations = JArray [],
     pm_turn_id = Some (tc_turn_id turn), pm_interrupted = False, pm_finish_reason = None, pm_ordinal = ordinal,
     pm_created_at = now\<rparr>"

definition assistant_row ::
  "datetime \<Rightarrow> string \<Rightarrow> string \<Rightarrow> string \<Rightarrow> TurnCommit \<Rightarrow> json \<Rightarrow> bool \<Rightarrow> string option \<Rightarrow> int \<Rightarrow> PgMessage" where
  "assistant_row now tenant_id user_id conversation_id turn citations interrupted finish_reason ordinal =
     \<lparr>pm_tenant_id = tenant_id, pm_user_id = user_id, pm_conversation_id = conversation_id,
      pm_message_id = tc_assistant_message_id turn, pm_role = ''assistant'', pm_content = tc_assistant_text turn,
      pm_parent_message_id = Some (tc_user_message_id turn), pm_citations = citations, pm_turn_id = Some (tc_turn_id turn),
      pm_interrupted = interrupted, pm_finish_reason = finish_reason, pm_ordinal = ordinal, pm_created_at = now\<rparr>"

text \<open>The two upserts into \<open>chat_message\<close>; what they set on conflict is not the whole row.\<close>

definition upsert_user_row :: "PgMessage \<Rightarrow> PgMessage list \<Rightarrow> PgMessage list" where
  "upsert_user_row new = upsert_on message_key (\<lambda>r. r\<lparr>pm_content := pm_content new,
     pm_parent_message_id := pm_parent_message_id new, pm_turn_id := pm_turn_id new, pm_ordinal := pm_ordinal new,
     pm_created_at := pm_created_at new\<rparr>) new"

definition upsert_assistant_row :: "PgMessage \<Rightarrow> PgMessage list \<Rightarrow> PgMessage list" where
  "upsert_assistant_row new = upsert_on message_key (\<lambda>r. r\<lparr>pm_content := pm_content new,
     pm_parent_message_id := pm_parent_message_id new, pm_citations := pm_citations new, pm_turn_id := pm_turn_id new,
     pm_interrupted := pm_interrupted new, pm_finish_reason := pm_finish_reason new, pm_ordinal := pm_ordinal new,
     pm_created_at := pm_created_at new\<rparr>) new"

definition check_unique :: "PgMessage list \<Rightarrow> (PgMessage list, StorageError) result" where
  "check_unique rows = (if distinct (map ordinal_key rows) then Ok rows else Err (StInternal ''duplicate key''))"

definition turn_row :: "datetime \<Rightarrow> string \<Rightarrow> string \<Rightarrow> string \<Rightarrow> TurnCommit \<Rightarrow> bool \<Rightarrow> PgTurnRow" where
  "turn_row now tenant_id user_id conversation_id turn interrupted = \<lparr>pt_tenant_id = tenant_id,
     pt_turn_id = tc_turn_id turn, pt_user_id = user_id, pt_conversation_id = conversation_id,
     pt_user_message_id = Some (tc_user_message_id turn), pt_assistant_message_id = Some (tc_assistant_message_id turn),
     pt_parent_message_id = tc_parent_message_id turn,
     pt_status = (if interrupted then ''interrupted'' else ''committed''), pt_error = None, pt_updated_at = now\<rparr>"

definition parent_ordinal_of ::
  "string \<Rightarrow> string \<Rightarrow> string \<Rightarrow> string option \<Rightarrow> PgMessage list \<Rightarrow> (int, StorageError) result" where
  "parent_ordinal_of tenant_id user_id conversation_id parent_message_id rows = (case parent_message_id of
      None \<Rightarrow> Ok 0
    | Some p \<Rightarrow> (case find (\<lambda>r. message_row tenant_id user_id conversation_id r \<and> pm_message_id r = p) rows of
        Some r \<Rightarrow> Ok (pm_ordinal r)
      | None \<Rightarrow> Err StStaleParent))"

text \<open>The statements of the transaction up to the commit, from the tables it finds.\<close>

definition pg_turn_transaction ::
  "CitationSerde \<Rightarrow> datetime \<Rightarrow> string \<Rightarrow> string \<Rightarrow> string \<Rightarrow> TurnCommit \<Rightarrow> bool \<Rightarrow> string option \<Rightarrow>
     PgChatDb \<Rightarrow> (PgChatDb, StorageError) result" where
  "pg_turn_transaction sd now tenant_id user_id conversation_id turn interrupted finish_reason db =
     (case find (conversation_row tenant_id user_id conversation_id) (db_conversations db) of
        None \<Rightarrow> Err StNotFound
      | Some conversation \<Rightarrow>
          (case parent_ordinal_of tenant_id user_id conversation_id (tc_parent_message_id turn) (db_messages db) of
             Err e \<Rightarrow> Err e
           | Ok parent_ordinal \<Rightarrow> (case citations_to_value sd (tc_citations turn) of
               Err e \<Rightarrow> Err (StInternal (''serialize citations: '' @ e))
             | Ok citations \<Rightarrow>
                 (let kept = filter (\<lambda>r. \<not> (message_row tenant_id user_id conversation_id r \<and> parent_ordinal < pm_ordinal r)) (db_messages db)
                  in case check_unique (upsert_user_row (user_row now tenant_id user_id conversation_id turn (parent_ordinal + 1)) kept) of
                    Err e \<Rightarrow> Err e
                  | Ok rows \<Rightarrow>
                      (case check_unique (upsert_assistant_row (assistant_row (now + 1) tenant_id user_id conversation_id turn
                            citations interrupted finish_reason (parent_ordinal + 2)) rows) of
                         Err e \<Rightarrow> Err e
                       | Ok rows \<Rightarrow> Ok (db\<lparr>db_messages := rows,
                           db_turns := upsert_on turn_key (\<lambda>_. turn_row now tenant_id user_id conversation_id turn interrupted)
                             (turn_row now tenant_id user_id conversation_id turn interrupted) (db_turns db),
                           db_conversations := map (\<lambda>r. if conversation_row tenant_id user_id conversation_id r
                             then r\<lparr>pc_updated_at := now, pc_next_message_ordinal := parent_ordinal + 3\<rparr> else r) (db_conversations db)\<rparr>))))))"

definition commit_pg_turn ::
  "CitationSerde \<Rightarrow> datetime \<Rightarrow> string \<Rightarrow> string \<Rightarrow> string \<Rightarrow> TurnCommit \<Rightarrow> bool \<Rightarrow> string option \<Rightarrow>
     (PgChatDb, (ConversationDetail, StorageError) result) state" where
  "commit_pg_turn sd now tenant_id user_id conversation_id turn interrupted finish_reason =
     attempt (\<lambda>e. e) (State (\<lambda>db. case pg_turn_transaction sd now tenant_id user_id conversation_id turn interrupted finish_reason db of
         Ok db' \<Rightarrow> (Ok (), db')
       | Err e \<Rightarrow> (Err e, db)))
     (\<lambda>_. pg_get_conversation sd now tenant_id user_id conversation_id)"

definition pg_commit_turn ::
  "CitationSerde \<Rightarrow> datetime \<Rightarrow> string \<Rightarrow> string \<Rightarrow> string \<Rightarrow> TurnCommit \<Rightarrow>
     (PgChatDb, (ConversationDetail, StorageError) result) state" where
  "pg_commit_turn sd now tenant_id user_id conversation_id turn =
     commit_pg_turn sd now tenant_id user_id conversation_id turn False None"

definition pg_commit_interrupted_turn ::
  "CitationSerde \<Rightarrow> datetime \<Rightarrow> string \<Rightarrow> string \<Rightarrow> string \<Rightarrow> TurnCommit \<Rightarrow>
     (PgChatDb, (ConversationDetail, StorageError) result) state" where
  "pg_commit_interrupted_turn sd now tenant_id user_id conversation_id turn =
     commit_pg_turn sd now tenant_id user_id conversation_id turn True (Some ''user_interrupted'')"

section \<open>The transaction and the in-memory commit\<close>

text \<open>What the constraints and earlier commits give: keys are unique, a conversation has one owner,
  and its ordinals count its messages from one.\<close>

definition pg_conversation_ok :: "string \<Rightarrow> string \<Rightarrow> string \<Rightarrow> PgMessage list \<Rightarrow> bool" where
  "pg_conversation_ok t u c rows = (distinct (map message_key rows) \<and> distinct (map ordinal_key rows)
    \<and> (\<forall>r \<in> set rows. pm_tenant_id r = t \<longrightarrow> pm_conversation_id r = c \<longrightarrow> pm_user_id r = u)
    \<and> map pm_ordinal (ordered_rows t u c rows) = map (\<lambda>i. int i + 1) [0..<length (ordered_rows t u c rows)])"

lemma insort_key_snoc: "f x \<le> f a \<Longrightarrow> insort_key f x (ys @ [a]) = insort_key f x ys @ [a]"
  by (induction ys) auto

lemma sort_key_snoc: "(\<And>x. x \<in> set xs \<Longrightarrow> f x \<le> f a) \<Longrightarrow> sort_key f (xs @ [a]) = sort_key f xs @ [a]"
  by (induction xs) (auto simp: insort_key_snoc)

lemma collect_results_Ok: "collect_results (map f xs) = Ok ys \<longleftrightarrow> list_all2 (\<lambda>x y. f x = Ok y) xs ys"
proof (induction xs arbitrary: ys)
  case Nil
  then show ?case by auto
next
  case (Cons x xs)
  show ?case by (cases "f x"; cases ys) (auto simp: Cons.IH [symmetric] split: result.splits)
qed

lemma set_ordered_rows: "set (ordered_rows t u c rows) = {r \<in> set rows. message_row t u c r}"
  by (auto simp: ordered_rows_def)

lemma ordinal_nth:
  assumes "map pm_ordinal S = map (\<lambda>i. int i + 1) [0..<length S]" "i < length S"
  shows "pm_ordinal (S ! i) = int i + 1"
  using arg_cong [OF assms(1), of "\<lambda>xs. xs ! i"] assms(2) by simp

lemma ordered_take:
  assumes "map pm_ordinal S = map (\<lambda>i. int i + 1) [0..<length S]"
  shows "filter (\<lambda>r. \<not> int n < pm_ordinal r) S = take n S" (is "filter ?P S = _")
proof -
  have "filter ?P (take n S) = take n S"
    using assms by (auto simp: filter_id_conv in_set_conv_nth ordinal_nth)
  moreover have "filter ?P (drop n S) = []"
    using assms by (auto simp: filter_empty_conv in_set_conv_nth ordinal_nth)
  ultimately show ?thesis by (metis append_take_drop_id append_Nil2 filter_append)
qed

text \<open>Cutting a conversation at a position and putting two rows behind it.\<close>

definition kept_rows :: "string \<Rightarrow> string \<Rightarrow> string \<Rightarrow> nat \<Rightarrow> PgMessage list \<Rightarrow> PgMessage list" where
  "kept_rows t u c n rows = filter (\<lambda>r. \<not> (message_row t u c r \<and> int n < pm_ordinal r)) rows"

lemma ordered_rows_commit:
  assumes "pg_conversation_ok t u c rows" "message_row t u c U" "message_row t u c A"
    and "pm_ordinal U = int n + 1" "pm_ordinal A = int n + 2"
  shows "ordered_rows t u c (kept_rows t u c n rows @ [U, A]) = take n (ordered_rows t u c rows) @ [U, A]"
proof -
  have "filter (message_row t u c) (kept_rows t u c n rows) = filter (\<lambda>r. \<not> int n < pm_ordinal r) (filter (message_row t u c) rows)"
    unfolding kept_rows_def by (simp add: conj_commute cong: conj_cong)
  then have kept: "ordered_rows t u c (kept_rows t u c n rows) = take n (ordered_rows t u c rows)"
    using assms(1) by (simp add: ordered_rows_def pg_conversation_ok_def flip: filter_sort ordered_take)
  have low: "pm_ordinal r \<le> int n" if "r \<in> set (filter (message_row t u c) (kept_rows t u c n rows))" for r
    using that by (auto simp: kept_rows_def)
  have "ordered_rows t u c (kept_rows t u c n rows @ [U, A])
      = sort_key pm_ordinal ((filter (message_row t u c) (kept_rows t u c n rows) @ [U]) @ [A])"
    using assms(2,3) by (simp add: ordered_rows_def)
  also have "\<dots> = sort_key pm_ordinal (filter (message_row t u c) (kept_rows t u c n rows)) @ [U] @ [A]"
    using low assms(4,5) by (subst sort_key_snoc, force)+ simp
  finally show ?thesis using kept by (simp add: ordered_rows_def)
qed

lemma pg_conversation_ok_commit:
  assumes ok: "pg_conversation_ok t u c rows" and n: "n \<le> length (ordered_rows t u c rows)"
    and U: "message_row t u c U" "pm_ordinal U = int n + 1" and A: "message_row t u c A" "pm_ordinal A = int n + 2"
    and fresh: "message_key U \<notin> message_key ` set rows" "message_key A \<notin> message_key ` set rows" "message_key U \<noteq> message_key A"
  shows "distinct (map ordinal_key (kept_rows t u c n rows @ [U]))"
    and "pg_conversation_ok t u c (kept_rows t u c n rows @ [U, A])"
proof -
  let ?K = "kept_rows t u c n rows"
  have sub: "set ?K \<subseteq> set rows" by (auto simp: kept_rows_def)
  have dist: "distinct (map message_key ?K)" "distinct (map ordinal_key ?K)"
    using ok by (auto simp: pg_conversation_ok_def kept_rows_def distinct_map_filter)
  have low: "ordinal_key U \<notin> ordinal_key ` set ?K" "ordinal_key A \<notin> ordinal_key ` set ?K"
    using ok U A by (auto simp: ordinal_key_def message_row_def kept_rows_def pg_conversation_ok_def)
  show "distinct (map ordinal_key (?K @ [U]))" using dist(2) low(1) by simp
  have "distinct (map ordinal_key (?K @ [U, A]))"
    using dist(2) low U(2) A(2) by (auto simp: ordinal_key_def)
  moreover have "distinct (map message_key (?K @ [U, A]))" using dist(1) fresh sub by auto
  moreover have "\<forall>r \<in> set (?K @ [U, A]). pm_tenant_id r = t \<longrightarrow> pm_conversation_id r = c \<longrightarrow> pm_user_id r = u"
    using ok sub U(1) A(1) by (auto simp: pg_conversation_ok_def message_row_def)
  moreover have "map pm_ordinal (ordered_rows t u c (?K @ [U, A])) =
      map (\<lambda>i. int i + 1) [0..<length (ordered_rows t u c (?K @ [U, A]))]"
  proof -
    let ?S = "ordered_rows t u c rows"
    have "map pm_ordinal ?S = map (\<lambda>i. int i + 1) [0..<length ?S]" using ok by (simp add: pg_conversation_ok_def)
    then have "map pm_ordinal (take n ?S) = take n (map (\<lambda>i. int i + 1) [0..<length ?S])" by (simp only: take_map [symmetric])
    also have "\<dots> = map (\<lambda>i. int i + 1) [0..<n]" using n by (simp add: take_map)
    finally show ?thesis using n U(2) A(2) by (simp add: ordered_rows_commit [OF ok U(1) A(1) U(2) A(2)])
  qed
  ultimately show "pg_conversation_ok t u c (?K @ [U, A])" by (simp add: pg_conversation_ok_def)
qed

lemma pg_message_to_dto_id: "pg_message_to_dto sd r = Ok d \<Longrightarrow> md_id d = pm_message_id r"
  by (auto simp: pg_message_to_dto_def split: result.splits)

lemma find_parent:
  assumes ok: "pg_conversation_ok t u c rows" and S: "list_all2 (\<lambda>r d. pg_message_to_dto sd r = Ok d) (ordered_rows t u c rows) msgs"
  shows "parent_ordinal_of t u c parent rows =
    (case retain_len parent msgs of None \<Rightarrow> Err StStaleParent | Some n \<Rightarrow> Ok (int n))"
proof (cases parent)
  case None
  then show ?thesis by (simp add: parent_ordinal_of_def retain_len_def)
next
  case (Some p)
  let ?S = "ordered_rows t u c rows" and ?F = "\<lambda>r. message_row t u c r \<and> pm_message_id r = p"
  have len: "length ?S = length msgs" using S by (rule list_all2_lengthD)
  have ids: "md_id (msgs ! i) = pm_message_id (?S ! i)" if "i < length ?S" for i
    using list_all2_nthD [OF S that] by (rule pg_message_to_dto_id)
  show ?thesis
  proof (cases "position (\<lambda>m. md_id m = p) msgs")
    case None
    have "md_id m \<noteq> p" if "m \<in> set msgs" for m
      using None that by (induction msgs) (auto split: if_splits)
    then have "\<not> ?F r" if "r \<in> set rows" for r
      using that ids len set_ordered_rows [of t u c rows] by (metis (mono_tags, lifting) in_set_conv_nth mem_Collect_eq)
    then have "find ?F rows = None" by (simp add: find_None_iff)
    then show ?thesis using Some None by (simp add: parent_ordinal_of_def retain_len_def)
  next
    case (Some i)
    then have i: "i < length ?S" "pm_message_id (?S ! i) = p"
      using position_Some [OF Some] len ids by auto
    then have S: "?S ! i \<in> set rows" "message_row t u c (?S ! i)"
      using nth_mem [OF i(1)] by (auto simp: set_ordered_rows)
    have "find ?F rows \<noteq> None" using S i(2) by (auto simp: find_None_iff)
    then obtain r where r: "find ?F rows = Some r" by auto
    then have r': "r \<in> set rows" "?F r" by (auto simp: find_Some_iff)
    have "message_key r = message_key (?S ! i)" using r'(2) S(2) i(2) by (auto simp: message_key_def message_row_def)
    moreover have "inj_on message_key (set rows)" using ok by (simp add: pg_conversation_ok_def distinct_map)
    ultimately have "r = ?S ! i" using r'(1) S(1) by (auto dest: inj_onD)
    then have "pm_ordinal r = int i + 1" using ordinal_nth [of ?S i] ok i(1) by (simp add: pg_conversation_ok_def)
    then show ?thesis using \<open>parent = Some p\<close> Some r by (simp add: parent_ordinal_of_def retain_len_def)
  qed
qed

text \<open>What the rows of the new turn decode to.\<close>

lemma turn_rows_decode:
  assumes "citations_from_value sd (JArray []) = Ok []" "citations_from_value sd j = Ok (tc_citations turn)"
  shows "pg_message_to_dto sd (user_row now t u c turn n) = Ok (user_message now turn)"
    "pg_message_to_dto sd (assistant_row now t u c turn j interrupted reason n) = Ok (assistant_message now turn interrupted reason)"
  using assms by (simp_all add: pg_message_to_dto_def user_row_def assistant_row_def user_message_def assistant_message_def)

lemma upsert_fresh: "key row \<notin> key ` set rows \<Longrightarrow> upsert_on key upd row rows = rows @ [row]"
  by (auto simp: upsert_on_def list_ex_iff image_iff)

lemma find_map_same:
  assumes "find P xs = Some x" "\<And>y. P y \<Longrightarrow> P (f y)"
  shows "find P (map (\<lambda>y. if P y then f y else y) xs) = Some (f x)"
  using assms by (induction xs) (auto split: if_splits)

text \<open>The rows of a turn behind the rows that are kept: the constraints of the table accept them, the conversation is in order again and decodes to the messages that
  were kept and the two new ones.\<close>

lemma new_turn_rows:
  fixes now and turn and interrupted and reason
  assumes ok: "pg_conversation_ok t u c rows" and S: "list_all2 (\<lambda>r d. pg_message_to_dto sd r = Ok d) (ordered_rows t u c rows) msgs" and n: "n \<le> length msgs"
    and serde: "citations_from_value sd j = Ok (tc_citations turn)" "citations_from_value sd (JArray []) = Ok []"
    and fresh: "\<forall>r \<in> set rows. pm_tenant_id r = t \<longrightarrow> pm_message_id r \<noteq> tc_user_message_id turn \<and> pm_message_id r \<noteq> tc_assistant_message_id turn"
      "tc_user_message_id turn \<noteq> tc_assistant_message_id turn"
  defines "U \<equiv> user_row now t u c turn (int n + 1)" and "A \<equiv> assistant_row (now + 1) t u c turn j interrupted reason (int n + 2)"
  shows "check_unique (upsert_user_row U (kept_rows t u c n rows)) = Ok (kept_rows t u c n rows @ [U])"
    "check_unique (upsert_assistant_row A (kept_rows t u c n rows @ [U])) = Ok (kept_rows t u c n rows @ [U, A])"
    "pg_conversation_ok t u c (kept_rows t u c n rows @ [U, A])"
    "collect_results (map (pg_message_to_dto sd) (ordered_rows t u c (kept_rows t u c n rows @ [U, A]))) =
      Ok (take n msgs @ [user_message now turn, assistant_message (now + 1) turn interrupted reason])"
proof -
  let ?K = "kept_rows t u c n rows"
  have row: "message_row t u c U" "pm_ordinal U = int n + 1" "message_row t u c A" "pm_ordinal A = int n + 2"
    by (simp_all add: U_def A_def user_row_def assistant_row_def message_row_def)
  have keys: "message_key U \<notin> message_key ` set rows" "message_key A \<notin> message_key ` set rows" "message_key U \<noteq> message_key A"
    using fresh by (auto simp: U_def A_def user_row_def assistant_row_def message_key_def)
  have "n \<le> length (ordered_rows t u c rows)" using n list_all2_lengthD [OF S] by simp
  note new = pg_conversation_ok_commit [OF ok this row keys]
  show "pg_conversation_ok t u c (?K @ [U, A])" by (rule new)
  have "message_key U \<notin> message_key ` set ?K" "message_key A \<notin> message_key ` set (?K @ [U])"
    using keys by (auto simp: kept_rows_def)
  then show "check_unique (upsert_user_row U ?K) = Ok (?K @ [U])" "check_unique (upsert_assistant_row A (?K @ [U])) = Ok (?K @ [U, A])"
    using new by (simp_all add: upsert_user_row_def upsert_assistant_row_def upsert_fresh check_unique_def pg_conversation_ok_def)
  have "list_all2 (\<lambda>r d. pg_message_to_dto sd r = Ok d) [U, A] [user_message now turn, assistant_message (now + 1) turn interrupted reason]"
    using turn_rows_decode [OF serde(2,1)] by (simp add: U_def A_def)
  then show "collect_results (map (pg_message_to_dto sd) (ordered_rows t u c (?K @ [U, A]))) =
      Ok (take n msgs @ [user_message now turn, assistant_message (now + 1) turn interrupted reason])"
    unfolding collect_results_Ok ordered_rows_commit [OF ok row(1,3,2,4)] using S by (intro list_all2_appendI list_all2_takeI)
qed


definition sample_citations :: CitationSerde where
  "sample_citations = \<lparr>citations_to_value = (\<lambda>cs. if cs = [] then Ok (JArray []) else Err ''unsupported''),
     citations_from_value = (\<lambda>j. if j = JArray [] then Ok [] else Err ''unsupported'')\<rparr>"

definition sample_conversation_row :: "string \<Rightarrow> string \<Rightarrow> PgConversationRow" where
  "sample_conversation_row u c = \<lparr>pc_tenant_id = ''t'', pc_user_id = u, pc_conversation_id = c, pc_title = ''New chat'',
     pc_next_message_ordinal = 3, pc_updated_at = 1, pc_deleted_at = None\<rparr>"

text \<open>A conversation of user u with one turn, and an empty one of user v.\<close>

definition sample_db :: PgChatDb where
  "sample_db = \<lparr>db_tenants = [''t''], db_users = [], db_conversations = [sample_conversation_row ''u'' ''c'', sample_conversation_row ''v'' ''d''],
     db_messages = [assistant_row 2 ''t'' ''u'' ''c'' (sample_turn ''x'' None) (JArray []) False None 2,
       user_row 1 ''t'' ''u'' ''c'' (sample_turn ''x'' None) 1], db_turns = []\<rparr>"

lemma sample_db_ok: "pg_conversation_ok ''t'' ''u'' ''c'' (db_messages sample_db)"
  by (simp add: pg_conversation_ok_def sample_db_def message_key_def ordinal_key_def user_row_def assistant_row_def
      sample_turn_def ordered_rows_def message_row_def)


section \<open>Messages of other conversations\<close>

text \<open>C39. The upsert goes by message id within the tenant, whoever the message belongs to. A turn whose
  user message id, which the client chooses, is the id of a message of another conversation, of
  another user perhaps, replaces the text of that message, leaves it in the conversation it was in,
  and the turn's own conversation gets no user message.\<close>

theorem foreign_message_overwritten:
  assumes commit: "pg_turn_transaction sd now t u c turn interrupted reason db = Ok db'"
    and r: "r \<in> set (db_messages db)" "pm_tenant_id r = t" "pm_message_id r = tc_user_message_id turn"
      "\<not> message_row t u c r"
    and unique: "distinct (map message_key (db_messages db))" "tc_user_message_id turn \<noteq> tc_assistant_message_id turn"
  shows "(\<exists>r' \<in> set (db_messages db'). pm_user_id r' = pm_user_id r \<and> pm_conversation_id r' = pm_conversation_id r
      \<and> pm_message_id r' = pm_message_id r \<and> pm_content r' = tc_user_text turn)
    \<and> (\<forall>r' \<in> set (db_messages db'). message_row t u c r' \<longrightarrow> pm_message_id r' \<noteq> tc_user_message_id turn)"
proof -
  obtain n j where j: "db_messages db' = upsert_assistant_row (assistant_row (now + 1) t u c turn j interrupted reason (n + 2))
      (upsert_user_row (user_row now t u c turn (n + 1)) (filter (\<lambda>r. \<not> (message_row t u c r \<and> n < pm_ordinal r)) (db_messages db)))"
    using commit by (auto simp: pg_turn_transaction_def check_unique_def Let_def
        split: option.splits result.splits if_splits)
  define K where "K = filter (\<lambda>r. \<not> (message_row t u c r \<and> n < pm_ordinal r)) (db_messages db)"
  define U where "U = user_row now t u c turn (n + 1)"
  define upd where "upd = (\<lambda>r :: PgMessage. r\<lparr>pm_content := pm_content U, pm_parent_message_id := pm_parent_message_id U,
    pm_turn_id := pm_turn_id U, pm_ordinal := pm_ordinal U, pm_created_at := pm_created_at U\<rparr>)"
  have rK: "r \<in> set K" "message_key r = message_key U" using r by (auto simp: K_def U_def user_row_def message_key_def)
  then have up: "upsert_user_row U K = map (\<lambda>r. if message_key r = message_key U then upd r else r) K"
    by (auto simp: upsert_user_row_def upsert_on_def list_ex_iff upd_def)
  have only: "x = r" if "x \<in> set K" "message_key x = message_key U" for x
  proof (rule inj_onD)
    show "inj_on message_key (set (db_messages db))" using unique(1) by (simp add: distinct_map)
  qed (use that rK r(1) in \<open>auto simp: K_def\<close>)
  have other: "message_key x \<noteq> message_key (assistant_row (now + 1) t u c turn j interrupted reason (n + 2))"
    if "message_key x = message_key U" for x
    using that unique(2) by (simp add: message_key_def U_def user_row_def assistant_row_def)
  have keep: "upd r \<in> set (db_messages db')" "message_key (upd r) = message_key U"
    using rK other [of "upd r"] unfolding j K_def [symmetric] U_def [symmetric] up
    by (auto simp: upsert_assistant_row_def upsert_on_def image_iff upd_def message_key_def)
  have same: "x = upd r" if "x \<in> set (db_messages db')" "message_key x = message_key U" for x
    using that other [of x] only unfolding j K_def [symmetric] U_def [symmetric] up
    by (auto simp: upsert_assistant_row_def upsert_on_def upd_def message_key_def split: if_splits)
  show ?thesis
  proof (intro conjI ballI impI)
    show "\<exists>r' \<in> set (db_messages db'). pm_user_id r' = pm_user_id r \<and> pm_conversation_id r' = pm_conversation_id r
        \<and> pm_message_id r' = pm_message_id r \<and> pm_content r' = tc_user_text turn"
      using keep(1) by (intro bexI [of _ "upd r"]) (simp_all add: upd_def U_def user_row_def)
    fix r'
    assume r': "r' \<in> set (db_messages db')" "message_row t u c r'"
    show "pm_message_id r' \<noteq> tc_user_message_id turn"
    proof
      assume "pm_message_id r' = tc_user_message_id turn"
      then have "message_key r' = message_key U" using r'(2) by (simp add: message_key_def U_def user_row_def message_row_def)
      then have "r' = upd r" using same r'(1) by blast
      then show False using r'(2) r(4) by (simp add: upd_def message_row_def)
    qed
  qed
qed

definition attack :: TurnCommit where
  "attack = \<lparr>tc_turn_id = ''k'', tc_user_message_id = ''xu'', tc_user_text = ''not what I said'', tc_parent_message_id = None,
     tc_assistant_message_id = ''ka'', tc_assistant_text = ''ok'', tc_citations = []\<rparr>"

theorem foreign_message_overwritten_witness:
  "\<exists>db'. pg_turn_transaction sample_citations 9 ''t'' ''v'' ''d'' attack False None sample_db = Ok db'
    \<and> (\<exists>r' \<in> set (db_messages db'). pm_user_id r' = ''u'' \<and> pm_conversation_id r' = ''c'' \<and> pm_content r' = ''not what I said'')"
proof -
  let ?r = "user_row 1 ''t'' ''u'' ''c'' (sample_turn ''x'' None) 1"
  obtain db' where db': "pg_turn_transaction sample_citations 9 ''t'' ''v'' ''d'' attack False None sample_db = Ok db'"
    by (simp add: pg_turn_transaction_def sample_db_def sample_conversation_row_def conversation_row_def parent_ordinal_of_def attack_def
        sample_citations_def check_unique_def upsert_user_row_def upsert_assistant_row_def upsert_on_def Let_def message_key_def
        ordinal_key_def user_row_def assistant_row_def message_row_def sample_turn_def)
  have "?r \<in> set (db_messages sample_db)" by (simp add: sample_db_def)
  then show ?thesis
    using foreign_message_overwritten [OF db', of ?r] sample_db_ok db'
    by (auto simp: attack_def user_row_def sample_turn_def message_row_def pg_conversation_ok_def)
qed

end
