(* ===== verification/Chat_Llm.thy ===== *)
theory Chat_Llm
  imports Chat
begin

text \<open>
  What goes to the language model and what comes back: the types and \<open>split_history\<close> of
  crates/llm/src/lib.rs, and \<open>llm_messages\<close>, \<open>clean_title\<close> and \<open>generate_title\<close> of
  services/chat-worker/src/main.rs. The provider behind the client is a parameter: the items its
  stream yields are an argument. The messages of the rig library are the three constructors the code
  calls. Environment variables are a function from names to values.
\<close>

section \<open>Messages\<close>

datatype Role = LlmSystem | LlmUser | LlmAssistant

record LlmMessage =
  lm_role :: Role
  lm_content :: string

datatype RigMessage = RigUser string | RigSystem string | RigAssistant string

text \<open>\<open>last_user.take()\<close> followed by a push, the first step of every branch.\<close>

definition flush_user :: "string option \<Rightarrow> RigMessage list \<Rightarrow> RigMessage list" where
  "flush_user last_user history = (case last_user of Some previous \<Rightarrow> history @ [RigUser previous] | None \<Rightarrow> history)"

fun split_loop :: "LlmMessage list \<Rightarrow> string option \<Rightarrow> RigMessage list \<Rightarrow> string option \<times> RigMessage list" where
  "split_loop [] last_user history = (last_user, history)"
| "split_loop (message # messages) last_user history = (case lm_role message of
      LlmSystem \<Rightarrow> split_loop messages None (flush_user last_user history @ [RigSystem (lm_content message)])
    | LlmUser \<Rightarrow> split_loop messages (Some (lm_content message)) (flush_user last_user history)
    | LlmAssistant \<Rightarrow> split_loop messages None (flush_user last_user history @ [RigAssistant (lm_content message)]))"

definition split_history :: "LlmMessage list \<Rightarrow> (string \<times> RigMessage list, string) result" where
  "split_history messages = (case split_loop messages None [] of
      (Some prompt, history) \<Rightarrow> Ok (prompt, history)
    | (None, _) \<Rightarrow> Err ''chat request had no trailing user message'')"

definition role_of :: "MessageRole \<Rightarrow> Role" where
  "role_of r = (case r of RoleUser \<Rightarrow> LlmUser | RoleAssistant \<Rightarrow> LlmAssistant | RoleSystem \<Rightarrow> LlmSystem)"

definition interruption_note :: LlmMessage where
  "interruption_note = \<lparr>lm_role = LlmSystem, lm_content =
     ''The previous assistant response was interrupted by the user and may be incomplete. Treat it as partial context, not as a finished answer.''\<rparr>"

fun llm_loop :: "string option \<Rightarrow> MessageDto list \<Rightarrow> LlmMessage list" where
  "llm_loop last_history_message_id [] = []"
| "llm_loop last_history_message_id (message # history) =
     \<lparr>lm_role = role_of (md_role message), lm_content = md_content message\<rparr>
     # (if Some (md_id message) = last_history_message_id \<and> md_interrupted message then [interruption_note] else [])
     @ llm_loop last_history_message_id history"

definition llm_messages :: "MessageDto list \<Rightarrow> string \<Rightarrow> LlmMessage list" where
  "llm_messages history user_text =
     llm_loop (if history = [] then None else Some (md_id (List.last history))) history
     @ [\<lparr>lm_role = LlmUser, lm_content = user_text\<rparr>]"

section \<open>What the model sees\<close>

definition to_rig :: "LlmMessage \<Rightarrow> RigMessage" where
  "to_rig m = (case lm_role m of LlmSystem \<Rightarrow> RigSystem (lm_content m) | LlmUser \<Rightarrow> RigUser (lm_content m)
     | LlmAssistant \<Rightarrow> RigAssistant (lm_content m))"

lemma split_loop_eq:
  "split_loop ms last_user history =
    (if ms = [] then (last_user, history)
     else if lm_role (List.last ms) = LlmUser
     then (Some (lm_content (List.last ms)), flush_user last_user history @ map to_rig (butlast ms))
     else (None, flush_user last_user history @ map to_rig ms))"
  by (induction ms arbitrary: last_user history)
    (auto simp: flush_user_def to_rig_def split: Role.splits option.splits)

lemma llm_loop_no_note:
  "(\<And>m. m \<in> set ms \<Longrightarrow> Some (md_id m) \<noteq> t) \<Longrightarrow>
    llm_loop t ms = map (\<lambda>m. \<lparr>lm_role = role_of (md_role m), lm_content = md_content m\<rparr>) ms"
  by (induction ms) (auto dest: meta_spec)

lemma llm_loop_append: "llm_loop t (ms @ ns) = llm_loop t ms @ llm_loop t ns"
  by (induction ms) auto

text \<open>The model is given the whole conversation, in order, and the new text as its prompt. The
  messages behind the prompt are exactly the messages of the conversation, and a note that the last
  answer was interrupted follows it when it was; no request is refused for want of a prompt.\<close>

theorem model_sees_conversation:
  assumes "distinct (map md_id history)"
  shows "split_history (llm_messages history user_text) =
    Ok (user_text, map (\<lambda>m. to_rig \<lparr>lm_role = role_of (md_role m), lm_content = md_content m\<rparr>) history
      @ (if history \<noteq> [] \<and> md_interrupted (List.last history) then [to_rig interruption_note] else []))"
proof -
  let ?f = "\<lambda>m. \<lparr>lm_role = role_of (md_role m), lm_content = md_content m\<rparr>"
  have "llm_messages history user_text = map ?f history
      @ (if history \<noteq> [] \<and> md_interrupted (List.last history) then [interruption_note] else [])
      @ [\<lparr>lm_role = LlmUser, lm_content = user_text\<rparr>]"
  proof (cases history rule: rev_cases)
    case Nil
    then show ?thesis by (simp add: llm_messages_def)
  next
    case (snoc ms m)
    have "llm_loop (Some (md_id m)) ms = map ?f ms"
      using assms snoc by (intro llm_loop_no_note) (auto simp: image_iff)
    then show ?thesis using snoc by (simp add: llm_messages_def llm_loop_append)
  qed
  then show ?thesis
    by (simp add: split_history_def split_loop_eq flush_user_def butlast_append)
qed

theorem model_sees_conversation_witness:
  "split_history (llm_messages [\<lparr>md_id = ''a'', md_role = RoleUser, md_content = ''hi'', md_parent_message_id = None, md_citations = [],
       md_turn_id = None, md_interrupted = False, md_finish_reason = None, md_created_at = 0\<rparr>,
     \<lparr>md_id = ''b'', md_role = RoleAssistant, md_content = ''hel'', md_parent_message_id = Some ''a'', md_citations = [],
       md_turn_id = None, md_interrupted = True, md_finish_reason = None, md_created_at = 0\<rparr>] ''go on'') =
   Ok (''go on'', [RigUser ''hi'', RigAssistant ''hel'', RigSystem (lm_content interruption_note)])"
  by (subst model_sees_conversation) (simp_all add: to_rig_def role_of_def interruption_note_def)

section \<open>Titles\<close>

definition quotes :: "string list" where
  "quotes = [[CHR 0x22], [CHR 0x27], [CHR 0xE2, CHR 0x80, CHR 0x9C], [CHR 0xE2, CHR 0x80, CHR 0x9D],
     [CHR 0xE2, CHR 0x80, CHR 0x98], [CHR 0xE2, CHR 0x80, CHR 0x99]]"

definition unquote :: "string \<Rightarrow> string" where
  "unquote title = (let cs = chars title in
     if 2 \<le> length cs \<and> hd cs \<in> set quotes \<and> List.last cs \<in> set quotes
     then trim (concat (take (length cs - 2) (drop 1 cs))) else title)"

definition clean_title :: "string \<Rightarrow> string" where
  "clean_title raw = (let title = unquote (trim raw) in
     if 60 < length (chars title) then concat (take 60 (chars title)) else title)"

text \<open>The stream of the title model: text items, or an error that ends it.\<close>

fun collect_text :: "(string, string) result list \<Rightarrow> string option" where
  "collect_text [] = Some []"
| "collect_text (Ok chunk # items) = map_option (\<lambda>rest. chunk @ rest) (collect_text items)"
| "collect_text (Err _ # items) = None"

definition title_prompt :: "string \<Rightarrow> string \<Rightarrow> LlmMessage list" where
  "title_prompt user_msg assistant_msg =
     [\<lparr>lm_role = LlmSystem, lm_content = ''You produce concise chat titles. Respond with ONLY the title (no quotes, no preamble), 60 characters or less, summarising the user's question.''\<rparr>,
      \<lparr>lm_role = LlmUser, lm_content = ''User: '' @ user_msg @ [CHR 0x0A, CHR 0x0A] @ ''Assistant: '' @ assistant_msg
         @ [CHR 0x0A, CHR 0x0A] @ ''Title:''\<rparr>]"

definition generate_title ::
  "(LlmMessage list \<Rightarrow> ((string, string) result list, string) result) \<Rightarrow> string \<Rightarrow> string \<Rightarrow> string option" where
  "generate_title stream_chat user_msg assistant_msg = (case stream_chat (title_prompt user_msg assistant_msg) of
      Err _ \<Rightarrow> None
    | Ok items \<Rightarrow> Option.bind (collect_text items) (\<lambda>output.
        let title = clean_title output in if title = [] then None else Some title))"

text \<open>The encodings of scalar values stay apart when some of them are put together again.\<close>

definition scalar :: "string \<Rightarrow> bool" where
  "scalar x = (x \<noteq> [] \<and> list_all is_cont (tl x))"

lemma chars_scalar: "x \<in> set (chars s) \<Longrightarrow> scalar x"
  by (induction s rule: chars.induct) (auto simp: scalar_def list_all_iff dest: set_takeWhileD)

lemma chars_starts: "xs @ x # ys = chars s \<Longrightarrow> xs \<noteq> [] \<Longrightarrow> \<not> is_cont (hd x)"
proof (induction s arbitrary: xs rule: chars.induct)
  case (2 b bs)
  obtain x0 xs' where xs: "xs = x0 # xs'" using 2(3) by (cases xs) auto
  then have rest: "xs' @ x # ys = chars (dropWhile is_cont bs)" using 2(2) by simp
  show ?case
  proof (cases "xs' = []")
    case True
    then obtain d ds where "dropWhile is_cont bs = d # ds" "x = d # takeWhile is_cont ds"
      using rest by (cases "dropWhile is_cont bs") auto
    then show ?thesis using hd_dropWhile [of is_cont bs] by simp
  next
    case False
    then show ?thesis using 2(1) rest by blast
  qed
qed simp

lemma chars_Cons_scalar:
  assumes "scalar x" "ys = [] \<or> \<not> is_cont (hd ys)"
  shows "chars (x @ ys) = x # chars ys"
proof -
  obtain b bs where x: "x = b # bs" "list_all is_cont bs" using assms(1) by (cases x) (auto simp: scalar_def)
  then have "takeWhile is_cont (bs @ ys) = bs" "dropWhile is_cont (bs @ ys) = ys"
    using assms(2) by (cases ys; simp add: list_all_iff takeWhile_append dropWhile_append)+
  then show ?thesis by (simp add: x)
qed

lemma chars_concat_take: "chars (concat (take n (chars s))) = take n (chars s)"
proof -
  have "chars (concat xs) = xs" if "\<forall>x \<in> set xs. scalar x" "\<And>as x bs. xs = as @ x # bs \<Longrightarrow> as \<noteq> [] \<Longrightarrow> \<not> is_cont (hd x)" for xs
    using that
  proof (induction xs)
    case (Cons x xs)
    have "concat xs = [] \<or> \<not> is_cont (hd (concat xs))"
    proof (cases xs)
      case (Cons y ys)
      then show ?thesis using Cons.prems(1) Cons.prems(2) [of "[x]" y ys] by (cases y) (auto simp: scalar_def)
    qed simp
    moreover have "chars (concat xs) = xs"
      using Cons.prems(1) Cons.prems(2) by (intro Cons.IH) (auto, metis append_Cons list.distinct(1))
    ultimately show ?case using Cons.prems(1) by (simp add: chars_Cons_scalar)
  qed simp
  moreover have "\<not> is_cont (hd x)" if "take n (chars s) = as @ x # bs" "as \<noteq> []" for as x bs
    using chars_starts [of as x "bs @ drop n (chars s)" s] that by (metis append.assoc append_Cons append_take_drop_id)
  ultimately show ?thesis using chars_scalar by (metis in_set_takeD)
qed

text \<open>A generated title has at most sixty characters, counted as Unicode scalar values, and is never
  empty: the conversation keeps its title when the model fails or answers with nothing.\<close>

theorem title_is_short:
  assumes "generate_title stream_chat user_msg assistant_msg = Some title"
  shows "length (chars title) \<le> 60 \<and> title \<noteq> []"
  using assms by (auto simp: generate_title_def clean_title_def Let_def chars_concat_take
      split: result.splits if_splits bind_splits)

theorem title_is_short_witness:
  "generate_title (\<lambda>_. Ok [Ok ''  \"Gre'', Ok ''etings\" '']) ''hi'' ''hello'' = Some ''Greetings'' \<and> length (chars ''Greetings'') \<le> 60"
proof -
  have "generate_title (\<lambda>_. Ok [Ok ''  \"Gre'', Ok ''etings\" '']) ''hi'' ''hello'' = Some ''Greetings''" by code_simp
  from this title_is_short [OF this] show ?thesis by simp
qed

end
