(* ===== verification/Chat_Worker.thy ===== *)
theory Chat_Worker
  imports Chat_Llm
begin

text \<open>
  services/chat-worker/src/main.rs: how a worker runs a turn. The bus, the repository, the clock, the
  generator of ids and the language model are ports. What the \<open>tokio::select!\<close> of \<open>drive_turn\<close>
  yields, the chunks of the model, stop signals, ticks of the stop poll and failures of the
  maintenance task, is a list of inputs in the order the runtime picks them; a list that ends before
  the stream does is a worker that is gone at that point. The maintenance task itself only renews the
  lease and reports progress: its effects on the bus are those of another process.

  Each function of the source is one definition. An error of anyhow is its message.
\<close>

section \<open>Ports and inputs\<close>

record 'w WorkerState =
  wk_repo :: "'w ChatRepository"
  wk_bus :: "'w ChatBus"
  wk_worker_id :: string
  wk_now :: "('w, datetime) state"
  wk_ulid :: "('w, string) state"
  wk_stream_chat :: "LlmMessage list \<Rightarrow> ('w, (unit, string) result) state"

datatype TurnError = TurnFailed string | CutOff

definition bus_error :: "ChatBusError \<Rightarrow> TurnError" where
  "bus_error e = TurnFailed (display_ChatBusError e)"

definition storage_error :: "StorageError \<Rightarrow> TurnError" where
  "storage_error e = TurnFailed (display_StorageError e)"

datatype DriveInput =
    MaintenanceError string
  | MaintenanceQuiet
  | StopPoll
  | StopReceived StopSignal
  | StopQuiet
  | LlmChunk string
  | LlmFailed string
  | LlmEnd

section \<open>Events\<close>

definition turn_envelope :: "TurnRequested \<Rightarrow> datetime \<Rightarrow> ChatEvent \<Rightarrow> ChatEventEnvelope" where
  "turn_envelope command now event = \<lparr>ee_v = CONTRACT_VERSION, ee_tenant_id = tr_tenant_id command,
     ee_user_id = tr_user_id command, ee_conversation_id = tr_conversation_id command,
     ee_turn_id = tr_turn_id command, ee_ts = now, ee_event = event\<rparr>"

definition publish_event ::
  "'w WorkerState \<Rightarrow> TurnRequested \<Rightarrow> ChatEvent \<Rightarrow> ('w, (string, TurnError) result) state" where
  "publish_event st command event = wk_now st \<bind> (\<lambda>now.
     attempt bus_error (cb_publish_event (wk_bus st) (turn_envelope command now event)) (\<lambda>i. ret (Ok i)))"

definition failure_text :: string where
  "failure_text = ''The assistant failed before the turn could be saved.''"

definition publish_failed_turn ::
  "'w WorkerState \<Rightarrow> TurnRequested \<Rightarrow> string \<Rightarrow> string \<Rightarrow> ('w, (unit, TurnError) result) state" where
  "publish_failed_turn st command user_id message =
     cr_record_turn_failed (wk_repo st) (tr_tenant_id command) user_id (tr_conversation_id command) (tr_turn_id command) message
     \<bind> (\<lambda>_. attempt id (publish_event st command (ChatError failure_text)) (\<lambda>_.
       attempt id (publish_event st command (Clear FailedBeforeCommit)) (\<lambda>_. ret (Ok ()))))"

definition mark_published :: "'w WorkerState \<Rightarrow> string \<Rightarrow> string \<Rightarrow> string \<Rightarrow> ('w, (unit, TurnError) result) state" where
  "mark_published st tenant_id conversation_id turn_id =
     attempt bus_error (cb_mark_terminal_event_published (wk_bus st) tenant_id conversation_id turn_id) (\<lambda>_. ret (Ok ()))"

definition publish_missing_terminal_event ::
  "'w WorkerState \<Rightarrow> TurnRequested \<Rightarrow> ChatLock \<Rightarrow> ('w, (unit, TurnError) result) state" where
  "publish_missing_terminal_event st command lock =
     (let mark = mark_published st (tr_tenant_id command) (tr_conversation_id command) (tr_turn_id command) in
      if cl_terminal_event_published lock then ret (Ok ())
      else (case cl_state lock of
          LockCommitted \<Rightarrow> (case cl_assistant_message_id lock of
              None \<Rightarrow> ret (Err (TurnFailed ''committed turn missing assistant message id''))
            | Some assistant_message_id \<Rightarrow>
                attempt id (publish_event st command (Finish assistant_message_id FinishStop)) (\<lambda>_. mark))
        | LockInterrupted \<Rightarrow> (case cl_assistant_message_id lock of
              None \<Rightarrow> ret (Err (TurnFailed ''interrupted turn missing assistant message id''))
            | Some assistant_message_id \<Rightarrow>
                attempt id (publish_event st command (TurnInterrupted assistant_message_id
                  (case cl_terminal_content lock of Some content \<Rightarrow> content | None \<Rightarrow> []) UserInterrupted)) (\<lambda>_. mark))
        | LockFailed \<Rightarrow>
            attempt id (publish_event st command (ChatError failure_text)) (\<lambda>_.
              attempt id (publish_event st command (Clear FailedBeforeCommit)) (\<lambda>_. mark))
        | LockRequested \<Rightarrow> ret (Ok ())
        | LockRunning \<Rightarrow> ret (Ok ())))"

section \<open>Ending a turn\<close>

definition fail_owned_turn ::
  "'w WorkerState \<Rightarrow> TurnRequested \<Rightarrow> ChatLock \<Rightarrow> string \<Rightarrow> ('w, (unit, TurnError) result) state" where
  "fail_owned_turn st command lock message =
     attempt bus_error (cb_mark_lock_terminal (wk_bus st) (tr_tenant_id command) (tr_conversation_id command)
         (tr_turn_id command) (Some (wk_worker_id st))
         \<lparr>tu_state = LockFailed, tu_assistant_message_id = None, tu_content = None, tu_error = Some message\<rparr>) (\<lambda>failed.
       attempt id (publish_failed_turn st command (cl_user_id lock) message) (\<lambda>_.
         mark_published st (cl_tenant_id failed) (cl_conversation_id failed) (cl_turn_id failed)))"

definition turn_commit :: "TurnRequested \<Rightarrow> ChatLock \<Rightarrow> string \<Rightarrow> string \<Rightarrow> TurnCommit" where
  "turn_commit command lock assistant_message_id assistant_text = \<lparr>tc_turn_id = tr_turn_id command,
     tc_user_message_id = cl_user_message_id lock, tc_user_text = cl_text lock,
     tc_parent_message_id = cl_parent_message_id lock, tc_assistant_message_id = assistant_message_id,
     tc_assistant_text = assistant_text, tc_citations = []\<rparr>"

text \<open>Marking the turn as over, then announcing it, then noting that it is announced.\<close>

definition conclude_turn ::
  "'w WorkerState \<Rightarrow> TurnRequested \<Rightarrow> ChatTerminalUpdate \<Rightarrow> ChatEvent \<Rightarrow> ('w, (unit, TurnError) result) state" where
  "conclude_turn st command terminal event =
     attempt bus_error (cb_mark_lock_terminal (wk_bus st) (tr_tenant_id command) (tr_conversation_id command)
         (tr_turn_id command) (Some (wk_worker_id st)) terminal) (\<lambda>terminal_lock.
       attempt id (publish_event st command event) (\<lambda>_.
         mark_published st (cl_tenant_id terminal_lock) (cl_conversation_id terminal_lock) (cl_turn_id terminal_lock)))"

definition commit_interrupted_turn ::
  "'w WorkerState \<Rightarrow> TurnRequested \<Rightarrow> ChatLock \<Rightarrow> string \<Rightarrow> ('w, (unit, TurnError) result) state" where
  "commit_interrupted_turn st command lock assistant_text = wk_ulid st \<bind> (\<lambda>assistant_message_id.
     cr_commit_interrupted_turn (wk_repo st) (tr_tenant_id command) (cl_user_id lock) (tr_conversation_id command)
       (turn_commit command lock assistant_message_id assistant_text) \<bind> (\<lambda>r. case r of
         Err e \<Rightarrow> fail_owned_turn st command lock (''failed to commit interrupted chat turn: '' @ display_StorageError e)
           \<bind> (\<lambda>_. ret (Ok ()))
       | Ok _ \<Rightarrow> conclude_turn st command
           \<lparr>tu_state = LockInterrupted, tu_assistant_message_id = Some assistant_message_id,
            tu_content = Some assistant_text, tu_error = None\<rparr>
           (TurnInterrupted assistant_message_id assistant_text UserInterrupted)))"

section \<open>Stop requests\<close>

definition is_stop_for_turn :: "StopSignal \<Rightarrow> TurnRequested \<Rightarrow> bool" where
  "is_stop_for_turn signal command = (sg_tenant_id signal = tr_tenant_id command
     \<and> sg_conversation_id signal = tr_conversation_id command \<and> sg_turn_id signal = tr_turn_id command)"

text \<open>The signals that wait in the channel, in order.\<close>

fun received_stop :: "StopSignal list \<Rightarrow> TurnRequested \<Rightarrow> bool" where
  "received_stop [] command = False"
| "received_stop (signal # stops) command = (if is_stop_for_turn signal command then True else received_stop stops command)"

definition lock_stop_requested :: "'w WorkerState \<Rightarrow> TurnRequested \<Rightarrow> ('w, (bool, TurnError) result) state" where
  "lock_stop_requested st command =
     attempt bus_error (cb_stop_requested (wk_bus st) (tr_tenant_id command) (tr_conversation_id command) (tr_turn_id command))
       (\<lambda>b. ret (Ok b))"

definition stop_requested ::
  "'w WorkerState \<Rightarrow> StopSignal list \<Rightarrow> TurnRequested \<Rightarrow> ('w, (bool, TurnError) result) state" where
  "stop_requested st stops command = (if received_stop stops command then ret (Ok True) else lock_stop_requested st command)"

section \<open>Driving a turn\<close>

text \<open>The loop returns the assistant's text when the stream ended, and nothing when the turn ended
  inside it.\<close>

fun drive_loop ::
  "'w WorkerState \<Rightarrow> TurnRequested \<Rightarrow> ChatLock \<Rightarrow> DriveInput list \<Rightarrow> string \<Rightarrow> ('w, (string option, TurnError) result) state" where
  "drive_loop st command lock [] assistant_text = ret (Err CutOff)"
| "drive_loop st command lock (input # inputs) assistant_text = (case input of
      MaintenanceError message \<Rightarrow> attempt id (fail_owned_turn st command lock message) (\<lambda>_. ret (Ok None))
    | MaintenanceQuiet \<Rightarrow> drive_loop st command lock inputs assistant_text
    | StopPoll \<Rightarrow> attempt id (lock_stop_requested st command) (\<lambda>stop.
        if stop then attempt id (commit_interrupted_turn st command lock assistant_text) (\<lambda>_. ret (Ok None))
        else drive_loop st command lock inputs assistant_text)
    | StopReceived signal \<Rightarrow>
        if is_stop_for_turn signal command
        then attempt id (commit_interrupted_turn st command lock assistant_text) (\<lambda>_. ret (Ok None))
        else drive_loop st command lock inputs assistant_text
    | StopQuiet \<Rightarrow> drive_loop st command lock inputs assistant_text
    | LlmChunk chunk \<Rightarrow> attempt id (publish_event st command (TextDelta chunk)) (\<lambda>_.
        drive_loop st command lock inputs (assistant_text @ chunk))
    | LlmFailed e \<Rightarrow> attempt id (fail_owned_turn st command lock (''LLM stream failed: '' @ e)) (\<lambda>_. ret (Ok None))
    | LlmEnd \<Rightarrow> ret (Ok (Some assistant_text)))"

text \<open>The end of a completed turn; the result says whether a title is to be generated from the text.\<close>

definition complete_turn ::
  "'w WorkerState \<Rightarrow> TurnRequested \<Rightarrow> ChatLock \<Rightarrow> bool \<Rightarrow> string \<Rightarrow> ('w, (string option, TurnError) result) state" where
  "complete_turn st command lock should_generate_title assistant_text = wk_ulid st \<bind> (\<lambda>assistant_message_id.
     cr_commit_turn (wk_repo st) (tr_tenant_id command) (cl_user_id lock) (tr_conversation_id command)
       (turn_commit command lock assistant_message_id assistant_text) \<bind> (\<lambda>r. case r of
         Err e \<Rightarrow> fail_owned_turn st command lock (''failed to commit completed chat turn: '' @ display_StorageError e)
           \<bind> (\<lambda>_. ret (Ok None))
       | Ok _ \<Rightarrow> attempt id (conclude_turn st command
             \<lparr>tu_state = LockCommitted, tu_assistant_message_id = Some assistant_message_id, tu_content = None, tu_error = None\<rparr>
             (Finish assistant_message_id FinishStop))
           (\<lambda>_. ret (Ok (if should_generate_title \<and> trim assistant_text \<noteq> [] then Some assistant_text else None)))))"

definition drive_turn ::
  "'w WorkerState \<Rightarrow> TurnRequested \<Rightarrow> ChatLock \<Rightarrow> StopSignal list \<Rightarrow> DriveInput list \<Rightarrow>
     ('w, (string option, TurnError) result) state" where
  "drive_turn st command lock stops inputs =
     attempt storage_error (cr_get_conversation (wk_repo st) (tr_tenant_id command) (cl_user_id lock) (tr_conversation_id command)) (\<lambda>conversation.
     let should_generate_title = (cd_title conversation = ''New chat'' \<and> cd_messages conversation = []) in
     attempt id (publish_event st command (TurnStarted (tr_turn_id command))) (\<lambda>_.
     attempt id (publish_event st command (UserMessage (cl_user_message_id lock) (Some (tr_turn_id command)) (cl_text lock))) (\<lambda>_.
     attempt id (if cl_stop_requested lock then ret (Ok True) else stop_requested st stops command) (\<lambda>stop.
       if stop then attempt id (commit_interrupted_turn st command lock []) (\<lambda>_. ret (Ok None))
       else wk_stream_chat st (llm_messages (cd_messages conversation) (cl_text lock)) \<bind> (\<lambda>r. case r of
           Err e \<Rightarrow> attempt id (fail_owned_turn st command lock (''LLM request failed: '' @ e)) (\<lambda>_. ret (Ok None))
         | Ok _ \<Rightarrow> attempt id (drive_loop st command lock inputs []) (\<lambda>ended. case ended of
             None \<Rightarrow> ret (Ok None)
           | Some assistant_text \<Rightarrow> complete_turn st command lock should_generate_title assistant_text))))))"

section \<open>Running a command\<close>

definition ack_and_release :: "'w WorkerState \<Rightarrow> TurnRequested \<Rightarrow> ('w, (unit, TurnError) result) state" where
  "ack_and_release st command =
     attempt bus_error (cb_ack_turn_requested (wk_bus st) (tr_turn_id command)) (\<lambda>_.
       cb_release_lock (wk_bus st) (tr_tenant_id command) (tr_conversation_id command) (tr_turn_id command) \<bind> (\<lambda>_. ret (Ok ())))"

definition lease_expired_text :: string where
  "lease_expired_text = ''chat worker lease expired before completion''"

definition run_turn ::
  "'w WorkerState \<Rightarrow> TurnRequested \<Rightarrow> StopSignal list \<Rightarrow> DriveInput list \<Rightarrow> ('w, (string option, TurnError) result) state" where
  "run_turn st command stops inputs =
     (let t = tr_tenant_id command; c = tr_conversation_id command; k = tr_turn_id command in
      attempt bus_error (cb_load_lock (wk_bus st) t c) (\<lambda>existing. case existing of
        None \<Rightarrow> attempt id (publish_failed_turn st command (tr_user_id command) ''chat turn payload missing before worker claim'') (\<lambda>_.
          attempt bus_error (cb_ack_turn_requested (wk_bus st) k) (\<lambda>_. ret (Ok None)))
      | Some existing \<Rightarrow>
          if cl_turn_id existing \<noteq> k then ret (Err (TurnFailed ''conversation is owned by a different turn''))
          else if lock_is_terminal existing then
            attempt id (publish_missing_terminal_event st command existing) (\<lambda>_.
              attempt id (ack_and_release st command) (\<lambda>_. ret (Ok None)))
          else if cl_state existing = LockRunning then wk_now st \<bind> (\<lambda>now.
            if \<not> lock_is_expired now existing then ret (Err (TurnFailed ''chat turn is already running with a fresh lease''))
            else attempt bus_error (cb_mark_lock_terminal (wk_bus st) t c k None
                \<lparr>tu_state = LockFailed, tu_assistant_message_id = None, tu_content = None, tu_error = Some lease_expired_text\<rparr>) (\<lambda>failed.
              attempt storage_error (cr_record_turn_failed (wk_repo st) t (cl_user_id failed) c k lease_expired_text) (\<lambda>_.
              attempt id (publish_missing_terminal_event st command failed) (\<lambda>_.
              attempt id (ack_and_release st command) (\<lambda>_. ret (Ok None))))))
          else attempt bus_error (cb_claim_lock (wk_bus st) t c k (wk_worker_id st)) (\<lambda>lock.
            drive_turn st command lock stops inputs \<bind> (\<lambda>result. case result of
              Ok title \<Rightarrow> attempt id (ack_and_release st command) (\<lambda>_. ret (Ok title))
            | Err e \<Rightarrow> ret (Err e)))))"

text \<open>The task that names a conversation after its first turn.\<close>

definition spawn_title_generation ::
  "'w WorkerState \<Rightarrow> (LlmMessage list \<Rightarrow> ((string, string) result list, string) result) \<Rightarrow> TurnRequested \<Rightarrow> ChatLock \<Rightarrow> string \<Rightarrow>
     ('w, unit) state" where
  "spawn_title_generation st title_llm command lock assistant_text =
     (case generate_title title_llm (cl_text lock) assistant_text of
        None \<Rightarrow> ret ()
      | Some title \<Rightarrow>
          cr_rename_conversation_if_default (wk_repo st) (tr_tenant_id command) (cl_user_id lock) (tr_conversation_id command) title
          \<bind> (\<lambda>r. case r of
              Ok (Some _) \<Rightarrow> publish_event st command (TitleUpdated title) \<bind> (\<lambda>_. ret ())
            | Ok None \<Rightarrow> ret ()
            | Err _ \<Rightarrow> ret ()))"

end
