(* ===== verification/Chat_Turns.thy ===== *)
theory Chat_Turns
  imports Chat_Worker
begin

text \<open>
  The contract between the worker and its ports, and what the worker guarantees on top of it. The
  locale \<open>turn_ports\<close> fixes the ports of one worker; its assumptions say what a port does to the
  world, under which condition it may be called, and what can be relied on of everybody else. From
  them: a worker announces the end of a turn before it acknowledges the command, and announces a
  result only after it has committed it, wherever a port fails.
\<close>

section \<open>Vocabulary\<close>

fun ends_event :: "ChatEvent \<Rightarrow> bool" where
  "ends_event (Finish _ _) = True"
| "ends_event (TurnInterrupted _ _ _) = True"
| "ends_event (Clear _) = True"
| "ends_event _ = False"

text \<open>The message an event announces as committed.\<close>

fun announces :: "ChatEvent \<Rightarrow> string option" where
  "announces (Finish a _) = Some a"
| "announces (TurnInterrupted a _ _) = Some a"
| "announces _ = None"

text \<open>A turn as the bus knows it: the key of its conversation, and its id.\<close>

type_synonym turn_id = "string \<times> string"

definition turn_of :: "TurnRequested \<Rightarrow> turn_id" where
  "turn_of command = (lock_key (tr_tenant_id command) (tr_conversation_id command), tr_turn_id command)"

definition turn_of_event :: "ChatEventEnvelope \<Rightarrow> turn_id" where
  "turn_of_event e = (lock_key (ee_tenant_id e) (ee_conversation_id e), ee_turn_id e)"

definition turn_of_lock :: "ChatLock \<Rightarrow> turn_id" where
  "turn_of_lock l = (lock_key (cl_tenant_id l) (cl_conversation_id l), cl_turn_id l)"

definition announced :: "ChatEventEnvelope set \<Rightarrow> turn_id \<Rightarrow> bool" where
  "announced E k = (\<exists>e \<in> E. turn_of_event e = k \<and> ends_event (ee_event e))"

lemma announcedI: "e \<in> E \<Longrightarrow> turn_of_event e = k \<Longrightarrow> ends_event (ee_event e) \<Longrightarrow> announced E k"
  by (auto simp: announced_def)

lemma announced_mono: "announced E k \<Longrightarrow> E \<subseteq> F \<Longrightarrow> announced F k"
  by (auto simp: announced_def)

text \<open>What a lock says about the end of its turn.\<close>

definition lock_result :: "ChatLock \<Rightarrow> string option" where
  "lock_result l = (case cl_state l of
      LockCommitted \<Rightarrow> cl_assistant_message_id l | LockInterrupted \<Rightarrow> cl_assistant_message_id l | _ \<Rightarrow> None)"

definition update_result :: "ChatTerminalUpdate \<Rightarrow> string option" where
  "update_result upd = (case tu_state upd of
      LockCommitted \<Rightarrow> tu_assistant_message_id upd | LockInterrupted \<Rightarrow> tu_assistant_message_id upd | _ \<Rightarrow> None)"

section \<open>The ports of a worker\<close>

locale turn_ports = guarantee G for G :: "'w \<Rightarrow> 'w \<Rightarrow> bool" +
  fixes st :: "'w WorkerState"
    and I :: "'w \<Rightarrow> bool"
    and events :: "'w \<Rightarrow> ChatEventEnvelope set"
    and committed :: "'w \<Rightarrow> (turn_id \<times> string) set"
    and refused :: "'w \<Rightarrow> turn_id set"
  assumes I_stable: "G w w' \<Longrightarrow> I w \<Longrightarrow> I w'"
    and events_grow: "G w w' \<Longrightarrow> events w \<subseteq> events w'"
    and committed_grow: "G w w' \<Longrightarrow> committed w \<subseteq> committed w'"
    and refused_stays: "G w w' \<Longrightarrow> refused w \<subseteq> refused w'"
    and now_moves: "rg G I (wk_now st) (\<lambda>_ _. True)"
    and ulid_moves: "rg G I (wk_ulid st) (\<lambda>_ _. True)"
    and llm_moves: "rg G I (wk_stream_chat st ms) (\<lambda>_ _. True)"
    and get_moves: "rg G I (cr_get_conversation (wk_repo st) t u c) (\<lambda>_ _. True)"
    and failed_moves: "rg G I (cr_record_turn_failed (wk_repo st) t u c k m) (\<lambda>_ _. True)"
    and stop_moves: "rg G I (cb_stop_requested (wk_bus st) t c k) (\<lambda>_ _. True)"
    and release_moves: "rg G I (cb_release_lock (wk_bus st) t c k) (\<lambda>_ _. True)"
    and claim_moves: "rg G I (cb_claim_lock (wk_bus st) t c k wid) (\<lambda>_ _. True)"
    and publish_moves: "rg G (\<lambda>w. I w \<and> (\<forall>a. announces (ee_event e) = Some a \<longrightarrow> (turn_of_event e, a) \<in> committed w))
      (cb_publish_event (wk_bus st) e) (\<lambda>r w. is_ok r \<longrightarrow> e \<in> events w)"
    and load_moves: "rg G I (cb_load_lock (wk_bus st) t c) (\<lambda>r w. \<forall>l. r = Ok (Some l) \<longrightarrow>
      turn_of_lock l = (lock_key t c, cl_turn_id l)
      \<and> (cl_terminal_event_published l \<longrightarrow> announced (events w) (turn_of_lock l))
      \<and> (\<forall>a. lock_result l = Some a \<longrightarrow> (turn_of_lock l, a) \<in> committed w))"
    and mark_terminal_moves: "rg G (\<lambda>w. I w \<and> (\<forall>a. update_result upd = Some a \<longrightarrow> ((lock_key t c, k), a) \<in> committed w))
      (cb_mark_lock_terminal (wk_bus st) t c k owner upd)
      (\<lambda>r w. \<forall>l. r = Ok l \<longrightarrow> turn_of_lock l = (lock_key t c, k) \<and> \<not> cl_terminal_event_published l
        \<and> cl_state l = tu_state upd \<and> cl_assistant_message_id l = tu_assistant_message_id upd)"
    and mark_published_moves: "rg G (\<lambda>w. I w \<and> announced (events w) (lock_key t c, k))
      (cb_mark_terminal_event_published (wk_bus st) t c k) (\<lambda>_ _. True)"
    and ack_moves: "rg G (\<lambda>w. I w \<and> (announced (events w) (key, k) \<or> (key, k) \<in> refused w))
      (cb_ack_turn_requested (wk_bus st) k) (\<lambda>_ _. True)"
    and commit_moves: "rg G I (cr_commit_turn (wk_repo st) t u c turn) (\<lambda>r w.
      if is_ok r then ((lock_key t c, tc_turn_id turn), tc_assistant_message_id turn) \<in> committed w
      else (lock_key t c, tc_turn_id turn) \<in> refused w)"
    and commit_interrupted_moves: "rg G I (cr_commit_interrupted_turn (wk_repo st) t u c turn) (\<lambda>r w.
      if is_ok r then ((lock_key t c, tc_turn_id turn), tc_assistant_message_id turn) \<in> committed w
      else (lock_key t c, tc_turn_id turn) \<in> refused w)"
begin

text \<open>The assumptions in the form the proofs use: a port keeps the invariant and every fact that the
  guarantee preserves.\<close>

lemma keeps: "rg G P m Q \<Longrightarrow> (\<And>w. P w \<Longrightarrow> I w) \<Longrightarrow> rg G P m (\<lambda>r w. Q r w \<and> I w)"
  using I_stable unfolding rg_def by blast

lemma frame:
  assumes "rg G P m Q" "\<And>w w'. G w w' \<Longrightarrow> S w \<Longrightarrow> S w'"
  shows "rg G (\<lambda>w. P w \<and> S w) m (\<lambda>r w. Q r w \<and> S w)"
  using assms by (rule rg_frame)

lemma committed_stable: "G w w' \<Longrightarrow> x \<in> committed w \<Longrightarrow> x \<in> committed w'"
  using committed_grow by blast

lemma announced_stable: "G w w' \<Longrightarrow> announced (events w) k \<Longrightarrow> announced (events w') k"
  using events_grow announced_mono by blast

text \<open>Publishing. \<open>may_announce\<close> is the licence an event needs.\<close>

definition may_announce :: "TurnRequested \<Rightarrow> ChatEvent \<Rightarrow> 'w \<Rightarrow> bool" where
  "may_announce command event w = (\<forall>a. announces event = Some a \<longrightarrow> (turn_of command, a) \<in> committed w)"

lemma may_announce_stable: "G w w' \<Longrightarrow> may_announce command event w \<Longrightarrow> may_announce command event w'"
  using committed_grow by (auto simp: may_announce_def)

lemma turn_of_envelope [simp]: "turn_of_event (turn_envelope command now event) = turn_of command"
  "ee_event (turn_envelope command now event) = event"
  by (simp_all add: turn_of_event_def turn_envelope_def turn_of_def)

lemma publish_rg:
  "rg G (\<lambda>w. I w \<and> may_announce command event w) (publish_event st command event)
    (\<lambda>r w. I w \<and> (is_ok r \<longrightarrow> ends_event event \<longrightarrow> announced (events w) (turn_of command)))"
  unfolding publish_event_def
proof (rule rg_bind)
  show "rg G (\<lambda>w. I w \<and> may_announce command event w) (wk_now st) (\<lambda>_ w. I w \<and> may_announce command event w)"
    by (rule rg_post [OF frame [OF keeps [OF now_moves] may_announce_stable]]) auto
  show "rg G (\<lambda>w. I w \<and> may_announce command event w)
      (attempt bus_error (cb_publish_event (wk_bus st) (turn_envelope command now event)) (\<lambda>i. ret (Ok i)))
      (\<lambda>r w. I w \<and> (is_ok r \<longrightarrow> ends_event event \<longrightarrow> announced (events w) (turn_of command)))" for now
    by (rule rg_attempt [OF rg_pre [OF keeps [OF publish_moves [of "turn_envelope command now event"]]]])
      (auto simp: may_announce_def intro!: rg_ret announcedI)
qed

text \<open>The end of a turn. \<open>over\<close>: the turn is announced, or its commit was refused; an operation that
  keeps the invariant and returns \<open>Ok\<close> only when the turn is over may be followed by the
  acknowledgement.\<close>

definition over :: "TurnRequested \<Rightarrow> 'w \<Rightarrow> bool" where
  "over command w = (announced (events w) (turn_of command) \<or> turn_of command \<in> refused w)"

lemma over_stable: "G w w' \<Longrightarrow> over command w \<Longrightarrow> over command w'"
  unfolding over_def using announced_stable [of w w' "turn_of command"] refused_stays [of w w'] by blast

definition finishing :: "TurnRequested \<Rightarrow> ('w \<Rightarrow> bool) \<Rightarrow> ('w, ('a, TurnError) result) state \<Rightarrow> bool" where
  "finishing command P m = rg G (\<lambda>w. I w \<and> P w) m (\<lambda>r w. I w \<and> (is_ok r \<longrightarrow> over command w))"

lemma finishing_err [intro]: "finishing command P (ret (Err e))"
  unfolding finishing_def by (rule rg_ret) simp

lemma finishing_over: "(\<And>w. P w \<Longrightarrow> over command w) \<Longrightarrow> finishing command P (ret r)"
  unfolding finishing_def by (rule rg_ret) simp

lemma finishing_pre: "finishing command P m \<Longrightarrow> (\<And>w. Q w \<Longrightarrow> P w) \<Longrightarrow> finishing command Q m"
  unfolding finishing_def by (erule rg_pre) simp

lemma finishing_when: "(b \<Longrightarrow> finishing command P m) \<Longrightarrow> finishing command (\<lambda>w. b \<and> P w) m"
  unfolding finishing_def rg_def by blast

lemma finishing_bind:
  "rg G (\<lambda>w. I w \<and> P w) m (\<lambda>r w. I w \<and> Q r w) \<Longrightarrow> (\<And>a. finishing command (Q a) (f a)) \<Longrightarrow> finishing command P (m \<bind> f)"
  unfolding finishing_def by (rule rg_bind)

lemma finishing_attempt:
  "rg G (\<lambda>w. I w \<and> P w) m (\<lambda>r w. I w \<and> Q r w) \<Longrightarrow> (\<And>a. finishing command (Q (Ok a)) (f a)) \<Longrightarrow> finishing command P (attempt from m f)"
  unfolding finishing_def by (erule rg_attempt) auto

lemma licensed_port:
  assumes "rg G (\<lambda>w. I w \<and> R w) m Q" "\<And>w. P w \<Longrightarrow> R w" "\<And>w w'. G w w' \<Longrightarrow> P w \<Longrightarrow> P w'"
  shows "rg G (\<lambda>w. I w \<and> P w) m (\<lambda>r w. I w \<and> (Q r w \<and> P w))"
  using assms I_stable unfolding rg_def by blast

lemma port:
  assumes "rg G I m Q" "\<And>w w'. G w w' \<Longrightarrow> P w \<Longrightarrow> P w'"
  shows "rg G (\<lambda>w. I w \<and> P w) m (\<lambda>r w. I w \<and> (Q r w \<and> P w))"
  by (rule licensed_port [OF rg_pre [OF assms(1)]]) (use assms(2) in auto)

lemma publish_port:
  assumes "\<And>w. P w \<Longrightarrow> may_announce command event w" "\<And>w w'. G w w' \<Longrightarrow> P w \<Longrightarrow> P w'"
  shows "rg G (\<lambda>w. I w \<and> P w) (publish_event st command event)
    (\<lambda>r w. I w \<and> (P w \<and> (is_ok r \<and> ends_event event \<longrightarrow> announced (events w) (turn_of command))))"
  by (rule rg_weaken [OF frame [OF publish_rg assms(2)]]) (use assms(1) in auto)

lemma silent: "announces event = None \<Longrightarrow> may_announce command event w"
  by (simp add: may_announce_def)

lemma over_announced: "announced (events w) (turn_of command) \<Longrightarrow> over command w"
  by (simp add: over_def)

lemma finishing_published:
  assumes "(lock_key t c, k) = turn_of command"
  shows "finishing command (\<lambda>w. announced (events w) (turn_of command)) (mark_published st t c k)"
  unfolding mark_published_def
  by (rule finishing_attempt [OF licensed_port [OF mark_published_moves [of t c k]]])
    (auto simp: assms intro!: finishing_over over_announced elim: announced_stable)

lemma finishing_publish:
  assumes "ends_event event" "finishing command (\<lambda>w. announced (events w) (turn_of command)) m"
  shows "finishing command (may_announce command event) (attempt id (publish_event st command event) (\<lambda>_. m))"
  by (rule finishing_attempt [OF publish_port [OF _ may_announce_stable]])
    (auto intro!: finishing_pre [OF assms(2)] simp: assms(1))

lemma finishing_silent:
  assumes "announces event = None" "finishing command (\<lambda>_. True) m"
  shows "finishing command (\<lambda>_. True) (attempt id (publish_event st command event) (\<lambda>_. m))"
  by (rule finishing_attempt [OF publish_port]) (auto intro!: finishing_pre [OF assms(2)] silent simp: assms(1))

section \<open>Ending a turn\<close>

text \<open>The two events of a failed turn, with what follows them.\<close>

lemma finishing_clear:
  assumes "finishing command (\<lambda>w. announced (events w) (turn_of command)) m"
  shows "finishing command (\<lambda>_. True) (attempt id (publish_event st command (ChatError txt)) (\<lambda>_.
    attempt id (publish_event st command (Clear reason)) (\<lambda>_. m)))"
  by (rule finishing_silent) (auto intro!: finishing_pre [OF finishing_publish [OF _ assms]] silent)

lemma publish_failed_announces:
  "rg G I (publish_failed_turn st command u m) (\<lambda>r w. I w \<and> (is_ok r \<longrightarrow> announced (events w) (turn_of command)))"
  unfolding publish_failed_turn_def
proof (rule rg_bind [OF keeps [OF failed_moves]], assumption)
  let ?A = "\<lambda>w. announced (events w) (turn_of command)"
  let ?publish = "publish_event st command"
  have clear: "rg G I (attempt id (?publish (Clear FailedBeforeCommit)) (\<lambda>_. ret (Ok ())))
      (\<lambda>r w. I w \<and> (is_ok r \<longrightarrow> ?A w))"
    by (rule rg_attempt [OF rg_pre [OF publish_rg]]) (auto intro!: rg_ret silent)
  show "rg G (\<lambda>w. True \<and> I w) (attempt id (?publish (ChatError failure_text))
      (\<lambda>_. attempt id (?publish (Clear FailedBeforeCommit)) (\<lambda>_. ret (Ok ())))) (\<lambda>r w. I w \<and> (is_ok r \<longrightarrow> ?A w))"
    by (rule rg_attempt [OF rg_pre [OF publish_rg] rg_pre [OF clear]]) (auto intro: silent)
qed

lemma finishing_lock_published:
  "finishing command (\<lambda>w. turn_of_lock l = turn_of command \<and> announced (events w) (turn_of command))
    (mark_published st (cl_tenant_id l) (cl_conversation_id l) (cl_turn_id l))"
  by (rule finishing_when, rule finishing_published) (simp add: turn_of_lock_def)

lemma finishing_marked:
  assumes "\<And>w. P w \<Longrightarrow> \<forall>a. update_result upd = Some a \<longrightarrow> (turn_of command, a) \<in> committed w"
    and "\<And>w w'. G w w' \<Longrightarrow> P w \<Longrightarrow> P w'"
    and "\<And>l. turn_of_lock l = turn_of command \<Longrightarrow> \<not> cl_terminal_event_published l \<Longrightarrow> cl_state l = tu_state upd \<Longrightarrow>
      cl_assistant_message_id l = tu_assistant_message_id upd \<Longrightarrow> finishing command P (f l)"
  shows "finishing command P (attempt bus_error (cb_mark_lock_terminal (wk_bus st) (tr_tenant_id command)
    (tr_conversation_id command) (tr_turn_id command) owner upd) f)"
proof (rule finishing_attempt [OF licensed_port [OF mark_terminal_moves [where k = "tr_turn_id command"]]], goal_cases)
  case (3 l)
  have "finishing command (\<lambda>w. (turn_of_lock l = turn_of command \<and> \<not> cl_terminal_event_published l
      \<and> cl_state l = tu_state upd \<and> cl_assistant_message_id l = tu_assistant_message_id upd) \<and> P w) (f l)"
    by (rule finishing_when) (use assms(3) in blast)
  then show ?case by (rule finishing_pre) (simp add: turn_of_def)
qed (use assms(1,2) in \<open>auto simp: turn_of_def\<close>)

lemma fail_owned_finishes: "finishing command (\<lambda>_. True) (fail_owned_turn st command lock m)"
  unfolding fail_owned_turn_def
proof (rule finishing_marked, goal_cases)
  case (3 l)
  have "rg G (\<lambda>w. I w \<and> True) (publish_failed_turn st command (cl_user_id lock) m)
      (\<lambda>r w. I w \<and> (is_ok r \<longrightarrow> announced (events w) (turn_of command)))"
    by (rule rg_pre [OF publish_failed_announces]) simp
  then show ?case
    by (rule finishing_attempt) (use 3 in \<open>auto intro: finishing_pre [OF finishing_lock_published]\<close>)
qed (simp_all add: update_result_def)

lemma conclude_finishes:
  assumes "ends_event event" "update_result upd = announces event"
  shows "finishing command (may_announce command event) (conclude_turn st command upd event)"
  unfolding conclude_turn_def
proof (rule finishing_marked, goal_cases)
  case (3 l)
  show ?case
    by (rule finishing_publish [OF assms(1)]) (use 3 in \<open>auto intro: finishing_pre [OF finishing_lock_published]\<close>)
qed (auto simp: assms(2) may_announce_def elim: committed_stable)

text \<open>After a commit: the turn is concluded when it was accepted, and failed when it was refused.\<close>

definition commit_answer :: "TurnRequested \<Rightarrow> string \<Rightarrow> ('b, 'c) result \<Rightarrow> 'w \<Rightarrow> bool" where
  "commit_answer command a r w = (if is_ok r then (turn_of command, a) \<in> committed w else turn_of command \<in> refused w)"

lemma refused_then:
  assumes "finishing command (\<lambda>_. True) m"
  shows "finishing command (commit_answer command a (Err e)) (m \<bind> (\<lambda>_. ret (Ok x)))"
proof (rule finishing_bind [where Q = "\<lambda>_. over command"])
  have "rg G (\<lambda>w. (I w \<and> True) \<and> over command w) m (\<lambda>r w. (I w \<and> (is_ok r \<longrightarrow> over command w)) \<and> over command w)"
    by (rule rg_frame [OF assms [unfolded finishing_def] over_stable])
  then show "rg G (\<lambda>w. I w \<and> commit_answer command a (Err e) w) m (\<lambda>_ w. I w \<and> over command w)"
    by (rule rg_weaken) (auto simp: commit_answer_def over_def)
qed (auto intro: finishing_over)

lemma accepted_then:
  assumes "ends_event event" "update_result upd = announces event" "announces event = Some a"
  shows "finishing command (commit_answer command a (Ok d)) (conclude_turn st command upd event)"
  by (rule finishing_pre [OF conclude_finishes [OF assms(1,2)]])
    (simp add: commit_answer_def may_announce_def assms(3))

lemma commit_port:
  "rg G (\<lambda>w. I w \<and> True) (cr_commit_turn (wk_repo st) (tr_tenant_id command) u (tr_conversation_id command)
      (turn_commit command lock a content)) (\<lambda>r w. I w \<and> commit_answer command a r w)"
  "rg G (\<lambda>w. I w \<and> True) (cr_commit_interrupted_turn (wk_repo st) (tr_tenant_id command) u (tr_conversation_id command)
      (turn_commit command lock a content)) (\<lambda>r w. I w \<and> commit_answer command a r w)"
  by (rule rg_weaken [OF keeps [OF commit_moves]] rg_weaken [OF keeps [OF commit_interrupted_moves]],
      assumption, simp, simp add: commit_answer_def turn_of_def turn_commit_def split: if_splits)+

lemma ulid_port: "rg G (\<lambda>w. I w \<and> True) (wk_ulid st) (\<lambda>_ w. I w \<and> True)"
  by (rule rg_post [OF port [OF ulid_moves]]) auto

lemma interrupted_finishes: "finishing command (\<lambda>_. True) (commit_interrupted_turn st command lock content)"
  unfolding commit_interrupted_turn_def
proof (rule finishing_bind [OF ulid_port], rule finishing_bind [OF commit_port(2)], goal_cases)
  case (1 a r)
  show ?case
    by (cases r) (auto intro!: accepted_then refused_then fail_owned_finishes simp: update_result_def)
qed

lemma completed_finishes: "finishing command (\<lambda>_. True) (complete_turn st command lock titled content)"
  unfolding complete_turn_def
proof (rule finishing_bind [OF ulid_port], rule finishing_bind [OF commit_port(1)], goal_cases)
  case (1 a r)
  show ?case
  proof (cases r)
    case (Ok d)
    have "rg G (\<lambda>w. I w \<and> commit_answer command a (result.Ok d) w) (conclude_turn st command
        \<lparr>tu_state = LockCommitted, tu_assistant_message_id = Some a, tu_content = None, tu_error = None\<rparr> (Finish a FinishStop))
        (\<lambda>r w. I w \<and> (is_ok r \<longrightarrow> over command w))"
      by (rule accepted_then [unfolded finishing_def]) (simp_all add: update_result_def)
    then show ?thesis unfolding Ok result.case by (rule finishing_attempt) (auto intro: finishing_over)
  qed (auto intro!: refused_then fail_owned_finishes)
qed

section \<open>Running a turn\<close>

text \<open>A step that ends the turn, as the branches of the loop use it.\<close>

lemma finishing_then_none:
  "finishing command (\<lambda>_. True) m \<Longrightarrow> finishing command (\<lambda>_. True) (attempt id m (\<lambda>_. ret (Ok None)))"
  unfolding finishing_def by (erule rg_attempt) (auto intro!: rg_ret)

definition looping :: "TurnRequested \<Rightarrow> ('w, (string option, TurnError) result) state \<Rightarrow> bool" where
  "looping command m = rg G I m (\<lambda>r w. I w \<and> (r = Ok None \<longrightarrow> over command w))"

lemma looping_finishing: "finishing command (\<lambda>_. True) m \<Longrightarrow> looping command (attempt id m (\<lambda>_. ret (Ok None)))"
  unfolding looping_def by (drule finishing_then_none, unfold finishing_def, erule rg_weaken) auto

lemma looping_attempt:
  "rg G I m (\<lambda>_. I) \<Longrightarrow> (\<And>a. looping command (f a)) \<Longrightarrow> looping command (attempt id m f)"
  unfolding looping_def by (erule rg_attempt) auto

lemma stop_port: "rg G I (lock_stop_requested st command) (\<lambda>_. I)"
  unfolding lock_stop_requested_def
  by (rule rg_attempt [OF rg_post [OF keeps [OF stop_moves]]]) (auto intro!: rg_ret)

lemma silent_port: "announces event = None \<Longrightarrow> rg G I (publish_event st command event) (\<lambda>_. I)"
  by (rule rg_weaken [OF publish_rg]) (auto intro: silent)

lemma drive_loop_loops: "looping command (drive_loop st command lock inputs content)"
proof (induction inputs arbitrary: content)
  case Nil
  show ?case by (auto simp: looping_def intro!: rg_ret)
next
  case (Cons input inputs)
  note ends = looping_finishing [OF fail_owned_finishes] looping_finishing [OF interrupted_finishes]
  show ?case
  proof (cases input)
    case StopPoll
    then show ?thesis using Cons.IH ends by (auto intro!: looping_attempt [OF stop_port])
  next
    case (LlmChunk chunk)
    then show ?thesis using Cons.IH by (auto intro!: looping_attempt [OF silent_port])
  next
    case LlmEnd
    then show ?thesis by (auto simp: looping_def intro!: rg_ret)
  qed (use Cons.IH ends in simp_all)
qed

lemma finishing_plain:
  "rg G I m (\<lambda>_. I) \<Longrightarrow> (\<And>a. finishing command (\<lambda>_. True) (f a)) \<Longrightarrow> finishing command (\<lambda>_. True) (attempt from m f)"
  by (rule finishing_attempt [where Q = "\<lambda>_ _. True"]) auto

lemma finishing_plain_bind:
  "rg G I m (\<lambda>_. I) \<Longrightarrow> (\<And>a. finishing command (\<lambda>_. True) (f a)) \<Longrightarrow> finishing command (\<lambda>_. True) (m \<bind> f)"
  by (rule finishing_bind [where Q = "\<lambda>_ _. True"]) auto

lemma simple_port: "rg G I m (\<lambda>_ _. True) \<Longrightarrow> rg G I m (\<lambda>_. I)"
  by (drule keeps) (auto elim: rg_post)

lemma looped_then:
  assumes "looping command m" "\<And>content. finishing command (\<lambda>_. True) (f content)"
  shows "finishing command (\<lambda>_. True) (attempt id m (\<lambda>ended. case ended of None \<Rightarrow> ret (Ok None) | Some content \<Rightarrow> f content))"
proof (rule finishing_attempt [where Q = "\<lambda>r w. r = Ok None \<longrightarrow> over command w"])
  show "rg G (\<lambda>w. I w \<and> True) m (\<lambda>r w. I w \<and> (r = Ok None \<longrightarrow> over command w))"
    using assms(1) by (simp add: looping_def)
qed (auto intro: finishing_over finishing_pre [OF assms(2)] split: option.split)

lemma drive_turn_finishes: "finishing command (\<lambda>_. True) (drive_turn st command lock stops inputs)"
  unfolding drive_turn_def Let_def
proof (rule finishing_plain [OF simple_port [OF get_moves]], rule finishing_silent [OF _ finishing_silent],
    simp, simp, rule finishing_plain, goal_cases)
  case (1 conversation)
  show ?case using stop_port by (auto simp: stop_requested_def intro!: rg_ret)
next
  case (2 conversation stop)
  show ?case
  proof (cases stop)
    case False
    show ?thesis unfolding if_not_P [OF False]
    proof (rule finishing_plain_bind [OF simple_port [OF llm_moves]], goal_cases)
      case (1 r)
      show ?case by (cases r) (auto intro!: finishing_then_none fail_owned_finishes looped_then drive_loop_loops completed_finishes)
    qed
  qed (auto intro!: finishing_then_none interrupted_finishes)
qed

text \<open>What the worker knows of a lock that says the turn is over.\<close>

definition closed_lock :: "TurnRequested \<Rightarrow> ChatLock \<Rightarrow> 'w \<Rightarrow> bool" where
  "closed_lock command l w = (lock_is_terminal l
     \<and> (cl_terminal_event_published l \<longrightarrow> announced (events w) (turn_of command))
     \<and> (\<forall>a. lock_result l = Some a \<longrightarrow> (turn_of command, a) \<in> committed w))"

lemma missing_event_finishes:
  "finishing command (closed_lock command l) (publish_missing_terminal_event st command l)"
proof (cases "cl_terminal_event_published l")
  case True
  then show ?thesis
    by (simp add: publish_missing_terminal_event_def) (rule finishing_over, simp add: closed_lock_def over_announced)
next
  case False
  let ?mark = "mark_published st (tr_tenant_id command) (tr_conversation_id command) (tr_turn_id command)"
  have mark: "finishing command (\<lambda>w. announced (events w) (turn_of command)) ?mark"
    by (rule finishing_published) (simp add: turn_of_def)
  have announce: "finishing command (closed_lock command l) (attempt id (publish_event st command event) (\<lambda>_. ?mark))"
    if "ends_event event" "announces event = lock_result l" for event
    by (rule finishing_pre [OF finishing_publish [OF that(1) mark]]) (simp add: closed_lock_def may_announce_def that(2))
  note unfolded = publish_missing_terminal_event_def Let_def if_not_P [OF False]
  show ?thesis
  proof (cases "cl_state l")
    case LockRequested
    then show ?thesis unfolding unfolded by (auto intro!: finishing_over simp: closed_lock_def lock_is_terminal_def)
  next
    case LockRunning
    then show ?thesis unfolding unfolded by (auto intro!: finishing_over simp: closed_lock_def lock_is_terminal_def)
  next
    case LockFailed
    then show ?thesis unfolding unfolded by (auto intro: finishing_pre [OF finishing_clear [OF mark]])
  next
    case LockCommitted
    then show ?thesis unfolding unfolded
      by (cases "cl_assistant_message_id l") (auto intro!: announce simp: lock_result_def)
  next
    case LockInterrupted
    then show ?thesis unfolding unfolded
      by (cases "cl_assistant_message_id l") (auto intro!: announce simp: lock_result_def)
  qed
qed

lemma ack_release_finishes: "finishing command (over command) (ack_and_release st command)"
  unfolding ack_and_release_def
proof (rule finishing_attempt [OF licensed_port [OF ack_moves [where key = "fst (turn_of command)"]]], goal_cases)
  case (1 w)
  then show ?case by (simp add: over_def turn_of_def)
next
  case (2 w w')
  then show ?case by (rule over_stable)
next
  case (3 u)
  have "rg G (\<lambda>w. I w \<and> over command w) (cb_release_lock (wk_bus st) (tr_tenant_id command)
      (tr_conversation_id command) (tr_turn_id command)) (\<lambda>r w. I w \<and> (True \<and> over command w))"
    by (rule port [OF release_moves over_stable])
  then show ?case by (intro finishing_bind) (auto elim: rg_pre intro: finishing_over)
qed

lemma finishing_seq:
  assumes "finishing command P m" "\<And>a. finishing command (over command) (f a)"
  shows "finishing command P (attempt id m f)"
  by (rule finishing_attempt [OF assms(1) [unfolded finishing_def]]) (auto intro: finishing_pre [OF assms(2)])

lemma acknowledged: "finishing command (over command) (attempt id (ack_and_release st command) (\<lambda>_. ret (Ok x)))"
  by (rule finishing_seq [OF ack_release_finishes]) (auto intro: finishing_over)

lemma missing_payload_finishes:
  "finishing command (\<lambda>_. True) (attempt id (publish_failed_turn st command u m) (\<lambda>_.
     attempt bus_error (cb_ack_turn_requested (wk_bus st) (tr_turn_id command)) (\<lambda>_. ret (Ok x))))"
proof (rule finishing_attempt [where Q = "\<lambda>r w. is_ok r \<longrightarrow> announced (events w) (turn_of command)"], goal_cases)
  case 1
  show ?case by (rule rg_pre [OF publish_failed_announces]) simp
next
  case (2 a)
  show ?case
    by (rule finishing_attempt [OF licensed_port [OF ack_moves [where key = "fst (turn_of command)"]]])
      (auto simp: turn_of_def intro: announced_stable finishing_over over_announced [unfolded turn_of_def])
qed

lemma stale_lease_finishes:
  "finishing command (\<lambda>_. True) (attempt bus_error (cb_mark_lock_terminal (wk_bus st) (tr_tenant_id command)
      (tr_conversation_id command) (tr_turn_id command) owner
      \<lparr>tu_state = LockFailed, tu_assistant_message_id = None, tu_content = None, tu_error = e\<rparr>) (\<lambda>failed.
    attempt storage_error (cr_record_turn_failed (wk_repo st) t (cl_user_id failed) c k m) (\<lambda>_.
    attempt id (publish_missing_terminal_event st command failed) (\<lambda>_.
    attempt id (ack_and_release st command) (\<lambda>_. ret (Ok x))))))"
proof (rule finishing_marked, goal_cases)
  case (3 l)
  then have closed: "closed_lock command l w" for w
    by (simp add: closed_lock_def lock_is_terminal_def lock_result_def)
  show ?case
    by (rule finishing_plain [OF simple_port [OF failed_moves]], rule finishing_seq [OF finishing_pre [OF missing_event_finishes closed]])
      (rule acknowledged)
qed (simp_all add: update_result_def)

lemma claimed_turn_finishes:
  "finishing command (\<lambda>_. True) (attempt bus_error (cb_claim_lock (wk_bus st) (tr_tenant_id command)
      (tr_conversation_id command) (tr_turn_id command) (wk_worker_id st)) (\<lambda>lock.
    drive_turn st command lock stops inputs \<bind> (\<lambda>result. case result of
      Ok title \<Rightarrow> attempt id (ack_and_release st command) (\<lambda>_. ret (Ok title)) | Err e \<Rightarrow> ret (Err e))))"
proof (rule finishing_plain [OF simple_port [OF claim_moves]],
    rule finishing_bind [OF drive_turn_finishes [unfolded finishing_def]], goal_cases)
  case (1 lock r)
  show ?case by (cases r) (auto intro: finishing_pre [OF acknowledged])
qed

lemma run_turn_finishes: "finishing command (\<lambda>_. True) (run_turn st command stops inputs)"
  unfolding run_turn_def Let_def
proof (rule finishing_attempt [where Q = "\<lambda>r w. \<forall>l. r = Ok (Some l) \<longrightarrow>
      turn_of_lock l = (fst (turn_of command), cl_turn_id l)
      \<and> (cl_terminal_event_published l \<longrightarrow> announced (events w) (turn_of_lock l))
      \<and> (\<forall>a. lock_result l = Some a \<longrightarrow> (turn_of_lock l, a) \<in> committed w)"], goal_cases)
  case 1
  show ?case by (rule rg_weaken [OF keeps [OF load_moves]]) (auto simp: turn_of_def)
next
  case (2 existing)
  show ?case
  proof (cases existing)
    case None
    then show ?thesis by (auto intro!: finishing_pre [OF missing_payload_finishes])
  next
    case (Some l)
    consider (other) "cl_turn_id l \<noteq> tr_turn_id command"
      | (closed) "cl_turn_id l = tr_turn_id command" "lock_is_terminal l"
      | (running) "cl_turn_id l = tr_turn_id command" "\<not> lock_is_terminal l" "cl_state l = LockRunning"
      | (fresh) "cl_turn_id l = tr_turn_id command" "\<not> lock_is_terminal l" "cl_state l \<noteq> LockRunning"
      by blast
    then show ?thesis
    proof cases
      case other
      then show ?thesis by (auto simp: Some)
    next
      case closed
      then show ?thesis unfolding Some option.case if_P [OF closed(2)]
        by (auto intro!: finishing_pre [OF finishing_seq [OF missing_event_finishes acknowledged]]
            simp: closed_lock_def turn_of_lock_def turn_of_def)
    next
      case running
      have "finishing command (\<lambda>_. True) (wk_now st \<bind> (\<lambda>now.
          if \<not> lock_is_expired now l then ret (Err (TurnFailed ''chat turn is already running with a fresh lease''))
          else attempt bus_error (cb_mark_lock_terminal (wk_bus st) (tr_tenant_id command) (tr_conversation_id command)
              (tr_turn_id command) None
              \<lparr>tu_state = LockFailed, tu_assistant_message_id = None, tu_content = None, tu_error = Some lease_expired_text\<rparr>) (\<lambda>failed.
            attempt storage_error (cr_record_turn_failed (wk_repo st) (tr_tenant_id command) (cl_user_id failed)
              (tr_conversation_id command) (tr_turn_id command) lease_expired_text) (\<lambda>_.
            attempt id (publish_missing_terminal_event st command failed) (\<lambda>_.
            attempt id (ack_and_release st command) (\<lambda>_. ret (Ok None)))))))"
        by (rule finishing_plain_bind [OF simple_port [OF now_moves]]) (auto intro: stale_lease_finishes)
      then show ?thesis using running by (auto simp: Some elim: finishing_pre)
    next
      case fresh
      then show ?thesis by (auto simp: Some intro: finishing_pre [OF claimed_turn_finishes])
    qed
  qed
qed

end

end
