(* ===== verification/Chat_World.thy ===== *)
theory Chat_World
  imports Chat_Turns Chat_Bus Chat_Repository
begin

text \<open>
  The worker of services/chat-worker/src/main.rs on the in-memory bus and repository, shared with
  everything else that runs: before each port call the environment takes an action of its own, so an
  API request, another worker, the maintenance task, the clock, an outage or a crash may fall between
  any two calls. The interpretation of \<open>turn_ports\<close> on this world gives the two promises of the
  chat system: a command is acknowledged only when its turn was announced as over, or its commit
  was refused, and an answer is announced only when it was committed.
\<close>

section \<open>The world\<close>

text \<open>The acknowledged commands, the commits that were accepted and the turns whose commit was
  refused are the history of what happened at the ports. A bus or a database that is down refuses
  every call.\<close>

record ChatWorld =
  cw_bus :: ChatInner
  cw_convs :: MemoryState
  cw_now :: datetime
  cw_drawn :: nat
  cw_bus_down :: bool
  cw_db_down :: bool
  cw_acked :: "string list"
  cw_commits :: "(turn_id \<times> string) list"
  cw_refused :: "turn_id list"

type_synonym SharedChat = "ChatWorld shared"

definition on_bus ::
  "(datetime \<Rightarrow> (ChatInner, ('a, ChatBusError) result) state) \<Rightarrow> (ChatWorld, ('a, ChatBusError) result) state" where
  "on_bus m = State (\<lambda>w. if cw_bus_down w then (Err BusUnavailable, w)
     else (case run_state (m (cw_now w)) (cw_bus w) of (r, b) \<Rightarrow> (r, w\<lparr>cw_bus := b\<rparr>)))"

definition on_repo ::
  "(datetime \<Rightarrow> (MemoryState, ('a, StorageError) result) state) \<Rightarrow> (ChatWorld, ('a, StorageError) result) state" where
  "on_repo m = State (\<lambda>w. if cw_db_down w then (Err (StInternal ''database unavailable''), w)
     else (case run_state (m (cw_now w)) (cw_convs w) of (r, s) \<Rightarrow> (r, w\<lparr>cw_convs := s\<rparr>)))"

text \<open>A commit, with its entry in the history.\<close>

definition on_commit ::
  "(datetime \<Rightarrow> (MemoryState, ('a, StorageError) result) state) \<Rightarrow> turn_id \<Rightarrow> string \<Rightarrow> (ChatWorld, ('a, StorageError) result) state" where
  "on_commit m turn a = State (\<lambda>w. case run_state (on_repo m) w of
      (Ok d, w') \<Rightarrow> (Ok d, w'\<lparr>cw_commits := (turn, a) # cw_commits w'\<rparr>)
    | (Err e, w') \<Rightarrow> (Err e, w'\<lparr>cw_refused := turn # cw_refused w'\<rparr>))"

definition ack_command :: "string \<Rightarrow> (ChatWorld, (unit, ChatBusError) result) state" where
  "ack_command turn_id = State (\<lambda>w. if cw_bus_down w then (Err BusUnavailable, w)
     else (Ok (), w\<lparr>cw_acked := turn_id # cw_acked w\<rparr>))"

definition release :: "string \<Rightarrow> string \<Rightarrow> string \<Rightarrow> (ChatWorld, unit) state" where
  "release t c k = State (\<lambda>w. if cw_bus_down w then ((), w)
     else ((), w\<lparr>cw_bus := snd (run_state (mem_release_lock t c k) (cw_bus w))\<rparr>))"

abbreviation port :: "(ChatWorld, 'a) state \<Rightarrow> (SharedChat, 'a) state" where
  "port m \<equiv> locked id (\<lambda>w _. w) m"

definition MemoryChatBus :: "int \<Rightarrow> SharedChat ChatBus" where
  "MemoryChatBus ttl = \<lparr>
     cb_acquire_lock = (\<lambda>l. port (on_bus (\<lambda>now. mem_acquire_lock now l))),
     cb_load_lock = (\<lambda>t c. port (on_bus (\<lambda>_. mem_load_lock t c))),
     cb_claim_lock = (\<lambda>t c k v. port (on_bus (\<lambda>now. mem_claim_lock ttl now t c k v))),
     cb_mark_lock_terminal = (\<lambda>t c k v upd. port (on_bus (\<lambda>now. mem_mark_lock_terminal ttl now t c k v upd))),
     cb_mark_terminal_event_published = (\<lambda>t c k. port (on_bus (\<lambda>_. mem_mark_terminal_event_published t c k))),
     cb_request_stop = (\<lambda>t c u. port (on_bus (\<lambda>now. mem_request_stop now t c u))),
     cb_stop_requested = (\<lambda>t c k. port (on_bus (\<lambda>now. mem_stop_requested now t c k))),
     cb_renew_lock = (\<lambda>t c k v. port (on_bus (\<lambda>now. mem_renew_lock ttl now t c k v))),
     cb_release_lock = (\<lambda>t c k. port (release t c k)),
     cb_publish_turn_requested = (\<lambda>command. port (on_bus (\<lambda>_. mem_publish_turn_requested command))),
     cb_progress_turn_requested = (\<lambda>k. port (on_bus (\<lambda>_. ret (Ok ())))),
     cb_ack_turn_requested = (\<lambda>k. port (ack_command k)),
     cb_publish_event = (\<lambda>e. port (on_bus (\<lambda>_. mem_publish_event e))),
     cb_load_replay_index = (\<lambda>t c. port (on_bus (\<lambda>_. mem_load_replay_index t c))),
     cb_replay_events = (\<lambda>t c s e. port (on_bus (\<lambda>_. mem_replay_events t c s e))),
     cb_latest_event_sequence = port (on_bus (\<lambda>_. mem_latest_event_sequence)),
     cb_publish_stop = (\<lambda>v t c k. port (on_bus (\<lambda>_. mem_publish_stop t c k)))\<rparr>"

definition draw_ulid :: "(nat \<Rightarrow> string) \<Rightarrow> (ChatWorld, string) state" where
  "draw_ulid ulid = State (\<lambda>w. (ulid (cw_drawn w), w\<lparr>cw_drawn := Suc (cw_drawn w)\<rparr>))"

definition MemoryChatRepository :: "string list \<Rightarrow> (nat \<Rightarrow> string) \<Rightarrow> SharedChat ChatRepository" where
  "MemoryChatRepository order ulid = \<lparr>
     cr_list_conversations = (\<lambda>t u. port (on_repo (\<lambda>_. repo_list_conversations order t u))),
     cr_create_conversation = (\<lambda>t u title. port (State (\<lambda>w. run_state
       (on_repo (\<lambda>now. repo_create_conversation now (ulid (cw_drawn w)) t u title)) (w\<lparr>cw_drawn := Suc (cw_drawn w)\<rparr>)))),
     cr_get_conversation = (\<lambda>t u c. port (on_repo (\<lambda>_. repo_get_conversation t u c))),
     cr_rename_conversation = (\<lambda>t u c title. port (on_repo (\<lambda>now. repo_rename_conversation now t u c title))),
     cr_rename_conversation_if_default = (\<lambda>t u c title. port (on_repo (\<lambda>now. repo_rename_conversation_if_default now t u c title))),
     cr_delete_conversation = (\<lambda>t u c. port (on_repo (\<lambda>now. repo_delete_conversation now t u c))),
     cr_assert_parent_tail = (\<lambda>t u c p. port (on_repo (\<lambda>_. repo_assert_parent_tail t u c p))),
     cr_record_turn_failed = (\<lambda>t u c k m. port (on_repo (\<lambda>_. repo_record_turn_failed t u c k m))),
     cr_commit_turn = (\<lambda>t u c turn. port (on_commit (\<lambda>now. repo_commit_turn now t u c turn)
       (lock_key t c, tc_turn_id turn) (tc_assistant_message_id turn))),
     cr_commit_interrupted_turn = (\<lambda>t u c turn. port (on_commit (\<lambda>now. repo_commit_interrupted_turn now t u c turn)
       (lock_key t c, tc_turn_id turn) (tc_assistant_message_id turn)))\<rparr>"

definition chat_worker ::
  "int \<Rightarrow> string list \<Rightarrow> (nat \<Rightarrow> string) \<Rightarrow> (LlmMessage list \<Rightarrow> (unit, string) result) \<Rightarrow> string \<Rightarrow> SharedChat WorkerState" where
  "chat_worker ttl order ulid llm worker_id = \<lparr>wk_repo = MemoryChatRepository order ulid, wk_bus = MemoryChatBus ttl,
     wk_worker_id = worker_id, wk_now = port (State (\<lambda>w. (cw_now w, w))), wk_ulid = port (draw_ulid ulid),
     wk_stream_chat = (\<lambda>ms. port (State (\<lambda>w. (llm ms, w))))\<rparr>"

section \<open>Its invariant\<close>

definition events_of :: "ChatWorld \<Rightarrow> ChatEventEnvelope set" where
  "events_of w = set (map se_envelope (ci_event_log (cw_bus w)))"

definition backed :: "ChatWorld \<Rightarrow> ChatLock \<Rightarrow> bool" where
  "backed w l = ((cl_terminal_event_published l \<longrightarrow> announced (events_of w) (turn_of_lock l))
     \<and> (\<forall>a. lock_result l = Some a \<longrightarrow> (turn_of_lock l, a) \<in> set (cw_commits w)))"

definition locks_backed :: "ChatWorld \<Rightarrow> bool" where
  "locks_backed w = (\<forall>key l. ci_locks (cw_bus w) key = Some l \<longrightarrow> fst (turn_of_lock l) = key \<and> backed w l)"

definition events_backed :: "ChatWorld \<Rightarrow> bool" where
  "events_backed w = (\<forall>e \<in> events_of w. \<forall>a. announces (ee_event e) = Some a \<longrightarrow> (turn_of_event e, a) \<in> set (cw_commits w))"

definition acks_backed :: "ChatWorld \<Rightarrow> bool" where
  "acks_backed w = (\<forall>k \<in> set (cw_acked w). \<exists>key. announced (events_of w) (key, k) \<or> (key, k) \<in> set (cw_refused w))"

definition healthy :: "ChatWorld \<Rightarrow> bool" where
  "healthy w = (locks_backed w \<and> events_backed w \<and> acks_backed w)"

definition progresses :: "ChatWorld \<Rightarrow> ChatWorld \<Rightarrow> bool" where
  "progresses w w' = ((healthy w \<longrightarrow> healthy w') \<and> events_of w \<subseteq> events_of w'
     \<and> set (cw_commits w) \<subseteq> set (cw_commits w') \<and> set (cw_refused w) \<subseteq> set (cw_refused w'))"

text \<open>What the environment may do: anything that keeps the history and the invariant.\<close>

definition steady :: "(ChatWorld \<Rightarrow> ChatWorld) \<Rightarrow> bool" where
  "steady f = (\<forall>w. healthy w \<longrightarrow> progresses w (f w))"

fun shared_healthy :: "SharedChat \<Rightarrow> bool" where
  "shared_healthy (w, es) = (healthy w \<and> (\<forall>f \<in> set es. steady f))"

fun shared_progress :: "SharedChat \<Rightarrow> SharedChat \<Rightarrow> bool" where
  "shared_progress (w, es) (w', es') = (progresses w w' \<and> set es' \<subseteq> set es)"

lemma progresses_refl [simp]: "progresses w w"
  by (simp add: progresses_def)

lemma progresses_trans: "progresses u v \<Longrightarrow> progresses v w \<Longrightarrow> progresses u w"
  by (auto simp: progresses_def)

lemma rg_port:
  assumes "\<And>w a w'. healthy w \<Longrightarrow> P w \<Longrightarrow> run_state m w = (a, w') \<Longrightarrow> progresses w w' \<and> Q a w'"
    and "\<And>w w'. progresses w w' \<Longrightarrow> P w \<Longrightarrow> P w'"
  shows "rg shared_progress (\<lambda>x. shared_healthy x \<and> P (fst x)) (port m) (\<lambda>a x. Q a (fst x))"
proof (rule rgI)
  fix x a y
  assume x: "shared_healthy x \<and> P (fst x)" and run: "run_state (port m) x = (a, y)"
  obtain w es where we: "x = (w, es)" by fastforce
  obtain v es' where v: "env_step x = (v, es')" by fastforce
  then have pv: "progresses w v" "healthy v" "set es' \<subseteq> set es"
    using x unfolding we by (cases es; force simp: steady_def progresses_def)+
  then have "P v" using assms(2) x we by auto
  obtain s where s: "run_state m v = (a, s)" "y = (s, es')"
    using run v by (auto simp: locked_def split: prod.splits)
  from assms(1) [OF pv(2) \<open>P v\<close> s(1)] show "shared_progress x y \<and> Q a (fst y)"
    using pv progresses_trans we s(2) by auto
qed

section \<open>The ports keep it\<close>

text \<open>Operations on locks: the log stays, and every lock that is there afterwards was there before or
  is backed.\<close>

definition locks_change :: "ChatWorld \<Rightarrow> ChatInner \<Rightarrow> bool" where
  "locks_change w b = (ci_event_log b = ci_event_log (cw_bus w) \<and> (\<forall>key l. ci_locks b key = Some l \<longrightarrow>
     ci_locks (cw_bus w) key = Some l \<or> (fst (turn_of_lock l) = key \<and> backed w l)))"

lemma events_of_simps [simp]:
  "events_of (w\<lparr>cw_convs := s\<rparr>) = events_of w" "events_of (w\<lparr>cw_drawn := n\<rparr>) = events_of w"
  "events_of (w\<lparr>cw_acked := ks\<rparr>) = events_of w" "events_of (w\<lparr>cw_commits := cs\<rparr>) = events_of w"
  "events_of (w\<lparr>cw_refused := rs\<rparr>) = events_of w" "events_of (w\<lparr>cw_now := now\<rparr>) = events_of w"
  "events_of (w\<lparr>cw_bus_down := d\<rparr>) = events_of w" "events_of (w\<lparr>cw_db_down := d\<rparr>) = events_of w"
  by (simp_all add: events_of_def)

lemmas healthy_defs = healthy_def locks_backed_def events_backed_def acks_backed_def backed_def

lemma locks_change_progress:
  assumes "locks_change w b" shows "progresses w (w\<lparr>cw_bus := b\<rparr>)"
proof -
  have "events_of (w\<lparr>cw_bus := b\<rparr>) = events_of w" using assms by (simp add: events_of_def locks_change_def)
  moreover from this have "backed (w\<lparr>cw_bus := b\<rparr>) l = backed w l" for l by (simp add: backed_def)
  ultimately show ?thesis using assms
    by (simp add: progresses_def locks_change_def healthy_def locks_backed_def events_backed_def acks_backed_def) blast
qed

lemma locks_change_same: "locks_change w (cw_bus w)"
  by (simp add: locks_change_def)

lemma locks_change_set:
  "lock_key (cl_tenant_id l) (cl_conversation_id l) = key \<Longrightarrow> backed w l \<Longrightarrow> locks_change w (set_lock key l (cw_bus w))"
  by (auto simp: locks_change_def set_lock_def turn_of_lock_def)

lemma locks_change_drop: "locks_change w (drop_lock key (cw_bus w))"
  by (auto simp: locks_change_def drop_lock_def)

lemmas locks_change_rules = locks_change_same locks_change_set locks_change_drop

lemma stored_lock:
  "healthy w \<Longrightarrow> ci_locks (cw_bus w) key = Some l \<Longrightarrow>
     lock_key (cl_tenant_id l) (cl_conversation_id l) = key \<and> backed w l"
  by (auto simp: healthy_def locks_backed_def turn_of_lock_def)

text \<open>The fields that \<open>backed\<close> reads.\<close>

lemma backed_update [simp]:
  "backed w (l\<lparr>cl_worker_id := x\<rparr>) = backed w l" "backed w (l\<lparr>cl_lease_expires_at := d\<rparr>) = backed w l"
  "backed w (l\<lparr>cl_stop_requested := b\<rparr>) = backed w l" "backed w (l\<lparr>cl_stop_requested_by := x\<rparr>) = backed w l"
  "backed w (l\<lparr>cl_stop_requested_at := y\<rparr>) = backed w l"
  by (simp_all add: backed_def lock_result_def turn_of_lock_def cong: ChatLockState.case_cong)

lemma backed_running: "backed w l \<Longrightarrow> backed w (l\<lparr>cl_state := LockRunning\<rparr>)"
  by (simp add: backed_def lock_result_def turn_of_lock_def)

lemma backed_terminal:
  "(\<And>a. update_result upd = Some a \<Longrightarrow> (turn_of_lock l, a) \<in> set (cw_commits w)) \<Longrightarrow> backed w (terminal_lock ttl now upd l)"
  by (simp add: backed_def lock_result_def update_result_def turn_of_lock_def terminal_lock_def cong: ChatLockState.case_cong)

lemma backed_published:
  "backed w l \<Longrightarrow> announced (events_of w) (turn_of_lock l) \<Longrightarrow> backed w (l\<lparr>cl_terminal_event_published := True\<rparr>)"
  by (simp add: backed_def lock_result_def turn_of_lock_def cong: ChatLockState.case_cong)

lemma run_on_bus:
  assumes "run_state (on_bus m) w = (r, w')"
  obtains "r = Err BusUnavailable" "w' = w" "cw_bus_down w"
  | b where "run_state (m (cw_now w)) (cw_bus w) = (r, b)" "w' = w\<lparr>cw_bus := b\<rparr>" "\<not> cw_bus_down w"
  using assms by (auto simp: on_bus_def split: if_splits prod.splits)

lemma on_bus_locks:
  assumes "run_state (on_bus m) w = (r, w')"
    and "\<And>r b. run_state (m (cw_now w)) (cw_bus w) = (r, b) \<Longrightarrow> locks_change w b"
  shows "progresses w w'"
  using assms(1) by (rule run_on_bus) (auto intro: locks_change_progress assms(2))

lemma on_repo_progress: "run_state (on_repo m) w = (r, w') \<Longrightarrow> progresses w w'"
  by (auto simp: on_repo_def progresses_def healthy_defs split: if_splits prod.splits)

lemma on_commit_progress:
  assumes "run_state (on_commit m turn a) w = (r, w')"
  shows "progresses w w'" "if is_ok r then (turn, a) \<in> set (cw_commits w') else turn \<in> set (cw_refused w')"
proof -
  obtain q v where q: "run_state (on_repo m) w = (q, v)" by fastforce
  have "progresses v (v\<lparr>cw_commits := (turn, a) # cw_commits v\<rparr>)" "progresses v (v\<lparr>cw_refused := turn # cw_refused v\<rparr>)"
    by (auto simp: progresses_def healthy_defs)
  with assms q show "progresses w w'"
    by (auto simp: on_commit_def split: result.splits intro: progresses_trans [OF on_repo_progress [OF q]])
  show "if is_ok r then (turn, a) \<in> set (cw_commits w') else turn \<in> set (cw_refused w')"
    using assms q by (auto simp: on_commit_def split: result.splits)
qed

text \<open>The lock operations of the bus.\<close>

lemma load_lock_change: "run_state (mem_load_lock t c) (cw_bus w) = (r, b) \<Longrightarrow> b = cw_bus w"
  by (simp add: mem_load_lock_def)

lemma claim_lock_change:
  assumes "healthy w" "run_state (mem_claim_lock ttl now t c k v) (cw_bus w) = (r, b)"
  shows "locks_change w b"
  using assms(2) stored_lock [OF assms(1), of "lock_key t c"]
  by (auto simp: mem_claim_lock_def Let_def claimed_lock_def split: option.splits if_splits
      intro!: locks_change_rules backed_running)

lemma request_stop_change:
  assumes "healthy w" "run_state (mem_request_stop now t c u) (cw_bus w) = (r, b)"
  shows "locks_change w b"
  using assms(2) stored_lock [OF assms(1), of "lock_key t c"]
  by (auto simp: mem_request_stop_def Let_def stopped_lock_def split: option.splits if_splits intro!: locks_change_rules)

lemma renew_lock_change:
  assumes "healthy w" "run_state (mem_renew_lock ttl now t c k v) (cw_bus w) = (r, b)"
  shows "locks_change w b"
  using assms(2) stored_lock [OF assms(1), of "lock_key t c"]
  by (auto simp: mem_renew_lock_def Let_def split: option.splits if_splits intro!: locks_change_rules)

lemma release_lock_change: "locks_change w (snd (run_state (mem_release_lock t c k) (cw_bus w)))"
  by (auto simp: mem_release_lock_def Let_def intro!: locks_change_rules)

lemma acquire_lock_change:
  "backed w l \<Longrightarrow> run_state (mem_acquire_lock now l) (cw_bus w) = (r, b) \<Longrightarrow> locks_change w b"
  by (auto simp: mem_acquire_lock_def Let_def split: if_splits intro!: locks_change_rules)

lemma mark_terminal_change:
  assumes "healthy w" "\<forall>a. update_result upd = Some a \<longrightarrow> ((lock_key t c, k), a) \<in> set (cw_commits w)"
    and "run_state (mem_mark_lock_terminal ttl now t c k v upd) (cw_bus w) = (r, b)"
  shows "locks_change w b" "r = Ok l \<Longrightarrow> turn_of_lock l = (lock_key t c, k) \<and> \<not> cl_terminal_event_published l
    \<and> cl_state l = tu_state upd \<and> cl_assistant_message_id l = tu_assistant_message_id upd"
proof -
  have held: "backed w (terminal_lock ttl now upd m)" if "ci_locks (cw_bus w) (lock_key t c) = Some m" "cl_turn_id m = k" for m
    by (rule backed_terminal) (use stored_lock [OF assms(1) that(1)] assms(2) that(2) in \<open>auto simp: turn_of_lock_def\<close>)
  have key: "lock_key (cl_tenant_id (terminal_lock ttl now upd m)) (cl_conversation_id (terminal_lock ttl now upd m)) = lock_key t c"
    if "ci_locks (cw_bus w) (lock_key t c) = Some m" for m
    using stored_lock [OF assms(1) that] by (simp add: terminal_lock_def)
  show "locks_change w b" using assms(3) held key
    by (auto simp: mem_mark_lock_terminal_def Let_def split: option.splits if_splits intro!: locks_change_same locks_change_set)
  show "turn_of_lock l = (lock_key t c, k) \<and> \<not> cl_terminal_event_published l
    \<and> cl_state l = tu_state upd \<and> cl_assistant_message_id l = tu_assistant_message_id upd" if "r = Ok l"
    using assms(3) that stored_lock [OF assms(1), of "lock_key t c"]
    by (auto simp: mem_mark_lock_terminal_def Let_def turn_of_lock_def terminal_lock_def split: option.splits if_splits)
qed

lemma mark_published_change:
  assumes "healthy w" "announced (events_of w) (lock_key t c, k)"
    and "run_state (mem_mark_terminal_event_published t c k) (cw_bus w) = (r, b)"
  shows "locks_change w b"
  using assms(2,3) stored_lock [OF assms(1), of "lock_key t c"]
  by (auto simp: mem_mark_terminal_event_published_def Let_def turn_of_lock_def split: option.splits if_splits
      intro!: locks_change_rules backed_published)

lemma publish_progress:
  assumes "\<forall>a. announces (ee_event e) = Some a \<longrightarrow> (turn_of_event e, a) \<in> set (cw_commits w)"
    and "run_state (mem_publish_event e) (cw_bus w) = (r, b)"
  shows "progresses w (w\<lparr>cw_bus := b\<rparr>)" "e \<in> events_of (w\<lparr>cw_bus := b\<rparr>)"
proof -
  have ev: "events_of (w\<lparr>cw_bus := b\<rparr>) = insert e (events_of w)"
    and locks: "ci_locks b = ci_locks (cw_bus w)"
    using assms(2) by (auto simp: events_of_def mem_publish_event_def Let_def)
  show "e \<in> events_of (w\<lparr>cw_bus := b\<rparr>)" using ev by simp
  show "progresses w (w\<lparr>cw_bus := b\<rparr>)" using assms(1)
    unfolding progresses_def healthy_defs ev by (auto simp: locks announced_def; blast)
qed

lemma ack_progress:
  assumes "announced (events_of w) (key, k) \<or> (key, k) \<in> set (cw_refused w)" "run_state (ack_command k) w = (r, w')"
  shows "progresses w w'"
  using assms by (auto simp: ack_command_def progresses_def healthy_defs split: if_splits)

section \<open>The contract holds\<close>

lemma free_port:
  assumes "\<And>w a w'. healthy w \<Longrightarrow> run_state m w = (a, w') \<Longrightarrow> progresses w w' \<and> Q a w'"
  shows "rg shared_progress shared_healthy (port m) (\<lambda>a x. Q a (fst x))"
  by (rule rg_pre [OF rg_port [where P = "\<lambda>_. True"]]) (auto simp: assms)

lemma bus_lock_port:
  assumes "\<And>w r b. healthy w \<Longrightarrow> run_state (m (cw_now w)) (cw_bus w) = (r, b) \<Longrightarrow> locks_change w b"
  shows "rg shared_progress shared_healthy (port (on_bus m)) (\<lambda>_ _. True)"
  by (rule free_port) (auto intro: on_bus_locks assms)

lemma repo_port: "rg shared_progress shared_healthy (port (on_repo m)) (\<lambda>_ _. True)"
  by (rule free_port) (auto intro: on_repo_progress)

lemma answer_commit_port:
  "rg shared_progress shared_healthy (port (on_commit m turn a)) (\<lambda>r x.
     if is_ok r then (turn, a) \<in> set (cw_commits (fst x)) else turn \<in> set (cw_refused (fst x)))"
  by (rule free_port) (use on_commit_progress in blast)

lemma load_port:
  "rg shared_progress shared_healthy (port (on_bus (\<lambda>_. mem_load_lock t c))) (\<lambda>r x. \<forall>l. r = Ok (Some l) \<longrightarrow>
     turn_of_lock l = (lock_key t c, cl_turn_id l)
     \<and> (cl_terminal_event_published l \<longrightarrow> announced (events_of (fst x)) (turn_of_lock l))
     \<and> (\<forall>a. lock_result l = Some a \<longrightarrow> (turn_of_lock l, a) \<in> set (cw_commits (fst x))))"
  by (rule free_port) (auto simp: on_bus_def mem_load_lock_def backed_def turn_of_lock_def split: if_splits
      dest: stored_lock)

lemma event_publish_port:
  "rg shared_progress (\<lambda>x. shared_healthy x \<and> (\<forall>a. announces (ee_event e) = Some a \<longrightarrow> (turn_of_event e, a) \<in> set (cw_commits (fst x))))
     (port (on_bus (\<lambda>_. mem_publish_event e))) (\<lambda>r x. is_ok r \<longrightarrow> e \<in> events_of (fst x))"
proof (rule rg_port, goal_cases)
  case (1 w r w')
  from 1(3) show ?case by (rule run_on_bus) (use publish_progress [OF 1(2)] in auto)
qed (auto simp: progresses_def)

lemma mark_terminal_port:
  "rg shared_progress (\<lambda>x. shared_healthy x \<and> (\<forall>a. update_result upd = Some a \<longrightarrow> ((lock_key t c, k), a) \<in> set (cw_commits (fst x))))
     (port (on_bus (\<lambda>now. mem_mark_lock_terminal ttl now t c k v upd)))
     (\<lambda>r x. \<forall>l. r = Ok l \<longrightarrow> turn_of_lock l = (lock_key t c, k) \<and> \<not> cl_terminal_event_published l
        \<and> cl_state l = tu_state upd \<and> cl_assistant_message_id l = tu_assistant_message_id upd)"
proof (rule rg_port, goal_cases)
  case (1 w r w')
  from 1(3) show ?case
    by (rule run_on_bus) (use mark_terminal_change [OF 1(1,2)] in \<open>auto intro: locks_change_progress\<close>)
qed (auto simp: progresses_def)

lemma mark_published_port:
  "rg shared_progress (\<lambda>x. shared_healthy x \<and> announced (events_of (fst x)) (lock_key t c, k))
     (port (on_bus (\<lambda>_. mem_mark_terminal_event_published t c k))) (\<lambda>_ _. True)"
proof (rule rg_port, goal_cases)
  case (1 w r w')
  from 1(3) show ?case
    by (rule run_on_bus) (use mark_published_change [OF 1(1,2)] in \<open>auto intro: locks_change_progress\<close>)
qed (auto simp: progresses_def elim: announced_mono)

lemma ack_port:
  "rg shared_progress (\<lambda>x. shared_healthy x \<and> (announced (events_of (fst x)) (key, k) \<or> (key, k) \<in> set (cw_refused (fst x))))
     (port (ack_command k)) (\<lambda>_ _. True)"
proof (rule rg_port, goal_cases)
  case (1 w r w')
  then show ?case using ack_progress by blast
qed (auto simp: progresses_def elim: announced_mono)

lemma release_port: "rg shared_progress shared_healthy (port (release t c k)) (\<lambda>_ _. True)"
  by (rule free_port) (auto simp: release_def intro: locks_change_progress [OF release_lock_change] split: if_splits)

lemma draw_progress: "progresses w (w\<lparr>cw_drawn := n\<rparr>)"
  by (simp add: progresses_def healthy_defs)

lemma plain_ports:
  "rg shared_progress shared_healthy (port (draw_ulid ulid)) (\<lambda>_ _. True)"
  "rg shared_progress shared_healthy (port (State (\<lambda>w. (f w, w)))) (\<lambda>_ _. True)"
  by (rule free_port, force simp: draw_ulid_def draw_progress)+

lemma lock_ports:
  "rg shared_progress shared_healthy (port (on_bus (\<lambda>now. mem_claim_lock ttl now t c k v))) (\<lambda>_ _. True)"
  "rg shared_progress shared_healthy (port (on_bus (\<lambda>now. mem_stop_requested now t c k))) (\<lambda>_ _. True)"
  by (rule bus_lock_port, force simp: mem_stop_requested_def intro: claim_lock_change locks_change_same)+

lemmas memory_chat_defs = chat_worker_def MemoryChatBus_def MemoryChatRepository_def

interpretation turns: turn_ports shared_progress "chat_worker ttl order ulid llm wid" shared_healthy
  "\<lambda>x. events_of (fst x)" "\<lambda>x. set (cw_commits (fst x))" "\<lambda>x. set (cw_refused (fst x))" for ttl order ulid llm wid
proof (unfold_locales, goal_cases)
  case (1 w) show ?case by (cases w) simp
next
  case (2 u v w) then show ?case by (cases u; cases v; cases w) (auto intro: progresses_trans)
next
  case (3 w w') then show ?case by (cases w; cases w') (auto simp: progresses_def)
next
  case (4 w w') then show ?case by (cases w; cases w') (auto simp: progresses_def)
next
  case (5 w w') then show ?case by (cases w; cases w') (auto simp: progresses_def)
next
  case (6 w w') then show ?case by (cases w; cases w') (auto simp: progresses_def)
qed (unfold memory_chat_defs WorkerState.select_convs ChatBus.select_convs ChatRepository.select_convs,
    (rule plain_ports lock_ports repo_port release_port answer_commit_port load_port event_publish_port mark_terminal_port mark_published_port ack_port)+)

text \<open>Another worker's whole run, with whatever interferes with it, is again something the
  environment may do, and so are the requests of the API, the renewals of the maintenance task, the
  clock, outages and recoveries. So every number of workers may share the world.\<close>

lemma worker_is_steady:
  assumes "\<forall>f \<in> set es. steady f"
  shows "steady (\<lambda>w. fst (snd (run_state (run_turn (chat_worker ttl order ulid llm wid) command stops inputs) (w, es))))"
  unfolding steady_def
proof (intro allI impI)
  fix w assume "healthy w"
  then have "shared_healthy (w, es) \<and> True" using assms by simp
  let ?r = "run_state (run_turn (chat_worker ttl order ulid llm wid) command stops inputs) (w, es)"
  have "shared_progress (w, es) (snd ?r)"
    by (rule rgD(1) [OF turns.run_turn_finishes [unfolded turns.finishing_def], OF \<open>shared_healthy (w, es) \<and> True\<close>])
      (rule prod.collapse [symmetric])
  then show "progresses w (fst (snd ?r))" by (cases "snd ?r") simp
qed

lemma steady_bus:
  assumes "\<And>w r b. healthy w \<Longrightarrow> run_state (m (cw_now w)) (cw_bus w) = (r, b) \<Longrightarrow> locks_change w b"
  shows "steady (\<lambda>w. snd (run_state (on_bus m) w))"
  unfolding steady_def by (metis on_bus_locks assms prod.collapse)

lemma requested_is_backed: "backed w (lock_requested ttl now t u c k m txt p b)"
  by (simp add: backed_def lock_requested_def lock_result_def)

lemma steady_outside:
  assumes "\<And>w. cw_bus (f w) = cw_bus w" "\<And>w. cw_acked (f w) = cw_acked w"
    "\<And>w. cw_commits (f w) = cw_commits w" "\<And>w. cw_refused (f w) = cw_refused w"
  shows "steady f"
  by (simp add: steady_def progresses_def healthy_defs events_of_def assms)

lemma steady_surroundings:
  "steady (\<lambda>w. w\<lparr>cw_now := cw_now w + d\<rparr>)"
  "steady (\<lambda>w. w\<lparr>cw_bus_down := x\<rparr>)"
  "steady (\<lambda>w. w\<lparr>cw_db_down := x\<rparr>)"
  "steady (\<lambda>w. snd (run_state (on_repo q) w))"
  by (rule steady_outside; simp add: on_repo_def split: prod.split)+

lemma steady_requests:
  "steady (\<lambda>w. snd (run_state (on_bus (\<lambda>now. mem_acquire_lock now (lock_requested ttl now t u c k m txt p s))) w))"
  "steady (\<lambda>w. snd (run_state (on_bus (\<lambda>now. mem_request_stop now t c u)) w))"
  "steady (\<lambda>w. snd (run_state (on_bus (\<lambda>now. mem_renew_lock ttl now t c k v)) w))"
  by (rule steady_bus, rule acquire_lock_change [OF requested_is_backed], assumption)
    (rule steady_bus, rule request_stop_change renew_lock_change, assumption, assumption)+

section \<open>The promises\<close>

text \<open>The world after a run, and what the run returned.\<close>

definition after_run ::
  "SharedChat WorkerState \<Rightarrow> TurnRequested \<Rightarrow> StopSignal list \<Rightarrow> DriveInput list \<Rightarrow> SharedChat \<Rightarrow>
     (string option, TurnError) result \<times> ChatWorld" where
  "after_run st command stops inputs x = (case run_state (run_turn st command stops inputs) x of (r, w, es) \<Rightarrow> (r, w))"

lemma after_run_facts:
  assumes "shared_healthy x" "after_run (chat_worker ttl order ulid llm wid) command stops inputs x = (r, w)"
  shows "healthy w" "is_ok r \<Longrightarrow> announced (events_of w) (turn_of command) \<or> turn_of command \<in> set (cw_refused w)"
proof -
  obtain es where run: "run_state (run_turn (chat_worker ttl order ulid llm wid) command stops inputs) x = (r, w, es)"
    using assms(2) by (auto simp: after_run_def split: prod.splits)
  have "shared_healthy x \<and> True" using assms(1) by simp
  from rgD(2) [OF turns.run_turn_finishes [unfolded turns.finishing_def] this run]
  show "healthy w" "is_ok r \<Longrightarrow> announced (events_of w) (turn_of command) \<or> turn_of command \<in> set (cw_refused w)"
    by (auto simp: turns.over_def)
qed

text \<open>C8. No turn is acknowledged in silence. Whatever the worker is given to do, whatever other
  workers, requests, clock jumps, outages and crashes fall between any two of its calls: every
  command that is acknowledged afterwards belongs to a turn for which a final event (\<open>finish\<close>,
  \<open>interrupted\<close> or \<open>clear\<close>) is in the event log, or whose commit the repository refused; and a
  run that returns \<open>Ok\<close> leaves its own turn in that state.\<close>

theorem acknowledged_turn_is_announced:
  assumes "healthy w" "\<forall>f \<in> set es. steady f"
    and "after_run (chat_worker ttl order ulid llm wid) command stops inputs (w, es) = (r, w')"
  shows "(\<forall>k \<in> set (cw_acked w'). \<exists>key. announced (events_of w') (key, k) \<or> (key, k) \<in> set (cw_refused w'))
    \<and> (is_ok r \<longrightarrow> announced (events_of w') (turn_of command) \<or> turn_of command \<in> set (cw_refused w'))"
  using after_run_facts [OF _ assms(3)] assms(1,2) by (auto simp: healthy_def acks_backed_def)

text \<open>C7. An answer is announced only when it was committed. In any world that such runs lead to,
  every \<open>finish\<close> and every \<open>interrupted\<close> event in the log names a message that the repository
  accepted for that turn, and every lock marked committed or interrupted holds such a message.\<close>

theorem announced_answer_is_committed:
  assumes "healthy w" "\<forall>f \<in> set es. steady f"
    and "after_run (chat_worker ttl order ulid llm wid) command stops inputs (w, es) = (r, w')"
  shows "(\<forall>e \<in> events_of w'. \<forall>a. announces (ee_event e) = Some a \<longrightarrow> (turn_of_event e, a) \<in> set (cw_commits w'))
    \<and> (\<forall>key l a. ci_locks (cw_bus w') key = Some l \<longrightarrow> lock_result l = Some a \<longrightarrow> (turn_of_lock l, a) \<in> set (cw_commits w'))"
proof -
  have "healthy w'" by (rule after_run_facts(1) [OF _ assms(3)]) (simp add: assms(1,2))
  then show ?thesis unfolding healthy_def events_backed_def locks_backed_def backed_def by blast
qed

text \<open>A conversation in which turn \<open>k\<close> was requested.\<close>

definition sample_chat :: ChatWorld where
  "sample_chat = \<lparr>cw_bus = sample_locked, cw_convs = [''c'' \<mapsto> \<lparr>sc_id = ''c'', sc_tenant_id = ''t'', sc_user_id = ''u'',
     sc_title = ''New chat'', sc_updated_at = 0, sc_deleted_at = None, sc_next_message_ordinal = 1, sc_messages = []\<rparr>],
     cw_now = 1, cw_drawn = 0, cw_bus_down = False, cw_db_down = False, cw_acked = [], cw_commits = [], cw_refused = []\<rparr>"

definition sample_command :: TurnRequested where
  "sample_command = \<lparr>tr_v = 1, tr_command_id = ''cmd'', tr_tenant_id = ''t'', tr_user_id = ''u'', tr_conversation_id = ''c'',
     tr_turn_id = ''k'', tr_ts = 0\<rparr>"

definition sample_worker :: "SharedChat WorkerState" where
  "sample_worker = chat_worker 900 [''c''] (\<lambda>n. ''a'' @ show_nat n) (\<lambda>_. Ok ()) ''w1''"

lemma sample_healthy: "healthy sample_chat"
  by (simp add: healthy_defs events_of_def sample_chat_def sample_lock_defs lock_result_def turn_of_lock_def)

text \<open>What interferes: the clock, then a stop request of the user, then an outage of the bus.\<close>

definition sample_interference :: "(ChatWorld \<Rightarrow> ChatWorld) list" where
  "sample_interference = [\<lambda>w. w\<lparr>cw_now := cw_now w + 5\<rparr>,
     \<lambda>w. snd (run_state (on_bus (\<lambda>now. mem_request_stop now ''t'' ''c'' ''u'')) w)]"

lemma sample_steady: "\<forall>f \<in> set sample_interference. steady f"
  by (simp add: sample_interference_def steady_surroundings steady_requests)

theorem acknowledged_turn_is_announced_witness:
  "\<exists>r w'. after_run sample_worker sample_command [] [LlmChunk ''He'', LlmEnd] (sample_chat, sample_interference) = (r, w')
    \<and> cw_acked w' = [''k''] \<and> (\<exists>key. announced (events_of w') (key, ''k''))"
proof -
  let ?r = "after_run sample_worker sample_command [] [LlmChunk ''He'', LlmEnd] (sample_chat, sample_interference)"
  have ack: "cw_acked (snd ?r) = [''k''] \<and> cw_refused (snd ?r) = []" by code_simp
  from acknowledged_turn_is_announced [OF sample_healthy sample_steady, of 900 "[''c'']" "\<lambda>n. ''a'' @ show_nat n" "\<lambda>_. Ok ()" "''w1''"
      sample_command "[]" "[LlmChunk ''He'', LlmEnd]" "fst ?r" "snd ?r", folded sample_worker_def]
  have "\<exists>key. announced (events_of (snd ?r)) (key, ''k'')" using ack by simp
  with ack show ?thesis by (metis prod.collapse)
qed

theorem announced_answer_is_committed_witness:
  "\<exists>r w'. after_run sample_worker sample_command [] [LlmChunk ''He'', LlmEnd] (sample_chat, []) = (r, w')
    \<and> ((''t/c'', ''k''), ''a0'') \<in> set (cw_commits w')"
proof -
  let ?r = "after_run sample_worker sample_command [] [LlmChunk ''He'', LlmEnd] (sample_chat, [])"
  have ev: "list_ex (\<lambda>e. ee_event (se_envelope e) = Finish ''a0'' FinishStop \<and> turn_of_event (se_envelope e) = (''t/c'', ''k''))
      (ci_event_log (cw_bus (snd ?r)))"
    by code_simp
  then obtain e where e: "e \<in> events_of (snd ?r)" "ee_event e = Finish ''a0'' FinishStop" "turn_of_event e = (''t/c'', ''k'')"
    by (auto simp: events_of_def list_ex_iff)
  from announced_answer_is_committed [OF sample_healthy, of "[]" 900 "[''c'']" "\<lambda>n. ''a'' @ show_nat n" "\<lambda>_. Ok ()" "''w1''"
      sample_command "[]" "[LlmChunk ''He'', LlmEnd]" "fst ?r" "snd ?r", folded sample_worker_def]
  have "((''t/c'', ''k''), ''a0'') \<in> set (cw_commits (snd ?r))" using e by force
  then show ?thesis by (metis prod.collapse)
qed

definition silent_interference :: "(ChatWorld \<Rightarrow> ChatWorld) list" where
  "silent_interference = replicate 12 id @ [\<lambda>w. snd (run_state (on_repo (\<lambda>now. repo_delete_conversation now ''t'' ''u'' ''c'')) w),
     \<lambda>w. w\<lparr>cw_bus_down := True\<rparr>, \<lambda>w. w\<lparr>cw_bus_down := False\<rparr>]"

text \<open>The exception is real. When the conversation is gone by the time of the commit and the bus is
  unreachable for one call, the one that marks the turn as failed, the worker drops that error: it
  acknowledges the command and releases the lock, and the turn's subscribers, who saw it start,
  never see it end.\<close>

theorem refused_commit_ends_silently:
  "\<exists>r w'. after_run sample_worker sample_command [] [LlmChunk ''He'', LlmEnd] (sample_chat, silent_interference) = (r, w')
    \<and> is_ok r \<and> cw_acked w' = [''k''] \<and> ci_locks (cw_bus w') ''t/c'' = None
    \<and> map (ee_event \<circ> se_envelope) (ci_event_log (cw_bus w')) = [TurnStarted ''k'', UserMessage ''m'' (Some ''k'') ''hi'', TextDelta ''He'']
    \<and> list_all steady silent_interference"
proof -
  let ?r = "after_run sample_worker sample_command [] [LlmChunk ''He'', LlmEnd] (sample_chat, silent_interference)"
  have run: "is_ok (fst ?r) \<and> cw_acked (snd ?r) = [''k''] \<and> ci_locks (cw_bus (snd ?r)) ''t/c'' = None
      \<and> map (ee_event \<circ> se_envelope) (ci_event_log (cw_bus (snd ?r))) = [TurnStarted ''k'', UserMessage ''m'' (Some ''k'') ''hi'', TextDelta ''He'']"
    by code_simp
  moreover have "list_all steady silent_interference"
    using steady_outside [of id] by (simp add: silent_interference_def steady_surroundings list_all_iff)
  ultimately show ?thesis by (intro exI [of _ "fst ?r"] exI [of _ "snd ?r"]) simp
qed

end
