(* ===== verification/Chat_Runs.thy ===== *)
theory Chat_Runs
  imports Chat_World
begin

text \<open>
  Undisturbed runs of the worker, from the command to the acknowledgement: what a turn leaves in the
  repository, in the event log and on the lock when the stream ends, and when a stop request arrives
  in the middle of it.
\<close>

section \<open>Steps in a world of one's own\<close>

definition logged :: "ChatEventEnvelope \<Rightarrow> ChatInner \<Rightarrow> ChatInner" where
  "logged e b = snd (run_state (mem_publish_event e) b)"

lemma logged_simps [simp]:
  "ci_locks (logged e b) = ci_locks b"
  "map se_envelope (ci_event_log (logged e b)) = map se_envelope (ci_event_log b) @ [e]"
  by (simp_all add: logged_def mem_publish_event_def Let_def)

lemma fold_logged [simp]:
  "ci_locks (fold logged es b) = ci_locks b"
  "map se_envelope (ci_event_log (fold logged es b)) = map se_envelope (ci_event_log b) @ es"
  by (induction es arbitrary: b) simp_all

lemma run_port_alone [simp]: "run_state (port m) (w, []) = (case run_state m w of (a, v) \<Rightarrow> (a, (v, [])))"
  by simp

lemma worker_ports [simp]:
  "cb_load_lock (wk_bus (chat_worker ttl order ulid llm wid)) t c = port (on_bus (\<lambda>_. mem_load_lock t c))"
  "cb_claim_lock (wk_bus (chat_worker ttl order ulid llm wid)) t c k v = port (on_bus (\<lambda>now. mem_claim_lock ttl now t c k v))"
  "cb_mark_lock_terminal (wk_bus (chat_worker ttl order ulid llm wid)) t c k x upd =
     port (on_bus (\<lambda>now. mem_mark_lock_terminal ttl now t c k x upd))"
  "cb_mark_terminal_event_published (wk_bus (chat_worker ttl order ulid llm wid)) t c k =
     port (on_bus (\<lambda>_. mem_mark_terminal_event_published t c k))"
  "cb_stop_requested (wk_bus (chat_worker ttl order ulid llm wid)) t c k = port (on_bus (\<lambda>now. mem_stop_requested now t c k))"
  "cb_release_lock (wk_bus (chat_worker ttl order ulid llm wid)) t c k = port (release t c k)"
  "cb_ack_turn_requested (wk_bus (chat_worker ttl order ulid llm wid)) k = port (ack_command k)"
  "cb_publish_event (wk_bus (chat_worker ttl order ulid llm wid)) e = port (on_bus (\<lambda>_. mem_publish_event e))"
  "cr_get_conversation (wk_repo (chat_worker ttl order ulid llm wid)) t u c = port (on_repo (\<lambda>_. repo_get_conversation t u c))"
  "cr_commit_turn (wk_repo (chat_worker ttl order ulid llm wid)) t u c turn =
     port (on_commit (\<lambda>now. repo_commit_turn now t u c turn) (lock_key t c, tc_turn_id turn) (tc_assistant_message_id turn))"
  "cr_commit_interrupted_turn (wk_repo (chat_worker ttl order ulid llm wid)) t u c turn =
     port (on_commit (\<lambda>now. repo_commit_interrupted_turn now t u c turn) (lock_key t c, tc_turn_id turn) (tc_assistant_message_id turn))"
  "wk_now (chat_worker ttl order ulid llm wid) = port (State (\<lambda>w. (cw_now w, w)))"
  "wk_ulid (chat_worker ttl order ulid llm wid) = port (draw_ulid ulid)"
  "wk_stream_chat (chat_worker ttl order ulid llm wid) ms = port (State (\<lambda>w. (llm ms, w)))"
  "wk_worker_id (chat_worker ttl order ulid llm wid) = wid"
  by (simp_all add: memory_chat_defs)

lemma run_on_bus_up [simp]:
  "\<not> cw_bus_down w \<Longrightarrow> run_state (on_bus m) w = (case run_state (m (cw_now w)) (cw_bus w) of (r, b) \<Rightarrow> (r, w\<lparr>cw_bus := b\<rparr>))"
  by (simp add: on_bus_def)

lemma run_on_repo_up [simp]:
  "\<not> cw_db_down w \<Longrightarrow> run_state (on_repo m) w = (case run_state (m (cw_now w)) (cw_convs w) of (r, b) \<Rightarrow> (r, w\<lparr>cw_convs := b\<rparr>))"
  by (simp add: on_repo_def)

lemma run_publish:
  assumes "\<not> cw_bus_down w"
  obtains i where "run_state (publish_event (chat_worker ttl order ulid llm wid) command event) (w, []) =
    (Ok i, (w\<lparr>cw_bus := logged (turn_envelope command (cw_now w) event) (cw_bus w)\<rparr>, []))"
  using assms by (auto simp: publish_event_def run_state_attempt logged_def
      mem_publish_event_def Let_def)

lemma run_after_publish:
  assumes "\<not> cw_bus_down w"
  shows "run_state (attempt id (publish_event (chat_worker ttl order ulid llm wid) command event) (\<lambda>_. m)) (w, []) =
    run_state m (w\<lparr>cw_bus := logged (turn_envelope command (cw_now w) event) (cw_bus w)\<rparr>, [])"
  using assms by (rule run_publish [of w ttl order ulid llm wid command event]) (simp add: run_state_attempt)

lemma run_attempt_port:
  "run_state (attempt from (port m) f) (w, []) =
    (case run_state m w of (Ok a, v) \<Rightarrow> run_state (f a) (v, []) | (Err e, v) \<Rightarrow> (Err (from e), (v, [])))"
  by (auto simp: run_state_attempt split: prod.splits result.splits)

lemma run_after_stop_check:
  assumes "\<not> cw_bus_down w"
  shows "run_state (attempt id (lock_stop_requested (chat_worker ttl order ulid llm wid) command) f) (w, []) =
    run_state (f (case ci_locks (cw_bus w) (lock_key (tr_tenant_id command) (tr_conversation_id command)) of
        Some lock \<Rightarrow> \<not> lock_is_expired (cw_now w) lock \<and> cl_turn_id lock = tr_turn_id command \<and> cl_stop_requested lock
      | None \<Rightarrow> False)) (w, [])"
  using assms by (simp add: lock_stop_requested_def run_state_attempt mem_stop_requested_def)

text \<open>The stream: each chunk is announced and added to the text.\<close>

lemma run_chunks:
  assumes "\<not> cw_bus_down w"
  shows "run_state (drive_loop (chat_worker ttl order ulid llm wid) command lock (map LlmChunk chunks @ inputs) content) (w, []) =
    run_state (drive_loop (chat_worker ttl order ulid llm wid) command lock inputs (content @ concat chunks))
      (w\<lparr>cw_bus := fold logged (map (\<lambda>chunk. turn_envelope command (cw_now w) (TextDelta chunk)) chunks) (cw_bus w)\<rparr>, [])"
  using assms
proof (induction chunks arbitrary: w content)
  case (Cons chunk chunks)
  then show ?case by (simp add: run_after_publish)
qed simp

section \<open>From the command to the claim\<close>

text \<open>A turn that can run: its lock was requested and is fresh, nobody asked to stop, the bus and
  the database answer, and the conversation is the user's own and still holds the message the turn
  follows.\<close>

definition ready :: "TurnRequested \<Rightarrow> ChatLock \<Rightarrow> StoredConversation \<Rightarrow> nat \<Rightarrow> ChatWorld \<Rightarrow> bool" where
  "ready command lock row n w = (\<not> cw_bus_down w \<and> \<not> cw_db_down w
     \<and> ci_locks (cw_bus w) (lock_key (tr_tenant_id command) (tr_conversation_id command)) = Some lock
     \<and> cl_turn_id lock = tr_turn_id command \<and> cl_state lock = LockRequested \<and> \<not> lock_is_expired (cw_now w) lock
     \<and> \<not> cl_stop_requested lock
     \<and> cl_tenant_id lock = tr_tenant_id command \<and> cl_conversation_id lock = tr_conversation_id command
     \<and> cw_convs w (tr_conversation_id command) = Some row \<and> visible_to row (tr_tenant_id command) (cl_user_id lock)
     \<and> retain_len (cl_parent_message_id lock) (sc_messages row) = Some n)"

text \<open>The world in which the stream starts.\<close>

definition started :: "int \<Rightarrow> string \<Rightarrow> TurnRequested \<Rightarrow> ChatLock \<Rightarrow> ChatWorld \<Rightarrow> ChatWorld" where
  "started ttl wid command lock w = w\<lparr>cw_bus := fold logged
     (map (turn_envelope command (cw_now w)) [TurnStarted (tr_turn_id command),
        UserMessage (cl_user_message_id lock) (Some (tr_turn_id command)) (cl_text lock)])
     (set_lock (lock_key (tr_tenant_id command) (tr_conversation_id command)) (claimed_lock ttl (cw_now w) wid lock) (cw_bus w))\<rparr>"

lemma claimed_lock_fields [simp]:
  "cl_user_id (claimed_lock ttl now wid lock) = cl_user_id lock" "cl_text (claimed_lock ttl now wid lock) = cl_text lock"
  "cl_user_message_id (claimed_lock ttl now wid lock) = cl_user_message_id lock"
  "cl_parent_message_id (claimed_lock ttl now wid lock) = cl_parent_message_id lock"
  "cl_stop_requested (claimed_lock ttl now wid lock) = cl_stop_requested lock"
  "cl_turn_id (claimed_lock ttl now wid lock) = cl_turn_id lock"
  "cl_tenant_id (claimed_lock ttl now wid lock) = cl_tenant_id lock"
  "cl_conversation_id (claimed_lock ttl now wid lock) = cl_conversation_id lock"
  "cl_worker_id (claimed_lock ttl now wid lock) = Some wid" "cl_state (claimed_lock ttl now wid lock) = LockRunning"
  by (simp_all add: claimed_lock_def)

lemma run_claim:
  assumes "ready command lock row n w"
  shows "run_state (run_turn (chat_worker ttl order ulid llm wid) command stops inputs) (w, []) =
    run_state (drive_turn (chat_worker ttl order ulid llm wid) command (claimed_lock ttl (cw_now w) wid lock) stops inputs
        \<bind> (\<lambda>result. case result of
          Ok title \<Rightarrow> attempt id (ack_and_release (chat_worker ttl order ulid llm wid) command) (\<lambda>_. ret (Ok title))
        | Err e \<Rightarrow> ret (Err e)))
      (w\<lparr>cw_bus := set_lock (lock_key (tr_tenant_id command) (tr_conversation_id command))
         (claimed_lock ttl (cw_now w) wid lock) (cw_bus w)\<rparr>, [])"
  using assms
  by (simp add: run_turn_def Let_def ready_def run_state_attempt mem_load_lock_def mem_claim_lock_def lock_is_terminal_def)

lemma run_get:
  assumes "\<not> cw_db_down w" "cw_convs w c = Some row" "visible_to row t u"
  shows "run_state (on_repo (\<lambda>_. repo_get_conversation t u c)) w = (Ok (to_detail row), w)"
  using assms by (simp add: repo_get_conversation_def with_visible_row_def ensure_visible_def map_upd_triv)

lemma run_start:
  assumes "ready command lock row n w" "\<not> received_stop stops command" "llm (llm_messages (sc_messages row) (cl_text lock)) = Ok ()"
  shows "run_state (drive_turn (chat_worker ttl order ulid llm wid) command (claimed_lock ttl (cw_now w) wid lock) stops inputs)
      (w\<lparr>cw_bus := set_lock (lock_key (tr_tenant_id command) (tr_conversation_id command))
         (claimed_lock ttl (cw_now w) wid lock) (cw_bus w)\<rparr>, []) =
    run_state (attempt id (drive_loop (chat_worker ttl order ulid llm wid) command (claimed_lock ttl (cw_now w) wid lock) inputs [])
        (\<lambda>ended. case ended of None \<Rightarrow> ret (Ok None) | Some content \<Rightarrow> complete_turn (chat_worker ttl order ulid llm wid) command
            (claimed_lock ttl (cw_now w) wid lock) (sc_title row = ''New chat'' \<and> sc_messages row = []) content))
      (started ttl wid command lock w, [])"
  using assms
  by (simp add: drive_turn_def Let_def ready_def run_after_publish run_attempt_port run_after_stop_check run_get
      to_detail_def stop_requested_def started_def set_lock_def del: run_on_repo_up)

section \<open>From the end of the stream to the acknowledgement\<close>

definition committed_row :: "datetime \<Rightarrow> nat \<Rightarrow> TurnCommit \<Rightarrow> bool \<Rightarrow> string option \<Rightarrow> StoredConversation \<Rightarrow> StoredConversation" where
  "committed_row now n turn interrupted reason row =
     (let messages = take n (sc_messages row) @ [user_message now turn, assistant_message now turn interrupted reason]
      in row\<lparr>sc_messages := messages, sc_updated_at := now, sc_next_message_ordinal := of_nat (length messages) + 1\<rparr>)"

lemma run_commit:
  assumes "\<not> cw_db_down w" "cw_convs w c = Some row" "visible_to row t u"
    and "retain_len (tc_parent_message_id turn) (sc_messages row) = Some n"
  shows "run_state (on_commit (\<lambda>now. commit_turn_with_metadata now t u c turn interrupted reason) k a) w =
    (Ok (to_detail (committed_row (cw_now w) n turn interrupted reason row)),
     w\<lparr>cw_convs := (cw_convs w)(c \<mapsto> committed_row (cw_now w) n turn interrupted reason row), cw_commits := (k, a) # cw_commits w\<rparr>)"
  using assms by (simp add: on_commit_def commit_turn_with_metadata_def with_visible_row_def ensure_visible_def
      committed_row_def Let_def)

definition closing_lock :: "int \<Rightarrow> datetime \<Rightarrow> ChatTerminalUpdate \<Rightarrow> ChatLock \<Rightarrow> ChatLock" where
  "closing_lock ttl now upd lock = (terminal_lock ttl now upd lock)\<lparr>cl_terminal_event_published := True\<rparr>"

lemma terminal_lock_fields [simp]:
  "cl_turn_id (terminal_lock ttl now upd lock) = cl_turn_id lock"
  "cl_tenant_id (terminal_lock ttl now upd lock) = cl_tenant_id lock"
  "cl_conversation_id (terminal_lock ttl now upd lock) = cl_conversation_id lock"
  by (simp_all add: terminal_lock_def)

lemma run_conclude:
  assumes "\<not> cw_bus_down w" "ci_locks (cw_bus w) (lock_key (tr_tenant_id command) (tr_conversation_id command)) = Some lock"
    and "cl_turn_id lock = tr_turn_id command" "cl_worker_id lock = Some wid" "tu_state upd \<in> {LockCommitted, LockInterrupted}"
    and "cl_tenant_id lock = tr_tenant_id command" "cl_conversation_id lock = tr_conversation_id command"
  obtains b where "run_state (conclude_turn (chat_worker ttl order ulid llm wid) command upd event) (w, []) =
      (Ok (), (w\<lparr>cw_bus := b\<rparr>, []))"
    "ci_locks b = (ci_locks (cw_bus w))(lock_key (tr_tenant_id command) (tr_conversation_id command) \<mapsto>
       closing_lock ttl (cw_now w) upd lock)"
    "map se_envelope (ci_event_log b) = map se_envelope (ci_event_log (cw_bus w)) @ [turn_envelope command (cw_now w) event]"
proof -
  let ?key = "lock_key (tr_tenant_id command) (tr_conversation_id command)"
  let ?b = "set_lock ?key (closing_lock ttl (cw_now w) upd lock) (logged (turn_envelope command (cw_now w) event)
      (set_lock ?key (terminal_lock ttl (cw_now w) upd lock) (cw_bus w)))"
  have "lock_is_terminal (terminal_lock ttl (cw_now w) upd lock)"
    using assms(5) by (auto simp: lock_is_terminal_def terminal_lock_def)
  then have "run_state (conclude_turn (chat_worker ttl order ulid llm wid) command upd event) (w, []) = (Ok (), (w\<lparr>cw_bus := ?b\<rparr>, []))"
    using assms by (simp add: conclude_turn_def run_attempt_port mem_mark_lock_terminal_def run_after_publish mark_published_def
        mem_mark_terminal_event_published_def set_lock_def closing_lock_def Let_def)
  then show ?thesis by (rule that) (simp_all add: set_lock_def logged_def mem_publish_event_def Let_def)
qed

lemma run_acknowledge:
  assumes "\<not> cw_bus_down w" "ci_locks (cw_bus w) (lock_key (tr_tenant_id command) (tr_conversation_id command)) = Some lock"
    and "cl_turn_id lock = tr_turn_id command"
  shows "run_state (attempt id (ack_and_release (chat_worker ttl order ulid llm wid) command) (\<lambda>_. ret (Ok title))) (w, []) =
    (Ok title, (w\<lparr>cw_acked := tr_turn_id command # cw_acked w,
       cw_bus := drop_lock (lock_key (tr_tenant_id command) (tr_conversation_id command)) (cw_bus w)\<rparr>, []))"
  using assms by (simp add: ack_and_release_def run_state_attempt ack_command_def release_def mem_release_lock_def)

text \<open>What the end of a turn leaves: the answer stored, the event in the log, the lock closed.\<close>

definition ended :: "TurnRequested \<Rightarrow> StoredConversation \<Rightarrow> ChatEventEnvelope list \<Rightarrow> ChatWorld \<Rightarrow> ChatWorld \<Rightarrow> bool" where
  "ended command row es w w' = (cw_convs w' = (cw_convs w)(tr_conversation_id command \<mapsto> row) \<and> cw_acked w' = cw_acked w
     \<and> \<not> cw_bus_down w'
     \<and> map se_envelope (ci_event_log (cw_bus w')) = map se_envelope (ci_event_log (cw_bus w)) @ es
     \<and> (\<exists>l. ci_locks (cw_bus w') (lock_key (tr_tenant_id command) (tr_conversation_id command)) = Some l
          \<and> cl_turn_id l = tr_turn_id command))"

text \<open>The world in which the stream has delivered its chunks.\<close>

definition streamed :: "int \<Rightarrow> string \<Rightarrow> TurnRequested \<Rightarrow> ChatLock \<Rightarrow> string list \<Rightarrow> ChatWorld \<Rightarrow> ChatWorld" where
  "streamed ttl wid command lock chunks w = (started ttl wid command lock w)\<lparr>cw_bus :=
     fold logged (map (\<lambda>chunk. turn_envelope command (cw_now w) (TextDelta chunk)) chunks) (cw_bus (started ttl wid command lock w))\<rparr>"

lemma run_answer:
  assumes "ready command lock row n w" "tu_state upd \<in> {LockCommitted, LockInterrupted}"
    and "tc_parent_message_id turn = cl_parent_message_id lock"
    and "v = (streamed ttl wid command lock chunks w)\<lparr>cw_drawn := Suc (cw_drawn w)\<rparr>"
  obtains r v' w' where
    "run_state (on_commit (\<lambda>now. commit_turn_with_metadata now (tr_tenant_id command) (cl_user_id lock)
       (tr_conversation_id command) turn interrupted reason) k a) v = (Ok r, v')"
    "run_state (conclude_turn (chat_worker ttl order ulid llm wid) command upd event) (v', []) = (Ok (), (w', []))"
    "ended command (committed_row (cw_now w) n turn interrupted reason row)
       (map (turn_envelope command (cw_now w)) ([TurnStarted (tr_turn_id command),
          UserMessage (cl_user_message_id lock) (Some (tr_turn_id command)) (cl_text lock)] @ map TextDelta chunks @ [event])) w w'"
proof -
  let ?lock = "claimed_lock ttl (cw_now w) wid lock"
  let ?key = "lock_key (tr_tenant_id command) (tr_conversation_id command)"
  let ?row = "committed_row (cw_now w) n turn interrupted reason row"
  let ?v = "v\<lparr>cw_convs := (cw_convs w)(tr_conversation_id command \<mapsto> ?row), cw_commits := (k, a) # cw_commits w\<rparr>"
  have commit: "run_state (on_commit (\<lambda>now. commit_turn_with_metadata now (tr_tenant_id command) (cl_user_id lock)
       (tr_conversation_id command) turn interrupted reason) k a) v = (Ok (to_detail ?row), ?v)"
    using assms(1,3) run_commit [of v "tr_conversation_id command" row "tr_tenant_id command" "cl_user_id lock" turn n]
    by (simp add: assms(4) streamed_def started_def ready_def)
  have v: "\<not> cw_bus_down ?v" "ci_locks (cw_bus ?v) ?key = Some ?lock" "cl_turn_id ?lock = tr_turn_id command"
    "cl_worker_id ?lock = Some wid" "cl_tenant_id ?lock = tr_tenant_id command" "cl_conversation_id ?lock = tr_conversation_id command"
    using assms(1) by (simp_all add: assms(4) ready_def streamed_def started_def set_lock_def)
  obtain b where b: "run_state (conclude_turn (chat_worker ttl order ulid llm wid) command upd event) (?v, []) = (Ok (), (?v\<lparr>cw_bus := b\<rparr>, []))"
    "ci_locks b = (ci_locks (cw_bus ?v))(?key \<mapsto> closing_lock ttl (cw_now ?v) upd ?lock)"
    "map se_envelope (ci_event_log b) = map se_envelope (ci_event_log (cw_bus ?v)) @ [turn_envelope command (cw_now ?v) event]"
    using run_conclude [OF v(1-4) assms(2) v(5,6)] by blast
  have "ended command ?row (map (turn_envelope command (cw_now w)) ([TurnStarted (tr_turn_id command),
      UserMessage (cl_user_message_id lock) (Some (tr_turn_id command)) (cl_text lock)] @ map TextDelta chunks @ [event])) w (?v\<lparr>cw_bus := b\<rparr>)"
    using v(1,3) b(2,3) by (simp add: ended_def assms(4) streamed_def started_def set_lock_def closing_lock_def)
  with commit b(1) show ?thesis by (rule that)
qed

lemma run_acknowledged:
  assumes "ended command row es w v"
  obtains w' where "run_state (attempt id (ack_and_release (chat_worker ttl order ulid llm wid) command) (\<lambda>_. ret (Ok title))) (v, []) =
      (Ok title, (w', []))"
    "cw_convs w' = (cw_convs w)(tr_conversation_id command \<mapsto> row)" "cw_acked w' = tr_turn_id command # cw_acked w"
    "map se_envelope (ci_event_log (cw_bus w')) = map se_envelope (ci_event_log (cw_bus w)) @ es"
    "ci_locks (cw_bus w') (lock_key (tr_tenant_id command) (tr_conversation_id command)) = None"
proof -
  obtain l where "ci_locks (cw_bus v) (lock_key (tr_tenant_id command) (tr_conversation_id command)) = Some l"
    "cl_turn_id l = tr_turn_id command"
    using assms by (auto simp: ended_def)
  then show ?thesis using assms
    by (intro that [OF run_acknowledge]) (auto simp: ended_def drop_lock_def)
qed

section \<open>Whole runs\<close>

lemma turn_commit_claimed [simp]:
  "turn_commit command (claimed_lock ttl now wid lock) a content = turn_commit command lock a content"
  by (simp add: turn_commit_def)

lemma run_streamed:
  assumes "ready command lock row n w" "\<not> received_stop stops command" "llm (llm_messages (sc_messages row) (cl_text lock)) = Ok ()"
  shows "run_state (run_turn (chat_worker ttl order ulid llm wid) command stops (map LlmChunk chunks @ inputs)) (w, []) =
    run_state (attempt id (drive_loop (chat_worker ttl order ulid llm wid) command (claimed_lock ttl (cw_now w) wid lock) inputs (concat chunks))
        (\<lambda>ended. case ended of None \<Rightarrow> ret (Ok None) | Some content \<Rightarrow> complete_turn (chat_worker ttl order ulid llm wid) command
            (claimed_lock ttl (cw_now w) wid lock) (sc_title row = ''New chat'' \<and> sc_messages row = []) content)
      \<bind> (\<lambda>result. case result of
          Ok title \<Rightarrow> attempt id (ack_and_release (chat_worker ttl order ulid llm wid) command) (\<lambda>_. ret (Ok title))
        | Err e \<Rightarrow> ret (Err e))) (streamed ttl wid command lock chunks w, [])"
proof -
  have up: "\<not> cw_bus_down (started ttl wid command lock w)" and now: "cw_now (started ttl wid command lock w) = cw_now w"
    using assms(1) by (simp_all add: ready_def started_def)
  show ?thesis
    unfolding run_claim [OF assms(1)] run_state_bind run_start [where llm = llm, OF assms] run_state_attempt run_chunks [OF up] now streamed_def by simp
qed

definition turn_left :: "TurnRequested \<Rightarrow> StoredConversation \<Rightarrow> ChatEventEnvelope list \<Rightarrow> ChatWorld \<Rightarrow> ChatWorld \<Rightarrow> bool" where
  "turn_left command row es w w' = (cw_convs w' = (cw_convs w)(tr_conversation_id command \<mapsto> row)
     \<and> map se_envelope (ci_event_log (cw_bus w')) = map se_envelope (ci_event_log (cw_bus w)) @ es
     \<and> cw_acked w' = tr_turn_id command # cw_acked w
     \<and> ci_locks (cw_bus w') (lock_key (tr_tenant_id command) (tr_conversation_id command)) = None)"

lemma run_over:
  assumes "ready command lock row n w" "\<not> received_stop stops command" "llm (llm_messages (sc_messages row) (cl_text lock)) = Ok ()"
    and "run_state (attempt id (drive_loop (chat_worker ttl order ulid llm wid) command (claimed_lock ttl (cw_now w) wid lock) inputs (concat chunks))
        (\<lambda>ended. case ended of None \<Rightarrow> ret (Ok None) | Some content \<Rightarrow> complete_turn (chat_worker ttl order ulid llm wid) command
            (claimed_lock ttl (cw_now w) wid lock) (sc_title row = ''New chat'' \<and> sc_messages row = []) content))
      (streamed ttl wid command lock chunks w, []) = (Ok title, (v, []))"
    and "ended command row' es w v"
  shows "\<exists>w'. after_run (chat_worker ttl order ulid llm wid) command stops (map LlmChunk chunks @ inputs) (w, []) = (Ok title, w')
    \<and> turn_left command row' es w w'"
proof -
  obtain w' where w': "run_state (attempt id (ack_and_release (chat_worker ttl order ulid llm wid) command) (\<lambda>_. ret (Ok title))) (v, []) =
      (Ok title, (w', []))" "turn_left command row' es w w'"
    by (rule run_acknowledged [where ttl = ttl and order = order and ulid = ulid and llm = llm and wid = wid and title = title, OF assms(5)])
      (simp add: turn_left_def)
  have "run_state (run_turn (chat_worker ttl order ulid llm wid) command stops (map LlmChunk chunks @ inputs)) (w, []) = (Ok title, (w', []))"
    unfolding run_streamed [where llm = llm, OF assms(1-3)] run_state_bind assms(4) prod.case result.case by (rule w'(1))
  then have "after_run (chat_worker ttl order ulid llm wid) command stops (map LlmChunk chunks @ inputs) (w, []) = (Ok title, w')"
    by (simp add: after_run_def)
  with w'(2) show ?thesis by blast
qed

lemma completed_run:
  assumes "ready command lock row n w" "\<not> received_stop stops command"
    and "llm (llm_messages (sc_messages row) (cl_text lock)) = Ok ()"
    and "a = ulid (cw_drawn w)" "turn = turn_commit command lock a (concat chunks)"
  shows "\<exists>w'. after_run (chat_worker ttl order ulid llm wid) command stops (map LlmChunk chunks @ [LlmEnd]) (w, []) =
      (Ok (if (sc_title row = ''New chat'' \<and> sc_messages row = []) \<and> trim (concat chunks) \<noteq> [] then Some (concat chunks) else None), w')
    \<and> turn_left command (committed_row (cw_now w) n turn False None row)
        (map (turn_envelope command (cw_now w)) ([TurnStarted (tr_turn_id command),
            UserMessage (cl_user_message_id lock) (Some (tr_turn_id command)) (cl_text lock)]
            @ map TextDelta chunks @ [Finish a FinishStop])) w w'"
proof -
  let ?v = "streamed ttl wid command lock chunks w"
  let ?upd = "\<lparr>tu_state = LockCommitted, tu_assistant_message_id = Some a, tu_content = None, tu_error = None\<rparr>"
  have parent: "tc_parent_message_id turn = cl_parent_message_id lock" by (simp add: assms(5) turn_commit_def)
  have drawn: "cw_drawn ?v = cw_drawn w" by (simp add: streamed_def started_def)
  obtain r v' v'' where v:
    "run_state (on_commit (\<lambda>now. commit_turn_with_metadata now (tr_tenant_id command) (cl_user_id lock)
       (tr_conversation_id command) turn False None) (turn_of command) a) (?v\<lparr>cw_drawn := Suc (cw_drawn w)\<rparr>) = (Ok r, v')"
    "run_state (conclude_turn (chat_worker ttl order ulid llm wid) command ?upd (Finish a FinishStop)) (v', []) = (Ok (), (v'', []))"
    and ended: "ended command (committed_row (cw_now w) n turn False None row)
       (map (turn_envelope command (cw_now w)) ([TurnStarted (tr_turn_id command),
          UserMessage (cl_user_message_id lock) (Some (tr_turn_id command)) (cl_text lock)] @ map TextDelta chunks @ [Finish a FinishStop])) w v''"
    by (rule run_answer [OF assms(1) _ parent refl, where upd = ?upd]) auto
  show ?thesis by (rule run_over [where llm = llm, OF assms(1-3) _ ended])
    (use v in \<open>simp add: run_state_attempt complete_turn_def draw_ulid_def drawn repo_commit_turn_def turn_of_def assms(4,5) turn_commit_def\<close>)
qed

text \<open>A turn that is not disturbed is stored, announced and acknowledged. For every list of chunks
  the model streams, the run returns \<open>Ok\<close>; the conversation then holds, after the message the turn
  follows, the user's message and the assistant's with the chunks joined; the log has grown by
  \<open>turn_started\<close>, \<open>user_message\<close>, one \<open>text_delta\<close> for each chunk and \<open>finish\<close> with the id of the
  stored answer; the command is acknowledged and the conversation's lock is gone. The run asks for a title
  exactly for the first turn of a conversation that has the default one.\<close>

theorem completed_turn_is_stored:
  assumes "ready command lock row n w" "\<not> received_stop stops command"
    and "llm (llm_messages (sc_messages row) (cl_text lock)) = Ok ()"
    and "a = ulid (cw_drawn w)" "turn = turn_commit command lock a (concat chunks)"
  shows "\<exists>w'. after_run (chat_worker ttl order ulid llm wid) command stops (map LlmChunk chunks @ [LlmEnd]) (w, []) =
      (Ok (if (sc_title row = ''New chat'' \<and> sc_messages row = []) \<and> trim (concat chunks) \<noteq> [] then Some (concat chunks) else None), w')
    \<and> turn_left command (committed_row (cw_now w) n turn False None row)
        (map (turn_envelope command (cw_now w)) ([TurnStarted (tr_turn_id command),
            UserMessage (cl_user_message_id lock) (Some (tr_turn_id command)) (cl_text lock)]
            @ map TextDelta chunks @ [Finish a FinishStop])) w w'"
  using assms by (rule completed_run)

text \<open>A stopped turn keeps what it had. When a stop signal for the turn arrives after some chunks,
  whatever the model would still have sent, the run returns \<open>Ok\<close> without asking for a title; the
  conversation holds the chunks delivered so far as an answer marked interrupted by the user, and
  the log ends with \<open>interrupted\<close>, which carries that text.\<close>

theorem stopped_turn_keeps_partial_answer:
  assumes "ready command lock row n w" "\<not> received_stop stops command"
    and "llm (llm_messages (sc_messages row) (cl_text lock)) = Ok ()"
    and "a = ulid (cw_drawn w)" "turn = turn_commit command lock a (concat chunks)" "is_stop_for_turn signal command"
  shows "\<exists>w'. after_run (chat_worker ttl order ulid llm wid) command stops (map LlmChunk chunks @ StopReceived signal # later) (w, []) = (Ok None, w')
    \<and> turn_left command (committed_row (cw_now w) n turn True (Some ''user_interrupted'') row)
        (map (turn_envelope command (cw_now w)) ([TurnStarted (tr_turn_id command),
            UserMessage (cl_user_message_id lock) (Some (tr_turn_id command)) (cl_text lock)]
            @ map TextDelta chunks @ [TurnInterrupted a (concat chunks) UserInterrupted])) w w'"
proof -
  let ?v = "streamed ttl wid command lock chunks w"
  let ?event = "TurnInterrupted a (concat chunks) UserInterrupted"
  let ?upd = "\<lparr>tu_state = LockInterrupted, tu_assistant_message_id = Some a, tu_content = Some (concat chunks), tu_error = None\<rparr>"
  have parent: "tc_parent_message_id turn = cl_parent_message_id lock" by (simp add: assms(5) turn_commit_def)
  have drawn: "cw_drawn ?v = cw_drawn w" by (simp add: streamed_def started_def)
  obtain r v' v'' where v:
    "run_state (on_commit (\<lambda>now. commit_turn_with_metadata now (tr_tenant_id command) (cl_user_id lock)
       (tr_conversation_id command) turn True (Some ''user_interrupted'')) (turn_of command) a) (?v\<lparr>cw_drawn := Suc (cw_drawn w)\<rparr>) = (Ok r, v')"
    "run_state (conclude_turn (chat_worker ttl order ulid llm wid) command ?upd ?event) (v', []) = (Ok (), (v'', []))"
    and ended: "ended command (committed_row (cw_now w) n turn True (Some ''user_interrupted'') row)
       (map (turn_envelope command (cw_now w)) ([TurnStarted (tr_turn_id command),
          UserMessage (cl_user_message_id lock) (Some (tr_turn_id command)) (cl_text lock)] @ map TextDelta chunks @ [?event])) w v''"
    by (rule run_answer [OF assms(1) _ parent refl, where upd = ?upd]) auto
  show ?thesis by (rule run_over [where llm = llm, OF assms(1-3) _ ended])
    (use v in \<open>simp add: run_state_attempt commit_interrupted_turn_def draw_ulid_def drawn repo_commit_interrupted_turn_def
      turn_of_def assms(4-6) turn_commit_def\<close>)
qed

text \<open>Both at once on a first turn: two chunks, then the end of the stream or a stop.\<close>

definition sample_row :: StoredConversation where
  "sample_row = the (cw_convs sample_chat ''c'')"

lemma sample_ready: "ready sample_command sample_lock sample_row 0 sample_chat"
  by (simp add: ready_def sample_command_def sample_chat_def sample_row_def sample_lock_defs visible_to_def retain_len_def)

theorem completed_turn_is_stored_witness:
  "\<exists>w'. after_run sample_worker sample_command [] [LlmChunk ''Hel'', LlmChunk ''lo'', LlmEnd] (sample_chat, []) = (Ok (Some ''Hello''), w')
    \<and> cw_acked w' = [''k'']
    \<and> map md_content (sc_messages (the (cw_convs w' ''c''))) = [''hi'', ''Hello'']"
proof -
  let ?ulid = "\<lambda>n. ''a'' @ show_nat n"
  let ?turn = "turn_commit sample_command sample_lock (?ulid (cw_drawn sample_chat)) (concat [''Hel'', ''lo''])"
  obtain w' where w': "after_run sample_worker sample_command [] (map LlmChunk [''Hel'', ''lo''] @ [LlmEnd]) (sample_chat, []) =
      (Ok (if (sc_title sample_row = ''New chat'' \<and> sc_messages sample_row = []) \<and> trim (concat [''Hel'', ''lo'']) \<noteq> []
         then Some (concat [''Hel'', ''lo'']) else None), w')"
    "turn_left sample_command (committed_row (cw_now sample_chat) 0 ?turn False None sample_row)
      (map (turn_envelope sample_command (cw_now sample_chat)) ([TurnStarted (tr_turn_id sample_command),
            UserMessage (cl_user_message_id sample_lock) (Some (tr_turn_id sample_command)) (cl_text sample_lock)]
            @ map TextDelta [''Hel'', ''lo''] @ [Finish (?ulid (cw_drawn sample_chat)) FinishStop])) sample_chat w'"
    using completed_turn_is_stored [OF sample_ready _ _ refl refl, where stops = "[]" and ulid = ?ulid and llm = "\<lambda>_. Ok ()"
        and chunks = "[''Hel'', ''lo'']" and ttl = 900 and order = "[''c'']" and wid = "''w1''", folded sample_worker_def] by auto
  have "sc_title sample_row = ''New chat''" "sc_messages sample_row = []" "trim (concat [''Hel'', ''lo'']) \<noteq> []"
    by code_simp+
  moreover have "cl_text sample_lock = ''hi''" "tr_turn_id sample_command = ''k''" "cw_acked sample_chat = []" "tr_conversation_id sample_command = ''c''"
    by code_simp+
  ultimately show ?thesis using w'
    by (auto simp: turn_left_def committed_row_def Let_def user_message_def assistant_message_def turn_commit_def)
qed

theorem stopped_turn_keeps_partial_answer_witness:
  "\<exists>w'. after_run sample_worker sample_command [] [LlmChunk ''Hel'', StopReceived \<lparr>sg_tenant_id = ''t'', sg_conversation_id = ''c'', sg_turn_id = ''k''\<rparr>,
      LlmChunk ''lo'', LlmEnd] (sample_chat, []) = (Ok None, w')
    \<and> map (\<lambda>m. (md_content m, md_interrupted m)) (sc_messages (the (cw_convs w' ''c''))) = [(''hi'', False), (''Hel'', True)]"
proof -
  let ?ulid = "\<lambda>n. ''a'' @ show_nat n"
  let ?stop = "\<lparr>sg_tenant_id = ''t'', sg_conversation_id = ''c'', sg_turn_id = ''k''\<rparr>"
  let ?turn = "turn_commit sample_command sample_lock (?ulid (cw_drawn sample_chat)) (concat [''Hel''])"
  have "is_stop_for_turn ?stop sample_command" by (simp add: is_stop_for_turn_def sample_command_def)
  then obtain w' where w': "after_run sample_worker sample_command [] (map LlmChunk [''Hel''] @ StopReceived ?stop # [LlmChunk ''lo'', LlmEnd]) (sample_chat, []) =
      (Ok None, w')"
    "turn_left sample_command (committed_row (cw_now sample_chat) 0 ?turn True (Some ''user_interrupted'') sample_row)
      (map (turn_envelope sample_command (cw_now sample_chat)) ([TurnStarted (tr_turn_id sample_command),
            UserMessage (cl_user_message_id sample_lock) (Some (tr_turn_id sample_command)) (cl_text sample_lock)]
            @ map TextDelta [''Hel''] @ [TurnInterrupted (?ulid (cw_drawn sample_chat)) (concat [''Hel'']) UserInterrupted])) sample_chat w'"
    using stopped_turn_keeps_partial_answer [OF sample_ready _ _ refl refl, where stops = "[]" and ulid = ?ulid and llm = "\<lambda>_. Ok ()"
        and chunks = "[''Hel'']" and ttl = 900 and order = "[''c'']" and wid = "''w1''" and signal = ?stop
        and later = "[LlmChunk ''lo'', LlmEnd]", folded sample_worker_def] by auto
  have "sc_messages sample_row = []" "cl_text sample_lock = ''hi''" "tr_conversation_id sample_command = ''c''" by code_simp+
  with w' show ?thesis
    by (auto simp: turn_left_def committed_row_def Let_def user_message_def assistant_message_def turn_commit_def)
qed

end
