(* ===== verification/Auth.thy ===== *)
theory Auth
  imports Chat
begin

text \<open>
  crates/auth/src/lib.rs: who a request comes from. The JWT library (decoding a header, making a key
  out of a JWK, checking a token against a key and a \<open>Validation\<close>) and the deserialiser of the claims
  are parameters; the outcome of the HTTP request for the key set is an argument of the call that makes it.
  The theorems: a caller is only let in with a token that a published asymmetric key verified under the
  configured issuer and audience, and the roles of the caller are exactly those of the claims.
\<close>

section \<open>Callers\<close>

record AuthContext =
  ac_user_id :: string
  ac_tenant_id :: string
  ac_email :: "string option"
  ac_roles :: "string list"
  ac_bearer_subject :: string

definition has_role :: "AuthContext \<Rightarrow> string \<Rightarrow> bool" where
  "has_role auth role = list_ex (\<lambda>candidate. candidate = role) (ac_roles auth)"

definition public_user :: "AuthContext \<Rightarrow> AuthUser" where
  "public_user auth = \<lparr>au_user_id = ac_user_id auth, au_tenant_id = ac_tenant_id auth, au_email = ac_email auth,
     au_roles = ac_roles auth\<rparr>"

datatype AuthError = AuthMissing | AuthInvalid string

record RoleAccess =
  ra_roles :: "string list option"

record InboundClaims =
  in_sub :: "string option"
  in_email :: "string option"
  in_tenant_id :: "string option"
  in_roles :: "string list option"
  in_realm_access :: "RoleAccess option"
  in_resource_access :: "RoleAccess list option"

text \<open>The values of the \<open>resource_access\<close> map, in the order its iterator yields them.\<close>

fun extend_loop :: "string list \<Rightarrow> string list \<Rightarrow> string list" where
  "extend_loop normalized [] = normalized"
| "extend_loop normalized (role # roles) =
     (if trim role \<noteq> [] \<and> \<not> list_ex (\<lambda>candidate. candidate = trim role) normalized
      then extend_loop (normalized @ [trim role]) roles else extend_loop normalized roles)"

definition extend_roles :: "string list \<Rightarrow> string list option \<Rightarrow> string list" where
  "extend_roles normalized roles = (case roles of None \<Rightarrow> normalized | Some roles \<Rightarrow> extend_loop normalized roles)"

definition normalize_roles :: "string list option \<Rightarrow> RoleAccess option \<Rightarrow> RoleAccess list option \<Rightarrow> string list" where
  "normalize_roles flat_roles realm_access resource_access =
     (let roles = extend_roles [] flat_roles;
          roles = (case realm_access of Some access \<Rightarrow> extend_roles roles (ra_roles access) | None \<Rightarrow> roles)
      in (case resource_access of Some accesses \<Rightarrow> foldl (\<lambda>roles access. extend_roles roles (ra_roles access)) roles accesses
          | None \<Rightarrow> roles))"

definition bearer_token :: "string option \<Rightarrow> string option" where
  "bearer_token authorization = Option.bind authorization (\<lambda>v.
     case strip_prefix v ''Bearer '' of Some t \<Rightarrow> Some t | None \<Rightarrow> strip_prefix v ''bearer '')"

section \<open>Keys\<close>

datatype Algorithm = RS256 | RS384 | RS512 | ES256 | ES384 | PS256 | PS384 | PS512 | EdDSA | HS256 | HS384 | HS512

datatype KeyAlgorithm = KeyRS256 | KeyRS384 | KeyRS512 | KeyES256 | KeyES384 | KeyPS256 | KeyPS384 | KeyPS512
  | KeyEdDSA | OtherKeyAlgorithm

datatype AlgorithmParameters = RSA | EllipticCurve | OctetKeyPair | OctetKey

record Jwk =
  jk_key_id :: "string option"
  jk_key_algorithm :: "KeyAlgorithm option"
  jk_algorithm :: AlgorithmParameters
  jk_material :: string

record 'key CachedKey =
  ck_key :: 'key
  ck_alg :: Algorithm

record JwtValidation =
  jv_alg :: Algorithm
  jv_issuer :: "string option"
  jv_audience :: "string option"
  jv_validate_aud :: bool

text \<open>The JWT library.\<close>

record 'key JwtCrate =
  jw_decode_header :: "string \<Rightarrow> (string option, string) result"
  jw_from_jwk :: "Jwk \<Rightarrow> ('key, string) result"
  jw_decode :: "string \<Rightarrow> 'key \<Rightarrow> JwtValidation \<Rightarrow> (json, string) result"
  jw_from_value :: "json \<Rightarrow> (InboundClaims, string) result"

datatype JwtValidationError = Malformed string | Rejected string | JwksFetch string | UnknownKid string

fun display_JwtValidationError :: "(string \<Rightarrow> string) \<Rightarrow> JwtValidationError \<Rightarrow> string" where
  "display_JwtValidationError debug (Malformed m) = ''malformed JWT: '' @ m"
| "display_JwtValidationError debug (Rejected m) = ''signature or claim validation failed: '' @ m"
| "display_JwtValidationError debug (JwksFetch m) = ''JWKS fetch failed: '' @ m"
| "display_JwtValidationError debug (UnknownKid kid) = ''no JWKS key matches kid '' @ debug kid"

record JwksValidator =
  jx_expected_issuer :: "string option"
  jx_expected_audience :: "string option"

type_synonym 'key key_cache = "string \<rightharpoonup> 'key CachedKey"

fun is_asymmetric :: "AlgorithmParameters \<Rightarrow> bool" where
  "is_asymmetric RSA = True"
| "is_asymmetric EllipticCurve = True"
| "is_asymmetric OctetKeyPair = True"
| "is_asymmetric _ = False"

fun asymmetric_alg_to_alg :: "KeyAlgorithm \<Rightarrow> Algorithm option" where
  "asymmetric_alg_to_alg KeyRS256 = Some RS256"
| "asymmetric_alg_to_alg KeyRS384 = Some RS384"
| "asymmetric_alg_to_alg KeyRS512 = Some RS512"
| "asymmetric_alg_to_alg KeyES256 = Some ES256"
| "asymmetric_alg_to_alg KeyES384 = Some ES384"
| "asymmetric_alg_to_alg KeyPS256 = Some PS256"
| "asymmetric_alg_to_alg KeyPS384 = Some PS384"
| "asymmetric_alg_to_alg KeyPS512 = Some PS512"
| "asymmetric_alg_to_alg KeyEdDSA = Some EdDSA"
| "asymmetric_alg_to_alg _ = None"

fun infer_alg_from_params :: "AlgorithmParameters \<Rightarrow> Algorithm option" where
  "infer_alg_from_params RSA = Some RS256"
| "infer_alg_from_params EllipticCurve = Some ES256"
| "infer_alg_from_params OctetKeyPair = Some EdDSA"
| "infer_alg_from_params _ = None"

definition jwk_alg :: "Jwk \<Rightarrow> Algorithm option" where
  "jwk_alg jwk = (case Option.bind (jk_key_algorithm jwk) asymmetric_alg_to_alg of
      Some alg \<Rightarrow> Some alg | None \<Rightarrow> infer_alg_from_params (jk_algorithm jwk))"

text \<open>The loop of \<open>refresh\<close> over the published keys; the cache is replaced as a whole.\<close>

fun collect_keys :: "'key JwtCrate \<Rightarrow> Jwk list \<Rightarrow> 'key key_cache \<Rightarrow> 'key key_cache" where
  "collect_keys jw [] acc = acc"
| "collect_keys jw (jwk # jwks) acc = (case jk_key_id jwk of
      None \<Rightarrow> collect_keys jw jwks acc
    | Some kid \<Rightarrow>
        if \<not> is_asymmetric (jk_algorithm jwk) then collect_keys jw jwks acc
        else (case jwk_alg jwk of
            None \<Rightarrow> collect_keys jw jwks acc
          | Some alg \<Rightarrow> (case jw_from_jwk jw jwk of
              Err _ \<Rightarrow> collect_keys jw jwks acc
            | Ok key \<Rightarrow> collect_keys jw jwks (acc(kid \<mapsto> \<lparr>ck_key = key, ck_alg = alg\<rparr>)))))"

definition refresh ::
  "'key JwtCrate \<Rightarrow> (Jwk list, string) result \<Rightarrow> ('key key_cache, (unit, JwtValidationError) result) state" where
  "refresh jw fetched = State (\<lambda>cache. case fetched of
      Err e \<Rightarrow> (Err (JwksFetch e), cache)
    | Ok keys \<Rightarrow> (Ok (), collect_keys jw keys Map.empty))"

definition apply_iss_aud :: "JwtValidation \<Rightarrow> string option \<Rightarrow> string option \<Rightarrow> JwtValidation" where
  "apply_iss_aud validation expected_issuer expected_audience =
     (let validation = (case expected_issuer of Some issuer \<Rightarrow> validation\<lparr>jv_issuer := Some issuer\<rparr> | None \<Rightarrow> validation)
      in (case expected_audience of
            Some audience \<Rightarrow> validation\<lparr>jv_audience := Some audience\<rparr>
          | None \<Rightarrow> validation\<lparr>jv_validate_aud := False\<rparr>))"

text \<open>\<open>Validation::new\<close>: the algorithm alone, the audience checked.\<close>

definition new_validation :: "Algorithm \<Rightarrow> JwtValidation" where
  "new_validation alg = \<lparr>jv_alg = alg, jv_issuer = None, jv_audience = None, jv_validate_aud = True\<rparr>"

definition try_cached ::
  "'key JwtCrate \<Rightarrow> JwksValidator \<Rightarrow> string \<Rightarrow> string \<Rightarrow> ('key key_cache, (json option, JwtValidationError) result) state" where
  "try_cached jw v jwt kid = State (\<lambda>cache. (case cache kid of
      None \<Rightarrow> Ok None
    | Some cached \<Rightarrow> map_result Some Rejected (jw_decode jw jwt (ck_key cached)
        (apply_iss_aud (new_validation (ck_alg cached)) (jx_expected_issuer v) (jx_expected_audience v))), cache))"

definition validate ::
  "'key JwtCrate \<Rightarrow> JwksValidator \<Rightarrow> (Jwk list, string) result \<Rightarrow> string \<Rightarrow> ('key key_cache, (json, JwtValidationError) result) state" where
  "validate jw v fetched jwt = (case jw_decode_header jw jwt of
      Err e \<Rightarrow> ret (Err (Malformed e))
    | Ok None \<Rightarrow> ret (Err (Malformed ''JWT header missing kid''))
    | Ok (Some kid) \<Rightarrow> attempt id (try_cached jw v jwt kid) (\<lambda>found. case found of
        Some claims \<Rightarrow> ret (Ok claims)
      | None \<Rightarrow> attempt id (refresh jw fetched) (\<lambda>_.
          attempt id (try_cached jw v jwt kid) (\<lambda>found. ret (ok_or (UnknownKid kid) found)))))"

definition verify_headers ::
  "'key JwtCrate \<Rightarrow> JwksValidator \<Rightarrow> (string \<Rightarrow> string) \<Rightarrow> string \<Rightarrow> (Jwk list, string) result \<Rightarrow> string option \<Rightarrow>
     ('key key_cache, (AuthContext, AuthError) result) state" where
  "verify_headers jw v debug default_tenant fetched authorization = (case bearer_token authorization of
      None \<Rightarrow> ret (Err AuthMissing)
    | Some bearer \<Rightarrow> attempt (\<lambda>e. AuthInvalid (display_JwtValidationError debug e)) (validate jw v fetched bearer) (\<lambda>payload.
        case jw_from_value jw payload of
          Err e \<Rightarrow> ret (Err (AuthInvalid (''decode JWT payload: '' @ e)))
        | Ok inbound \<Rightarrow> (case in_sub inbound of
            None \<Rightarrow> ret (Err (AuthInvalid ''JWT missing required sub claim''))
          | Some sub \<Rightarrow> ret (Ok \<lparr>ac_user_id = sub,
              ac_tenant_id = (case in_tenant_id inbound of Some t \<Rightarrow> t | None \<Rightarrow> default_tenant),
              ac_email = in_email inbound,
              ac_roles = normalize_roles (in_roles inbound) (in_realm_access inbound) (in_resource_access inbound),
              ac_bearer_subject = ''Bearer '' @ bearer\<rparr>))))"

section \<open>Roles\<close>

definition claimed_roles :: "InboundClaims \<Rightarrow> string set" where
  "claimed_roles c = (\<Union>roles \<in> set_option (in_roles c) \<union> (\<Union>a \<in> set_option (in_realm_access c). set_option (ra_roles a))
     \<union> (\<Union>as \<in> set_option (in_resource_access c). \<Union>a \<in> set as. set_option (ra_roles a)). set roles)"

lemma extend_loop_set: "set (extend_loop acc roles) = set acc \<union> (trim ` set roles - {[]})"
  by (induction acc roles rule: extend_loop.induct) (auto simp: list_ex_iff)

lemma extend_loop_distinct: "distinct acc \<Longrightarrow> distinct (extend_loop acc roles)"
  by (induction acc roles rule: extend_loop.induct) (auto simp: list_ex_iff)

lemma extend_roles_set: "set (extend_roles acc roles) = set acc \<union> (trim ` (\<Union>l \<in> set_option roles. set l) - {[]})"
  by (cases roles) (simp_all add: extend_roles_def extend_loop_set)

lemma extend_roles_distinct: "distinct acc \<Longrightarrow> distinct (extend_roles acc roles)"
  by (simp add: extend_roles_def extend_loop_distinct split: option.split)

lemma fold_roles_set:
  "set (foldl (\<lambda>roles access. extend_roles roles (ra_roles access)) acc accesses) = set acc
     \<union> (trim ` (\<Union>a \<in> set accesses. \<Union>l \<in> set_option (ra_roles a). set l) - {[]})"
  by (induction accesses arbitrary: acc) (simp_all add: extend_roles_set image_Un Un_Diff Un_assoc)

lemma fold_roles_distinct:
  "distinct acc \<Longrightarrow> distinct (foldl (\<lambda>roles access. extend_roles roles (ra_roles access)) acc accesses)"
  by (induction accesses arbitrary: acc) (simp_all add: extend_roles_distinct)

lemma roles_are_claimed:
  "set (normalize_roles (in_roles c) (in_realm_access c) (in_resource_access c)) = trim ` claimed_roles c - {[]}"
  by (cases "in_realm_access c"; cases "in_resource_access c")
    (simp_all add: normalize_roles_def Let_def claimed_roles_def extend_roles_set fold_roles_set image_Un Un_Diff)

text \<open>The roles of a caller are those of the claims. Whatever the three claims that may carry roles
  hold, the normalised list has each role once, trimmed and not empty, and holds a role exactly when one of the claims
  names it up to white space.\<close>

theorem roles_are_claimed_roles:
  "distinct (normalize_roles (in_roles c) (in_realm_access c) (in_resource_access c))
    \<and> set (normalize_roles (in_roles c) (in_realm_access c) (in_resource_access c)) = trim ` claimed_roles c - {[]}"
  by (simp add: roles_are_claimed) (simp add: normalize_roles_def Let_def extend_roles_distinct fold_roles_distinct split: option.split)

section \<open>Who is let in\<close>

definition symmetric_algs :: "Algorithm set" where
  "symmetric_algs = {HS256, HS384, HS512}"

lemma asymmetric_is_no_secret: "is_asymmetric a \<Longrightarrow> a \<noteq> OctetKey"
  by (cases a) simp_all

lemma jwk_alg_asymmetric: "jwk_alg jwk = Some alg \<Longrightarrow> alg \<notin> symmetric_algs"
  by (cases "jk_key_algorithm jwk"; cases "the (jk_key_algorithm jwk)"; cases "jk_algorithm jwk")
    (auto simp: jwk_alg_def symmetric_algs_def)

text \<open>A key that a published JWK yields.\<close>

definition yields :: "'key JwtCrate \<Rightarrow> string \<Rightarrow> 'key CachedKey \<Rightarrow> Jwk \<Rightarrow> bool" where
  "yields jw kid c jwk = (jk_key_id jwk = Some kid \<and> is_asymmetric (jk_algorithm jwk) \<and> jwk_alg jwk = Some (ck_alg c)
     \<and> jw_from_jwk jw jwk = Ok (ck_key c))"

definition published_only :: "'key JwtCrate \<Rightarrow> Jwk set \<Rightarrow> 'key key_cache \<Rightarrow> bool" where
  "published_only jw J cache = (\<forall>kid c. cache kid = Some c \<longrightarrow> (\<exists>jwk \<in> J. yields jw kid c jwk))"

lemma collect_keys_published:
  "published_only jw J acc \<Longrightarrow> set jwks \<subseteq> J \<Longrightarrow> published_only jw J (collect_keys jw jwks acc)"
proof (induction jwks arbitrary: acc)
  case (Cons jwk jwks)
  have add: "published_only jw J (acc(kid \<mapsto> \<lparr>ck_key = key, ck_alg = alg\<rparr>))"
    if "jk_key_id jwk = Some kid" "is_asymmetric (jk_algorithm jwk)" "jwk_alg jwk = Some alg" "jw_from_jwk jw jwk = Ok key" for kid alg key
    using Cons.prems that by (auto simp: published_only_def yields_def)
  show ?case using Cons.prems
    by (auto split: option.split result.split intro!: Cons.IH add)
qed simp

text \<open>The requests a server answers, each with what the key endpoint would answer at that moment.\<close>

fun serve ::
  "'key JwtCrate \<Rightarrow> JwksValidator \<Rightarrow> (string \<Rightarrow> string) \<Rightarrow> string \<Rightarrow> ((Jwk list, string) result \<times> string option) list \<Rightarrow>
     'key key_cache \<Rightarrow> 'key key_cache" where
  "serve jw v debug tenant [] cache = cache"
| "serve jw v debug tenant ((fetched, header) # requests) cache =
     serve jw v debug tenant requests (snd (run_state (verify_headers jw v debug tenant fetched header) cache))"

definition fetched_keys :: "(Jwk list, string) result \<Rightarrow> Jwk set" where
  "fetched_keys f = (case f of Ok keys \<Rightarrow> set keys | Err _ \<Rightarrow> {})"

lemma published_mono: "published_only jw J cache \<Longrightarrow> J \<subseteq> K \<Longrightarrow> published_only jw K cache"
  by (fastforce simp: published_only_def)

lemma published_refresh:
  "published_only jw J cache \<Longrightarrow> published_only jw (J \<union> fetched_keys f) (snd (run_state (refresh jw f) cache))"
  by (cases f) (auto simp: refresh_def fetched_keys_def published_only_def [of _ _ Map.empty] intro!: collect_keys_published
      elim: published_mono)

text \<open>What a successful validation rests on.\<close>

definition vouched :: "'key JwtCrate \<Rightarrow> JwksValidator \<Rightarrow> Jwk set \<Rightarrow> string \<Rightarrow> json \<Rightarrow> bool" where
  "vouched jw v J jwt claims = (\<exists>kid c jwk. jw_decode_header jw jwt = Ok (Some kid) \<and> jwk \<in> J \<and> yields jw kid c jwk
     \<and> jw_decode jw jwt (ck_key c) \<lparr>jv_alg = ck_alg c, jv_issuer = jx_expected_issuer v, jv_audience = jx_expected_audience v,
         jv_validate_aud = (jx_expected_audience v \<noteq> None)\<rparr> = Ok claims)"

lemma map_result_ok: "map_result f g r = Ok y \<longleftrightarrow> (\<exists>x. r = Ok x \<and> y = f x)"
  by (cases r) auto

lemma try_cached_vouched:
  assumes "published_only jw J cache" "run_state (try_cached jw v jwt kid) cache = (Ok (Some claims), cache')"
    and "jw_decode_header jw jwt = Ok (Some kid)"
  shows "vouched jw v J jwt claims"
proof -
  obtain c where c: "cache kid = Some c"
    "jw_decode jw jwt (ck_key c) (apply_iss_aud (new_validation (ck_alg c)) (jx_expected_issuer v) (jx_expected_audience v)) = Ok claims"
    using assms(2) by (auto simp: try_cached_def map_result_ok split: option.splits)
  moreover obtain jwk where "jwk \<in> J" "yields jw kid c jwk" using assms(1) c(1) by (auto simp: published_only_def)
  moreover have "apply_iss_aud (new_validation (ck_alg c)) (jx_expected_issuer v) (jx_expected_audience v) =
      \<lparr>jv_alg = ck_alg c, jv_issuer = jx_expected_issuer v, jv_audience = jx_expected_audience v,
       jv_validate_aud = (jx_expected_audience v \<noteq> None)\<rparr>"
    by (simp add: apply_iss_aud_def new_validation_def Let_def split: option.split)
  ultimately show ?thesis using assms(3) by (auto simp: vouched_def)
qed

lemma validate_vouched:
  assumes "published_only jw J cache" "run_state (validate jw v f jwt) cache = (r, cache')"
  shows "published_only jw (J \<union> fetched_keys f) cache' \<and> (\<forall>claims. r = Ok claims \<longrightarrow> vouched jw v (J \<union> fetched_keys f) jwt claims)"
proof (cases "\<exists>kid. jw_decode_header jw jwt = Ok (Some kid)")
  case True
  then obtain kid where kid: "jw_decode_header jw jwt = Ok (Some kid)" by blast
  let ?J = "J \<union> fetched_keys f"
  obtain s next_cache where ref: "run_state (refresh jw f) cache = (s, next_cache)" by fastforce
  have now: "published_only jw ?J cache" using assms(1) by (rule published_mono) simp
  have later: "published_only jw ?J next_cache" using published_refresh [OF assms(1), of f] ref by simp
  obtain q q' where q: "run_state (try_cached jw v jwt kid) cache = (q, cache)"
      "run_state (try_cached jw v jwt kid) next_cache = (q', next_cache)"
    by (simp add: try_cached_def)
  have "q = Ok (Some claims) \<Longrightarrow> vouched jw v ?J jwt claims" "q' = Ok (Some claims) \<Longrightarrow> vouched jw v ?J jwt claims" for claims
    using try_cached_vouched [OF now _ kid] try_cached_vouched [OF later _ kid] q by auto
  then show ?thesis using assms(2) now later kid q ref
    by (auto simp: validate_def run_state_attempt ok_or_def split: result.splits option.splits)
next
  case False
  have "published_only jw (J \<union> fetched_keys f) cache" using assms(1) by (rule published_mono) simp
  then show ?thesis using assms(2) False by (auto simp: validate_def split: result.splits option.splits)
qed

text \<open>A caller as the claims name it.\<close>

definition identifies :: "string \<Rightarrow> InboundClaims \<Rightarrow> AuthContext \<Rightarrow> bool" where
  "identifies tenant inbound auth = (in_sub inbound = Some (ac_user_id auth)
     \<and> ac_tenant_id auth = (case in_tenant_id inbound of Some t \<Rightarrow> t | None \<Rightarrow> tenant)
     \<and> ac_roles auth = normalize_roles (in_roles inbound) (in_realm_access inbound) (in_resource_access inbound))"

lemma verify_vouched:
  assumes "published_only jw J cache" "run_state (verify_headers jw v debug tenant f header) cache = (r, cache')"
  shows "published_only jw (J \<union> fetched_keys f) cache'"
    and "r = Ok auth \<Longrightarrow> \<exists>bearer claims inbound. bearer_token header = Some bearer
      \<and> vouched jw v (J \<union> fetched_keys f) bearer claims \<and> jw_from_value jw claims = Ok inbound \<and> identifies tenant inbound auth"
proof -
  have same: "published_only jw (J \<union> fetched_keys f) cache" using assms(1) by (rule published_mono) simp
  obtain q c where q: "run_state (validate jw v f (the (bearer_token header))) cache = (q, c)" by fastforce
  note facts = validate_vouched [OF assms(1) q]
  show "published_only jw (J \<union> fetched_keys f) cache'"
    using assms(2) same q facts
    by (auto simp: verify_headers_def run_state_attempt split: option.splits result.splits)
  show "\<exists>bearer claims inbound. bearer_token header = Some bearer
      \<and> vouched jw v (J \<union> fetched_keys f) bearer claims \<and> jw_from_value jw claims = Ok inbound \<and> identifies tenant inbound auth"
    if "r = Ok auth"
  proof (cases "bearer_token header")
    case (Some bearer)
    with assms(2) that q obtain claims inbound where "q = Ok claims" "jw_from_value jw claims = Ok inbound" "identifies tenant inbound auth"
      by (auto simp: verify_headers_def run_state_attempt identifies_def split: option.splits result.splits)
    with Some facts show ?thesis by auto
  qed (use assms(2) that in \<open>simp add: verify_headers_def\<close>)
qed

lemma serve_published:
  "published_only jw J cache \<Longrightarrow> published_only jw (J \<union> (\<Union>(f, h) \<in> set requests. fetched_keys f)) (serve jw v debug tenant requests cache)"
proof (induction requests arbitrary: J cache)
  case (Cons request requests)
  obtain f h where fh: "request = (f, h)" by fastforce
  obtain r cache' where run: "run_state (verify_headers jw v debug tenant f h) cache = (r, cache')" by fastforce
  from Cons.IH [OF verify_vouched(1) [OF Cons.prems run]] show ?case by (simp add: fh run Un_assoc)
qed simp

text \<open>C27. Nobody is let in without a key of the provider. A server that starts with an empty cache and has
  answered any requests lets a request in only with a bearer token whose header names a key that
  the key endpoint published at some point; that key is asymmetric, so the algorithm the token is checked with is
  never one of the HMAC algorithms, whatever the token's header says; the token passed the check against
  that key with the configured issuer and audience; and the user, the tenant and the roles of the caller are the
  token's.\<close>

theorem caller_holds_verified_token:
  assumes "run_state (verify_headers jw v debug tenant f header) (serve jw v debug tenant requests Map.empty) = (Ok auth, cache)"
  shows "\<exists>bearer kid key alg jwk claims inbound. bearer_token header = Some bearer \<and> jw_decode_header jw bearer = Ok (Some kid)
    \<and> jwk \<in> fetched_keys f \<union> (\<Union>(f, h) \<in> set requests. fetched_keys f) \<and> jk_key_id jwk = Some kid
    \<and> jk_algorithm jwk \<noteq> OctetKey \<and> jw_from_jwk jw jwk = Ok key \<and> jwk_alg jwk = Some alg \<and> alg \<notin> symmetric_algs
    \<and> jw_decode jw bearer key \<lparr>jv_alg = alg, jv_issuer = jx_expected_issuer v, jv_audience = jx_expected_audience v,
        jv_validate_aud = (jx_expected_audience v \<noteq> None)\<rparr> = Ok claims
    \<and> jw_from_value jw claims = Ok inbound \<and> in_sub inbound = Some (ac_user_id auth)
    \<and> ac_tenant_id auth = (case in_tenant_id inbound of Some t \<Rightarrow> t | None \<Rightarrow> tenant)
    \<and> set (ac_roles auth) = trim ` claimed_roles inbound - {[]}"
proof -
  let ?J = "(\<Union>(f, h) \<in> set requests. fetched_keys f)"
  have "published_only jw {} Map.empty" by (simp add: published_only_def)
  from serve_published [OF this, of requests] have "published_only jw ?J (serve jw v debug tenant requests Map.empty)" by simp
  from verify_vouched(2) [OF this assms refl] obtain bearer claims inbound where
    b: "bearer_token header = Some bearer" "vouched jw v (?J \<union> fetched_keys f) bearer claims" "jw_from_value jw claims = Ok inbound"
      and i: "identifies tenant inbound auth"
    by blast
  from b(2) obtain kid c jwk where k: "jw_decode_header jw bearer = Ok (Some kid)" "jwk \<in> ?J \<union> fetched_keys f" "yields jw kid c jwk"
    "jw_decode jw bearer (ck_key c) \<lparr>jv_alg = ck_alg c, jv_issuer = jx_expected_issuer v, jv_audience = jx_expected_audience v,
        jv_validate_aud = (jx_expected_audience v \<noteq> None)\<rparr> = Ok claims"
    unfolding vouched_def by blast
  have "jwk \<in> fetched_keys f \<union> ?J" using k(2) by (simp add: Un_commute)
  with b k i jwk_alg_asymmetric [of jwk "ck_alg c"] asymmetric_is_no_secret [of "jk_algorithm jwk"] show ?thesis
    by - (rule exI [of _ bearer], rule exI [of _ kid], rule exI [of _ "ck_key c"], rule exI [of _ "ck_alg c"], rule exI [of _ jwk], rule exI [of _ claims],
      rule exI [of _ inbound], simp add: yields_def identifies_def roles_are_claimed)
qed

text \<open>A library whose tokens are the name of the key, and a provider with one RSA key.\<close>

definition sample_jwt :: "string JwtCrate" where
  "sample_jwt = \<lparr>jw_decode_header = (\<lambda>jwt. Ok (Some jwt)), jw_from_jwk = (\<lambda>jwk. Ok (jk_material jwk)),
     jw_decode = (\<lambda>jwt key val. if key = ''n'' @ jwt \<and> jv_alg val = RS256 then Ok (JString ''alice'') else Err ''bad''),
     jw_from_value = (\<lambda>j. case j of JString sub \<Rightarrow> Ok \<lparr>in_sub = Some sub, in_email = None, in_tenant_id = None,
       in_roles = Some ['' member '', ''member''], in_realm_access = None, in_resource_access = None\<rparr> | _ \<Rightarrow> Err ''no object'')\<rparr>"

definition sample_keys :: "Jwk list" where
  "sample_keys = [\<lparr>jk_key_id = Some ''k1'', jk_key_algorithm = None, jk_algorithm = RSA, jk_material = ''nk1''\<rparr>,
     \<lparr>jk_key_id = Some ''k2'', jk_key_algorithm = None, jk_algorithm = OctetKey, jk_material = ''nk2''\<rparr>]"

theorem caller_holds_verified_token_witness:
  "\<exists>auth cache. run_state (verify_headers sample_jwt \<lparr>jx_expected_issuer = None, jx_expected_audience = None\<rparr> id ''tenant-a'' (Ok sample_keys)
      (Some ''Bearer k1'')) (serve sample_jwt \<lparr>jx_expected_issuer = None, jx_expected_audience = None\<rparr> id ''tenant-a''
        [(Err ''down'', Some ''bearer k2''), (Ok [], None)] Map.empty) = (Ok auth, cache)
    \<and> ac_tenant_id auth = ''tenant-a'' \<and> (\<exists>jwk \<in> set sample_keys. jk_algorithm jwk \<noteq> OctetKey)"
proof -
  let ?v = "\<lparr>jx_expected_issuer = None, jx_expected_audience = None\<rparr>"
  let ?s = "serve sample_jwt ?v id ''tenant-a'' [(Err ''down'', Some ''bearer k2''), (Ok [], None)] Map.empty"
  let ?r = "run_state (verify_headers sample_jwt ?v id ''tenant-a'' (Ok sample_keys) (Some ''Bearer k1'')) ?s"
  let ?auth = "\<lparr>ac_user_id = ''alice'', ac_tenant_id = ''tenant-a'', ac_email = None, ac_roles = [''member''], ac_bearer_subject = ''Bearer k1''\<rparr>"
  have "fst ?r = Ok ?auth" by code_simp
  then have run: "?r = (Ok ?auth, snd ?r)" by (simp add: prod_eq_iff)
  from caller_holds_verified_token [OF run]
  have "\<exists>jwk. jwk \<in> fetched_keys (Ok sample_keys) \<union> (\<Union>(f, h) \<in> set [(Err ''down'', Some ''bearer k2''), (Ok [], None)]. fetched_keys f)
      \<and> jk_algorithm jwk \<noteq> OctetKey"
    by (elim exE conjE) (rule exI, rule conjI)
  then have "\<exists>jwk \<in> set sample_keys. jk_algorithm jwk \<noteq> OctetKey" by (auto simp: fetched_keys_def)
  with run show ?thesis by - (rule exI [of _ ?auth], rule exI [of _ "snd ?r"], simp)
qed

end
