(* ===== verification/Chat_Api.thy ===== *)
theory Chat_Api
  imports Chat_Runs Auth
begin

text \<open>
  The chat handlers of services/api-service/src/main.rs. The repository and the bus are the ports of
  the chat system; whether a string parses as a ULID is a parameter, and so is the generator of new
  ones. A handler returns the status and the body that axum serialises; an error becomes a
  status, a code and a message. The theorems compose the handlers with the worker: a message that is
  accepted ends up answered, after everything the conversation already held.
\<close>

section \<open>Handlers\<close>

record 'w AppState =
  as_repo :: "'w ChatRepository"
  as_bus :: "'w ChatBus"
  as_now :: "('w, datetime) state"
  as_ulid :: "('w, string) state"
  as_parse_ulid :: "string \<Rightarrow> bool"
  as_ttl :: int

datatype ServiceError =
    SvcAuth
  | SvcNotFound
  | SvcForbidden
  | SvcStaleParent
  | SvcInFlight
  | SvcInvalidRequest string
  | SvcInternal string

fun service_error_of_storage :: "StorageError \<Rightarrow> ServiceError" where
  "service_error_of_storage StNotFound = SvcNotFound"
| "service_error_of_storage StForbidden = SvcForbidden"
| "service_error_of_storage StStaleParent = SvcStaleParent"
| "service_error_of_storage (StInternal message) = SvcInternal message"

fun service_error_of_bus :: "ChatBusError \<Rightarrow> ServiceError" where
  "service_error_of_bus InFlight = SvcInFlight"
| "service_error_of_bus BusUnavailable = SvcInternal ''chat bus unavailable''"
| "service_error_of_bus (BusPayload message) = SvcInternal message"

fun into_response :: "ServiceError \<Rightarrow> nat \<times> ApiErrorCode \<times> string" where
  "into_response SvcAuth = (401, CodeUnauthorized, ''unauthorized'')"
| "into_response SvcNotFound = (404, CodeNotFound, ''not found'')"
| "into_response SvcForbidden = (403, CodeForbidden, ''forbidden'')"
| "into_response SvcStaleParent = (409, CodeStaleParent, ''conversation changed; refresh before sending'')"
| "into_response SvcInFlight = (409, CodeInFlight, ''conversation already has a running turn'')"
| "into_response (SvcInvalidRequest message) = (400, CodeInvalidRequest, message)"
| "into_response (SvcInternal message) = (500, CodeInternal, ''internal error'')"

definition list_conversations ::
  "'w AppState \<Rightarrow> AuthContext \<Rightarrow> ('w, (ConversationSummary list, ServiceError) result) state" where
  "list_conversations st auth = attempt service_error_of_storage
     (cr_list_conversations (as_repo st) (ac_tenant_id auth) (ac_user_id auth)) (\<lambda>l. ret (Ok l))"

definition create_conversation ::
  "'w AppState \<Rightarrow> AuthContext \<Rightarrow> string option \<Rightarrow> ('w, (nat \<times> ConversationDetail, ServiceError) result) state" where
  "create_conversation st auth title = attempt service_error_of_storage
     (cr_create_conversation (as_repo st) (ac_tenant_id auth) (ac_user_id auth) title) (\<lambda>detail. ret (Ok (201, detail)))"

definition get_conversation ::
  "'w AppState \<Rightarrow> AuthContext \<Rightarrow> string \<Rightarrow> ('w, (ConversationDetail, ServiceError) result) state" where
  "get_conversation st auth conversation_id = attempt service_error_of_storage
     (cr_get_conversation (as_repo st) (ac_tenant_id auth) (ac_user_id auth) conversation_id) (\<lambda>detail. ret (Ok detail))"

definition rename_conversation ::
  "'w AppState \<Rightarrow> AuthContext \<Rightarrow> string \<Rightarrow> string \<Rightarrow> ('w, (ConversationDetail, ServiceError) result) state" where
  "rename_conversation st auth conversation_id title =
     (if trim title = [] then ret (Err (SvcInvalidRequest ''title cannot be empty''))
      else attempt service_error_of_storage
        (cr_rename_conversation (as_repo st) (ac_tenant_id auth) (ac_user_id auth) conversation_id (trim title))
        (\<lambda>detail. ret (Ok detail)))"

definition delete_conversation ::
  "'w AppState \<Rightarrow> AuthContext \<Rightarrow> string \<Rightarrow> ('w, (nat, ServiceError) result) state" where
  "delete_conversation st auth conversation_id = attempt service_error_of_storage
     (cr_delete_conversation (as_repo st) (ac_tenant_id auth) (ac_user_id auth) conversation_id) (\<lambda>_. ret (Ok 204))"

definition validate_ulid :: "'w AppState \<Rightarrow> string \<Rightarrow> string \<Rightarrow> (unit, ServiceError) result" where
  "validate_ulid st v field = (if as_parse_ulid st v then Ok () else Err (SvcInvalidRequest (field @ '' must be a ULID'')))"

definition requested_command :: "AuthContext \<Rightarrow> string \<Rightarrow> string \<Rightarrow> datetime \<Rightarrow> TurnRequested" where
  "requested_command auth conversation_id turn_id now = \<lparr>tr_v = CONTRACT_VERSION, tr_command_id = turn_id,
     tr_tenant_id = ac_tenant_id auth, tr_user_id = ac_user_id auth, tr_conversation_id = conversation_id,
     tr_turn_id = turn_id, tr_ts = now\<rparr>"

text \<open>The part of \<open>enqueue_turn\<close> after the request was found valid.\<close>

definition publish_turn ::
  "'w AppState \<Rightarrow> AuthContext \<Rightarrow> string \<Rightarrow> string \<Rightarrow> ('w, (nat \<times> string, ServiceError) result) state" where
  "publish_turn st auth conversation_id turn_id = as_now st \<bind> (\<lambda>now.
     cb_publish_turn_requested (as_bus st) (requested_command auth conversation_id turn_id now) \<bind> (\<lambda>r. case r of
       Err error \<Rightarrow>
         cr_record_turn_failed (as_repo st) (ac_tenant_id auth) (ac_user_id auth) conversation_id turn_id
           (''failed to publish turn request: '' @ display_ChatBusError error) \<bind> (\<lambda>_.
         cb_release_lock (as_bus st) (ac_tenant_id auth) conversation_id turn_id \<bind> (\<lambda>_.
         ret (Err (service_error_of_bus error))))
     | Ok _ \<Rightarrow> ret (Ok (202, turn_id))))"

definition enqueue_turn ::
  "'w AppState \<Rightarrow> AuthContext \<Rightarrow> string \<Rightarrow> string \<Rightarrow> string \<Rightarrow> string \<Rightarrow> string option \<Rightarrow>
     ('w, (nat \<times> string, ServiceError) result) state" where
  "enqueue_turn st auth conversation_id user_message_id turn_id txt parent_message_id =
     (case validate_ulid st user_message_id ''user_message_id'' of
        Err e \<Rightarrow> ret (Err e)
      | Ok _ \<Rightarrow> (case validate_ulid st turn_id ''turn_id'' of
          Err e \<Rightarrow> ret (Err e)
        | Ok _ \<Rightarrow>
            if trim txt = [] then ret (Err (SvcInvalidRequest ''message text cannot be empty''))
            else attempt service_error_of_storage
              (cr_assert_parent_tail (as_repo st) (ac_tenant_id auth) (ac_user_id auth) conversation_id parent_message_id) (\<lambda>_.
              as_now st \<bind> (\<lambda>now. attempt service_error_of_bus
                (cb_acquire_lock (as_bus st) (lock_requested (as_ttl st) now (ac_tenant_id auth) (ac_user_id auth) conversation_id
                  turn_id user_message_id txt parent_message_id (ac_bearer_subject auth))) (\<lambda>_.
              publish_turn st auth conversation_id turn_id)))))"

definition submit_turn ::
  "'w AppState \<Rightarrow> AuthContext \<Rightarrow> string \<Rightarrow> SubmitTurnRequest \<Rightarrow> ('w, (nat \<times> string, ServiceError) result) state" where
  "submit_turn st auth conversation_id body = enqueue_turn st auth conversation_id (sr_user_message_id body) (sr_turn_id body)
     (sr_text body) (sr_parent_message_id body)"

definition submit_chat_message ::
  "'w AppState \<Rightarrow> AuthContext \<Rightarrow> string \<Rightarrow> SubmitChatMessageRequest \<Rightarrow> ('w, (nat \<times> string, ServiceError) result) state" where
  "submit_chat_message st auth conversation_id body =
     (case sm_user_message_id body of Some i \<Rightarrow> ret i | None \<Rightarrow> as_ulid st) \<bind> (\<lambda>user_message_id.
     (case sm_turn_id body of Some i \<Rightarrow> ret i | None \<Rightarrow> as_ulid st) \<bind> (\<lambda>turn_id.
     enqueue_turn st auth conversation_id user_message_id turn_id (sm_text body) (sm_parent_message_id body)))"

definition stop_turn :: "'w AppState \<Rightarrow> AuthContext \<Rightarrow> string \<Rightarrow> ('w, (nat, ServiceError) result) state" where
  "stop_turn st auth conversation_id = attempt service_error_of_storage
     (cr_get_conversation (as_repo st) (ac_tenant_id auth) (ac_user_id auth) conversation_id) (\<lambda>_.
     attempt service_error_of_bus (cb_request_stop (as_bus st) (ac_tenant_id auth) conversation_id (ac_user_id auth)) (\<lambda>found.
     case found of
       None \<Rightarrow> ret (Ok 204)
     | Some lock \<Rightarrow> (case cl_worker_id lock of
         None \<Rightarrow> ret (Ok 204)
       | Some worker_id \<Rightarrow> attempt service_error_of_bus
           (cb_publish_stop (as_bus st) worker_id (ac_tenant_id auth) conversation_id (cl_turn_id lock)) (\<lambda>_. ret (Ok 204)))))"

definition me :: "AuthContext \<Rightarrow> AuthUser" where
  "me auth = public_user auth"

section \<open>The handlers on the shared world\<close>

definition chat_api :: "int \<Rightarrow> string list \<Rightarrow> (nat \<Rightarrow> string) \<Rightarrow> (string \<Rightarrow> bool) \<Rightarrow> SharedChat AppState" where
  "chat_api ttl order ulid parse = \<lparr>as_repo = MemoryChatRepository order ulid, as_bus = MemoryChatBus ttl,
     as_now = port (State (\<lambda>w. (cw_now w, w))), as_ulid = port (draw_ulid ulid), as_parse_ulid = parse, as_ttl = ttl\<rparr>"

lemma api_ports [simp]:
  "cr_assert_parent_tail (as_repo (chat_api ttl order ulid parse)) t u c p = port (on_repo (\<lambda>_. repo_assert_parent_tail t u c p))"
  "cr_record_turn_failed (as_repo (chat_api ttl order ulid parse)) t u c k m = port (on_repo (\<lambda>_. repo_record_turn_failed t u c k m))"
  "cb_acquire_lock (as_bus (chat_api ttl order ulid parse)) l = port (on_bus (\<lambda>now. mem_acquire_lock now l))"
  "cb_publish_turn_requested (as_bus (chat_api ttl order ulid parse)) command = port (on_bus (\<lambda>_. mem_publish_turn_requested command))"
  "cb_release_lock (as_bus (chat_api ttl order ulid parse)) t c k = port (release t c k)"
  "as_now (chat_api ttl order ulid parse) = port (State (\<lambda>w. (cw_now w, w)))"
  "as_parse_ulid (chat_api ttl order ulid parse) = parse" "as_ttl (chat_api ttl order ulid parse) = ttl"
  by (simp_all add: chat_api_def MemoryChatBus_def MemoryChatRepository_def)

text \<open>A request the API accepts: well-formed ids, a text, a conversation of the caller whose last message is
  the parent the caller saw, and no turn in flight.\<close>

definition acceptable ::
  "(string \<Rightarrow> bool) \<Rightarrow> AuthContext \<Rightarrow> string \<Rightarrow> string \<Rightarrow> string \<Rightarrow> string \<Rightarrow> string option \<Rightarrow> StoredConversation \<Rightarrow> ChatWorld \<Rightarrow> bool" where
  "acceptable parse auth c m k txt parent row w = (parse m \<and> parse k \<and> trim txt \<noteq> [] \<and> \<not> cw_bus_down w \<and> \<not> cw_db_down w
     \<and> cw_convs w c = Some row \<and> visible_to row (ac_tenant_id auth) (ac_user_id auth)
     \<and> message_tail (sc_messages row) = parent
     \<and> (case ci_locks (cw_bus w) (lock_key (ac_tenant_id auth) c) of Some l \<Rightarrow> lock_is_expired (cw_now w) l | None \<Rightarrow> True))"

text \<open>What it leaves: the lock of the turn, and the command on the bus.\<close>

definition enqueued :: "int \<Rightarrow> AuthContext \<Rightarrow> string \<Rightarrow> string \<Rightarrow> string \<Rightarrow> string \<Rightarrow> string option \<Rightarrow> ChatWorld \<Rightarrow> ChatWorld" where
  "enqueued ttl auth c m k txt parent w = w\<lparr>cw_bus := (set_lock (lock_key (ac_tenant_id auth) c)
       (lock_requested ttl (cw_now w) (ac_tenant_id auth) (ac_user_id auth) c k m txt parent (ac_bearer_subject auth)) (cw_bus w))
     \<lparr>ci_commands := ci_commands (cw_bus w) @ [requested_command auth c k (cw_now w)]\<rparr>\<rparr>"

lemma run_assert_tail:
  assumes "\<not> cw_db_down w" "cw_convs w c = Some row" "visible_to row t u" "message_tail (sc_messages row) = parent"
  shows "run_state (on_repo (\<lambda>_. repo_assert_parent_tail t u c parent)) w = (Ok (), w)"
  using assms by (simp add: repo_assert_parent_tail_def with_visible_row_def ensure_visible_def map_upd_triv)

lemma run_enqueue:
  assumes "acceptable parse auth c m k txt parent row w"
  shows "run_state (enqueue_turn (chat_api ttl order ulid parse) auth c m k txt parent) (w, []) =
    (Ok (202, k), (enqueued ttl auth c m k txt parent w, []))"
  using assms
  by (auto simp: enqueue_turn_def validate_ulid_def acceptable_def run_attempt_port run_assert_tail mem_acquire_lock_def Let_def
      publish_turn_def mem_publish_turn_requested_def enqueued_def set_lock_def lock_requested_def
      simp del: run_on_repo_up split: option.splits)

section \<open>From the request to the answer\<close>

lemma position_tail:
  "distinct (map md_id ms) \<Longrightarrow> ms \<noteq> [] \<Longrightarrow> position (\<lambda>m. md_id m = md_id (List.last ms)) ms = Some (length ms - 1)"
proof (induction ms)
  case (Cons x ms)
  show ?case
  proof (cases ms)
    case (Cons y ys)
    then have "md_id (List.last ms) \<in> md_id ` set ms" by simp
    with Cons.prems have "md_id x \<noteq> md_id (List.last ms)" by auto
    then show ?thesis using Cons.IH Cons.prems \<open>ms = y # ys\<close> by simp
  qed simp
qed simp

lemma retain_tail: "distinct (map md_id ms) \<Longrightarrow> message_tail ms = parent \<Longrightarrow> retain_len parent ms = Some (length ms)"
  using position_tail [of ms] by (auto simp: message_tail_def retain_len_def split: if_splits)

lemma enqueued_ready:
  assumes "acceptable parse auth c m k txt parent row w" "distinct (map md_id (sc_messages row))" "0 < ttl"
  shows "ready (requested_command auth c k (cw_now w))
    (lock_requested ttl (cw_now w) (ac_tenant_id auth) (ac_user_id auth) c k m txt parent (ac_bearer_subject auth))
    row (length (sc_messages row)) (enqueued ttl auth c m k txt parent w)"
  using assms retain_tail [of "sc_messages row" parent]
  by (simp add: acceptable_def ready_def enqueued_def set_lock_def requested_command_def lock_requested_def
      lock_is_expired_def lock_expires_at_def)


text \<open>A conversation that is free.\<close>

definition open_chat :: ChatWorld where
  "open_chat = sample_chat\<lparr>cw_bus := default_ChatInner\<rparr>"

definition sample_auth :: AuthContext where
  "sample_auth = \<lparr>ac_user_id = ''u'', ac_tenant_id = ''t'', ac_email = None, ac_roles = [], ac_bearer_subject = ''Bearer x''\<rparr>"

definition sample_body :: "string \<Rightarrow> string \<Rightarrow> SubmitTurnRequest" where
  "sample_body k txt = \<lparr>sr_user_message_id = ''m'' @ k, sr_turn_id = k, sr_text = txt, sr_parent_message_id = None\<rparr>"

lemma sample_acceptable: "acceptable (\<lambda>_. True) sample_auth ''c'' ''mk'' ''k'' ''hi'' None sample_row open_chat"
proof -
  have "trim ''hi'' \<noteq> []" by code_simp
  then show ?thesis
    by (simp add: acceptable_def open_chat_def sample_row_def sample_chat_def sample_auth_def default_ChatInner_def visible_to_def message_tail_def)
qed


section \<open>Refused requests\<close>

text \<open>A refused message leaves no trace. When the API answers a submission with an error, no lock is held,
  no command is on the bus and no conversation is changed.\<close>

theorem refused_submission_changes_nothing:
  assumes "run_state (submit_turn (chat_api ttl order ulid parse) auth c body) (w, []) = (Err e, (w', es))"
  shows "w' = w"
proof -
  have tail: "\<exists>r. run_state (on_repo (\<lambda>_. repo_assert_parent_tail t u c p)) w = (r, w)" for t u p
    by (auto simp: on_repo_def repo_assert_parent_tail_def with_visible_row_def map_upd_triv split: option.split result.split)
  show ?thesis
  proof (cases "cw_bus_down w")
    case True
    then show ?thesis using assms tail [of "ac_tenant_id auth" "ac_user_id auth" "sr_parent_message_id body"]
      by (auto simp: submit_turn_def enqueue_turn_def validate_ulid_def run_attempt_port on_bus_def
          simp del: run_on_repo_up split: if_splits result.splits)
  next
    case False
    then show ?thesis using assms tail [of "ac_tenant_id auth" "ac_user_id auth" "sr_parent_message_id body"]
      by (auto simp: submit_turn_def enqueue_turn_def validate_ulid_def run_attempt_port mem_acquire_lock_def Let_def
          publish_turn_def mem_publish_turn_requested_def simp del: run_on_repo_up split: if_splits result.splits)
  qed
qed

theorem refused_submission_changes_nothing_witness:
  "\<exists>e w'. run_state (submit_turn (chat_api 900 [] (\<lambda>n. []) (\<lambda>_. True)) sample_auth ''c'' (sample_body ''k2'' ''again'')) (sample_chat, []) = (Err e, (w', []))
    \<and> e = SvcInFlight \<and> w' = sample_chat"
proof -
  let ?r = "run_state (submit_turn (chat_api 900 [] (\<lambda>n. []) (\<lambda>_. True)) sample_auth ''c'' (sample_body ''k2'' ''again'')) (sample_chat, [])"
  have "fst ?r = Err SvcInFlight \<and> snd (snd ?r) = []" by code_simp
  then obtain w' where r: "?r = (Err SvcInFlight, (w', []))" by (metis prod.collapse)
  from refused_submission_changes_nothing [OF r] show ?thesis using r by blast
qed

section \<open>Two messages at once\<close>

text \<open>A client that submits and whose turn a worker completes, as one action of the environment.\<close>

definition other_turn :: "ChatWorld \<Rightarrow> ChatWorld" where
  "other_turn w = (case run_state (submit_turn (chat_api 900 [] (\<lambda>n. ''a'' @ show_nat n) (\<lambda>_. True)) sample_auth ''c'' (sample_body ''k1'' ''first'')) (w, []) of
     (_, w1, _) \<Rightarrow> snd (after_run sample_worker (List.last (ci_commands (cw_bus w1))) [] [LlmChunk ''one'', LlmEnd] (w1, [])))"

lemma position_append: "position P xs = Some n \<Longrightarrow> position P (xs @ ys) = Some n"
  by (induction xs arbitrary: n) (auto split: if_splits)

lemma retain_behind_tail:
  "distinct (map md_id ms) \<Longrightarrow> message_tail ms = parent \<Longrightarrow> retain_len parent (ms @ extra) = Some (length ms)"
  using position_tail [of ms] by (auto simp: message_tail_def retain_len_def position_append split: if_splits)

lemma run_port_env: "run_state (port m) (w, e # es) = (case run_state m (e w) of (a, v) \<Rightarrow> (a, (v, es)))"
  by (simp add: locked_def)

text \<open>C38. A committed answer can be lost. The check of the parent comes before the lock is taken. When the conversation
  grows in between, by a turn that another submission started and a worker completed, the submission is accepted all the same (202,
  not the conflict its stale parent calls for), and its own commit discards every message that was added.\<close>

theorem late_submission_discards_committed_turn:
  assumes "acceptable parse auth c (sr_user_message_id body) (sr_turn_id body) (sr_text body) (sr_parent_message_id body) row w"
    and "distinct (map md_id (sc_messages row))" "0 < ttl"
    and "\<not> cw_bus_down (f w)" "\<not> cw_db_down (f w)" "ci_locks (cw_bus (f w)) (lock_key (ac_tenant_id auth) c) = None"
    and "cw_convs (f w) c = Some row'" "visible_to row' (ac_tenant_id auth) (ac_user_id auth)"
    and "sc_messages row' = sc_messages row @ added"
    and "llm (llm_messages (sc_messages row') (sr_text body)) = Ok ()"
  shows "\<exists>w1 r w2 row2 u a. run_state (submit_turn (chat_api ttl order ulid parse) auth c body) (w, [id, f]) = (Ok (202, sr_turn_id body), (w1, []))
    \<and> cw_convs w1 c = Some row'
    \<and> after_run (chat_worker ttl order ulid llm wid) (List.last (ci_commands (cw_bus w1))) [] (map LlmChunk chunks @ [LlmEnd]) (w1, []) = (Ok r, w2)
    \<and> cw_convs w2 c = Some row2 \<and> sc_messages row2 = sc_messages row @ [u, a]"
proof -
  let ?m = "sr_user_message_id body" and ?k = "sr_turn_id body" and ?p = "sr_parent_message_id body"
  let ?w1 = "enqueued ttl auth c ?m ?k (sr_text body) ?p (f w)"
  let ?command = "requested_command auth c ?k (cw_now (f w))"
  let ?lock = "lock_requested ttl (cw_now (f w)) (ac_tenant_id auth) (ac_user_id auth) c ?k ?m (sr_text body) ?p (ac_bearer_subject auth)"
  let ?turn = "turn_commit ?command ?lock (ulid (cw_drawn ?w1)) (concat chunks)"
  have post: "run_state (submit_turn (chat_api ttl order ulid parse) auth c body) (w, [id, f]) = (Ok (202, ?k), (?w1, []))"
    using assms(1,4,6)
    by (simp add: submit_turn_def enqueue_turn_def validate_ulid_def acceptable_def run_state_attempt run_port_env run_assert_tail
        mem_acquire_lock_def Let_def publish_turn_def mem_publish_turn_requested_def enqueued_def set_lock_def lock_requested_def del: run_on_repo_up)
  have ready: "ready ?command ?lock row' (length (sc_messages row)) ?w1"
    using assms(1-9) retain_behind_tail [OF assms(2), of ?p added]
    by (simp add: acceptable_def ready_def enqueued_def set_lock_def requested_command_def lock_requested_def lock_is_expired_def lock_expires_at_def)
  have "\<not> received_stop [] ?command" "llm (llm_messages (sc_messages row') (cl_text ?lock)) = Ok ()"
    using assms(10) by (simp_all add: lock_requested_def)
  from completed_run [where llm = llm and chunks = chunks and ttl = ttl and order = order and wid = wid, OF ready this refl refl]
  obtain r w2 es where w2: "after_run (chat_worker ttl order ulid llm wid) ?command [] (map LlmChunk chunks @ [LlmEnd]) (?w1, []) = (Ok r, w2)"
    "turn_left ?command (committed_row (cw_now ?w1) (length (sc_messages row)) ?turn False None row') es ?w1 w2"
    by blast
  have "cw_convs w2 c = Some (committed_row (cw_now ?w1) (length (sc_messages row)) ?turn False None row')"
    using w2(2) by (simp add: turn_left_def requested_command_def)
  moreover have "sc_messages (committed_row (cw_now ?w1) (length (sc_messages row)) ?turn False None row') =
      sc_messages row @ [user_message (cw_now ?w1) ?turn, assistant_message (cw_now ?w1) ?turn False None]"
    using assms(9) by (simp add: committed_row_def Let_def)
  moreover have "List.last (ci_commands (cw_bus ?w1)) = ?command" "cw_convs ?w1 c = Some row'" using assms(7) by (simp_all add: enqueued_def)
  ultimately show ?thesis using post w2(1) by metis
qed

theorem late_submission_discards_committed_turn_witness:
  "\<exists>w1 w2 row2 r u a. run_state (submit_turn (chat_api 900 [] (\<lambda>n. ''a'' @ show_nat n) (\<lambda>_. True)) sample_auth ''c'' (sample_body ''k'' ''hi''))
       (open_chat, [id, other_turn]) = (Ok (202, ''k''), (w1, []))
    \<and> map md_content (sc_messages (the (cw_convs w1 ''c''))) = [''first'', ''one'']
    \<and> after_run (chat_worker 900 [] (\<lambda>n. ''a'' @ show_nat n) (\<lambda>_. Ok ()) ''w1'') (List.last (ci_commands (cw_bus w1))) []
        (map LlmChunk [''two''] @ [LlmEnd]) (w1, []) = (Ok r, w2)
    \<and> cw_convs w2 ''c'' = Some row2 \<and> sc_messages row2 = [u, a]"
proof -
  let ?w = "other_turn open_chat"
  have w: "(case ?w of w \<Rightarrow> \<not> cw_bus_down w \<and> \<not> cw_db_down w \<and> ci_locks (cw_bus w) ''t/c'' = None
      \<and> (case cw_convs w ''c'' of Some row \<Rightarrow> visible_to row ''t'' ''u'' \<and> map md_content (sc_messages row) = [''first'', ''one''] | None \<Rightarrow> False))"
    by code_simp
  then obtain row' where row': "cw_convs ?w ''c'' = Some row'" "visible_to row' ''t'' ''u''" "map md_content (sc_messages row') = [''first'', ''one'']"
    by (auto split: option.splits)
  have empty: "sc_messages sample_row = []" by code_simp
  have "acceptable (\<lambda>_. True) sample_auth ''c'' (sr_user_message_id (sample_body ''k'' ''hi'')) (sr_turn_id (sample_body ''k'' ''hi''))
      (sr_text (sample_body ''k'' ''hi'')) (sr_parent_message_id (sample_body ''k'' ''hi'')) sample_row open_chat"
    using sample_acceptable by (simp add: sample_body_def)
  from late_submission_discards_committed_turn [where f = other_turn and row' = row' and added = "sc_messages row'" and ttl = 900 and order = "[]"
      and ulid = "\<lambda>n. ''a'' @ show_nat n" and llm = "\<lambda>_. Ok ()" and wid = "''w1''" and chunks = "[''two'']", OF this]
  show ?thesis using w row' empty by (fastforce simp: sample_body_def sample_auth_def lock_key_def)
qed

end
