(* ===== verification/Work_Queue.thy ===== *)
theory Work_Queue
  imports Settings Delivery
begin

text \<open>
  How work items reach the upload worker: the consumer of crates/document-adapters/src/jetstream/work_queue.rs and
  \<open>handle_work_item\<close> of services/document-worker/src/main.rs. The payload decoder is a parameter. JetStream redelivers a
  message, with a growing delivery count, until it is acknowledged or terminated and at most \<open>max_deliver\<close> times. The theorems: every item
  gets a final answer within that many deliveries, and a configured limit that breaks this.
\<close>

section \<open>Consumer\<close>

datatype AckKind = Ack | Nak duration | Term | Progress

text \<open>A message of the work stream: its payload, and the delivery count of its metadata.\<close>

record WorkMessage =
  wm_payload :: string
  wm_delivered :: "(int, string) result"

record WorkItem =
  wi_command :: UploadCompleted
  wi_num_delivered :: u64
  wi_is_final_delivery :: bool

definition DOCUMENT_WORK_CONSUMER :: string where
  "DOCUMENT_WORK_CONSUMER = ''document-worker-upload-completed''"

definition UPLOAD_COMPLETED_SUBJECT :: string where
  "UPLOAD_COMPLETED_SUBJECT = ''document_work.v1.upload_completed''"

record ConsumerConfig =
  pc_durable_name :: string
  pc_filter_subject :: string
  pc_ack_wait :: duration
  pc_max_deliver :: int
  pc_max_ack_pending :: int

definition consumer_config :: "WorkerConfig \<Rightarrow> ConsumerConfig" where
  "consumer_config cfg = \<lparr>pc_durable_name = DOCUMENT_WORK_CONSUMER, pc_filter_subject = UPLOAD_COMPLETED_SUBJECT,
     pc_ack_wait = wc_ack_wait cfg, pc_max_deliver = uint (wc_max_deliver cfg), pc_max_ack_pending = int (wc_max_ack_pending cfg)\<rparr>"

text \<open>The body of the receive loop up to the item: a message without metadata or with a payload that does not decode is
  terminated on the spot.\<close>

definition receive :: "(string \<Rightarrow> (UploadCompleted, string) result) \<Rightarrow> u32 \<Rightarrow> WorkMessage \<Rightarrow> (WorkItem, AckKind) result" where
  "receive from_slice max_deliver message = (case wm_delivered message of
      Err _ \<Rightarrow> Err Term
    | Ok delivered \<Rightarrow>
        (let num_delivered = (of_int (max delivered 0) :: u64) in
         case from_slice (wm_payload message) of
           Err _ \<Rightarrow> Err Term
         | Ok command \<Rightarrow> Ok \<lparr>wi_command = command, wi_num_delivered = num_delivered,
             wi_is_final_delivery = (num_delivered \<ge> ucast max_deliver)\<rparr>))"

definition NAK_DELAY :: duration where
  "NAK_DELAY = 10"

definition handle_work_item :: "DigestCrates \<Rightarrow> 'w UploadFinisher \<Rightarrow> WorkItem \<Rightarrow> ('w, AckKind) state" where
  "handle_work_item dg finisher item =
     finish dg finisher (wi_command item) (wi_is_final_delivery item) \<bind> (\<lambda>outcome. ret (case outcome of
         FoAccepted _ _ _ \<Rightarrow> Ack
       | FoRejected _ \<Rightarrow> if wi_is_final_delivery item then Term else Ack
       | FoRetry _ \<Rightarrow> Nak NAK_DELAY))"

text \<open>Half the deadline, at least a second, in milliseconds.\<close>

definition heartbeat_interval_ms :: "duration \<Rightarrow> nat" where
  "heartbeat_interval_ms ack_wait = max (ack_wait * 1000 div 2) 1000"

section \<open>Redelivery\<close>

text \<open>The deliveries of one message, when \<open>left\<close> more of them are made: the answer that ends them, and nothing when they run
  out without one.\<close>

fun deliveries ::
  "DigestCrates \<Rightarrow> 'w UploadFinisher \<Rightarrow> (string \<Rightarrow> (UploadCompleted, string) result) \<Rightarrow> u32 \<Rightarrow> string \<Rightarrow> nat \<Rightarrow> nat \<Rightarrow>
     ('w, AckKind option) state" where
  "deliveries dg f from_slice max_deliver payload 0 delivered = ret None"
| "deliveries dg f from_slice max_deliver payload (Suc left) delivered =
     (case receive from_slice max_deliver \<lparr>wm_payload = payload, wm_delivered = Ok (int delivered)\<rparr> of
        Err k \<Rightarrow> ret (Some k)
      | Ok item \<Rightarrow> handle_work_item dg f item \<bind> (\<lambda>answer. case answer of
          Nak _ \<Rightarrow> deliveries dg f from_slice max_deliver payload left (Suc delivered)
        | _ \<Rightarrow> ret (Some answer)))"

lemma finish_final_decides:
  "run_state (finish dg f cmd True) w = (out, w') \<Longrightarrow> out \<noteq> FoRetry e"
  by (auto simp: finish_def reject_def split: prod.splits FinishOutcome.splits)

lemma handle_final_decides:
  assumes "wi_is_final_delivery item" "run_state (handle_work_item dg f item) w = (answer, w')"
  shows "answer \<in> {Ack, Term}"
proof -
  obtain out v where out: "run_state (finish dg f (wi_command item) True) w = (out, v)" by fastforce
  then show ?thesis using assms finish_final_decides [OF out]
    by (cases out) (auto simp: handle_work_item_def)
qed

lemma handle_answers: "run_state (handle_work_item dg f item) w = (answer, w') \<Longrightarrow> answer \<in> {Ack, Term, Nak NAK_DELAY}"
  by (auto simp: handle_work_item_def split: prod.splits FinishOutcome.splits if_splits)

lemma unat_u32_less: "unat (n :: u32) < 2 ^ 32"
  using unsigned_less [where 'a = nat, of n] by simp

lemma last_delivery_is_final:
  assumes "receive from_slice max_deliver \<lparr>wm_payload = payload, wm_delivered = Ok (int delivered)\<rparr> = Ok item"
    and "unat max_deliver \<le> delivered" "delivered < 2 ^ 64"
  shows "wi_is_final_delivery item"
proof -
  have "unat (word_of_nat delivered :: u64) = delivered" using assms(3) by (simp add: unsigned_of_nat take_bit_nat_eq_self)
  moreover have "unat max_deliver < 2 ^ 64" using unat_u32_less [of max_deliver] by simp
  then have "unat (ucast max_deliver :: u64) = unat max_deliver" by (simp add: unsigned_ucast_eq take_bit_nat_eq_self)
  ultimately have "(ucast max_deliver :: u64) \<le> word_of_nat delivered"
    using assms(2) by (simp add: word_le_nat_alt)
  then show ?thesis using assms(1) by (auto simp: receive_def Let_def split: result.splits)
qed

lemma deliveries_answer:
  assumes "unat max_deliver < delivered + left" "left \<noteq> 0" "delivered + left \<le> 2 ^ 64"
  shows "fst (run_state (deliveries dg f from_slice max_deliver payload left delivered) w) \<in> {Some Ack, Some Term}"
  using assms
proof (induction left arbitrary: delivered w)
  case (Suc left)
  let ?r = "receive from_slice max_deliver \<lparr>wm_payload = payload, wm_delivered = Ok (int delivered)\<rparr>"
  show ?case
  proof (cases ?r)
    case (Err k)
    then have "k = Term" by (auto simp: receive_def Let_def split: result.splits)
    then show ?thesis using Err by simp
  next
    case (Ok item)
    obtain answer v where a: "run_state (handle_work_item dg f item) w = (answer, v)" by fastforce
    consider "answer \<in> {Ack, Term}" | "answer = Nak NAK_DELAY" using handle_answers [OF a] by auto
    then show ?thesis
    proof cases
      case 2
      have "\<not> wi_is_final_delivery item" using handle_final_decides [OF _ a] 2 by auto
      then have "delivered < unat max_deliver" using last_delivery_is_final [OF Ok] Suc.prems by fastforce
      then have "left \<noteq> 0" using Suc.prems by auto
      then show ?thesis using Suc.IH [of "Suc delivered" v] Suc.prems Ok a 2 by simp
    qed (use Ok a in auto)
  qed
qed simp

text \<open>C28. A work item is answered. For every limit a configuration can carry except zero, whatever the ports of the worker do and
  whatever the payload holds: within \<open>max_deliver\<close> deliveries the message is acknowledged or terminated, so it is never left
  behind with its object neither accepted nor reclaimed.\<close>

theorem work_item_is_answered:
  assumes "max_deliver \<noteq> 0"
  shows "fst (run_state (deliveries dg f from_slice max_deliver payload (unat max_deliver) 1) w) \<in> {Some Ack, Some Term}"
proof (rule deliveries_answer)
  show "unat max_deliver \<noteq> 0" using assms by (simp add: unat_eq_0)
  have "unat max_deliver < 2 ^ 32" by (rule unat_u32_less)
  then show "1 + unat max_deliver \<le> 2 ^ 64" by simp
qed simp

text \<open>The example upload, delivered to a worker whose limit is five.\<close>

theorem work_item_is_answered_witness:
  "fst (run_state (deliveries ex_dg ex_finisher (\<lambda>_. Ok (ex_cmd Create)) 5 ''payload'' 5 1) (ex_staged, [])) \<in> {Some Ack, Some Term}"
  using work_item_is_answered [of 5 ex_dg ex_finisher "\<lambda>_. Ok (ex_cmd Create)" "''payload''" "(ex_staged, [])"] by simp

definition huge_limit_env :: environment where
  "huge_limit_env = [''DELPHI_DOCUMENT_MAX_DELIVER'' \<mapsto> show_nat 4294967296, ''DELPHI_DOCUMENT_MAX_ACK_PENDING'' \<mapsto> show_nat 64,
     ''DELPHI_DOCUMENT_WORK_CONCURRENCY'' \<mapsto> show_nat 4, ''DELPHI_DOCUMENT_ACK_WAIT_SECS'' \<mapsto> show_nat 120,
     ''DELPHI_DOCUMENT_PROJECTOR_LOCK_ID'' \<mapsto> show_nat 7, ''DELPHI_DOCUMENT_PROJECTOR_ELECTION_SECS'' \<mapsto> show_nat 5,
     ''DELPHI_DOCUMENT_PROJECTION_BATCH'' \<mapsto> show_nat 100]"

lemma huge_limit_values:
  "parse_u64 huge_limit_env ''DELPHI_DOCUMENT_MAX_DELIVER'' = Ok (of_nat 4294967296)"
  "parse_u64 huge_limit_env ''DELPHI_DOCUMENT_MAX_ACK_PENDING'' = Ok (of_nat 64)"
  "parse_u64 huge_limit_env ''DELPHI_DOCUMENT_WORK_CONCURRENCY'' = Ok (of_nat 4)"
  "parse_u64 huge_limit_env ''DELPHI_DOCUMENT_ACK_WAIT_SECS'' = Ok (of_nat 120)"
  "parse_u64 huge_limit_env ''DELPHI_DOCUMENT_PROJECTOR_LOCK_ID'' = Ok (of_nat 7)"
  "parse_u64 huge_limit_env ''DELPHI_DOCUMENT_PROJECTOR_ELECTION_SECS'' = Ok (of_nat 5)"
  "parse_u64 huge_limit_env ''DELPHI_DOCUMENT_PROJECTION_BATCH'' = Ok (of_nat 100)"
  by (rule parse_u64_shown; simp add: huge_limit_env_def)+

text \<open>The limit can turn into zero. The configuration refuses zero and narrows every other number to 32 bits: a limit of
  4294967296 is accepted, reaches JetStream as zero, which means no limit there, and marks every delivery as the
  last one, so that the first transient failure of an upload rejects it and deletes its object.\<close>

theorem accepted_limit_wraps_to_zero:
  "\<exists>cfg. worker_from_env huge_limit_env = Ok cfg \<and> pc_max_deliver (consumer_config cfg) = 0
    \<and> (\<forall>from_slice message. case receive from_slice (wc_max_deliver cfg) message of
         Ok item \<Rightarrow> wi_is_final_delivery item | Err k \<Rightarrow> k = Term)"
proof -
  let ?cfg = "\<lparr>wc_ack_wait = 120, wc_max_deliver = 0, wc_max_ack_pending = 64, wc_work_concurrency = 4, wc_projector_lock_id = 7,
    wc_projector_election_interval = 5, wc_projection_batch = 100\<rparr>"
  have "worker_from_env huge_limit_env = Ok ?cfg"
    by (simp add: worker_from_env_def result_bind_def parse_usize_def parse_secs_def huge_limit_values)
  moreover have "case receive from_slice 0 message of Ok item \<Rightarrow> wi_is_final_delivery item | Err k \<Rightarrow> k = Term" for from_slice message
    by (auto simp: receive_def Let_def split: result.splits)
  ultimately show ?thesis by (intro exI [of _ ?cfg]) (simp add: consumer_config_def)
qed

text \<open>The deadline of an item that is being worked on is extended in time exactly when it is at least two seconds.\<close>

lemma heartbeat_in_time_iff: "heartbeat_interval_ms ack_wait < ack_wait * 1000 \<longleftrightarrow> 2 \<le> ack_wait"
  by (auto simp: heartbeat_interval_ms_def max_def)

end
