(* ===== verification/Doc_Api.thy ===== *)
theory Doc_Api
  imports Auth Uploads Work_Queue
begin

text \<open>
  The HTTP surface of the document lifecycle (services/api-service/src/documents.rs): request and response bodies, the
  handlers, the authorisation they start with, the table of routes and the answer every error turns into. A request is
  what the extractors hand to a handler: the verified caller, the path segment, and the decoded body or query. The
  hexadecimal and the time crate that the listing cursor goes through are the record \<open>CursorCrates\<close>.

  The theorems: a caller without the write role or with an unsafe identity changes nothing; a client that hands the opaque
  cursor back sees the whole listing; an upload that is completed over HTTP and delivered to the worker is
  reported as accepted.
\<close>

section \<open>Requests and responses\<close>

definition WRITE_ROLE :: string where
  "WRITE_ROLE = ''ingester''"

definition DEFAULT_LIST_LIMIT :: u32 where
  "DEFAULT_LIST_LIMIT = 50"

record CreateUploadBody =
  cb_document_id :: "string option"
  cb_filename :: string
  cb_size :: u64
  cb_content_type :: "string option"

record RenewBody =
  rb_from_part :: "u16 option"
  rb_count :: "u16 option"

record CompleteBody =
  ob_if_match :: "u64 option"
  ob_on_conflict :: ConflictPolicy
  ob_title :: "string option"
  ob_tags :: "string list option"
  ob_description :: "string option"
  ob_metadata :: "json option"

record ListQuery =
  lq_limit :: "u32 option"
  lq_cursor :: "string option"

record CreateUploadResponse =
  cu_upload_id :: string
  cu_new_document_id :: string
  cu_key :: string
  cu_part_size_bytes :: u64
  cu_part_count :: u16

record RenewResponseBody =
  rn_parts :: "PresignedPart list"

record UploadedPartBody =
  pb_part_number :: u16
  pb_etag :: string
  pb_size :: u64

record UploadedPartsBody =
  pl_part_size_bytes :: u64
  pl_part_count :: u16
  pl_parts :: "UploadedPartBody list"

record UploadStatusBody =
  sb_status :: UploadStatus
  sb_document_id :: string

record DocumentBody =
  db_document_id :: string
  db_version :: u64
  db_state :: string
  db_index_state :: string
  db_filename :: "string option"
  db_content_type :: "string option"
  db_byte_size :: "u64 option"
  db_checksum :: "string option"
  db_title :: "string option"
  db_tags :: "string list"
  db_description :: "string option"
  db_metadata :: json
  db_created_at :: datetime
  db_updated_at :: datetime

record DocumentListBody =
  dl_items :: "DocumentBody list"
  dl_next :: "string option"

definition to_body :: "DocumentState \<Rightarrow> DocumentBody" where
  "to_body document = \<lparr>db_document_id = ds_document_id document, db_version = ds_version document,
     db_state = DocState_as_str (ds_state document), db_index_state = IndexState_as_str (ds_index_state document),
     db_filename = ds_filename document, db_content_type = ds_content_type document, db_byte_size = ds_byte_size document,
     db_checksum = ds_checksum document, db_title = ds_title document, db_tags = ds_tags document,
     db_description = ds_description document, db_metadata = ds_metadata document, db_created_at = ds_created_at document,
     db_updated_at = ds_updated_at document\<rparr>"

text \<open>The crates behind the cursor of the listing and behind the size of a metadata patch.\<close>

record CursorCrates =
  cc_hex_encode :: "bytes \<Rightarrow> string"
  cc_hex_decode :: "string \<Rightarrow> bytes option"
  cc_timestamp_micros :: "datetime \<Rightarrow> int"
  cc_from_timestamp_micros :: "int \<Rightarrow> datetime option"

record 'w DocumentApiState =
  da_service :: "'w DocumentService"
  da_cursors :: CursorCrates
  da_to_vec :: "json \<Rightarrow> bytes option"

section \<open>Authorisation\<close>

text \<open>\<open>ApiFailure\<close> is a wrapper of \<open>DocumentError\<close>.\<close>

type_synonym ApiFailure = DocumentError

definition authorize_read :: "AuthContext \<Rightarrow> (Principal, ApiFailure) result" where
  "authorize_read auth = (case Principal_new (ac_tenant_id auth) (ac_user_id auth) of
      Ok who \<Rightarrow> Ok who | Err _ \<Rightarrow> Err Forbidden)"

definition authorize :: "AuthContext \<Rightarrow> (Principal, ApiFailure) result" where
  "authorize auth = (case authorize_read auth of
      Err e \<Rightarrow> Err e
    | Ok who \<Rightarrow> if \<not> has_role auth WRITE_ROLE then Err Forbidden else Ok who)"

section \<open>Handlers\<close>

definition create_upload ::
  "'w DocumentApiState \<Rightarrow> AuthContext \<Rightarrow> CreateUploadBody \<Rightarrow> ('w, (nat \<times> CreateUploadResponse, ApiFailure) result) state" where
  "create_upload state auth body =
     attempt id (ret (authorize auth)) (\<lambda>principal.
     attempt id (preflight (da_service state) (pr_tenant_id principal) (pr_user_id principal)
       \<lparr>pq_document_id = cb_document_id body, pq_filename = cb_filename body, pq_size = cb_size body,
        pq_content_type = cb_content_type body\<rparr>) (\<lambda>response.
     ret (Ok (201, \<lparr>cu_upload_id = pf_upload_id response, cu_new_document_id = pf_document_id response, cu_key = pf_key response,
       cu_part_size_bytes = pf_part_size_bytes response, cu_part_count = pf_part_count response\<rparr>))))"

definition list_upload_parts ::
  "'w DocumentApiState \<Rightarrow> AuthContext \<Rightarrow> string \<Rightarrow> ('w, (UploadedPartsBody, ApiFailure) result) state" where
  "list_upload_parts state auth upload_id =
     attempt id (ret (authorize auth)) (\<lambda>principal.
     attempt id (uploaded_parts (da_service state) (pr_tenant_id principal) (pr_user_id principal) upload_id) (\<lambda>response.
     ret (Ok \<lparr>pl_part_size_bytes = ur_part_size_bytes response, pl_part_count = ur_part_count response,
       pl_parts = map (\<lambda>part. \<lparr>pb_part_number = up_part_number part, pb_etag = up_etag part, pb_size = up_size part\<rparr>)
         (ur_parts response)\<rparr>)))"

definition renew_upload ::
  "'w DocumentApiState \<Rightarrow> AuthContext \<Rightarrow> string \<Rightarrow> RenewBody option \<Rightarrow> ('w, (RenewResponseBody, ApiFailure) result) state" where
  "renew_upload state auth upload_id body =
     attempt id (ret (authorize auth)) (\<lambda>principal.
     let body = (case body of Some body \<Rightarrow> body | None \<Rightarrow> \<lparr>rb_from_part = None, rb_count = None\<rparr>) in
     attempt id (renew (da_service state) (pr_tenant_id principal) (pr_user_id principal) upload_id
       \<lparr>rq_from_part = rb_from_part body, rq_count = rb_count body\<rparr>) (\<lambda>response.
     ret (Ok \<lparr>rn_parts = rr_parts response\<rparr>)))"

definition complete_request :: "CompleteBody \<Rightarrow> CompleteRequest" where
  "complete_request body = \<lparr>cr_if_match = ob_if_match body, cr_on_conflict = ob_on_conflict body,
     cr_patch = \<lparr>mp_title = ob_title body, mp_tags = ob_tags body, mp_description = ob_description body,
       mp_metadata = ob_metadata body\<rparr>\<rparr>"

definition complete_upload ::
  "'w DocumentApiState \<Rightarrow> AuthContext \<Rightarrow> string \<Rightarrow> CompleteBody \<Rightarrow> ('w, (nat \<times> json, ApiFailure) result) state" where
  "complete_upload state auth upload_id body =
     attempt id (ret (authorize auth)) (\<lambda>principal.
     attempt id (complete (da_to_vec state) (da_service state) (pr_tenant_id principal) (pr_user_id principal) upload_id
       (complete_request body)) (\<lambda>_.
     ret (Ok (202, JObject [(''state'', JString ''scanning'')]))))"

definition get_upload ::
  "'w DocumentApiState \<Rightarrow> AuthContext \<Rightarrow> string \<Rightarrow> ('w, (UploadStatusBody, ApiFailure) result) state" where
  "get_upload state auth upload_id =
     attempt id (ret (authorize_read auth)) (\<lambda>principal.
     attempt id (upload_state (da_service state) (pr_tenant_id principal) (pr_user_id principal) upload_id) (\<lambda>found.
     ret (Ok \<lparr>sb_status = us_status found, sb_document_id = us_document_id found\<rparr>)))"

text \<open>The body with its \<open>ETag\<close> header, the quoted version.\<close>

definition handle_get_document ::
  "'w DocumentApiState \<Rightarrow> AuthContext \<Rightarrow> string \<Rightarrow> ('w, (string \<times> DocumentBody, ApiFailure) result) state" where
  "handle_get_document state auth document_id =
     attempt id (ret (authorize_read auth)) (\<lambda>principal.
     attempt id (get_document (da_service state) (pr_tenant_id principal) document_id) (\<lambda>document.
     ret (Ok ([CHR 34] @ show_u64 (ds_version document) @ [CHR 34], to_body document))))"

definition query_cursor :: "CursorCrates \<Rightarrow> string option \<Rightarrow> (DocumentCursor option, ApiFailure) result" where
  "query_cursor cc cursor = (case cursor of
      None \<Rightarrow> Ok None
    | Some value \<Rightarrow> (case cursor_decode (cc_hex_decode cc) (cc_from_timestamp_micros cc) value of
        Some c \<Rightarrow> Ok (Some c) | None \<Rightarrow> Err (Invalid ''cursor is not valid'')))"

definition handle_list_documents ::
  "'w DocumentApiState \<Rightarrow> AuthContext \<Rightarrow> ListQuery \<Rightarrow> ('w, (DocumentListBody, ApiFailure) result) state" where
  "handle_list_documents state auth query =
     attempt id (ret (authorize_read auth)) (\<lambda>principal.
     attempt id (ret (query_cursor (da_cursors state) (lq_cursor query))) (\<lambda>cursor.
     attempt id (list_documents (da_service state) (pr_tenant_id principal)
       (case lq_limit query of Some limit \<Rightarrow> limit | None \<Rightarrow> DEFAULT_LIST_LIMIT) cursor) (\<lambda>page.
     ret (Ok \<lparr>dl_items = map to_body (dp_items page),
       dl_next = map_option (cursor_encode (cc_hex_encode (da_cursors state)) (cc_timestamp_micros (da_cursors state)))
         (dp_next page)\<rparr>))))"

section \<open>Routes and answers\<close>

fun failure_response :: "ApiFailure \<Rightarrow> nat \<times> ApiErrorCode \<times> string" where
  "failure_response NotFound = (404, CodeNotFound, ''not found'')"
| "failure_response Forbidden = (403, CodeForbidden, ''forbidden'')"
| "failure_response Gone = (410, CodeGone, ''this upload has expired; start a new one'')"
| "failure_response (Invalid message) = (400, CodeInvalidRequest, message)"
| "failure_response (TooLarge message) = (413, CodeTooLarge, message)"
| "failure_response (Conflict current_version) =
     (409, CodeConflict, ''document has moved on to version '' @ show_u64 current_version)"
| "failure_response ErrDeleted = (409, CodeConflict, ''document is deleted'')"
| "failure_response (Internal detail) = (500, CodeInternal, ''internal error'')"

datatype DocRequest =
    PostUpload CreateUploadBody
  | GetUpload string
  | GetParts string
  | PostRenew string "RenewBody option"
  | PostComplete string CompleteBody
  | GetDocuments ListQuery
  | GetDocument string

datatype DocReply =
    UploadCreated CreateUploadResponse
  | UploadAnswer UploadStatusBody
  | PartsAnswer UploadedPartsBody
  | RenewAnswer RenewResponseBody
  | JsonAnswer json
  | ListAnswer DocumentListBody
  | DocumentAnswer string DocumentBody
  | FailureAnswer ApiErrorCode string

definition answer :: "('a \<Rightarrow> nat \<times> DocReply) \<Rightarrow> ('w, ('a, ApiFailure) result) state \<Rightarrow> ('w, nat \<times> DocReply) state" where
  "answer render handler = handler \<bind> (\<lambda>outcome. ret (case outcome of
      Ok a \<Rightarrow> render a
    | Err e \<Rightarrow> (case failure_response e of (status, code, message) \<Rightarrow> (status, FailureAnswer code message))))"

definition routes :: "'w DocumentApiState \<Rightarrow> AuthContext \<Rightarrow> DocRequest \<Rightarrow> ('w, nat \<times> DocReply) state" where
  "routes state auth request = (case request of
      PostUpload body \<Rightarrow> answer (map_prod id UploadCreated) (create_upload state auth body)
    | GetUpload upload_id \<Rightarrow> answer (Pair 200 \<circ> UploadAnswer) (get_upload state auth upload_id)
    | GetParts upload_id \<Rightarrow> answer (Pair 200 \<circ> PartsAnswer) (list_upload_parts state auth upload_id)
    | PostRenew upload_id body \<Rightarrow> answer (Pair 200 \<circ> RenewAnswer) (renew_upload state auth upload_id body)
    | PostComplete upload_id body \<Rightarrow> answer (map_prod id JsonAnswer) (complete_upload state auth upload_id body)
    | GetDocuments query \<Rightarrow> answer (Pair 200 \<circ> ListAnswer) (handle_list_documents state auth query)
    | GetDocument document_id \<Rightarrow> answer (Pair 200 \<circ> case_prod DocumentAnswer) (handle_get_document state auth document_id))"

section \<open>Authorisation of a request\<close>

definition safe_caller :: "AuthContext \<Rightarrow> bool" where
  "safe_caller auth = (is_safe_segment (ac_tenant_id auth) \<and> is_safe_segment (ac_user_id auth))"

abbreviation principal_of :: "AuthContext \<Rightarrow> Principal" where
  "principal_of auth \<equiv> \<lparr>pr_tenant_id = ac_tenant_id auth, pr_user_id = ac_user_id auth\<rparr>"

lemma authorize_read_eq: "authorize_read auth = (if safe_caller auth then Ok (principal_of auth) else Err Forbidden)"
  by (simp add: authorize_read_def Principal_new_def safe_caller_def)

lemma authorize_eq:
  "authorize auth = (if safe_caller auth \<and> has_role auth WRITE_ROLE then Ok (principal_of auth) else Err Forbidden)"
  by (simp add: authorize_def authorize_read_eq)

text \<open>The requests of the write path. Listing the uploaded parts belongs to it: its answer holds the tags that complete
  an upload.\<close>

fun write_request :: "DocRequest \<Rightarrow> bool" where
  "write_request (PostUpload _) = True"
| "write_request (GetParts _) = True"
| "write_request (PostRenew _ _) = True"
| "write_request (PostComplete _ _) = True"
| "write_request _ = False"

lemmas handler_defs = create_upload_def list_upload_parts_def renew_upload_def complete_upload_def get_upload_def
  handle_get_document_def handle_list_documents_def

text \<open>C25. Nobody gets past the door without authority. A request whose caller has an identity that is unsafe in
  a key or a subject, or a request of the write path whose caller does not hold the write role, is answered 403, whatever the ports
  of the service are, and nothing at all happens in the world.\<close>

theorem unauthorised_request_refused:
  assumes "\<not> safe_caller auth \<or> (write_request request \<and> \<not> has_role auth WRITE_ROLE)"
  shows "run_state (routes st auth request) w = ((403, FailureAnswer CodeForbidden ''forbidden''), w)"
  using assms
  by (cases request)
    (auto simp: routes_def answer_def handler_defs authorize_eq authorize_read_eq run_state_attempt)

definition ex_caller :: "string list \<Rightarrow> AuthContext" where
  "ex_caller roles = \<lparr>ac_user_id = ''user-1'', ac_tenant_id = ''acme'', ac_email = None, ac_roles = roles,
     ac_bearer_subject = ''Bearer test''\<rparr>"

definition ex_api :: "Shared DocumentApiState" where
  "ex_api = \<lparr>da_service = mem_service ex_policy,
     da_cursors = \<lparr>cc_hex_encode = id, cc_hex_decode = Some, cc_timestamp_micros = id, cc_from_timestamp_micros = Some\<rparr>,
     da_to_vec = (\<lambda>_. Some [])\<rparr>"

lemma ex_caller_safe: "safe_caller (ex_caller roles)"
proof -
  have "is_safe_segment ''acme''" "is_safe_segment ''user-1''" by code_simp+
  then show ?thesis by (simp add: safe_caller_def ex_caller_def)
qed

theorem unauthorised_request_refused_witness:
  "run_state (routes ex_api (ex_caller [''reader'']) (GetParts ''u1'')) (ex_staged, []) =
     ((403, FailureAnswer CodeForbidden ''forbidden''), (ex_staged, []))"
  by (rule unauthorised_request_refused) (simp add: has_role_def ex_caller_def WRITE_ROLE_def)

section \<open>Paging over HTTP\<close>

text \<open>A client that asks for the listing and hands every \<open>next\<close> back verbatim, for at most the given number of requests.\<close>

fun follow_list ::
  "nat \<Rightarrow> 'w DocumentApiState \<Rightarrow> AuthContext \<Rightarrow> u32 option \<Rightarrow> string option \<Rightarrow> ('w, DocumentBody list option) state" where
  "follow_list 0 st auth limit cursor = ret None"
| "follow_list (Suc n) st auth limit cursor =
     routes st auth (GetDocuments \<lparr>lq_limit = limit, lq_cursor = cursor\<rparr>) \<bind> (\<lambda>(status, reply). case reply of
         ListAnswer body \<Rightarrow> (case dl_next body of
             None \<Rightarrow> ret (Some (dl_items body))
           | Some c \<Rightarrow> follow_list n st auth limit (Some c) \<bind> (\<lambda>rest. ret (map_option ((@) (dl_items body)) rest)))
       | _ \<Rightarrow> ret None)"

text \<open>The crates carry the cursor of a document: the codings are inverted and the time fits 64 bits.\<close>

definition carries :: "CursorCrates \<Rightarrow> DocumentState \<Rightarrow> bool" where
  "carries cc d = (cc_from_timestamp_micros cc (cc_timestamp_micros cc (ds_updated_at d)) = Some (ds_updated_at d)
     \<and> - (2 ^ 63) \<le> cc_timestamp_micros cc (ds_updated_at d) \<and> cc_timestamp_micros cc (ds_updated_at d) < 2 ^ 63
     \<and> from_utf8 (ds_document_id d) = Some (ds_document_id d) \<and> ds_document_id d \<noteq> [])"

lemma carried_cursor:
  assumes "\<And>b. cc_hex_decode cc (cc_hex_encode cc b) = Some b" "carries cc d"
  shows "cursor_decode (cc_hex_decode cc) (cc_from_timestamp_micros cc)
    (cursor_encode (cc_hex_encode cc) (cc_timestamp_micros cc) (document_cursor d)) = Some (document_cursor d)"
  by (rule cursor_round_trip) (use assms in \<open>simp_all add: carries_def document_cursor_def\<close>)

abbreviation list_limit :: "u32 option \<Rightarrow> u32" where
  "list_limit limit \<equiv> (case limit of Some l \<Rightarrow> l | None \<Rightarrow> DEFAULT_LIST_LIMIT)"

text \<open>The client of the wire form sees what a client of the service sees.\<close>

lemma follow_list_simulates:
  assumes hex: "\<And>b. cc_hex_decode (da_cursors st) (cc_hex_encode (da_cursors st) b) = Some b" and "safe_caller auth"
    and "run_state (follow_pages n (da_service st) (ac_tenant_id auth) (list_limit limit) after) w = (Ok ds, w')"
    and "list_all (carries (da_cursors st)) ds" "query_cursor (da_cursors st) cursor = Ok after"
  shows "run_state (follow_list n st auth limit cursor) w = (Some (map to_body ds), w')"
  using assms(3-5)
proof (induction n arbitrary: after cursor w ds)
  case (Suc n)
  obtain r v where page: "run_state (list_documents (da_service st) (ac_tenant_id auth) (list_limit limit) after) w = (r, v)"
    by fastforce
  with Suc.prems(1) obtain p where p: "r = Ok p" by (cases r) (auto simp: run_state_attempt)
  have next_cursor: "c = document_cursor (last (dp_items p)) \<and> dp_items p \<noteq> []" if "dp_next p = Some c" for c
    using page p that
    by (auto simp: list_documents_def Let_def run_state_attempt split: result.splits prod.splits if_splits)
  show ?case
  proof (cases "dp_next p")
    case None
    then show ?thesis using Suc.prems page p assms(2)
      by (auto simp: routes_def answer_def handler_defs run_state_attempt authorize_read_eq)
  next
    case (Some c)
    with Suc.prems(1) page p obtain rest where
      rest: "run_state (follow_pages n (da_service st) (ac_tenant_id auth) (list_limit limit) (Some c)) v = (Ok rest, w')"
      "ds = dp_items p @ rest"
      by (auto simp: run_state_attempt split: result.splits prod.splits)
    have "carries (da_cursors st) (last (dp_items p))"
      using Suc.prems(2) next_cursor [OF Some] by (auto simp: rest(2) list_all_iff)
    then have "query_cursor (da_cursors st)
        (Some (cursor_encode (cc_hex_encode (da_cursors st)) (cc_timestamp_micros (da_cursors st)) c)) = Ok (Some c)"
      using carried_cursor [OF hex] next_cursor [OF Some] by (simp add: query_cursor_def)
    from Suc.IH [OF rest(1) _ this] have "run_state (follow_list n st auth limit
        (Some (cursor_encode (cc_hex_encode (da_cursors st)) (cc_timestamp_micros (da_cursors st)) c))) v =
        (Some (map to_body rest), w')"
      using Suc.prems(2) by (simp add: rest(2))
    then show ?thesis using Suc.prems(3) page p Some assms(2)
      by (simp add: routes_def answer_def handler_defs run_state_attempt authorize_read_eq rest(2))
  qed
qed simp

text \<open>C24. Paging over HTTP is complete. A client that sends the opaque \<open>next\<close> of every answer back as the cursor of the next
  request, with any limit or none, receives every document of its tenant exactly once, newest first, also when documents
  share a timestamp or their ids hold the separator of the cursor, and it is done after one
  request per full page plus one.\<close>

theorem api_pages_cover_listing:
  assumes "\<And>b. cc_hex_decode (da_cursors st) (cc_hex_encode (da_cursors st) b) = Some b"
    and "safe_caller auth" "da_service st = mem_service po" "catalogued (w_documents w)"
    and "list_all (carries (da_cursors st)) (tenant_documents (w_documents w) (ac_tenant_id auth))"
    and "length (tenant_documents (w_documents w) (ac_tenant_id auth))
      div unat (clamp (list_limit limit) 1 MAX_LIST_LIMIT) < n"
  shows "run_state (follow_list n st auth limit None) (w, []) =
    (Some (map to_body (tenant_documents (w_documents w) (ac_tenant_id auth))), (w, []))"
proof (rule follow_list_simulates [OF assms(1,2) _ assms(5)])
  show "run_state (follow_pages n (da_service st) (ac_tenant_id auth) (list_limit limit) None) (w, []) =
      (Ok (tenant_documents (w_documents w) (ac_tenant_id auth)), (w, []))"
    by (rule listing.follow_pages_lists [where pre = "[]"]) (use assms in \<open>auto simp: past_def\<close>)
qed (simp add: query_cursor_def)

theorem api_pages_cover_listing_witness:
  "run_state (follow_list 3 ex_api (ex_caller []) (Some 1) None) (ex_listing, []) =
     (Some [to_body (ex_document_state ''d2''), to_body (ex_document_state ''d1'')], (ex_listing, []))"
proof -
  have docs: "tenant_documents (w_documents ex_listing) ''acme'' = [ex_document_state ''d2'', ex_document_state ''d1'']"
    by code_simp
  have "catalogued (w_documents ex_listing)"
    by (simp add: ex_listing_def catalogued_upsert catalogued_empty)
  moreover have "list_all (carries (da_cursors ex_api)) [ex_document_state ''d2'', ex_document_state ''d1'']"
    by (simp add: carries_def ex_api_def ex_document_state_def from_utf8_def)
  moreover have "ac_tenant_id (ex_caller []) = ''acme''" by (simp add: ex_caller_def)
  ultimately show ?thesis
    using api_pages_cover_listing [of ex_api "ex_caller []" ex_policy ex_listing "Some 1" 3] docs ex_caller_safe
    by (simp add: ex_api_def clamp_def MAX_LIST_LIMIT_def)
qed

section \<open>An upload from its completion to its answer\<close>

text \<open>What storage and log look like once the client has put every part of a new document: the record is the caller's and has no
  answer, the parts are all there and no work item or event for the upload exists yet.\<close>

definition uploaded :: "DigestCrates \<Rightarrow> MemWorld \<Rightarrow> AuthContext \<Rightarrow> string \<Rightarrow> StoredUpload \<Rightarrow> UploadedPart list \<Rightarrow> bool" where
  "uploaded dg w auth i st ps = (own_record w (ac_tenant_id auth) (ac_user_id auth) i st
     \<and> us_mode (su_state st) = Create \<and> \<not> is_terminal (us_status (su_state st))
     \<and> mb_complete_error (w_blobs w) = None
     \<and> mb_multiparts (w_blobs w) (us_storage_key (su_state st), us_multipart_upload_id (su_state st)) = Some ps
     \<and> ps \<noteq> [] \<and> distinct (map up_part_number ps)
     \<and> sum_list (map (unat \<circ> up_size) ps) = unat (us_declared_size (su_state st))
     \<and> \<not> me_unavailable (w_events w) \<and> \<not> me_always_conflict (w_events w) \<and> me_conflicts_remaining (w_events w) = 0
     \<and> me_seen (w_events w) (ac_tenant_id auth, us_document_id (su_state st),
          created_event_id (dg_sha256 dg) (dg_hex_encode dg) (ac_tenant_id auth) i) = None
     \<and> stream_of w (ac_tenant_id auth) (us_document_id (su_state st)) = []
     \<and> list_all (\<lambda>c. uc_command_id c \<noteq> upload_completed_command_id (ac_tenant_id auth) i) (w_queue w))"

lemma run_complete_upload:
  assumes "safe_caller auth" "has_role auth WRITE_ROLE" "da_service api = mem_service po"
    and "uploaded dg w auth i st ps" "patch_valid (da_to_vec api) (cr_patch (complete_request body))" "ob_if_match body = None"
  defines "cmd \<equiv> completed_command (ac_tenant_id auth) (ac_user_id auth) i (su_state st) (complete_request body)
      (fixed_time (sint (w_clock w)))"
  shows "run_state (routes api auth (PostComplete i body)) (w, []) =
    ((202, JsonAnswer (JObject [(''state'', JString ''scanning'')])),
     (mark_scanning (upload_key (ac_tenant_id auth) (ac_user_id auth) i) st (w\<lparr>w_queue := w_queue w @ [cmd]\<rparr>), []))"
proof -
  have own: "own_record w (ac_tenant_id auth) (ac_user_id auth) i st" using assms(4) by (simp add: uploaded_def)
  have pub: "published cmd (w_queue w) = w_queue w @ [cmd]"
    using assms(4) by (auto simp: uploaded_def published_def list_all_iff cmd_def completed_command_def)
  have "validate_metadata_patch (da_to_vec api) (cr_patch (complete_request body)) = Ok ()"
    "cr_if_match (complete_request body) = None"
    using assms(5,6) by (simp_all add: validate_ok_iff complete_request_def)
  then have "run_state (complete (da_to_vec api) (mem_service po) (ac_tenant_id auth) (ac_user_id auth) i (complete_request body)) (w, []) =
      (Ok (), (mark_scanning (upload_key (ac_tenant_id auth) (ac_user_id auth) i) st (w\<lparr>w_queue := w_queue w @ [cmd]\<rparr>), []))"
    using run_complete [OF own, of "da_to_vec api" po "complete_request body"] pub by (simp add: cmd_def)
  then show ?thesis using assms(1-3)
    by (simp add: routes_def answer_def handler_defs run_state_attempt authorize_eq)
qed

text \<open>The published work item is ready for the worker.\<close>

lemma completed_is_ready:
  assumes "uploaded dg w auth i st ps"
  defines "k \<equiv> upload_key (ac_tenant_id auth) (ac_user_id auth) i"
  shows "ready_create dg (mark_scanning k st (w\<lparr>w_queue := q\<rparr>))
    (completed_command (ac_tenant_id auth) (ac_user_id auth) i (su_state st) request now)
    \<lparr>su_state = with_status (su_state st) Scanning (fixed_time (sint (w_clock w))), su_revision = su_revision st + 1\<rparr> ps"
  using assms(1)
  by (auto simp: ready_create_def uploaded_def completed_command_def mark_scanning_def put_record_def item_record_def
      own_record_def own_key_def with_status_def k_def)

text \<open>The request and the delivery of its work item, whichever attempt it is.\<close>

lemma completed_upload_run:
  assumes "safe_caller auth" "has_role auth WRITE_ROLE" "da_service api = mem_service po"
    and "uploaded dg w auth i st ps" "patch_valid (da_to_vec api) (cr_patch (complete_request body))" "ob_if_match body = None"
  obtains w1 cmd w2 q now revision where "run_state (routes api auth (PostComplete i body)) (w, []) =
      ((202, JsonAnswer (JObject [(''state'', JString ''scanning'')])), (w1, []))"
    and "w_queue w1 = w_queue w @ [cmd]"
    and "\<And>attempts final. run_state (handle_work_item dg (mem_finisher dg False ContentOk)
        \<lparr>wi_command = cmd, wi_num_delivered = attempts, wi_is_final_delivery = final\<rparr>) (w1, []) = (Ack, (w2, []))"
    and "q = me_head (w_events w) + 1" "uc_tenant_id cmd = ac_tenant_id auth"
      "uc_document_id cmd = us_document_id (su_state st)" "uc_filename cmd = us_filename (su_state st)" "uc_declared_size cmd = us_declared_size (su_state st)"
    and "stream_of w2 (ac_tenant_id auth) (us_document_id (su_state st)) =
      [(q, created_event dg cmd (sha256_hex (dg_sha256 dg) (dg_hex_encode dg) (item_bytes cmd)) now)]"
    and "object (w_blobs w2) (us_storage_key (su_state st)) = Some (item_bytes cmd)"
    and "record_of w2 (upload_key (ac_tenant_id auth) (ac_user_id auth) i) =
      Some \<lparr>su_state = with_status (su_state st) (Accepted 1 False) now, su_revision = revision\<rparr>"
proof -
  let ?k = "upload_key (ac_tenant_id auth) (ac_user_id auth) i"
  define cmd where "cmd = completed_command (ac_tenant_id auth) (ac_user_id auth) i (su_state st) (complete_request body)
    (fixed_time (sint (w_clock w)))"
  define w1 where "w1 = mark_scanning ?k st (w\<lparr>w_queue := w_queue w @ [cmd]\<rparr>)"
  define st1 where "st1 = \<lparr>su_state = with_status (su_state st) Scanning (fixed_time (sint (w_clock w))), su_revision = su_revision st + 1\<rparr>"
  define w2 where "w2 = accepted_world dg w1 cmd st1 ps"
  have ready: "ready_create dg w1 cmd st1 ps"
    unfolding w1_def cmd_def st1_def by (rule completed_is_ready [OF assms(4)])
  have ids: "uc_tenant_id cmd = ac_tenant_id auth" "uc_document_id cmd = us_document_id (su_state st)" "cmd_key cmd = ?k"
    "uc_filename cmd = us_filename (su_state st)" "uc_declared_size cmd = us_declared_size (su_state st)"
    "uc_storage_key cmd = us_storage_key (su_state st)"
    by (simp_all add: cmd_def completed_command_def)
  show thesis
  proof (rule that [of w1 cmd w2 "me_head (w_events w1) + 1" "fixed_time (sint (w_clock w1))" "su_revision st1 + 1"])
    show "run_state (routes api auth (PostComplete i body)) (w, []) =
        ((202, JsonAnswer (JObject [(''state'', JString ''scanning'')])), (w1, []))"
      unfolding w1_def cmd_def by (rule run_complete_upload [OF assms])
    show "run_state (handle_work_item dg (mem_finisher dg False ContentOk)
        \<lparr>wi_command = cmd, wi_num_delivered = attempts, wi_is_final_delivery = final\<rparr>) (w1, []) = (Ack, (w2, []))" for attempts final
      using run_finish_ready [OF ready] by (simp add: handle_work_item_def w2_def)
    show "stream_of w2 (ac_tenant_id auth) (us_document_id (su_state st)) = [(me_head (w_events w1) + 1,
        created_event dg cmd (sha256_hex (dg_sha256 dg) (dg_hex_encode dg) (item_bytes cmd)) (fixed_time (sint (w_clock w1))))]"
      using accepted_world_stream [OF ready] by (simp add: w2_def ids(1,2))
    show "object (w_blobs w2) (us_storage_key (su_state st)) = Some (item_bytes cmd)"
      by (simp add: w2_def accepted_world_def put_record_def assembled_world_def object_def put_object_def item_bytes_def ids(6))
    show "record_of w2 ?k = Some \<lparr>su_state = with_status (su_state st) (Accepted 1 False) (fixed_time (sint (w_clock w1))),
        su_revision = su_revision st1 + 1\<rparr>"
      by (simp add: w2_def accepted_world_def put_record_def ids(3) st1_def with_status_def)
  qed (simp_all add: ids w1_def mark_scanning_def put_record_def)
qed

text \<open>C3. An upload that is completed over HTTP gets its answer. When every part of a new document is in storage and the caller
  may write: \<open>POST complete\<close> answers 202 and queues exactly one work item; the first delivery of that item is
  acknowledged, on whichever attempt; the log then holds one event for the document; and
  \<open>GET upload\<close> answers the caller 200 with the document id and version 1.\<close>

theorem completed_upload_is_reported:
  assumes "safe_caller auth" "has_role auth WRITE_ROLE" "da_service api = mem_service po"
    and "uploaded dg w auth i st ps" "patch_valid (da_to_vec api) (cr_patch (complete_request body))" "ob_if_match body = None"
  shows "\<exists>w1 cmd w2. run_state (routes api auth (PostComplete i body)) (w, []) =
      ((202, JsonAnswer (JObject [(''state'', JString ''scanning'')])), (w1, []))
    \<and> w_queue w1 = w_queue w @ [cmd]
    \<and> run_state (handle_work_item dg (mem_finisher dg False ContentOk)
        \<lparr>wi_command = cmd, wi_num_delivered = attempts, wi_is_final_delivery = final\<rparr>) (w1, []) = (Ack, (w2, []))
    \<and> length (stream_of w2 (ac_tenant_id auth) (us_document_id (su_state st))) = 1
    \<and> run_state (routes api auth (GetUpload i)) (w2, []) =
      ((200, UploadAnswer \<lparr>sb_status = Accepted 1 False, sb_document_id = us_document_id (su_state st)\<rparr>), (w2, []))"
proof -
  obtain w1 cmd w2 q now revision where run: "run_state (routes api auth (PostComplete i body)) (w, []) =
      ((202, JsonAnswer (JObject [(''state'', JString ''scanning'')])), (w1, []))" "w_queue w1 = w_queue w @ [cmd]"
    "run_state (handle_work_item dg (mem_finisher dg False ContentOk)
        \<lparr>wi_command = cmd, wi_num_delivered = attempts, wi_is_final_delivery = final\<rparr>) (w1, []) = (Ack, (w2, []))"
    "stream_of w2 (ac_tenant_id auth) (us_document_id (su_state st)) =
      [(q, created_event dg cmd (sha256_hex (dg_sha256 dg) (dg_hex_encode dg) (item_bytes cmd)) now)]"
    "record_of w2 (upload_key (ac_tenant_id auth) (ac_user_id auth) i) =
      Some \<lparr>su_state = with_status (su_state st) (Accepted 1 False) now, su_revision = revision\<rparr>"
    by (rule completed_upload_run [OF assms]) blast
  have "us_tenant_id (su_state st) = ac_tenant_id auth" "us_owner_user_id (su_state st) = ac_user_id auth"
    using assms(4) by (simp_all add: uploaded_def own_record_def)
  then have "run_state (routes api auth (GetUpload i)) (w2, []) =
      ((200, UploadAnswer \<lparr>sb_status = Accepted 1 False, sb_document_id = us_document_id (su_state st)\<rparr>), (w2, []))"
    using assms(1,3) run(5)
    by (simp add: routes_def answer_def handler_defs run_state_attempt authorize_read_eq upload_state_def load_def mem_get_def with_status_def)
  with run show ?thesis by (intro exI [of _ w1] exI [of _ cmd] exI [of _ w2]) simp
qed

definition ex_complete :: CompleteBody where
  "ex_complete = \<lparr>ob_if_match = None, ob_on_conflict = Supersede, ob_title = None, ob_tags = None, ob_description = None,
     ob_metadata = None\<rparr>"

lemma ex_staged_uploaded: "uploaded ex_dg ex_staged (ex_caller [''ingester'']) ''u1'' \<lparr>su_state = ex_state Create Scanning, su_revision = 1\<rparr>
    [\<lparr>up_part_number = 1, up_etag = ''e1'', up_size = 3\<rparr>]"
  by (simp add: uploaded_def own_record_def ex_caller_def ex_staged_def ex_state_def seed_def own_key_def
      empty_world_def empty_uploads_def empty_blobs_def empty_events_def upload_part_def multipart_parts_def mem_stream_def)

theorem completed_upload_is_reported_witness:
  "\<exists>w1 w2. run_state (routes ex_api (ex_caller [''ingester'']) (PostComplete ''u1'' ex_complete)) (ex_staged, []) =
      ((202, JsonAnswer (JObject [(''state'', JString ''scanning'')])), (w1, []))
    \<and> run_state (routes ex_api (ex_caller [''ingester'']) (GetUpload ''u1'')) (w2, []) =
      ((200, UploadAnswer \<lparr>sb_status = Accepted 1 False, sb_document_id = ''d1''\<rparr>), (w2, []))"
proof -
  let ?st = "\<lparr>su_state = ex_state Create Scanning, su_revision = 1\<rparr>"
  let ?c = "ex_caller [''ingester'']"
  note ex_staged_uploaded
  moreover have "patch_valid (da_to_vec ex_api) (cr_patch (complete_request ex_complete))"
    by (simp add: patch_valid_def complete_request_def ex_complete_def)
  moreover have "has_role ?c WRITE_ROLE" by (simp add: has_role_def ex_caller_def WRITE_ROLE_def)
  moreover have "da_service ex_api = mem_service ex_policy" "ob_if_match ex_complete = None"
    by (simp_all add: ex_api_def ex_complete_def)
  ultimately show ?thesis
    using completed_upload_is_reported [OF ex_caller_safe, of "[''ingester'']" ex_api ex_policy ex_dg ex_staged "''u1''" ?st
        _ ex_complete 1 False] by (fastforce simp: ex_state_def)
qed

end
