(* ===== verification/Upload_Bucket.thy ===== *)
theory Upload_Bucket
  imports Chat_Bucket Transition
begin

text \<open>
  The upload records in production: \<open>KvUploadStateStore\<close> of crates/document-adapters/src/jetstream/upload\_state\_store.rs over a
  key-value bucket of JetStream, with serde\_json's coding of a record as two functions. The contract of
  the record store (theory Transition) is interpreted on it, in a bucket that other processes write at the same time and whose
  entries may expire at any moment; so what the in-memory double promises, the production store promises too.
\<close>

section \<open>The store\<close>

record UploadSerde =
  upload_to_vec :: "UploadState \<Rightarrow> (bytes, string) result"
  upload_from_slice :: "bytes \<Rightarrow> (UploadState, string) result"

definition kv_create_upload ::
  "'w KvStore \<Rightarrow> UploadSerde \<Rightarrow> UploadState \<Rightarrow> ('w, (unit, ContextError) result) state" where
  "kv_create_upload bucket sd state = (case upload_to_vec sd state of
      Err e \<Rightarrow> ret (Err (CtxPayload (''encode upload state: '' @ e)))
    | Ok payload \<Rightarrow> kv_create bucket (own_key state) payload \<bind> (\<lambda>r. ret (case r of
          Ok _ \<Rightarrow> Ok ()
        | Err Refused \<Rightarrow> Err CtxAlreadyExists
        | Err (KvFailed e) \<Rightarrow> Err (CtxUnavailable (''create upload state: '' @ e)))))"

definition kv_get_upload ::
  "'w KvStore \<Rightarrow> UploadSerde \<Rightarrow> string \<Rightarrow> string \<Rightarrow> string \<Rightarrow> ('w, (StoredUpload option, ContextError) result) state" where
  "kv_get_upload bucket sd tenant user upload_id =
     attempt (\<lambda>e. CtxUnavailable (''get upload state: '' @ e)) (kv_entry bucket (upload_key tenant user upload_id)) (\<lambda>entry.
       case entry of
         None \<Rightarrow> ret (Ok None)
       | Some entry \<Rightarrow>
           if en_operation entry \<noteq> KvPut then ret (Ok None)
           else ret (case upload_from_slice sd (en_value entry) of
               Err e \<Rightarrow> Err (CtxPayload (''decode upload state: '' @ e))
             | Ok state \<Rightarrow> Ok (Some \<lparr>su_state = state, su_revision = of_nat (en_revision entry)\<rparr>)))"

definition kv_update_upload ::
  "'w KvStore \<Rightarrow> UploadSerde \<Rightarrow> UploadState \<Rightarrow> u64 \<Rightarrow> ('w, (u64, ContextError) result) state" where
  "kv_update_upload bucket sd state revision = (case upload_to_vec sd state of
      Err e \<Rightarrow> ret (Err (CtxPayload (''encode upload state: '' @ e)))
    | Ok payload \<Rightarrow> kv_update bucket (own_key state) payload (unat revision) \<bind> (\<lambda>r. case r of
          Ok revision \<Rightarrow> ret (Ok (of_nat revision))
        | Err Refused \<Rightarrow> kv_entry bucket (own_key state) \<bind> (\<lambda>again. ret (case again of
              Ok (Some entry) \<Rightarrow> if en_operation entry = KvPut then Err CtxConflict else Err CtxExpired
            | Ok None \<Rightarrow> Err CtxExpired
            | Err e \<Rightarrow> Err (CtxUnavailable (''re-read upload state after a lost CAS: '' @ e))))
        | Err (KvFailed e) \<Rightarrow> ret (Err (CtxUnavailable (''update upload state: '' @ e)))))"

definition kv_delete_upload ::
  "'w KvStore \<Rightarrow> string \<Rightarrow> string \<Rightarrow> string \<Rightarrow> ('w, (unit, ContextError) result) state" where
  "kv_delete_upload bucket tenant user upload_id =
     attempt (\<lambda>e. CtxUnavailable (''purge upload state: '' @ e))
       (kv_purge_expect_revision bucket (upload_key tenant user upload_id) None) (\<lambda>_. ret (Ok ()))"

definition KvUploadStateStore :: "'w KvStore \<Rightarrow> UploadSerde \<Rightarrow> 'w UploadStateStore" where
  "KvUploadStateStore bucket sd = \<lparr>ss_create = kv_create_upload bucket sd, ss_get = kv_get_upload bucket sd,
     ss_update = kv_update_upload bucket sd, ss_delete = kv_delete_upload bucket\<rparr>"

lemma KvUploadStateStore_simps [simp]:
  "ss_create (KvUploadStateStore bucket sd) = kv_create_upload bucket sd"
  "ss_get (KvUploadStateStore bucket sd) = kv_get_upload bucket sd"
  "ss_update (KvUploadStateStore bucket sd) = kv_update_upload bucket sd"
  "ss_delete (KvUploadStateStore bucket sd) = kv_delete_upload bucket"
  by (simp_all add: KvUploadStateStore_def)

section \<open>The rules of the bucket\<close>

definition upload_round_trips :: "UploadSerde \<Rightarrow> bool" where
  "upload_round_trips sd = (\<forall>s b. upload_to_vec sd s = Ok b \<longrightarrow> upload_from_slice sd b = Ok s)"

definition kv_record :: "UploadSerde \<Rightarrow> KvWorld \<Rightarrow> string \<Rightarrow> StoredUpload option" where
  "kv_record sd w k = (case put_entry (kw_entries w k) of
      Some e \<Rightarrow> (case upload_from_slice sd (en_value e) of
          Ok s \<Rightarrow> Some \<lparr>su_state = s, su_revision = of_nat (en_revision e)\<rparr> | Err _ \<Rightarrow> None)
    | None \<Rightarrow> None)"

definition filed :: "UploadSerde \<Rightarrow> KvWorld \<Rightarrow> bool" where
  "filed sd w = (\<forall>k st. kv_record sd w k = Some st \<longrightarrow> own_key (su_state st) = k)"

text \<open>Records follow their life cycle, and a write gives an entry a revision the bucket has not used.\<close>

definition record_moves :: "UploadSerde \<Rightarrow> KvWorld \<Rightarrow> KvWorld \<Rightarrow> bool" where
  "record_moves sd w w' = ((\<forall>k. evolves (kv_record sd w k) (kv_record sd w' k)) \<and> kw_revision w \<le> kw_revision w'
    \<and> (\<forall>k. kw_entries w' k = kw_entries w k \<or> kw_entries w' k = None
         \<or> (\<exists>e. kw_entries w' k = Some e \<and> kw_revision w < en_revision e))
    \<and> (bounded w \<longrightarrow> bounded w') \<and> (filed sd w \<longrightarrow> filed sd w'))"

definition record_writer :: "UploadSerde \<Rightarrow> (KvWorld \<Rightarrow> KvWorld) \<Rightarrow> bool" where
  "record_writer sd e = (\<forall>w. bounded w \<longrightarrow> filed sd w \<longrightarrow> record_moves sd w (e w))"

fun uploads_inv :: "UploadSerde \<Rightarrow> KvWorld shared \<Rightarrow> bool" where
  "uploads_inv sd (w, es) = (upload_round_trips sd \<and> bounded w \<and> filed sd w \<and> (\<forall>e \<in> set es. record_writer sd e))"

fun shared_record_moves :: "UploadSerde \<Rightarrow> KvWorld shared \<Rightarrow> KvWorld shared \<Rightarrow> bool" where
  "shared_record_moves sd (w, es) (w', es') = (record_moves sd w w' \<and> set es' \<subseteq> set es)"

lemma record_moves_refl [simp]: "record_moves sd w w"
  by (simp add: record_moves_def)

lemma record_moves_trans:
  assumes "record_moves sd u v" "record_moves sd v w"
  shows "record_moves sd u w"
proof -
  have "kw_entries w k = kw_entries u k \<or> kw_entries w k = None
      \<or> (\<exists>e. kw_entries w k = Some e \<and> kw_revision u < en_revision e)" for k
  proof -
    have "kw_entries w k = kw_entries v k \<or> kw_entries w k = None
        \<or> (\<exists>e. kw_entries w k = Some e \<and> kw_revision v < en_revision e)"
      "kw_entries v k = kw_entries u k \<or> kw_entries v k = None
        \<or> (\<exists>e. kw_entries v k = Some e \<and> kw_revision u < en_revision e)" "kw_revision u \<le> kw_revision v"
      using assms by (auto simp: record_moves_def)
    then show ?thesis by auto
  qed
  moreover have "evolves (kv_record sd u k) (kv_record sd w k)" for k
    using assms evolves_trans unfolding record_moves_def by blast
  ultimately show ?thesis using assms unfolding record_moves_def by auto
qed

lemma uploads_inv_moves: "shared_record_moves sd x y \<Longrightarrow> uploads_inv sd x \<Longrightarrow> uploads_inv sd y"
  by (cases x; cases y) (auto simp: record_moves_def)

lemma shared_record_moves_trans:
  "shared_record_moves sd x y \<Longrightarrow> shared_record_moves sd y z \<Longrightarrow> shared_record_moves sd x z"
  by (cases x; cases y; cases z) (auto intro: record_moves_trans)

text \<open>An operation on the bucket first lets the environment act.\<close>

lemma on_bucket_uploads:
  assumes "uploads_inv sd x" "run_state (on_bucket m) x = (a, y)"
  obtains w es w' where "run_state m w = (a, w')" "y = (w', es)" "shared_record_moves sd x (w, es)" "uploads_inv sd (w, es)"
proof -
  obtain w es where z: "env_step x = (w, es)" by (metis surj_pair)
  have "shared_record_moves sd x (w, es)"
    using assms(1) z by (cases x rule: env_step.cases) (auto simp: record_writer_def)
  moreover from uploads_inv_moves [OF this assms(1)] have "uploads_inv sd (w, es)" .
  ultimately show thesis using that z assms(2) by (auto simp: locked_def split: prod.splits)
qed

lemma kv_write_record:
  assumes "upload_round_trips sd" "upload_to_vec sd s = Ok b"
  shows "kv_record sd (kv_write k b KvPut w) j =
    (if j = k then Some \<lparr>su_state = s, su_revision = of_nat (kw_revision w + 1)\<rparr> else kv_record sd w j)"
  using assms by (auto simp: kv_record_def kv_write_def put_entry_def upload_round_trips_def)

text \<open>A record that is written over the record it was decided on.\<close>

lemma kv_write_moves_record:
  assumes "upload_round_trips sd" "upload_to_vec sd s = Ok b" "kv_record sd w (own_key s) = Some st"
    and "same_upload (su_state st) s" "\<not> is_terminal (us_status (su_state st))"
  shows "record_moves sd w (kv_write (own_key s) b KvPut w)"
  unfolding record_moves_def filed_def kv_write_record [OF assms(1,2)]
  using assms(3-5) by (auto simp: kv_write_def bounded_def intro: le_SucI)

text \<open>An update at the revision that was read finds the record that was read.\<close>

lemma same_record:
  assumes "record_moves sd u w" "bounded u" "kv_record sd u k = Some st" "at_revision k (unat (su_revision st)) w"
  shows "kv_record sd w k = Some st"
proof -
  obtain e where e: "kw_entries u k = Some e" "su_revision st = of_nat (en_revision e)"
    using assms(3) by (auto simp: kv_record_def put_entry_def split: option.splits if_splits result.splits)
  have "unat (of_nat (en_revision e) :: u64) \<le> en_revision e" by (simp add: unsigned_of_nat)
  moreover have "en_revision e \<le> kw_revision u" using assms(2) e(1) by (simp add: bounded_def)
  moreover have "kw_entries w k = kw_entries u k \<or> kw_entries w k = None
      \<or> (\<exists>e. kw_entries w k = Some e \<and> kw_revision u < en_revision e)"
    using assms(1) by (simp add: record_moves_def)
  ultimately have "kw_entries w k = kw_entries u k" using assms(4) e by (auto simp: at_revision_def)
  then show ?thesis using assms(3) by (simp add: kv_record_def)
qed

section \<open>The contract holds\<close>

lemma entry_keeps: "run_state (bucket_entry k) w = (r, w') \<Longrightarrow> w' = w \<and> (\<forall>found. r = Ok found \<longrightarrow> found = kw_entries w k)"
  by (auto simp: bucket_entry_def split: option.splits)

lemma kv_get_run:
  assumes "uploads_inv sd x" "run_state (kv_get_upload LocksBucket sd t u i) x = (r, y)"
  shows "shared_record_moves sd x y \<and> (\<forall>found. r = Ok found \<longrightarrow> kv_record sd (fst y) (upload_key t u i) = found)"
proof -
  let ?k = "upload_key t u i"
  obtain q z where q: "run_state (on_bucket (bucket_entry ?k)) x = (q, z)" by (metis surj_pair)
  obtain w es w' where e: "run_state (bucket_entry ?k) w = (q, w')" "z = (w', es)" "shared_record_moves sd x (w, es)"
    by (rule on_bucket_uploads [OF assms(1) q])
  have y: "y = (w, es)" using assms(2) q e(2) entry_keeps [OF e(1)]
    by (auto simp: kv_get_upload_def run_state_attempt split: result.splits option.splits if_splits)
  have "kv_record sd w ?k = found" if "r = Ok found" for found
    using assms(2) q e(2) entry_keeps [OF e(1)] that
    by (auto simp: kv_get_upload_def run_state_attempt kv_record_def put_entry_def split: result.splits option.splits if_splits)
  with y e(3) show ?thesis by auto
qed

lemma kv_update_run:
  assumes "uploads_inv sd x" "run_state (kv_update_upload LocksBucket sd s v) x = (r, y)"
  obtains (failed) "shared_record_moves sd x y" "\<not> is_ok r" "r = Err CtxExpired \<Longrightarrow> kv_record sd (fst y) (own_key s) = None"
    | (written) w es b where "shared_record_moves sd x (w, es)" "upload_to_vec sd s = Ok b" "at_revision (own_key s) (unat v) w"
        "y = (kv_write (own_key s) b KvPut w, es)" "is_ok r"
proof (cases "upload_to_vec sd s")
  case (Err e)
  have "shared_record_moves sd x x" by (cases x) simp
  then show thesis using failed assms(2) Err by (auto simp: kv_update_upload_def)
next
  case (Ok b)
  let ?k = "own_key s"
  obtain q z where q: "run_state (on_bucket (bucket_update ?k b (unat v))) x = (q, z)" by (metis surj_pair)
  obtain w es w' where u: "run_state (bucket_update ?k b (unat v)) w = (q, w')" "z = (w', es)" "shared_record_moves sd x (w, es)"
    "uploads_inv sd (w, es)"
    by (rule on_bucket_uploads [OF assms(1) q])
  from u(1) show thesis
  proof (cases rule: bucket_update_run)
    case updated
    then show thesis using written [OF u(3) Ok updated(1)] assms(2) Ok q u(2) by (auto simp: kv_update_upload_def)
  next
    case kept
    show thesis
    proof (cases "q = Err Refused")
      case False
      then have "y = (w, es) \<and> \<not> is_ok r \<and> r \<noteq> Err CtxExpired"
        using assms(2) Ok q u(2) kept by (auto simp: kv_update_upload_def split: result.splits KvError.splits)
      then show thesis using failed u(3) by auto
    next
      case True
      obtain p z' where p: "run_state (on_bucket (bucket_entry ?k)) (w, es) = (p, z')" by (metis surj_pair)
      obtain v' es' w'' where e: "run_state (bucket_entry ?k) v' = (p, w'')" "z' = (w'', es')" "shared_record_moves sd (w, es) (v', es')"
        by (rule on_bucket_uploads [OF u(4) p])
      have "y = (v', es') \<and> \<not> is_ok r \<and> (r = Err CtxExpired \<longrightarrow> kv_record sd v' ?k = None)"
        using assms(2) Ok q u(2) kept True p e(2) entry_keeps [OF e(1)]
        by (auto simp: kv_update_upload_def kv_record_def put_entry_def split: result.splits option.splits if_splits)
      then show thesis using failed shared_record_moves_trans [OF u(3) e(3)] by auto
    qed
  qed
qed

lemma shared_record_trans:
  "shared_record_moves sd x (w, es) \<Longrightarrow> record_moves sd w w' \<Longrightarrow> shared_record_moves sd x (w', es)"
  by (cases x) (auto intro: record_moves_trans)

interpretation kv_uploads: upload_records "shared_record_moves sd" "KvUploadStateStore LocksBucket sd"
  "\<lambda>x. kv_record sd (fst x)" "uploads_inv sd"
  for sd
proof (unfold_locales, goal_cases)
  case (1 w)
  then show ?case by (cases w) simp
next
  case (2 u v w)
  then show ?case by (rule shared_record_moves_trans)
next
  case (3 w w')
  then show ?case by (rule uploads_inv_moves)
next
  case (4 w w' k)
  then show ?case by (cases w; cases w') (simp add: record_moves_def)
next
  case (5 w k st)
  then show ?case by (cases w) (simp add: filed_def)
next
  case (6 w t u i g w')
  then show ?case using kv_get_run by simp
next
  case (7 w t u i found w')
  then show ?case using kv_get_run by simp
next
  case (8 w s st v r w')
  from 8(1) 8(6)[simplified] show ?case
  proof (cases rule: kv_update_run)
    case (written v' es b)
    have m: "record_moves sd (fst w) v'" and inv: "bounded (fst w)" "upload_round_trips sd"
      using written(1) 8(1) by (cases w; simp)+
    have "kv_record sd v' (own_key s) = Some st" using same_record [OF m inv(1) 8(2)] written(3) 8(3) by simp
    from shared_record_trans [OF written(1) kv_write_moves_record [OF inv(2) written(2) this 8(4,5)]]
    show ?thesis by (simp add: written(4))
  qed simp
next
  case (9 w s v n w')
  from 9(1) 9(2)[simplified] show ?case
  proof (cases rule: kv_update_run)
    case (written v' es b)
    have "upload_round_trips sd" using 9(1) by (cases w) simp
    then show ?thesis using kv_write_record [OF _ written(2)] by (simp add: written(4))
  qed simp
next
  case (10 w s v w')
  from 10(1) 10(2)[simplified] show ?case
    by (cases rule: kv_update_run) simp_all
qed

text \<open>C5. In production a terminal answer is final too. Whatever the other writers of the bucket do, as long as they follow the
  life cycle of a record, however many compare-and-swaps are lost, and also when the
  bucket fails, answers late or drops the entry: \<open>set_status\<close> never moves a record that has a terminal status, never changes
  the parameters of an upload, never revives an expired one, and what it answers is what the bucket holds.\<close>

theorem bucket_status_is_final:
  assumes "uploads_inv sd x" "run_state (set_status (KvUploadStateStore LocksBucket sd) t u i status now) x = (r, y)"
  shows "evolves (kv_record sd (fst x) k) (kv_record sd (fst y) k)
    \<and> (case r of
         Ok (Applied s) \<Rightarrow> map_option su_state (kv_record sd (fst y) (upload_key t u i)) = Some s \<and> us_status s = status
       | Ok (AlreadyTerminal s) \<Rightarrow> map_option su_state (kv_record sd (fst y) (upload_key t u i)) = Some s \<and> is_terminal (us_status s)
       | Ok Expired \<Rightarrow> kv_record sd (fst y) (upload_key t u i) = None
       | Err _ \<Rightarrow> True)"
proof -
  note post = rgD [OF kv_uploads.rg_set_status assms]
  have "evolves (kv_record sd (fst x) k) (kv_record sd (fst y) k)"
    using post(1) by (cases x; cases y) (simp add: record_moves_def)
  with post(2) show ?thesis
    by (auto simp: kv_uploads.reported_def split: result.splits Transition.splits)
qed

definition sample_upload :: "UploadStatus \<Rightarrow> UploadState" where
  "sample_upload status = \<lparr>us_tenant_id = ''acme'', us_owner_user_id = ''user-1'', us_upload_id = ''u1'',
     us_document_id = ''d1'', us_mode = Create, us_storage_key = ''k'', us_multipart_upload_id = ''mp-1'',
     us_filename = ''report.pdf'', us_content_type = ''application/pdf'',
     us_declared_size = 3, us_part_size_bytes = 5, us_part_count = 1, us_status = status,
     us_created_at = 0, us_updated_at = 0\<rparr>"

text \<open>A coding of the one record in its two states, and the bucket that holds it as still scanning.\<close>

definition sample_upload_serde :: UploadSerde where
  "sample_upload_serde = \<lparr>upload_to_vec = (\<lambda>s. if s = sample_upload Scanning then Ok ''s''
       else if s = sample_upload (Accepted 1 False) then Ok ''a'' else Err ''unexpected''),
     upload_from_slice = (\<lambda>b. if b = ''s'' then Ok (sample_upload Scanning)
       else if b = ''a'' then Ok (sample_upload (Accepted 1 False)) else Err ''unexpected'')\<rparr>"

definition sample_uploads_bucket :: KvWorld where
  "sample_uploads_bucket = \<lparr>kw_entries = [''acme/user-1/u1'' \<mapsto> \<lparr>en_value = ''s'', en_revision = 4, en_operation = KvPut\<rparr>],
     kw_revision = 7, kw_now = 0, kw_down = None\<rparr>"

text \<open>The entry expires between the read and the write.\<close>

definition entry_expires :: "KvWorld \<Rightarrow> KvWorld" where
  "entry_expires w = w\<lparr>kw_entries := Map.empty\<rparr>"

lemma entry_expires_writer: "record_writer sd entry_expires"
  by (auto simp: record_writer_def record_moves_def entry_expires_def kv_record_def put_entry_def bounded_def filed_def
      split: option.splits) (metis evolves.simps(1,3) option.exhaust)

theorem bucket_status_is_final_witness:
  "run_state (set_status (KvUploadStateStore LocksBucket sample_upload_serde) ''acme'' ''user-1'' ''u1'' (Accepted 1 False) 0)
     (sample_uploads_bucket, [id, entry_expires]) = (Ok Expired, (entry_expires sample_uploads_bucket, []))
   \<and> kv_record sample_upload_serde (entry_expires sample_uploads_bucket) ''acme/user-1/u1'' = None"
proof -
  have "upload_round_trips sample_upload_serde"
    by (auto simp: upload_round_trips_def sample_upload_serde_def split: if_splits)
  moreover have "record_writer sample_upload_serde id" by (simp add: record_writer_def)
  ultimately have x: "uploads_inv sample_upload_serde (sample_uploads_bucket, [id, entry_expires])"
    using entry_expires_writer
    by (auto simp: bounded_def filed_def sample_uploads_bucket_def kv_record_def put_entry_def sample_upload_serde_def
        sample_upload_def own_key_def upload_key_def split: if_splits)
  have run: "run_state (set_status (KvUploadStateStore LocksBucket sample_upload_serde) ''acme'' ''user-1'' ''u1'' (Accepted 1 False) 0)
      (sample_uploads_bucket, [id, entry_expires]) = (Ok Expired, (entry_expires sample_uploads_bucket, []))"
    by (simp add: set_status_def CAS_ATTEMPTS_def numeral_3_eq_3 run_state_attempt kv_get_upload_def kv_update_upload_def locked_def
        bucket_entry_def bucket_update_def sample_uploads_bucket_def sample_upload_serde_def upload_key_def own_key_def
        sample_upload_def with_status_def at_revision_def entry_expires_def Let_def)
  from bucket_status_is_final [OF x run] run show ?thesis by (simp add: upload_key_def)
qed

end
