(* ===== verification/Event_Stream.thy ===== *)
theory Event_Stream
  imports Work_Queue
begin

text \<open>
  The event log and the work queue in production: crates/document-adapters/src/jetstream (mod.rs, event\_store.rs and the publishing
  half of work\_queue.rs). The JetStream client is a parameter, a record of the calls the code makes; serde\_json's coding of an event and
  of a work item are functions. The refinement is against the in-memory doubles of crates/document-app/src/testing.rs,
  on a stream with the documented behaviour of JetStream: message ids are deduplicated over the whole stream before the expected sequence
  of the subject is compared.
\<close>

section \<open>The client\<close>

datatype PublishErrorKind = WrongLastSequence | WrongLastMessageId | OtherPublish

record PublishError =
  pe_kind :: PublishErrorKind
  pe_text :: string

record PublishMessage =
  pm_message_id :: "string option"
  pm_expected_stream :: "string option"
  pm_expected_last_subject_sequence :: "u64 option"
  pm_payload :: bytes

record PublishAck =
  pa_sequence :: u64
  pa_duplicate :: bool

datatype DirectGetError = DirectNotFound | DirectFailed string

record DirectMessage =
  dm_sequence :: u64
  dm_payload :: bytes

record ConsumerMessage =
  cm_info :: "(u64, string) result"
  cm_payload :: bytes

text \<open>The messages of a consumer are the sequence of what \<open>next\<close> yields before it yields nothing.\<close>

record 'w ReadConsumer =
  rc_num_pending :: u64
  rc_messages :: "('w, ((ConsumerMessage, string) result list, string) result) state"

text \<open>Sending a message gives a second computation, which waits for the acknowledgement.\<close>

record 'w JetStream =
  js_send_publish :: "string \<Rightarrow> PublishMessage \<Rightarrow>
    ('w, (('w, (PublishAck, PublishError) result) state, PublishError) result) state"
  js_direct_get_last_for_subject :: "string \<Rightarrow> ('w, (DirectMessage, DirectGetError) result) state"
  js_create_consumer :: "string \<Rightarrow> ('w, ('w ReadConsumer, string) result) state"

record EventSerde =
  event_to_vec :: "DocumentEvent \<Rightarrow> (bytes, string) result"
  event_from_slice :: "bytes \<Rightarrow> (DocumentEvent, string) result"

section \<open>The event store\<close>

definition MAX_STREAM_READ :: nat where
  "MAX_STREAM_READ = 10000"

definition map_publish_error :: "PublishError \<Rightarrow> EventStoreError" where
  "map_publish_error error = (case pe_kind error of
      WrongLastSequence \<Rightarrow> ESConflict
    | WrongLastMessageId \<Rightarrow> ESConflict
    | OtherPublish \<Rightarrow> ESUnavailable (pe_text error))"

definition js_append ::
  "'w JetStream \<Rightarrow> (bytes \<Rightarrow> u32) \<Rightarrow> EventSerde \<Rightarrow> DocumentEvent \<Rightarrow> Expect \<Rightarrow> ('w, (Appended, EventStoreError) result) state" where
  "js_append js crc32 sd event expect =
     (let subject = event_subject crc32 (ev_tenant_id event) (ev_document_id event) in
      case event_to_vec sd event of
        Err e \<Rightarrow> ret (Err (ESPayload (''encode event: '' @ e)))
      | Ok payload \<Rightarrow>
          (let expected = (case expect of CreateOnly \<Rightarrow> 0 | Exactly sequence \<Rightarrow> sequence);
               message = \<lparr>pm_message_id = Some (ev_event_id event), pm_expected_stream = None, pm_expected_last_subject_sequence = Some expected, pm_payload = payload\<rparr> in
           attempt map_publish_error (js_send_publish js subject message) (\<lambda>ack.
           attempt map_publish_error ack (\<lambda>ack.
           ret (Ok \<lparr>ap_stream_seq = pa_sequence ack, ap_version = ev_version event, ap_duplicate = pa_duplicate ack\<rparr>)))))"

definition js_last ::
  "'w JetStream \<Rightarrow> (bytes \<Rightarrow> u32) \<Rightarrow> EventSerde \<Rightarrow> string \<Rightarrow> string \<Rightarrow> ('w, ((u64 \<times> u64) option, EventStoreError) result) state" where
  "js_last js crc32 sd tenant document_id =
     js_direct_get_last_for_subject js (event_subject crc32 tenant document_id) \<bind> (\<lambda>r. ret (case r of
         Ok message \<Rightarrow> (case event_from_slice sd (dm_payload message) of
             Err e \<Rightarrow> Err (ESPayload (''decode event: '' @ e))
           | Ok event \<Rightarrow> Ok (Some (ev_version event, dm_sequence message)))
       | Err DirectNotFound \<Rightarrow> Ok None
       | Err (DirectFailed e) \<Rightarrow> Err (ESUnavailable (''direct get last: '' @ e))))"

text \<open>The loop of \<open>read_stream\<close>, with the number of events it still waits for.\<close>

fun read_loop :: "EventSerde \<Rightarrow> nat \<Rightarrow> (ConsumerMessage, string) result list \<Rightarrow> (stream, EventStoreError) result" where
  "read_loop sd 0 messages = Ok []"
| "read_loop sd (Suc n) [] = Ok []"
| "read_loop sd (Suc n) (Err e # messages) = Err (ESUnavailable (''read stream: '' @ e))"
| "read_loop sd (Suc n) (Ok message # messages) = (case cm_info message of
      Err e \<Rightarrow> Err (ESPayload (''missing jetstream metadata: '' @ e))
    | Ok sequence \<Rightarrow> (case event_from_slice sd (cm_payload message) of
        Err e \<Rightarrow> Err (ESPayload (''decode event: '' @ e))
      | Ok event \<Rightarrow> (case read_loop sd n messages of
          Err e \<Rightarrow> Err e
        | Ok events \<Rightarrow> Ok ((sequence, event) # events))))"

definition js_read_stream ::
  "'w JetStream \<Rightarrow> (bytes \<Rightarrow> u32) \<Rightarrow> EventSerde \<Rightarrow> string \<Rightarrow> string \<Rightarrow> ('w, (stream, EventStoreError) result) state" where
  "js_read_stream js crc32 sd tenant document_id =
     attempt (\<lambda>e. ESUnavailable (''create read consumer: '' @ e))
       (js_create_consumer js (event_subject crc32 tenant document_id)) (\<lambda>consumer.
     let pending = unat (min (rc_num_pending consumer) (of_nat MAX_STREAM_READ)) in
     if pending = 0 then ret (Ok [])
     else attempt (\<lambda>e. ESUnavailable (''read stream: '' @ e)) (rc_messages consumer) (\<lambda>messages.
       ret (read_loop sd pending messages)))"

definition JetStreamEventStore :: "'w JetStream \<Rightarrow> (bytes \<Rightarrow> u32) \<Rightarrow> EventSerde \<Rightarrow> 'w EventStore" where
  "JetStreamEventStore js crc32 sd = \<lparr>es_append = js_append js crc32 sd, es_last = js_last js crc32 sd,
     es_read_stream = js_read_stream js crc32 sd\<rparr>"

section \<open>The work queue\<close>

definition js_publish_upload_completed ::
  "'w JetStream \<Rightarrow> (UploadCompleted \<Rightarrow> (bytes, string) result) \<Rightarrow> UploadCompleted \<Rightarrow> ('w, (unit, QueueError) result) state" where
  "js_publish_upload_completed js to_vec cmd = (case to_vec cmd of
      Err e \<Rightarrow> ret (Err (QuPayload (''encode work item: '' @ e)))
    | Ok payload \<Rightarrow>
        (let message = \<lparr>pm_message_id = Some (uc_command_id cmd), pm_expected_stream = None, pm_expected_last_subject_sequence = None, pm_payload = payload\<rparr> in
         attempt (\<lambda>e. QuUnavailable (''publish work item: '' @ pe_text e)) (js_send_publish js UPLOAD_COMPLETED_SUBJECT message) (\<lambda>ack.
         attempt (\<lambda>e. QuUnavailable (''await work item ack: '' @ pe_text e)) ack (\<lambda>_.
         ret (Ok ())))))"

section \<open>Topology\<close>

datatype RetentionPolicy = Limits | WorkQueuePolicy
datatype DiscardPolicy = DiscardOld | DiscardNew

record StreamConfig =
  sc_name :: string
  sc_subjects :: "string list"
  sc_retention :: RetentionPolicy
  sc_max_age :: duration
  sc_discard :: DiscardPolicy
  sc_allow_direct :: bool
  sc_duplicate_window :: duration

record KvConfig =
  kc_bucket :: string
  kc_history :: nat
  kc_max_age :: duration

text \<open>The errors of the database and of the migrations are represented by their messages.\<close>

datatype AdapterError = Connect string | Topology string | Database string | Migrate string | Config ConfigError

definition DUPLICATE_WINDOW :: duration where
  "DUPLICATE_WINDOW = 2 * 3600"

definition DOCUMENT_EVENTS_STREAM :: string where
  "DOCUMENT_EVENTS_STREAM = ''DOCUMENT_EVENTS''"

definition DOCUMENT_WORK_STREAM :: string where
  "DOCUMENT_WORK_STREAM = ''DOCUMENT_WORK''"

definition UPLOAD_STATE_BUCKET :: string where
  "UPLOAD_STATE_BUCKET = ''UPLOAD_STATE''"

definition events_config :: StreamConfig where
  "events_config = \<lparr>sc_name = DOCUMENT_EVENTS_STREAM, sc_subjects = [''documents.>''], sc_retention = Limits, sc_max_age = 0,
     sc_discard = DiscardNew, sc_allow_direct = True, sc_duplicate_window = DUPLICATE_WINDOW\<rparr>"

definition work_config :: StreamConfig where
  "work_config = \<lparr>sc_name = DOCUMENT_WORK_STREAM, sc_subjects = [''document_work.>''], sc_retention = WorkQueuePolicy, sc_max_age = 0,
     sc_discard = DiscardOld, sc_allow_direct = False, sc_duplicate_window = DUPLICATE_WINDOW\<rparr>"

definition upload_state_config :: "duration \<Rightarrow> KvConfig" where
  "upload_state_config upload_ttl = \<lparr>kc_bucket = UPLOAD_STATE_BUCKET, kc_history = 1, kc_max_age = upload_ttl\<rparr>"

definition ensure_topology ::
  "(StreamConfig \<Rightarrow> ('w, (unit, string) result) state) \<Rightarrow> (KvConfig \<Rightarrow> ('w, ('kv, string) result) state) \<Rightarrow> duration \<Rightarrow>
     ('w, ('kv, AdapterError) result) state" where
  "ensure_topology create_or_update_stream create_or_update_key_value upload_ttl =
     attempt (\<lambda>e. Topology (''create '' @ DOCUMENT_EVENTS_STREAM @ '': '' @ e)) (create_or_update_stream events_config) (\<lambda>_.
     attempt (\<lambda>e. Topology (''create '' @ DOCUMENT_WORK_STREAM @ '': '' @ e)) (create_or_update_stream work_config) (\<lambda>_.
     attempt (\<lambda>e. Topology (''create '' @ UPLOAD_STATE_BUCKET @ '': '' @ e))
       (create_or_update_key_value (upload_state_config upload_ttl)) (\<lambda>bucket. ret (Ok bucket))))"

section \<open>A stream\<close>

record StreamMessage =
  sg_subject :: string
  sg_sequence :: u64
  sg_payload :: bytes

record StreamWorld =
  sw_log :: "StreamMessage list"
  sw_sequence :: u64
  sw_window :: "string \<rightharpoonup> u64"
  sw_down :: "string option"

definition empty_stream :: StreamWorld where
  "empty_stream = \<lparr>sw_log = [], sw_sequence = 0, sw_window = Map.empty, sw_down = None\<rparr>"

definition on_subject :: "string \<Rightarrow> StreamWorld \<Rightarrow> StreamMessage list" where
  "on_subject s w = filter (\<lambda>m. sg_subject m = s) (sw_log w)"

definition subject_sequence :: "string \<Rightarrow> StreamWorld \<Rightarrow> u64" where
  "subject_sequence s w = (if on_subject s w = [] then 0 else sg_sequence (last (on_subject s w)))"

definition stream_add :: "string \<Rightarrow> PublishMessage \<Rightarrow> StreamWorld \<Rightarrow> StreamWorld" where
  "stream_add s m w = w\<lparr>sw_sequence := sw_sequence w + 1,
     sw_log := sw_log w @ [\<lparr>sg_subject = s, sg_sequence = sw_sequence w + 1, sg_payload = pm_payload m\<rparr>],
     sw_window := (case pm_message_id m of Some i \<Rightarrow> (sw_window w)(i \<mapsto> sw_sequence w + 1) | None \<Rightarrow> sw_window w)\<rparr>"

definition stream_publish :: "string \<Rightarrow> PublishMessage \<Rightarrow> StreamWorld \<Rightarrow> (PublishAck, PublishError) result \<times> StreamWorld" where
  "stream_publish s m w = (case Option.bind (pm_message_id m) (sw_window w) of
      Some q \<Rightarrow> (Ok \<lparr>pa_sequence = q, pa_duplicate = True\<rparr>, w)
    | None \<Rightarrow>
        if pm_expected_last_subject_sequence m \<notin> {None, Some (subject_sequence s w)}
        then (Err \<lparr>pe_kind = WrongLastSequence, pe_text = ''wrong last sequence''\<rparr>, w)
        else (Ok \<lparr>pa_sequence = sw_sequence w + 1, pa_duplicate = False\<rparr>, stream_add s m w))"

definition StreamServer :: "StreamWorld JetStream" where
  "StreamServer = \<lparr>
     js_send_publish = (\<lambda>s m. State (\<lambda>w. case sw_down w of
         Some e \<Rightarrow> (Err \<lparr>pe_kind = OtherPublish, pe_text = e\<rparr>, w)
       | None \<Rightarrow> (case stream_publish s m w of (r, w') \<Rightarrow> (Ok (ret r), w')))),
     js_direct_get_last_for_subject = (\<lambda>s. State (\<lambda>w. (case sw_down w of
         Some e \<Rightarrow> Err (DirectFailed e)
       | None \<Rightarrow> if on_subject s w = [] then Err DirectNotFound
           else Ok \<lparr>dm_sequence = sg_sequence (last (on_subject s w)), dm_payload = sg_payload (last (on_subject s w))\<rparr>, w))),
     js_create_consumer = (\<lambda>s. State (\<lambda>w. (case sw_down w of
         Some e \<Rightarrow> Err e
       | None \<Rightarrow> Ok \<lparr>rc_num_pending = of_nat (length (on_subject s w)),
           rc_messages = State (\<lambda>w. (Ok (map (\<lambda>m. Ok \<lparr>cm_info = Ok (sg_sequence m), cm_payload = sg_payload m\<rparr>) (on_subject s w)), w))\<rparr>, w)))\<rparr>"

section \<open>Operations on a log\<close>

datatype LogOp = OpAppend DocumentEvent Expect | OpLast string string | OpRead string string | OpOutage bool

datatype LogAnswer =
    AppendAnswer "(Appended, EventStoreError) result"
  | LastAnswer "((u64 \<times> u64) option, EventStoreError) result"
  | ReadAnswer "(stream, EventStoreError) result"
  | NoAnswer

text \<open>One operation on an event store; an outage begins or ends.\<close>

definition perform_log :: "'w EventStore \<Rightarrow> (bool \<Rightarrow> 'w \<Rightarrow> 'w) \<Rightarrow> LogOp \<Rightarrow> ('w, LogAnswer) state" where
  "perform_log es outage opn = (case opn of
      OpAppend event expect \<Rightarrow> es_append es event expect \<bind> (\<lambda>r. ret (AppendAnswer r))
    | OpLast tenant document_id \<Rightarrow> es_last es tenant document_id \<bind> (\<lambda>r. ret (LastAnswer r))
    | OpRead tenant document_id \<Rightarrow> es_read_stream es tenant document_id \<bind> (\<lambda>r. ret (ReadAnswer r))
    | OpOutage begins \<Rightarrow> State (\<lambda>w. (NoAnswer, outage begins w)))"

fun perform_logs :: "'w EventStore \<Rightarrow> (bool \<Rightarrow> 'w \<Rightarrow> 'w) \<Rightarrow> LogOp list \<Rightarrow> ('w, LogAnswer list) state" where
  "perform_logs es outage [] = ret []"
| "perform_logs es outage (opn # ops) =
     perform_log es outage opn \<bind> (\<lambda>a. perform_logs es outage ops \<bind> (\<lambda>as. ret (a # as)))"

text \<open>The in-memory event store on its own, and the two outages.\<close>

definition PlainEventStore :: "EventStoreState EventStore" where
  "PlainEventStore = \<lparr>es_append = mem_append, es_last = mem_last, es_read_stream = mem_read_stream\<rparr>"

definition stream_outage :: "bool \<Rightarrow> StreamWorld \<Rightarrow> StreamWorld" where
  "stream_outage begins w = w\<lparr>sw_down := (if begins then Some ''no responders'' else None)\<rparr>"

text \<open>Answers that are the same to a caller who, as the port says, re-reads the version of a duplicate.\<close>

fun same_answer :: "LogAnswer \<Rightarrow> LogAnswer \<Rightarrow> bool" where
  "same_answer (AppendAnswer (Ok a)) (AppendAnswer (Ok b)) = (ap_stream_seq a = ap_stream_seq b \<and> ap_duplicate a = ap_duplicate b
     \<and> (\<not> ap_duplicate a \<longrightarrow> ap_version a = ap_version b))"
| "same_answer (AppendAnswer (Err e)) (AppendAnswer (Err e')) = (e = ESConflict \<longleftrightarrow> e' = ESConflict)"
| "same_answer (LastAnswer (Ok h)) (LastAnswer (Ok h')) = (h = h')"
| "same_answer (LastAnswer (Err e)) (LastAnswer (Err e')) = (e \<noteq> ESConflict \<and> e' \<noteq> ESConflict)"
| "same_answer (ReadAnswer (Ok l)) (ReadAnswer (Ok l')) = (l = l')"
| "same_answer (ReadAnswer (Err e)) (ReadAnswer (Err e')) = (e \<noteq> ESConflict \<and> e' \<noteq> ESConflict)"
| "same_answer NoAnswer NoAnswer = True"
| "same_answer _ _ = False"

text \<open>The operations in question: events survive their coding, an event id belongs to one document, and tenants are safe segments.\<close>

fun op_ok :: "EventSerde \<Rightarrow> (string \<Rightarrow> string \<times> string) \<Rightarrow> LogOp \<Rightarrow> bool" where
  "op_ok sd own (OpAppend event _) = (is_safe_segment (ev_tenant_id event)
     \<and> own (ev_event_id event) = (ev_tenant_id event, ev_document_id event)
     \<and> (case event_to_vec sd event of Ok b \<Rightarrow> event_from_slice sd b = Ok event | Err _ \<Rightarrow> False))"
| "op_ok sd own (OpLast tenant _) = is_safe_segment tenant"
| "op_ok sd own (OpRead tenant _) = is_safe_segment tenant"
| "op_ok sd own (OpOutage _) = True"

section \<open>Simulation\<close>

lemma event_subject_inj:
  assumes "is_safe_segment t" "is_safe_segment t'"
  shows "event_subject crc32 t d = event_subject crc32 t' d' \<longleftrightarrow> t = t' \<and> d = d'"
proof
  assume "event_subject crc32 t d = event_subject crc32 t' d'"
  then have eq: "t @ CHR ''.'' # (show_pad2 (crc32 d mod EVENT_PARTITIONS) @ CHR ''.'' # d) =
      t' @ CHR ''.'' # (show_pad2 (crc32 d' mod EVENT_PARTITIONS) @ CHR ''.'' # d')"
    by (simp add: event_subject_def Let_def)
  then have "t = t'" "show_pad2 (crc32 d mod EVENT_PARTITIONS) @ CHR ''.'' # d = show_pad2 (crc32 d' mod EVENT_PARTITIONS) @ CHR ''.'' # d'"
    using append_sep_eq [of "CHR ''.''" t t'] safe_segment_sep(2) [OF assms(1)] safe_segment_sep(2) [OF assms(2)] by auto
  then show "t = t' \<and> d = d'"
    using append_sep_eq [of "CHR ''.''" "show_pad2 (crc32 d mod EVENT_PARTITIONS)" "show_pad2 (crc32 d' mod EVENT_PARTITIONS)"]
    by (simp add: show_pad2_no_dot)
qed simp

definition stores :: "EventSerde \<Rightarrow> StreamMessage \<Rightarrow> u64 \<times> DocumentEvent \<Rightarrow> bool" where
  "stores sd m x = (sg_sequence m = fst x \<and> event_from_slice sd (sg_payload m) = Ok (snd x))"

definition mirrors ::
  "(bytes \<Rightarrow> u32) \<Rightarrow> EventSerde \<Rightarrow> (string \<Rightarrow> string \<times> string) \<Rightarrow> StreamWorld \<Rightarrow> EventStoreState \<Rightarrow> bool" where
  "mirrors crc32 sd own w st =
     ((\<forall>t d. is_safe_segment t \<longrightarrow> list_all2 (stores sd) (on_subject (event_subject crc32 t d) w) (mem_stream st t d))
    \<and> sw_sequence w = me_head st
    \<and> (\<forall>t d i q. me_seen st (t, d, i) = Some q \<longrightarrow> sw_window w i = Some q \<and> own i = (t, d))
    \<and> (\<forall>i q. sw_window w i = Some q \<longrightarrow> me_seen st (fst (own i), snd (own i), i) = Some q)
    \<and> \<not> me_always_conflict st \<and> me_conflicts_remaining st = 0 \<and> (me_unavailable st \<longleftrightarrow> sw_down w \<noteq> None))"

lemma mirrors_stream:
  "mirrors crc32 sd own w st \<Longrightarrow> is_safe_segment t \<Longrightarrow>
     list_all2 (stores sd) (on_subject (event_subject crc32 t d) w) (mem_stream st t d)"
  by (simp add: mirrors_def)

lemma list_all2_last: "list_all2 P xs ys \<Longrightarrow> xs \<noteq> [] \<Longrightarrow> P (last xs) (last ys)"
  by (cases "ys = []") (auto simp: list_all2_conv_all_nth last_conv_nth)

lemma mirrors_sequence:
  assumes "list_all2 (stores sd) (on_subject s w) l"
  shows "subject_sequence s w = last_seq l" "on_subject s w = [] \<longleftrightarrow> l = []"
  using assms list_all2_last [OF assms] by (auto simp: subject_sequence_def last_seq_def stores_def)

lemma read_loop_all:
  assumes "list_all2 (stores sd) ms l"
  shows "read_loop sd n (map (\<lambda>m. Ok \<lparr>cm_info = Ok (sg_sequence m), cm_payload = sg_payload m\<rparr>) ms) = Ok (take n l)"
  using assms
proof (induction arbitrary: n)
  case Nil
  then show ?case by (cases n) auto
next
  case (Cons m x ms l)
  then show ?case by (cases n) (auto simp: stores_def)
qed

lemma run_js_append:
  assumes "event_to_vec sd e = Ok b"
  shows "run_state (js_append StreamServer crc32 sd e x) w =
    (let s = event_subject crc32 (ev_tenant_id e) (ev_document_id e);
         m = \<lparr>pm_message_id = Some (ev_event_id e), pm_expected_stream = None, pm_expected_last_subject_sequence = Some (expected_seq x), pm_payload = b\<rparr> in
     if sw_down w \<noteq> None then (Err (ESUnavailable (the (sw_down w))), w)
     else (case sw_window w (ev_event_id e) of
         Some q \<Rightarrow> (Ok \<lparr>ap_stream_seq = q, ap_version = ev_version e, ap_duplicate = True\<rparr>, w)
       | None \<Rightarrow> if subject_sequence s w \<noteq> expected_seq x then (Err ESConflict, w)
           else (Ok \<lparr>ap_stream_seq = sw_sequence w + 1, ap_version = ev_version e, ap_duplicate = False\<rparr>, stream_add s m w)))"
  using assms
  by (cases x; cases "sw_down w"; cases "sw_window w (ev_event_id e)")
    (auto simp: js_append_def StreamServer_def stream_publish_def run_state_attempt map_publish_error_def Let_def)

lemma on_subject_add:
  "on_subject s (stream_add s' m w) = on_subject s w @ (if s = s'
     then [\<lparr>sg_subject = s, sg_sequence = sw_sequence w + 1, sg_payload = pm_payload m\<rparr>] else [])"
  by (auto simp: on_subject_def stream_add_def)

text \<open>A new event, appended on both sides.\<close>

lemma mirrors_append:
  assumes "mirrors crc32 sd own w st" "op_ok sd own (OpAppend e x)" "event_from_slice sd b = Ok e"
    and s: "s = event_subject crc32 (ev_tenant_id e) (ev_document_id e)"
    and m: "m = \<lparr>pm_message_id = Some (ev_event_id e), pm_expected_stream = None, pm_expected_last_subject_sequence = Some n, pm_payload = b\<rparr>"
    and st': "st' = st\<lparr>me_head := me_head st + 1,
         me_seen := (me_seen st)((ev_tenant_id e, ev_document_id e, ev_event_id e) \<mapsto> me_head st + 1),
         me_streams := (me_streams st)((ev_tenant_id e, ev_document_id e) \<mapsto>
           mem_stream st (ev_tenant_id e) (ev_document_id e) @ [(me_head st + 1, e)])\<rparr>"
  shows "mirrors crc32 sd own (stream_add s m w) st'"
proof -
  have e: "is_safe_segment (ev_tenant_id e)" "own (ev_event_id e) = (ev_tenant_id e, ev_document_id e)"
    using assms(2) by simp_all
  have heads: "sw_sequence w = me_head st" using assms(1) by (simp add: mirrors_def)
  have seen: "me_seen st (t, d, i) = Some q \<Longrightarrow> sw_window w i = Some q \<and> own i = (t, d)"
    "sw_window w i = Some q \<Longrightarrow> me_seen st (fst (own i), snd (own i), i) = Some q" for t d i q
    using assms(1) unfolding mirrors_def by blast+
  have "list_all2 (stores sd) (on_subject (event_subject crc32 t d) (stream_add s m w)) (mem_stream st' t d)"
    if "is_safe_segment t" for t d
    using mirrors_stream [OF assms(1) that, of d] event_subject_inj [OF that e(1), of crc32 d "ev_document_id e"] assms(3)
    by (auto simp: on_subject_add s m st' mem_stream_update heads stores_def list_all2_appendI)
  moreover have "sw_sequence (stream_add s m w) = me_head st'" by (simp add: stream_add_def st' heads)
  moreover have "sw_window (stream_add s m w) i = Some q \<and> own i = (t, d)" if "me_seen st' (t, d, i) = Some q" for t d i q
    using that seen(1) [of t d i q] seen(2) [of i] e(2) heads
    by (cases "(t, d, i) = (ev_tenant_id e, ev_document_id e, ev_event_id e)") (auto simp: st' stream_add_def m)
  moreover have "me_seen st' (fst (own i), snd (own i), i) = Some q" if "sw_window (stream_add s m w) i = Some q" for i q
    using that seen(2) [of i q] e(2) heads by (cases "i = ev_event_id e") (auto simp: st' stream_add_def m)
  moreover have "\<not> me_always_conflict st' \<and> me_conflicts_remaining st' = 0 \<and>
      (me_unavailable st' \<longleftrightarrow> sw_down (stream_add s m w) \<noteq> None)"
    using assms(1) by (simp add: mirrors_def st' stream_add_def)
  ultimately show ?thesis unfolding mirrors_def by blast
qed

text \<open>Each operation gives the same answer on both sides and leaves them mirrored; the stream grows by at most one message.\<close>

lemma append_simulates:
  assumes "mirrors crc32 sd own w st" "op_ok sd own (OpAppend e x)"
    and "run_state (js_append StreamServer crc32 sd e x) w = (r, w')" "run_state (mem_append e x) st = (r', st')"
  shows "same_answer (AppendAnswer r) (AppendAnswer r') \<and> mirrors crc32 sd own w' st' \<and> length (sw_log w') \<le> Suc (length (sw_log w))"
proof -
  let ?s = "event_subject crc32 (ev_tenant_id e) (ev_document_id e)"
  let ?k = "(ev_tenant_id e, ev_document_id e, ev_event_id e)"
  obtain b where b: "event_to_vec sd e = Ok b" "event_from_slice sd b = Ok e"
    using assms(2) by (auto split: result.splits)
  have own: "own (ev_event_id e) = (ev_tenant_id e, ev_document_id e)" and safe: "is_safe_segment (ev_tenant_id e)"
    using assms(2) by simp_all
  have seen: "me_seen st ?k = sw_window w (ev_event_id e)"
    using assms(1) own by (cases "me_seen st ?k"; cases "sw_window w (ev_event_id e)") (fastforce simp: mirrors_def)+
  have seq: "subject_sequence ?s w = last_seq (mem_stream st (ev_tenant_id e) (ev_document_id e))"
    using mirrors_sequence(1) [OF mirrors_stream [OF assms(1) safe]] .
  have flags: "\<not> me_always_conflict st" "me_conflicts_remaining st = 0" "me_unavailable st \<longleftrightarrow> sw_down w \<noteq> None" "sw_sequence w = me_head st"
    using assms(1) by (simp_all add: mirrors_def)
  consider (down) "sw_down w \<noteq> None" | (dup) q where "sw_down w = None" "sw_window w (ev_event_id e) = Some q"
    | (lost) "sw_down w = None" "sw_window w (ev_event_id e) = None" "subject_sequence ?s w \<noteq> expected_seq x"
    | (new) "sw_down w = None" "sw_window w (ev_event_id e) = None" "subject_sequence ?s w = expected_seq x"
    by blast
  then show ?thesis
  proof cases
    case new
    have "mirrors crc32 sd own (stream_add ?s \<lparr>pm_message_id = Some (ev_event_id e), pm_expected_stream = None,
        pm_expected_last_subject_sequence = Some (expected_seq x), pm_payload = b\<rparr> w) st'"
      by (rule mirrors_append [OF assms(1,2) b(2) refl refl])
        (use assms(4) new flags seen seq in \<open>auto simp: mem_append_def Let_def\<close>)
    then show ?thesis using assms(3,4) new flags seen seq
      by (auto simp: run_js_append [OF b(1)] mem_append_def Let_def stream_add_def)
  qed (use assms(1,3,4) flags seen seq in \<open>auto simp: run_js_append [OF b(1)] mem_append_def Let_def\<close>)
qed

lemma last_simulates:
  assumes "mirrors crc32 sd own w st" "is_safe_segment t"
    and "run_state (js_last StreamServer crc32 sd t d) w = (r, w')" "run_state (mem_last t d) st = (r', st')"
  shows "same_answer (LastAnswer r) (LastAnswer r') \<and> w' = w \<and> st' = st"
proof -
  let ?ms = "on_subject (event_subject crc32 t d) w"
  have l: "list_all2 (stores sd) ?ms (mem_stream st t d)" using mirrors_stream [OF assms(1,2)] .
  have "me_unavailable st \<longleftrightarrow> sw_down w \<noteq> None" using assms(1) by (simp add: mirrors_def)
  then show ?thesis using assms(3,4) mirrors_sequence(2) [OF l] list_all2_last [OF l]
    by (auto simp: js_last_def mem_last_def StreamServer_def stream_head_def stores_def)
qed

text \<open>A read returns the oldest events of a history, as many as the cap allows.\<close>

lemma run_js_read:
  assumes "list_all2 (stores sd) (on_subject (event_subject crc32 t d) w) l" "length l < 2 ^ 64"
  shows "run_state (js_read_stream StreamServer crc32 sd t d) w =
    (case sw_down w of Some e \<Rightarrow> Err (ESUnavailable (''create read consumer: '' @ e)) | None \<Rightarrow> Ok (take MAX_STREAM_READ l), w)"
proof (cases "sw_down w")
  case None
  let ?ms = "on_subject (event_subject crc32 t d) w" and ?n = "min (length l) MAX_STREAM_READ"
  have len: "length ?ms = length l" using assms(1) by (rule list_all2_lengthD)
  have "unat (min (of_nat (length ?ms)) (of_nat MAX_STREAM_READ) :: u64) = ?n"
    using assms(2) by (simp add: len MAX_STREAM_READ_def min_def word_le_nat_alt unat_of_nat_small)
  then show ?thesis using None read_loop_all [OF assms(1), of ?n]
    by (cases "?n = 0") (simp_all add: js_read_stream_def StreamServer_def run_state_attempt Let_def MAX_STREAM_READ_def min_def split: if_splits)
next
  case (Some e)
  then show ?thesis by (simp add: js_read_stream_def StreamServer_def run_state_attempt)
qed

lemma read_simulates:
  assumes "mirrors crc32 sd own w st" "is_safe_segment t" "length (sw_log w) \<le> MAX_STREAM_READ"
    and "run_state (js_read_stream StreamServer crc32 sd t d) w = (r, w')" "run_state (mem_read_stream t d) st = (r', st')"
  shows "same_answer (ReadAnswer r) (ReadAnswer r') \<and> w' = w \<and> st' = st"
proof -
  let ?ms = "on_subject (event_subject crc32 t d) w"
  have l: "list_all2 (stores sd) ?ms (mem_stream st t d)" using mirrors_stream [OF assms(1,2)] .
  have "length ?ms \<le> MAX_STREAM_READ"
    unfolding on_subject_def using order.trans [OF length_filter_le assms(3)] .
  then have "length (mem_stream st t d) \<le> MAX_STREAM_READ" using l by (simp add: list_all2_lengthD)
  moreover from this have "length (mem_stream st t d) < 2 ^ 64" by (simp add: MAX_STREAM_READ_def)
  moreover have "me_unavailable st \<longleftrightarrow> sw_down w \<noteq> None" using assms(1) by (simp add: mirrors_def)
  ultimately show ?thesis using assms(4,5) run_js_read [OF l]
    by (auto simp: mem_read_stream_def)
qed

text \<open>Running the operations on both sides.\<close>

lemma perform_simulates:
  assumes "mirrors crc32 sd own w st" "op_ok sd own opn" "length (sw_log w) \<le> MAX_STREAM_READ"
    and "run_state (perform_log (JetStreamEventStore StreamServer crc32 sd) stream_outage opn) w = (a, w')"
    and "run_state (perform_log PlainEventStore set_unavailable opn) st = (a', st')"
  shows "same_answer a a' \<and> mirrors crc32 sd own w' st' \<and> length (sw_log w') \<le> Suc (length (sw_log w))"
proof (cases opn)
  case (OpAppend e x)
  then show ?thesis using assms append_simulates [OF assms(1)]
    by (auto simp: perform_log_def JetStreamEventStore_def PlainEventStore_def split: prod.splits)
next
  case (OpLast t d)
  then show ?thesis using assms
    by (auto simp: perform_log_def JetStreamEventStore_def PlainEventStore_def split: prod.splits dest!: last_simulates [OF assms(1)])
next
  case (OpRead t d)
  then show ?thesis using assms
    by (auto simp: perform_log_def JetStreamEventStore_def PlainEventStore_def split: prod.splits
        dest!: read_simulates [OF assms(1) _ assms(3)])
next
  case (OpOutage b)
  have "mirrors crc32 sd own (stream_outage b w) (set_unavailable b st)"
    using assms(1) by (simp add: mirrors_def stream_outage_def set_unavailable_def on_subject_def mem_stream_def)
  then show ?thesis using OpOutage assms(4,5) by (auto simp: perform_log_def stream_outage_def)
qed

lemma performs_simulate:
  assumes "mirrors crc32 sd own w st" "list_all (op_ok sd own) ops" "length (sw_log w) + length ops \<le> MAX_STREAM_READ"
  shows "list_all2 same_answer
    (fst (run_state (perform_logs (JetStreamEventStore StreamServer crc32 sd) stream_outage ops) w))
    (fst (run_state (perform_logs PlainEventStore set_unavailable ops) st))"
  using assms(1-3)
proof (induction ops arbitrary: w st)
  case (Cons opn ops)
  obtain a w' where a: "run_state (perform_log (JetStreamEventStore StreamServer crc32 sd) stream_outage opn) w = (a, w')"
    by (metis surj_pair)
  obtain a' st' where a': "run_state (perform_log PlainEventStore set_unavailable opn) st = (a', st')" by (metis surj_pair)
  have "same_answer a a' \<and> mirrors crc32 sd own w' st' \<and> length (sw_log w') \<le> Suc (length (sw_log w))"
    using perform_simulates [OF Cons.prems(1) _ _ a a'] Cons.prems by simp
  then show ?case using Cons.IH [of w' st'] Cons.prems a a' by (auto split: prod.splits)
qed simp

lemma mirrors_empty: "mirrors crc32 sd own empty_stream empty_events"
  by (simp add: mirrors_def empty_stream_def empty_events_def on_subject_def mem_stream_def)


text \<open>Two writers race for the head of a new document, and one of them retries after an outage.\<close>

definition sample_log_event :: "string \<Rightarrow> DocumentEvent" where
  "sample_log_event i = \<lparr>ev_v = 1, ev_event_id = i, ev_tenant_id = ''acme'', ev_document_id = ''d1'', ev_actor = User ''user-1'',
     ev_version = 1, ev_ts = 0, ev_payload = DocumentCreated
       \<lparr>dc_blob_ref = ''u1'', dc_filename = ''f'', dc_content_type = ''t'', dc_byte_size = 3, dc_checksum = ''c'', dc_patch = empty_patch\<rparr>\<rparr>"

definition sample_log_ops :: "LogOp list" where
  "sample_log_ops = [OpAppend (sample_log_event ''a'') CreateOnly, OpAppend (sample_log_event ''b'') CreateOnly, OpOutage True,
     OpAppend (sample_log_event ''a'') CreateOnly, OpOutage False, OpAppend (sample_log_event ''a'') CreateOnly, OpRead ''acme'' ''d1'']"

definition sample_event_serde :: EventSerde where
  "sample_event_serde = \<lparr>event_to_vec = (\<lambda>e. Ok (ev_event_id e)), event_from_slice = (\<lambda>b. Ok (sample_log_event b))\<rparr>"



text \<open>Ten thousand changes of the metadata, and then the event of the upload; every event is coded as its id.\<close>

definition metadata_event :: DocumentEvent where
  "metadata_event = (sample_log_event ''m'')\<lparr>ev_payload := DocumentMetadataChanged empty_patch\<rparr>"

definition long_history :: stream where
  "long_history = map (\<lambda>i. (of_nat (i + 1), metadata_event)) [0..<MAX_STREAM_READ]
     @ [(of_nat (MAX_STREAM_READ + 1), sample_log_event ''a'')]"

definition long_serde :: EventSerde where
  "long_serde = \<lparr>event_to_vec = (\<lambda>e. Ok (ev_event_id e)),
     event_from_slice = (\<lambda>b. Ok (if b = ''m'' then metadata_event else sample_log_event b))\<rparr>"

definition long_stream :: StreamWorld where
  "long_stream = \<lparr>sw_log = map (\<lambda>x. \<lparr>sg_subject = event_subject (\<lambda>_. 9) ''acme'' ''d1'', sg_sequence = fst x,
       sg_payload = ev_event_id (snd x)\<rparr>) long_history,
     sw_sequence = of_nat (MAX_STREAM_READ + 1), sw_window = Map.empty, sw_down = None\<rparr>"

lemma long_stream_stores:
  "list_all2 (stores long_serde) (on_subject (event_subject (\<lambda>_. 9) ''acme'' ''d1'') long_stream) long_history"
proof -
  have "on_subject (event_subject (\<lambda>_. 9) ''acme'' ''d1'') long_stream = sw_log long_stream"
    by (auto simp: on_subject_def long_stream_def filter_id_conv)
  moreover have "stores long_serde \<lparr>sg_subject = s, sg_sequence = fst x, sg_payload = ev_event_id (snd x)\<rparr> x" if "x \<in> set long_history" for s x
    using that by (auto simp: long_history_def stores_def long_serde_def metadata_event_def sample_log_event_def)
  ultimately show ?thesis by (auto simp: long_stream_def list_all2_map1 list_all2_same)
qed


section \<open>The queue\<close>

text \<open>What the work stream holds, and what the in-memory queue holds.\<close>

definition queue_mirrors :: "(bytes \<Rightarrow> (UploadCompleted, string) result) \<Rightarrow> StreamWorld \<Rightarrow> UploadCompleted list \<Rightarrow> bool" where
  "queue_mirrors from_slice w q = (map (from_slice \<circ> sg_payload) (on_subject UPLOAD_COMPLETED_SUBJECT w) = map Ok q
     \<and> (\<forall>i. sw_window w i \<noteq> None \<longleftrightarrow> list_ex (\<lambda>c. uc_command_id c = i) q) \<and> sw_down w = None)"

lemma queue_mirrors_window:
  "queue_mirrors from_slice w q \<Longrightarrow> sw_window w i \<noteq> None \<longleftrightarrow> list_ex (\<lambda>c. uc_command_id c = i) q"
  by (simp add: queue_mirrors_def)

text \<open>Publishing an item keeps the production queue equal to the in-memory one, duplicates included.\<close>

lemma publish_simulates:
  assumes "queue_mirrors from_slice w q" "to_vec cmd = Ok b" "from_slice b = Ok cmd"
  shows "\<exists>w'. run_state (js_publish_upload_completed StreamServer to_vec cmd) w = (Ok (), w')
    \<and> queue_mirrors from_slice w' (snd (run_state (mem_publish cmd) q)) \<and> fst (run_state (mem_publish cmd) q) = Ok ()"
proof (cases "sw_window w (uc_command_id cmd)")
  case None
  let ?m = "\<lparr>pm_message_id = Some (uc_command_id cmd), pm_expected_stream = None, pm_expected_last_subject_sequence = None, pm_payload = b\<rparr>"
  have "\<not> list_ex (\<lambda>c. uc_command_id c = uc_command_id cmd) q" using queue_mirrors_window [OF assms(1)] None by blast
  moreover have "queue_mirrors from_slice (stream_add UPLOAD_COMPLETED_SUBJECT ?m w) (q @ [cmd])"
    using assms(1,3) by (auto simp: queue_mirrors_def on_subject_add) (auto simp: stream_add_def)
  ultimately show ?thesis using assms None
    by (simp add: js_publish_upload_completed_def StreamServer_def stream_publish_def run_state_attempt mem_publish_def queue_mirrors_def)
next
  case (Some n)
  have "list_ex (\<lambda>c. uc_command_id c = uc_command_id cmd) q" using queue_mirrors_window [OF assms(1)] Some by blast
  then show ?thesis using assms Some
    by (simp add: js_publish_upload_completed_def StreamServer_def stream_publish_def run_state_attempt mem_publish_def queue_mirrors_def)
qed

end
