(* ===== verification/Chat_Stream.thy ===== *)
theory Chat_Stream
  imports Chat_Bucket Event_Stream Settings "HOL-Library.Countable"
begin

text \<open>
  The messaging half of \<open>NatsChatBus\<close> (crates/nats/src/lib.rs): publishing commands, events and stops, the replay index in its key-value bucket, replaying a
  range of events, and the consumers that feed the process. The client of NATS, the bucket and serde\_json are parameters.
  The refinement is against the in-memory bus of Chat\_Bus, on a stream and a bucket with the documented behaviour.
\<close>

section \<open>The client\<close>

record RawMessage =
  rw_subject :: string
  rw_payload :: bytes

record 'w ChatClient =
  nc_send_publish :: "string \<Rightarrow> PublishMessage \<Rightarrow>
    ('w, (('w, (PublishAck, PublishError) result) state, PublishError) result) state"
  nc_publish :: "string \<Rightarrow> bytes \<Rightarrow> ('w, (unit, string) result) state"
  nc_open_event_stream :: "('w, (unit, string) result) state"
  nc_get_raw_message :: "u64 \<Rightarrow> ('w, (RawMessage, string) result) state"
  nc_last_sequence :: "('w, (u64, string) result) state"

record ChatSerde =
  command_to_vec :: "TurnRequested \<Rightarrow> (bytes, string) result"
  sequenced_to_vec :: "SequencedChatEvent \<Rightarrow> (bytes, string) result"
  sequenced_from_slice :: "bytes \<Rightarrow> (SequencedChatEvent, string) result"
  stop_to_vec :: "StopSignal \<Rightarrow> (bytes, string) result"
  index_to_vec :: "ReplayIndex \<Rightarrow> (bytes, string) result"
  index_from_slice :: "bytes \<Rightarrow> (ReplayIndex, string) result"

text \<open>The messages of commands that are not acknowledged yet, by turn.\<close>

record ('w, 'm) PendingAcks =
  pk_remove :: "string \<Rightarrow> ('w, 'm option) state"
  pk_get :: "string \<Rightarrow> ('w, 'm option) state"
  pk_insert :: "string \<Rightarrow> 'm \<Rightarrow> ('w, unit) state"
  pk_ack :: "'m \<Rightarrow> ('w, (unit, string) result) state"
  pk_progress :: "'m \<Rightarrow> ('w, (unit, string) result) state"

definition CHAT_COMMANDS_STREAM :: string where
  "CHAT_COMMANDS_STREAM = ''CHAT_COMMANDS''"

definition CHAT_EVENTS_STREAM :: string where
  "CHAT_EVENTS_STREAM = ''CHAT_EVENTS''"

section \<open>Commands and stops\<close>

definition nats_publish_turn_requested :: "'w ChatClient \<Rightarrow> ChatSerde \<Rightarrow> TurnRequested \<Rightarrow> ('w, (unit, ChatBusError) result) state" where
  "nats_publish_turn_requested nc sd command = (case command_to_vec sd command of
      Err e \<Rightarrow> ret (Err (BusPayload e))
    | Ok payload \<Rightarrow>
        attempt (\<lambda>e. payload_err ''publish command'' (pe_text e)) (nc_send_publish nc command_turn_requested
          \<lparr>pm_message_id = Some (tr_turn_id command), pm_expected_stream = Some CHAT_COMMANDS_STREAM,
           pm_expected_last_subject_sequence = None, pm_payload = payload\<rparr>) (\<lambda>ack.
        attempt (\<lambda>e. payload_err ''ack command publish'' (pe_text e)) ack (\<lambda>_. ret (Ok ()))))"

definition nats_ack_turn_requested :: "('w, 'm) PendingAcks \<Rightarrow> string \<Rightarrow> ('w, (unit, ChatBusError) result) state" where
  "nats_ack_turn_requested pk turn_id = pk_remove pk turn_id \<bind> (\<lambda>found. case found of
      Some message \<Rightarrow> attempt (payload_err ''ack command'') (pk_ack pk message) (\<lambda>_. ret (Ok ()))
    | None \<Rightarrow> ret (Ok ()))"

definition nats_progress_turn_requested :: "('w, 'm) PendingAcks \<Rightarrow> string \<Rightarrow> ('w, (unit, ChatBusError) result) state" where
  "nats_progress_turn_requested pk turn_id = pk_get pk turn_id \<bind> (\<lambda>found. case found of
      Some message \<Rightarrow> attempt (payload_err ''progress ack command'') (pk_progress pk message) (\<lambda>_. ret (Ok ()))
    | None \<Rightarrow> ret (Ok ()))"

definition nats_publish_stop ::
  "'w ChatClient \<Rightarrow> ChatSerde \<Rightarrow> string \<Rightarrow> string \<Rightarrow> string \<Rightarrow> string \<Rightarrow> ('w, (unit, ChatBusError) result) state" where
  "nats_publish_stop nc sd worker_id tenant_id conversation_id turn_id =
     (case stop_to_vec sd \<lparr>sg_tenant_id = tenant_id, sg_conversation_id = conversation_id, sg_turn_id = turn_id\<rparr> of
        Err e \<Rightarrow> ret (Err (BusPayload e))
      | Ok payload \<Rightarrow> attempt (payload_err ''publish stop'') (nc_publish nc (control_subject worker_id) payload) (\<lambda>_. ret (Ok ())))"

text \<open>One message of the command consumer: a command is remembered for its acknowledgement and sent to the workers of the process; a payload that
  does not decode is acknowledged away.\<close>

definition receive_command ::
  "('w, 'm) PendingAcks \<Rightarrow> (TurnRequested \<Rightarrow> ('w, unit) state) \<Rightarrow> (bytes \<Rightarrow> (TurnRequested, string) result) \<Rightarrow> 'm \<Rightarrow> bytes \<Rightarrow>
     ('w, unit) state" where
  "receive_command pk send from_slice message payload = (case from_slice payload of
      Ok command \<Rightarrow> pk_insert pk (tr_turn_id command) message \<bind> (\<lambda>_. send command)
    | Err _ \<Rightarrow> pk_ack pk message \<bind> (\<lambda>_. ret ()))"

text \<open>The consumer takes messages until its stream ends, past those it could not receive.\<close>

fun command_consumer ::
  "('w, 'm) PendingAcks \<Rightarrow> (TurnRequested \<Rightarrow> ('w, unit) state) \<Rightarrow> (bytes \<Rightarrow> (TurnRequested, string) result) \<Rightarrow>
     ('m \<times> bytes, string) result list \<Rightarrow> ('w, unit) state" where
  "command_consumer pk send from_slice [] = ret ()"
| "command_consumer pk send from_slice (Err _ # rest) = command_consumer pk send from_slice rest"
| "command_consumer pk send from_slice (Ok (message, payload) # rest) =
     receive_command pk send from_slice message payload \<bind> (\<lambda>_. command_consumer pk send from_slice rest)"

fun stop_consumer ::
  "(StopSignal \<Rightarrow> ('w, unit) state) \<Rightarrow> (bytes \<Rightarrow> (StopSignal, string) result) \<Rightarrow> bytes list \<Rightarrow> ('w, unit) state" where
  "stop_consumer send from_slice [] = ret ()"
| "stop_consumer send from_slice (payload # rest) =
     (case from_slice payload of Ok signal \<Rightarrow> send signal | Err _ \<Rightarrow> ret ()) \<bind> (\<lambda>_. stop_consumer send from_slice rest)"

section \<open>The replay index\<close>

definition nats_load_replay_index ::
  "'w KvStore \<Rightarrow> ChatSerde \<Rightarrow> string \<Rightarrow> string \<Rightarrow> ('w, (ReplayIndex option, ChatBusError) result) state" where
  "nats_load_replay_index bucket sd tenant_id conversation_id =
     attempt (payload_err ''read chat replay index'') (kv_entry bucket (lock_key tenant_id conversation_id)) (\<lambda>entry.
       case put_entry entry of
         None \<Rightarrow> ret (Ok None)
       | Some entry \<Rightarrow> ret (case index_from_slice sd (en_value entry) of
             Ok ix \<Rightarrow> Ok (Some ix)
           | Err e \<Rightarrow> Err (payload_err ''decode chat replay index'' e)))"

fun update_replay_loop ::
  "nat \<Rightarrow> 'w KvStore \<Rightarrow> ChatSerde \<Rightarrow> string \<Rightarrow> (ReplayIndex \<Rightarrow> ReplayIndex) \<Rightarrow> ('w, (unit, ChatBusError) result) state" where
  "update_replay_loop 0 bucket sd key f = ret (Err (BusPayload ''update chat replay index CAS retry limit exceeded''))"
| "update_replay_loop (Suc n) bucket sd key f =
     attempt (payload_err ''read chat replay index'') (kv_entry bucket key) (\<lambda>entry.
       case (case put_entry entry of
           Some entry \<Rightarrow> index_from_slice sd (en_value entry) | None \<Rightarrow> Ok default_ReplayIndex) of
         Err e \<Rightarrow> ret (Err (payload_err ''decode chat replay index'' e))
       | Ok ix \<Rightarrow> (case index_to_vec sd (f ix) of
           Err e \<Rightarrow> ret (Err (BusPayload e))
         | Ok payload \<Rightarrow> (case put_entry entry of
             Some entry \<Rightarrow> kv_update bucket key payload (en_revision entry) \<bind> (\<lambda>r. case r of
                 Ok _ \<Rightarrow> ret (Ok ())
               | Err Refused \<Rightarrow> update_replay_loop n bucket sd key f
               | Err (KvFailed e) \<Rightarrow> ret (Err (payload_err ''update chat replay index'' e)))
           | None \<Rightarrow> kv_create bucket key payload \<bind> (\<lambda>r. case r of
                 Ok _ \<Rightarrow> ret (Ok ())
               | Err Refused \<Rightarrow> update_replay_loop n bucket sd key f
               | Err (KvFailed e) \<Rightarrow> ret (Err (payload_err ''create chat replay index'' e))))))"

definition update_replay_for_event ::
  "'w KvStore \<Rightarrow> ChatSerde \<Rightarrow> ChatEventEnvelope \<Rightarrow> u64 \<Rightarrow> ChatEvent \<Rightarrow> ('w, (unit, ChatBusError) result) state" where
  "update_replay_for_event bucket sd envelope sequence event =
     (if \<not> is_replay_index_event event then ret (Ok ())
      else update_replay_loop 8 bucket sd (lock_key (ee_tenant_id envelope) (ee_conversation_id envelope))
        (\<lambda>ix. apply_replay_event ix envelope sequence event))"

section \<open>Events\<close>

definition nats_publish_event ::
  "'w ChatClient \<Rightarrow> 'w KvStore \<Rightarrow> ChatSerde \<Rightarrow> ChatEventEnvelope \<Rightarrow> ('w, (string, ChatBusError) result) state" where
  "nats_publish_event nc bucket sd event =
     (let sequenced = \<lparr>se_event_id = [], se_envelope = event\<rparr> in
      case sequenced_to_vec sd sequenced of
        Err e \<Rightarrow> ret (Err (BusPayload e))
      | Ok payload \<Rightarrow>
          attempt (\<lambda>e. payload_err ''publish event'' (pe_text e))
            (nc_send_publish nc (events_subject (ee_tenant_id event) (ee_conversation_id event))
              \<lparr>pm_message_id = None, pm_expected_stream = Some CHAT_EVENTS_STREAM, pm_expected_last_subject_sequence = None,
               pm_payload = payload\<rparr>) (\<lambda>ack.
          attempt (\<lambda>e. payload_err ''ack event publish'' (pe_text e)) ack (\<lambda>ack.
          attempt id (update_replay_for_event bucket sd event (pa_sequence ack) (ee_event event)) (\<lambda>_.
          ret (Ok (show_u64 (pa_sequence ack)))))))"

fun replay_loop ::
  "'w ChatClient \<Rightarrow> ChatSerde \<Rightarrow> string \<Rightarrow> string \<Rightarrow> u64 list \<Rightarrow> ('w, (SequencedChatEvent list, ChatBusError) result) state" where
  "replay_loop nc sd tenant_id conversation_id [] = ret (Ok [])"
| "replay_loop nc sd tenant_id conversation_id (sequence # rest) =
     nc_get_raw_message nc sequence \<bind> (\<lambda>r. case r of
       Err _ \<Rightarrow> replay_loop nc sd tenant_id conversation_id rest
     | Ok message \<Rightarrow>
         if rw_subject message \<noteq> events_subject tenant_id conversation_id
         then replay_loop nc sd tenant_id conversation_id rest
         else (case sequenced_from_slice sd (rw_payload message) of
             Err e \<Rightarrow> ret (Err (BusPayload (''decode event '' @ show_u64 sequence @ '': '' @ e)))
           | Ok event \<Rightarrow>
               if ee_tenant_id (se_envelope event) \<noteq> tenant_id \<or> ee_conversation_id (se_envelope event) \<noteq> conversation_id
               then replay_loop nc sd tenant_id conversation_id rest
               else attempt id (replay_loop nc sd tenant_id conversation_id rest) (\<lambda>events.
                 ret (Ok (event\<lparr>se_event_id := show_u64 sequence\<rparr> # events)))))"

definition sequences :: "u64 \<Rightarrow> u64 \<Rightarrow> u64 list" where
  "sequences start_seq end_seq = map of_nat [unat start_seq..<Suc (unat end_seq)]"

definition nats_replay_events ::
  "'w ChatClient \<Rightarrow> ChatSerde \<Rightarrow> string \<Rightarrow> string \<Rightarrow> u64 \<Rightarrow> u64 \<Rightarrow> ('w, (SequencedChatEvent list, ChatBusError) result) state" where
  "nats_replay_events nc sd tenant_id conversation_id start_seq end_seq =
     (if start_seq = 0 \<or> end_seq < start_seq then ret (Ok [])
      else attempt (payload_err ''open event stream'') (nc_open_event_stream nc) (\<lambda>_.
        replay_loop nc sd tenant_id conversation_id (sequences start_seq end_seq)))"

definition nats_latest_event_sequence :: "'w ChatClient \<Rightarrow> ('w, (u64, ChatBusError) result) state" where
  "nats_latest_event_sequence nc =
     attempt (payload_err ''open event stream'') (nc_open_event_stream nc) (\<lambda>_.
     attempt (payload_err ''read event stream info'') (nc_last_sequence nc) (\<lambda>last. ret (Ok last)))"

text \<open>One message of an event consumer, and one of the consumer of a single conversation: what it passes on.\<close>

definition receive_event :: "ChatSerde \<Rightarrow> ConsumerMessage \<Rightarrow> SequencedChatEvent option" where
  "receive_event sd message = (case cm_info message of
      Err _ \<Rightarrow> None
    | Ok sequence \<Rightarrow> (case sequenced_from_slice sd (cm_payload message) of
        Ok event \<Rightarrow> Some (event\<lparr>se_event_id := show_u64 sequence\<rparr>) | Err _ \<Rightarrow> None))"

definition receive_conversation_event :: "ChatSerde \<Rightarrow> string \<Rightarrow> string \<Rightarrow> ConsumerMessage \<Rightarrow> SequencedChatEvent option" where
  "receive_conversation_event sd tenant_id conversation_id message = (case receive_event sd message of
      Some event \<Rightarrow> if ee_tenant_id (se_envelope event) \<noteq> tenant_id \<or> ee_conversation_id (se_envelope event) \<noteq> conversation_id
        then None else Some event
    | None \<Rightarrow> None)"

fun event_consumer ::
  "(SequencedChatEvent \<Rightarrow> ('w, unit) state) \<Rightarrow> ChatSerde \<Rightarrow> (ConsumerMessage, string) result list \<Rightarrow> ('w, unit) state" where
  "event_consumer send sd [] = ret ()"
| "event_consumer send sd (Err _ # rest) = event_consumer send sd rest"
| "event_consumer send sd (Ok message # rest) =
     (case receive_event sd message of Some event \<Rightarrow> send event | None \<Rightarrow> ret ()) \<bind> (\<lambda>_. event_consumer send sd rest)"

text \<open>The consumer of one conversation stops when nobody listens any more, which \<open>send\<close> answers with False.\<close>

fun conversation_consumer ::
  "(SequencedChatEvent \<Rightarrow> ('w, bool) state) \<Rightarrow> ChatSerde \<Rightarrow> string \<Rightarrow> string \<Rightarrow> (ConsumerMessage, string) result list \<Rightarrow>
     ('w, unit) state" where
  "conversation_consumer send sd tenant_id conversation_id [] = ret ()"
| "conversation_consumer send sd tenant_id conversation_id (Err _ # rest) = conversation_consumer send sd tenant_id conversation_id rest"
| "conversation_consumer send sd tenant_id conversation_id (Ok message # rest) =
     (case receive_conversation_event sd tenant_id conversation_id message of
        None \<Rightarrow> conversation_consumer send sd tenant_id conversation_id rest
      | Some event \<Rightarrow> send event \<bind> (\<lambda>listening.
          if listening then conversation_consumer send sd tenant_id conversation_id rest else ret ()))"

section \<open>Streams, buckets and consumers\<close>

definition CHAT_LOCKS_BUCKET :: string where
  "CHAT_LOCKS_BUCKET = ''CHAT_LOCKS''"

definition CHAT_REPLAY_BUCKET :: string where
  "CHAT_REPLAY_BUCKET = ''CHAT_REPLAY''"

definition CHAT_WORKER_CONSUMER :: string where
  "CHAT_WORKER_CONSUMER = ''chat-worker-turns''"

text \<open>The fields the source leaves to \<open>Default\<close> are those of async-nats: no age limit, old messages discarded, no direct access, and a
  duplicate window of zero, which leaves the choice to the server.\<close>

definition event_stream_config :: "environment \<Rightarrow> StreamConfig" where
  "event_stream_config env = \<lparr>sc_name = CHAT_EVENTS_STREAM, sc_subjects = [''chat.events.*.*''], sc_retention = Limits,
     sc_max_age = chat_events_max_age env, sc_discard = DiscardOld, sc_allow_direct = False, sc_duplicate_window = 0\<rparr>"

definition command_stream_config :: StreamConfig where
  "command_stream_config = \<lparr>sc_name = CHAT_COMMANDS_STREAM, sc_subjects = [command_turn_requested], sc_retention = WorkQueuePolicy,
     sc_max_age = 0, sc_discard = DiscardOld, sc_allow_direct = False, sc_duplicate_window = 10 * 60\<rparr>"

definition configure_jetstream ::
  "environment \<Rightarrow> (StreamConfig \<Rightarrow> ('w, (unit, string) result) state) \<Rightarrow> ('w, (unit, ChatBusError) result) state" where
  "configure_jetstream env create_or_update_stream =
     attempt (payload_err ''create command stream'') (create_or_update_stream command_stream_config) (\<lambda>_.
     attempt (payload_err ''create event stream'') (create_or_update_stream (event_stream_config env)) (\<lambda>_. ret (Ok ())))"

definition locks_config :: "environment \<Rightarrow> KvConfig" where
  "locks_config env = \<lparr>kc_bucket = CHAT_LOCKS_BUCKET, kc_history = 1, kc_max_age = chat_lock_ttl env\<rparr>"

definition replay_config :: "environment \<Rightarrow> KvConfig" where
  "replay_config env = \<lparr>kc_bucket = CHAT_REPLAY_BUCKET, kc_history = 1, kc_max_age = chat_replay_ttl env\<rparr>"

section \<open>The bus\<close>

definition NatsChatBus ::
  "'w ChatClient \<Rightarrow> 'w KvStore \<Rightarrow> 'w KvStore \<Rightarrow> ('w, 'm) PendingAcks \<Rightarrow> ('w, datetime) state \<Rightarrow> LockSerde \<Rightarrow> ChatSerde \<Rightarrow> int \<Rightarrow>
     'w ChatBus" where
  "NatsChatBus nc locks bucket pk clock ls sd ttl = \<lparr>
     cb_acquire_lock = acquire_kv_lock locks clock ls,
     cb_load_lock = load_kv_lock locks ls,
     cb_claim_lock = claim_kv_lock locks clock ls ttl,
     cb_mark_lock_terminal = mark_kv_lock_terminal locks clock ls ttl,
     cb_mark_terminal_event_published = mark_kv_terminal_event_published locks clock ls,
     cb_request_stop = request_kv_stop locks clock ls,
     cb_stop_requested = stop_requested_in_kv locks clock ls,
     cb_renew_lock = renew_kv_lock locks clock ls ttl,
     cb_release_lock = release_kv_lock locks ls,
     cb_publish_turn_requested = nats_publish_turn_requested nc sd,
     cb_progress_turn_requested = nats_progress_turn_requested pk,
     cb_ack_turn_requested = nats_ack_turn_requested pk,
     cb_publish_event = nats_publish_event nc bucket sd,
     cb_load_replay_index = nats_load_replay_index bucket sd,
     cb_replay_events = nats_replay_events nc sd,
     cb_latest_event_sequence = nats_latest_event_sequence nc,
     cb_publish_stop = nats_publish_stop nc sd\<rparr>"

section \<open>The stream and the bucket\<close>

record ChatStreamWorld =
  xw_stream :: StreamWorld
  xw_replay :: KvWorld

definition raw_message :: "u64 \<Rightarrow> StreamWorld \<Rightarrow> (RawMessage, string) result" where
  "raw_message q w = (case find (\<lambda>m. sg_sequence m = q) (sw_log w) of
      Some m \<Rightarrow> Ok \<lparr>rw_subject = sg_subject m, rw_payload = sg_payload m\<rparr> | None \<Rightarrow> Err ''no message found'')"

definition ChatServer :: "ChatStreamWorld ChatClient" where
  "ChatServer = \<lparr>
     nc_send_publish = (\<lambda>s m. State (\<lambda>w. case stream_publish s m (xw_stream w) of (r, v) \<Rightarrow> (Ok (ret r), w\<lparr>xw_stream := v\<rparr>))),
     nc_publish = (\<lambda>s b. ret (Ok ())),
     nc_open_event_stream = ret (Ok ()),
     nc_get_raw_message = (\<lambda>q. State (\<lambda>w. (raw_message q (xw_stream w), w))),
     nc_last_sequence = State (\<lambda>w. (Ok (sw_sequence (xw_stream w)), w))\<rparr>"

abbreviation on_replay :: "(KvWorld, 'a) state \<Rightarrow> (ChatStreamWorld, 'a) state" where
  "on_replay m \<equiv> State (\<lambda>w. case run_state m (xw_replay w) of (a, v) \<Rightarrow> (a, w\<lparr>xw_replay := v\<rparr>))"

definition ReplayBucket :: "ChatStreamWorld KvStore" where
  "ReplayBucket = \<lparr>kv_entry = (\<lambda>k. on_replay (bucket_entry k)), kv_create = (\<lambda>k b. on_replay (bucket_create k b)),
     kv_update = (\<lambda>k b n. on_replay (bucket_update k b n)),
     kv_purge_expect_revision = (\<lambda>k n. on_replay (bucket_purge k n))\<rparr>"

section \<open>Operations on a bus\<close>

datatype BusOp = OpPublish ChatEventEnvelope | OpIndex string string | OpReplay string string u64 u64 | OpLatest

datatype BusAnswer =
    PublishAnswer "(string, ChatBusError) result"
  | IndexAnswer "(ReplayIndex option, ChatBusError) result"
  | ReplayAnswer "(SequencedChatEvent list, ChatBusError) result"
  | LatestAnswer "(u64, ChatBusError) result"

definition nats_perform :: "ChatSerde \<Rightarrow> BusOp \<Rightarrow> (ChatStreamWorld, BusAnswer) state" where
  "nats_perform sd opn = (case opn of
      OpPublish event \<Rightarrow> nats_publish_event ChatServer ReplayBucket sd event \<bind> (\<lambda>r. ret (PublishAnswer r))
    | OpIndex t c \<Rightarrow> nats_load_replay_index ReplayBucket sd t c \<bind> (\<lambda>r. ret (IndexAnswer r))
    | OpReplay t c a b \<Rightarrow> nats_replay_events ChatServer sd t c a b \<bind> (\<lambda>r. ret (ReplayAnswer r))
    | OpLatest \<Rightarrow> nats_latest_event_sequence ChatServer \<bind> (\<lambda>r. ret (LatestAnswer r)))"

definition mem_perform :: "BusOp \<Rightarrow> (ChatInner, BusAnswer) state" where
  "mem_perform opn = (case opn of
      OpPublish event \<Rightarrow> mem_publish_event event \<bind> (\<lambda>r. ret (PublishAnswer r))
    | OpIndex t c \<Rightarrow> mem_load_replay_index t c \<bind> (\<lambda>r. ret (IndexAnswer r))
    | OpReplay t c a b \<Rightarrow> mem_replay_events t c a b \<bind> (\<lambda>r. ret (ReplayAnswer r))
    | OpLatest \<Rightarrow> mem_latest_event_sequence \<bind> (\<lambda>r. ret (LatestAnswer r)))"

fun performs :: "('op \<Rightarrow> ('w, 'a) state) \<Rightarrow> 'op list \<Rightarrow> ('w, 'a list) state" where
  "performs f [] = ret []"
| "performs f (opn # ops) = f opn \<bind> (\<lambda>a. performs f ops \<bind> (\<lambda>as. ret (a # as)))"

text \<open>Events survive their coding, and a range does not start at zero, which is no sequence of the stream.\<close>

fun bus_op_ok :: "ChatSerde \<Rightarrow> BusOp \<Rightarrow> bool" where
  "bus_op_ok sd (OpPublish event) = (case sequenced_to_vec sd \<lparr>se_event_id = [], se_envelope = event\<rparr> of
      Ok b \<Rightarrow> sequenced_from_slice sd b = Ok \<lparr>se_event_id = [], se_envelope = event\<rparr> | Err _ \<Rightarrow> False)"
| "bus_op_ok sd (OpReplay _ _ start_seq _) = (start_seq \<noteq> 0)"
| "bus_op_ok sd _ = True"

definition index_codec :: "ChatSerde \<Rightarrow> bool" where
  "index_codec sd = (\<forall>ix. \<exists>b. index_to_vec sd ix = Ok b \<and> index_from_slice sd b = Ok ix)"

section \<open>Simulation\<close>

text \<open>A message of the stream and the event of the in-memory log it stands for.\<close>

definition carries_event :: "ChatSerde \<Rightarrow> StreamMessage \<Rightarrow> SequencedChatEvent \<Rightarrow> bool" where
  "carries_event sd m e = (sg_subject m = events_subject (ee_tenant_id (se_envelope e)) (ee_conversation_id (se_envelope e))
     \<and> sequenced_from_slice sd (sg_payload m) = Ok \<lparr>se_event_id = [], se_envelope = se_envelope e\<rparr>
     \<and> se_event_id e = show_u64 (sg_sequence m))"

definition kv_index :: "ChatSerde \<Rightarrow> KvWorld \<Rightarrow> string \<Rightarrow> (ReplayIndex option, string) result" where
  "kv_index sd w k = (case put_entry (kw_entries w k) of
      Some e \<Rightarrow> (case index_from_slice sd (en_value e) of Ok ix \<Rightarrow> Ok (Some ix) | Err e \<Rightarrow> Err e)
    | None \<Rightarrow> Ok None)"

definition bus_mirrors :: "ChatSerde \<Rightarrow> ChatStreamWorld \<Rightarrow> ChatInner \<Rightarrow> bool" where
  "bus_mirrors sd w b = (list_all2 (carries_event sd) (sw_log (xw_stream w)) (ci_event_log b)
     \<and> map sg_sequence (sw_log (xw_stream w)) = map of_nat [1..<Suc (length (ci_event_log b))]
     \<and> sw_sequence (xw_stream w) = of_nat (length (ci_event_log b)) \<and> ci_next_event_sequence b = of_nat (length (ci_event_log b))
     \<and> (\<forall>k. kv_index sd (xw_replay w) k = Ok (ci_replay b k)) \<and> kw_down (xw_replay w) = None)"

lemma kv_index_write:
  assumes "index_from_slice sd b = Ok ix"
  shows "kv_index sd (kv_write k b KvPut w) j = (if j = k then Ok (Some ix) else kv_index sd w j)"
  using assms by (simp add: kv_index_def kv_write_def put_entry_def)

text \<open>With the bucket to itself the loop writes at its first attempt.\<close>

lemma run_update_replay:
  assumes "index_codec sd" "\<forall>k. kv_index sd (xw_replay w) k = Ok (replay_of k)" "kw_down (xw_replay w) = None"
  shows "\<exists>v. run_state (update_replay_loop (Suc n) ReplayBucket sd key f) w = (Ok (), w\<lparr>xw_replay := v\<rparr>) \<and> kw_down v = None
    \<and> (\<forall>k. kv_index sd v k = Ok ((replay_of(key \<mapsto> f (case replay_of key of Some ix \<Rightarrow> ix | None \<Rightarrow> default_ReplayIndex))) k))"
proof -
  let ?old = "case replay_of key of Some ix \<Rightarrow> ix | None \<Rightarrow> default_ReplayIndex"
  obtain b where b: "index_to_vec sd (f ?old) = Ok b" "index_from_slice sd b = Ok (f ?old)"
    using assms(1) by (auto simp: index_codec_def)
  let ?v = "kv_write key b KvPut (xw_replay w)"
  have "run_state (update_replay_loop (Suc n) ReplayBucket sd key f) w = (Ok (), w\<lparr>xw_replay := ?v\<rparr>)"
    using spec [OF assms(2), of key] assms(3) b(1)
    by (auto simp: kv_index_def run_state_attempt ReplayBucket_def bucket_entry_def bucket_update_def bucket_create_def
        put_entry_def at_revision_def split: option.splits if_splits result.splits)
  moreover have "kw_down ?v = None" using assms(3) by (simp add: kv_write_def)
  moreover have "kv_index sd ?v k = Ok ((replay_of(key \<mapsto> f ?old)) k)" for k
    using kv_index_write [OF b(2)] assms(2) by simp
  ultimately show ?thesis by blast
qed

lemma run_update_replay_for_event:
  assumes "index_codec sd" "\<forall>k. kv_index sd (xw_replay w) k = Ok (replay_of k)" "kw_down (xw_replay w) = None"
  shows "\<exists>v. run_state (update_replay_for_event ReplayBucket sd e q (ee_event e)) w = (Ok (), w\<lparr>xw_replay := v\<rparr>)
    \<and> kw_down v = None \<and> (\<forall>k. kv_index sd v k = Ok (update_in_memory_replay e q (ee_event e) replay_of k))"
proof (cases "is_replay_index_event (ee_event e)")
  case False
  then show ?thesis using assms(2,3)
    by (auto simp: update_replay_for_event_def update_in_memory_replay_def intro!: exI [of _ "xw_replay w"])
next
  case True
  then show ?thesis
    using run_update_replay [OF assms, of 7 "lock_key (ee_tenant_id e) (ee_conversation_id e)" "\<lambda>ix. apply_replay_event ix e q (ee_event e)"]
    by (simp add: update_replay_for_event_def update_in_memory_replay_def Let_def eval_nat_numeral)
qed

lemma publish_bus_simulates:
  assumes "bus_mirrors sd w b" "index_codec sd" "bus_op_ok sd (OpPublish e)"
    and "run_state (nats_publish_event ChatServer ReplayBucket sd e) w = (r, w')" "run_state (mem_publish_event e) b = (r', b')"
  shows "r = r' \<and> bus_mirrors sd w' b' \<and> length (ci_event_log b') = Suc (length (ci_event_log b))"
proof -
  let ?q = "of_nat (Suc (length (ci_event_log b))) :: u64"
  obtain p where p: "sequenced_to_vec sd \<lparr>se_event_id = [], se_envelope = e\<rparr> = Ok p"
    "sequenced_from_slice sd p = Ok \<lparr>se_event_id = [], se_envelope = e\<rparr>"
    using assms(3) by (auto split: result.splits)
  have m: "list_all2 (carries_event sd) (sw_log (xw_stream w)) (ci_event_log b)"
    "map sg_sequence (sw_log (xw_stream w)) = map of_nat [1..<Suc (length (ci_event_log b))]"
    "sw_sequence (xw_stream w) = of_nat (length (ci_event_log b))" "ci_next_event_sequence b = of_nat (length (ci_event_log b))"
    "\<And>k. kv_index sd (xw_replay w) k = Ok (ci_replay b k)" "kw_down (xw_replay w) = None"
    using assms(1) by (simp_all add: bus_mirrors_def)
  let ?s = "events_subject (ee_tenant_id e) (ee_conversation_id e)"
  let ?m = "\<lparr>pm_message_id = None, pm_expected_stream = Some CHAT_EVENTS_STREAM, pm_expected_last_subject_sequence = None, pm_payload = p\<rparr>"
  let ?w = "w\<lparr>xw_stream := stream_add ?s ?m (xw_stream w)\<rparr>"
  have idx: "\<forall>k. kv_index sd (xw_replay ?w) k = Ok (ci_replay b k)" "kw_down (xw_replay ?w) = None" using m(5,6) by simp_all
  obtain v where v: "run_state (update_replay_for_event ReplayBucket sd e ?q (ee_event e)) ?w = (Ok (), ?w\<lparr>xw_replay := v\<rparr>)"
    "kw_down v = None" "\<forall>k. kv_index sd v k = Ok (update_in_memory_replay e ?q (ee_event e) (ci_replay b) k)"
    using run_update_replay_for_event [OF assms(2) idx, of e ?q] by blast
  have run: "r = Ok (show_u64 ?q)" "w' = ?w\<lparr>xw_replay := v\<rparr>"
    using assms(4) p(1) v(1) m(3)
    by (simp_all add: nats_publish_event_def ChatServer_def stream_publish_def run_state_attempt Let_def add.commute)
  have mem: "r' = Ok (show_u64 ?q)" "b' = b\<lparr>ci_next_event_sequence := ?q,
      ci_replay := update_in_memory_replay e ?q (ee_event e) (ci_replay b),
      ci_event_log := ci_event_log b @ [\<lparr>se_event_id = show_u64 ?q, se_envelope = e\<rparr>],
      ci_events := ci_events b @ [\<lparr>se_event_id = show_u64 ?q, se_envelope = e\<rparr>]\<rparr>"
    using assms(5) m(4) by (simp_all add: mem_publish_event_def Let_def add.commute)
  have "bus_mirrors sd w' b'"
    using m(1,2,3) v(2,3) p(2)
    by (simp add: bus_mirrors_def run(2) mem(2) stream_add_def carries_event_def add.commute list_all2_appendI)
  then show ?thesis using run(1) mem by simp
qed

text \<open>The event at a sequence, counted from one.\<close>

abbreviation log_at :: "ChatInner \<Rightarrow> nat \<Rightarrow> SequencedChatEvent" where
  "log_at b i \<equiv> ci_event_log b ! (i - 1)"

abbreviation belongs :: "string \<Rightarrow> string \<Rightarrow> SequencedChatEvent \<Rightarrow> bool" where
  "belongs t c e \<equiv> ee_tenant_id (se_envelope e) = t \<and> ee_conversation_id (se_envelope e) = c"

lemma find_nth_unique:
  "distinct (map f xs) \<Longrightarrow> i < length xs \<Longrightarrow> find (\<lambda>x. f x = f (xs ! i)) xs = Some (xs ! i)"
  by (induction xs arbitrary: i) (auto simp: nth_Cons' split: if_splits)

lemma mirrored_length: "bus_mirrors sd w b \<Longrightarrow> length (sw_log (xw_stream w)) = length (ci_event_log b)"
  by (auto simp: bus_mirrors_def dest: list_all2_lengthD)

lemma mirrored_sequence:
  assumes "bus_mirrors sd w b" "1 \<le> i" "i \<le> length (ci_event_log b)"
  shows "sg_sequence (sw_log (xw_stream w) ! (i - 1)) = of_nat i"
proof -
  have lt: "i - 1 < length (ci_event_log b)" using assms(2,3) by auto
  then have "sg_sequence (sw_log (xw_stream w) ! (i - 1)) = map sg_sequence (sw_log (xw_stream w)) ! (i - 1)"
    using mirrored_length [OF assms(1)] by simp
  also have "map sg_sequence (sw_log (xw_stream w)) = map of_nat [1..<Suc (length (ci_event_log b))]"
    using assms(1) by (simp add: bus_mirrors_def)
  finally show ?thesis using lt assms(2) by (simp del: upt_Suc)
qed

lemma raw_message_at:
  assumes "bus_mirrors sd w b" "length (ci_event_log b) < 2 ^ 64" "i < 2 ^ 64"
  shows "raw_message (of_nat i) (xw_stream w) = (if 1 \<le> i \<and> i \<le> length (ci_event_log b)
    then Ok \<lparr>rw_subject = sg_subject (sw_log (xw_stream w) ! (i - 1)), rw_payload = sg_payload (sw_log (xw_stream w) ! (i - 1))\<rparr>
    else Err ''no message found'')"
proof -
  let ?log = "sw_log (xw_stream w)" and ?n = "length (ci_event_log b)"
  have seqs: "map sg_sequence ?log = map of_nat [1..<Suc ?n]" using assms(1) by (simp add: bus_mirrors_def)
  have len: "length ?log = ?n" using assms(1) by (rule mirrored_length)
  have small: "j < 2 ^ 64" if "j \<le> ?n" for j using assms(2) that by simp
  show ?thesis
  proof (cases "1 \<le> i \<and> i \<le> ?n")
    case True
    then have "sg_sequence (?log ! (i - 1)) = of_nat i" "i - 1 < ?n" using mirrored_sequence [OF assms(1)] by auto
    moreover have "distinct (map sg_sequence ?log)"
      unfolding seqs distinct_map using small by (auto simp: inj_on_def of_nat_u64_eq simp del: upt_Suc)
    ultimately show ?thesis using find_nth_unique [of sg_sequence ?log "i - 1"] True len
      by (auto simp: raw_message_def)
  next
    case False
    have "of_nat i \<notin> set (map sg_sequence ?log)" unfolding seqs using False small assms(3)
      by (auto simp: of_nat_u64_eq simp del: upt_Suc)
    then have "find (\<lambda>m. sg_sequence m = of_nat i) ?log = None" by (force simp: find_None_iff)
    then show ?thesis using False by (auto simp: raw_message_def)
  qed
qed

lemma run_replay_loop:
  assumes "bus_mirrors sd w b" "length (ci_event_log b) < 2 ^ 64"
  shows "\<forall>i \<in> set is. i < 2 ^ 64 \<Longrightarrow> run_state (replay_loop ChatServer sd t c (map of_nat is)) w =
    (Ok (map (log_at b) (filter (\<lambda>i. 1 \<le> i \<and> i \<le> length (ci_event_log b) \<and> belongs t c (log_at b i)) is)), w)"
proof (induction "is")
  case (Cons i js)
  then have i: "i < 2 ^ 64" and IH: "run_state (replay_loop ChatServer sd t c (map of_nat js)) w =
      (Ok (map (log_at b) (filter (\<lambda>i. 1 \<le> i \<and> i \<le> length (ci_event_log b) \<and> belongs t c (log_at b i)) js)), w)"
    by simp_all
  let ?m = "sw_log (xw_stream w) ! (i - 1)"
  note raw = raw_message_at [OF assms i]
  show ?case
  proof (cases "1 \<le> i \<and> i \<le> length (ci_event_log b)")
    case True
    then have "i - 1 < length (ci_event_log b)" by auto
    then have m: "carries_event sd ?m (log_at b i)"
      using assms(1) by (simp add: bus_mirrors_def list_all2_conv_all_nth)
    have "sg_sequence ?m = of_nat i" using mirrored_sequence [OF assms(1)] True by blast
    then have "se_event_id (log_at b i) = show_u64 (of_nat i :: u64)" using m by (simp add: carries_event_def)
    then have "\<lparr>se_event_id = show_u64 (of_nat i :: u64), se_envelope = se_envelope (log_at b i)\<rparr> = log_at b i" by simp
    then show ?thesis using True raw m IH
      by (auto simp: ChatServer_def carries_event_def run_state_attempt)
  next
    case False
    then show ?thesis using raw IH by (auto simp: ChatServer_def)
  qed
qed simp

lemma in_replay_at:
  assumes "bus_mirrors sd w b" "length (ci_event_log b) < 2 ^ 64" "1 \<le> i" "i \<le> length (ci_event_log b)"
  shows "in_replay t c s e (log_at b i) \<longleftrightarrow> unat s \<le> i \<and> i \<le> unat e \<and> belongs t c (log_at b i)"
proof -
  have "i - 1 < length (ci_event_log b)" using assms(3,4) by auto
  then have "carries_event sd (sw_log (xw_stream w) ! (i - 1)) (log_at b i)"
    using assms(1) by (simp add: bus_mirrors_def list_all2_conv_all_nth)
  then have id: "se_event_id (log_at b i) = show_u64 (of_nat i :: u64)"
    using mirrored_sequence [OF assms(1,3,4)] by (simp add: carries_event_def)
  have i: "i < 2 ^ 64" "unat (of_nat i :: u64) = i" using assms(2,4) by (simp_all add: unat_of_nat_small)
  then have "parse_u64_str (se_event_id (log_at b i)) = Some (of_nat i)"
    unfolding id show_u64_def by (simp add: parse_u64_show_nat)
  then show ?thesis using i(2) by (auto simp: in_replay_def word_le_nat_alt)
qed

lemma filter_log:
  "filter P L = map (\<lambda>i. L ! (i - 1)) (filter (\<lambda>i. P (L ! (i - 1))) [1..<Suc (length L)])"
proof -
  have "map (\<lambda>i. L ! (i - 1)) [1..<Suc (length L)] = L"
    by (rule nth_equalityI) (simp_all del: upt_Suc)
  then have "filter P L = filter P (map (\<lambda>i. L ! (i - 1)) [1..<Suc (length L)])" by simp
  then show ?thesis by (simp add: filter_map comp_def del: upt_Suc)
qed

lemma replay_simulates:
  assumes "bus_mirrors sd w b" "length (ci_event_log b) < 2 ^ 64" "s \<noteq> 0"
  shows "run_state (nats_replay_events ChatServer sd t c s e) w = (Ok (filter (in_replay t c s e) (ci_event_log b)), w)"
proof -
  let ?n = "length (ci_event_log b)"
  let ?A = "filter (\<lambda>i. in_replay t c s e (log_at b i)) [1..<Suc ?n]"
  let ?B = "filter (\<lambda>i. 1 \<le> i \<and> i \<le> ?n \<and> belongs t c (log_at b i)) [unat s..<Suc (unat e)]"
  have "set ?A = set ?B" using in_replay_at [OF assms(1,2)] by (auto simp del: upt_Suc)
  then have AB: "?A = ?B" by (intro sorted_distinct_set_unique) (simp_all add: sorted_wrt_filter del: upt_Suc)
  have mem: "filter (in_replay t c s e) (ci_event_log b) = map (log_at b) ?A" by (rule filter_log)
  show ?thesis
  proof (cases "e < s")
    case True
    then have "?B = []" by (simp add: word_less_nat_alt)
    then show ?thesis using True mem AB by (simp add: nats_replay_events_def)
  next
    case False
    have "\<forall>i \<in> set [unat s..<Suc (unat e)]. i < 2 ^ 64"
      using unsigned_less [where 'a = nat, of e] by (auto simp del: upt_Suc)
    from run_replay_loop [OF assms(1,2) this, of t c] show ?thesis
      using False assms(3) mem AB by (simp add: nats_replay_events_def ChatServer_def sequences_def run_state_attempt del: upt_Suc)
  qed
qed

lemma perform_bus_simulates:
  assumes "bus_mirrors sd w b" "index_codec sd" "bus_op_ok sd opn" "length (ci_event_log b) < 2 ^ 64"
    and "run_state (nats_perform sd opn) w = (a, w')" "run_state (mem_perform opn) b = (a', b')"
  shows "a = a' \<and> bus_mirrors sd w' b' \<and> length (ci_event_log b') \<le> Suc (length (ci_event_log b))"
proof (cases opn)
  case (OpPublish e)
  then show ?thesis using assms(3,5,6)
    by (auto simp: nats_perform_def mem_perform_def split: prod.splits dest!: publish_bus_simulates [OF assms(1,2)] simp del: bus_op_ok.simps)
next
  case (OpIndex t c)
  have "kv_index sd (xw_replay w) (lock_key t c) = Ok (ci_replay b (lock_key t c))" "kw_down (xw_replay w) = None"
    using assms(1) by (simp_all add: bus_mirrors_def)
  then show ?thesis using assms(1,5,6) OpIndex
    by (auto simp: nats_perform_def mem_perform_def nats_load_replay_index_def mem_load_replay_index_def ReplayBucket_def
        bucket_entry_def run_state_attempt kv_index_def split: option.splits result.splits)
next
  case (OpReplay t c s e)
  then show ?thesis using assms(1,3,5,6) replay_simulates [OF assms(1,4), of s t c e]
    by (auto simp: nats_perform_def mem_perform_def mem_replay_events_def)
next
  case OpLatest
  then show ?thesis using assms(1,5,6)
    by (auto simp: nats_perform_def mem_perform_def nats_latest_event_sequence_def mem_latest_event_sequence_def ChatServer_def
        run_state_attempt bus_mirrors_def)
qed

lemma performs_bus_simulate:
  "bus_mirrors sd w b \<Longrightarrow> index_codec sd \<Longrightarrow> list_all (bus_op_ok sd) ops \<Longrightarrow> length (ci_event_log b) + length ops < 2 ^ 64 \<Longrightarrow>
    fst (run_state (performs (nats_perform sd) ops) w) = fst (run_state (performs mem_perform ops) b)"
proof (induction ops arbitrary: w b)
  case (Cons opn ops)
  obtain a w' where n: "run_state (nats_perform sd opn) w = (a, w')" by (metis surj_pair)
  obtain a' b' where m: "run_state (mem_perform opn) b = (a', b')" by (metis surj_pair)
  have "a = a' \<and> bus_mirrors sd w' b' \<and> length (ci_event_log b') \<le> Suc (length (ci_event_log b))"
    using Cons.prems by (intro perform_bus_simulates [OF _ _ _ _ n m]) auto
  moreover from this have "fst (run_state (performs (nats_perform sd) ops) w') = fst (run_state (performs mem_perform ops) b')"
    using Cons.prems by (intro Cons.IH) auto
  ultimately show ?case using n m by (auto split: prod.splits)
qed simp

definition empty_chat_stream :: "datetime \<Rightarrow> ChatStreamWorld" where
  "empty_chat_stream now = \<lparr>xw_stream = empty_stream,
     xw_replay = \<lparr>kw_entries = Map.empty, kw_revision = 0, kw_now = now, kw_down = None\<rparr>\<rparr>"

lemma bus_mirrors_empty: "bus_mirrors sd (empty_chat_stream now) default_ChatInner"
  by (simp add: bus_mirrors_def empty_chat_stream_def empty_stream_def default_ChatInner_def kv_index_def put_entry_def)

section \<open>The bus on NATS behaves like the one in memory\<close>


text \<open>A coding of indexes by the length of the bytes, and two events.\<close>

definition turn_code :: "ReplayTurn \<Rightarrow> string \<times> u64 \<times> u64 option" where
  "turn_code t = (rt_turn_id t, rt_start_seq t, rt_end_seq t)"

definition turn_decode :: "string \<times> u64 \<times> u64 option \<Rightarrow> ReplayTurn" where
  "turn_decode = (\<lambda>(i, s, e). \<lparr>rt_turn_id = i, rt_start_seq = s, rt_end_seq = e\<rparr>)"

definition sample_chat_event :: "ChatEvent \<Rightarrow> ChatEventEnvelope" where
  "sample_chat_event e = \<lparr>ee_v = 1, ee_tenant_id = ''t1'', ee_user_id = ''u1'', ee_conversation_id = ''c1'', ee_turn_id = ''k1'', ee_ts = 5,
     ee_event = e\<rparr>"

definition sample_chat_serde :: ChatSerde where
  "sample_chat_serde = \<lparr>command_to_vec = (\<lambda>_. Ok []),
     sequenced_to_vec = (\<lambda>e. Ok (if ee_event (se_envelope e) = TurnStarted ''k1'' then ''1'' else ''2'')),
     sequenced_from_slice = (\<lambda>b. Ok \<lparr>se_event_id = [],
       se_envelope = sample_chat_event (if b = ''1'' then TurnStarted ''k1'' else TextDelta ''hi'')\<rparr>),
     stop_to_vec = (\<lambda>_. Ok []),
     index_to_vec = (\<lambda>ix. Ok (replicate (to_nat (map_option turn_code (ri_previous_turn ix), map_option turn_code (ri_current_turn ix))) CHR ''x'')),
     index_from_slice = (\<lambda>b. case from_nat (length b) of (p, c) \<Rightarrow>
       Ok \<lparr>ri_previous_turn = map_option turn_decode p, ri_current_turn = map_option turn_decode c\<rparr>)\<rparr>"

lemma sample_index_codec: "index_codec sample_chat_serde"
proof -
  have "turn_decode \<circ> turn_code = (\<lambda>x. x)" by (auto simp: turn_decode_def turn_code_def)
  then show ?thesis
    by (simp add: index_codec_def sample_chat_serde_def option.map_comp option.map_ident)
qed

definition sample_bus_ops :: "BusOp list" where
  "sample_bus_ops = [OpPublish (sample_chat_event (TurnStarted ''k1'')), OpPublish (sample_chat_event (TextDelta ''hi'')),
     OpIndex ''t1'' ''c1'', OpReplay ''t1'' ''c1'' 1 2, OpLatest]"


end
