(* ===== verification/Blob_S3.thy ===== *)
theory Blob_S3
  imports Worker
begin

text \<open>
  The blob store in production: \<open>S3BlobStore\<close> of crates/document-adapters/src/s3.rs. The AWS SDK is a parameter, a record of the requests
  the code sends and of what it reads of their outputs; errors are the variants of \<open>SdkError\<close> the code tells apart. The loop that pages through the
  parts of an upload takes the number of requests it may still make.

  The theorems: paging returns every part, with one request per page; and a response that is cut off is
  taken for a verdict on the parts, which deletes the upload.
\<close>

section \<open>The SDK\<close>

datatype SdkErrorKind = ConstructionFailure | TimeoutError | DispatchFailure | ResponseError | ServiceError nat "string option"

record SdkError =
  sdk_kind :: SdkErrorKind
  sdk_text :: string

record ListedPart =
  lp_part_number :: "int option"
  lp_e_tag :: "string option"
  lp_size :: "int option"

record ListPartsOutput =
  lo_parts :: "ListedPart list"
  lo_is_truncated :: "bool option"
  lo_next_part_number_marker :: "string option"

record 'time HeadOutput =
  ho_content_length :: "int option"
  ho_content_type :: "string option"
  ho_last_modified :: "'time option"

text \<open>Requests name the bucket, the key and the upload as the source's builders do; a body that is collected may fail.\<close>

record ('w, 'time) S3Client =
  s3_create_multipart_upload :: "string \<Rightarrow> string \<Rightarrow> string \<Rightarrow> ('w, (string option, SdkError) result) state"
  s3_presign_upload_part :: "string \<Rightarrow> string \<Rightarrow> string \<Rightarrow> int \<Rightarrow> duration \<Rightarrow> ('w, (string, SdkError) result) state"
  s3_list_parts_page :: "string \<Rightarrow> string \<Rightarrow> string \<Rightarrow> string option \<Rightarrow> ('w, (ListPartsOutput, SdkError) result) state"
  s3_complete_multipart_upload :: "string \<Rightarrow> string \<Rightarrow> string \<Rightarrow> (int \<times> string) list \<Rightarrow> ('w, (unit, SdkError) result) state"
  s3_abort_multipart_upload :: "string \<Rightarrow> string \<Rightarrow> string \<Rightarrow> ('w, (unit, SdkError) result) state"
  s3_head_object :: "string \<Rightarrow> string \<Rightarrow> ('w, ('time HeadOutput, SdkError) result) state"
  s3_get_object :: "string \<Rightarrow> string \<Rightarrow> ('w, (AsyncRead, SdkError) result) state"
  s3_get_object_range :: "string \<Rightarrow> string \<Rightarrow> string \<Rightarrow> ('w, ((bytes, string) result, SdkError) result) state"
  s3_delete_object :: "string \<Rightarrow> string \<Rightarrow> ('w, (unit, SdkError) result) state"

record ('w, 'time) S3BlobStore =
  sb_internal :: "('w, 'time) S3Client"
  sb_public :: "('w, 'time) S3Client"
  sb_bucket :: string

text \<open>The rest of what the adapter calls: the presigning configuration, the conversions of the time crates and the clock.\<close>

record ('w, 'time) S3Crates =
  xc_expires_in :: "duration \<Rightarrow> (unit, string) result"
  xc_from_std :: "duration \<Rightarrow> int option"
  xc_timestamp_opt :: "'time \<Rightarrow> datetime option"
  xc_now :: "('w, datetime) state"

section \<open>Errors\<close>

definition service_kind :: "string \<Rightarrow> nat \<Rightarrow> BlobErrorKind" where
  "service_kind code status =
     (if code = ''NoSuchUpload'' then NoSuchUpload
      else if code \<in> {''NoSuchKey'', ''NotFound''} then BlobNotFound
      else if code \<in> {''InvalidPart'', ''InvalidPartOrder'', ''EntityTooSmall''} then InvalidParts
      else if code \<in> {''SlowDown'', ''RequestTimeout'', ''InternalError'', ''ServiceUnavailable''} then Transient
      else if status = 404 then BlobNotFound
      else if status = 429 \<or> (500 \<le> status \<and> status < 600) then Transient
      else Permanent)"

definition classify :: "SdkError \<Rightarrow> string \<Rightarrow> BlobError" where
  "classify error ctx =
     (let message = ctx @ '': '' @ sdk_text error in
      case sdk_kind error of
        TimeoutError \<Rightarrow> blob_error Transient message
      | DispatchFailure \<Rightarrow> blob_error Transient message
      | ServiceError status code \<Rightarrow>
          (let code = (case code of Some code \<Rightarrow> code | None \<Rightarrow> []) in
           blob_error (service_kind code status)
             (message @ '' (code '' @ code @ '', status '' @ show_nat status @ '')''))
      | _ \<Rightarrow> blob_error Permanent message)"

section \<open>The store\<close>

definition s3_begin_multipart :: "('w, 'time) S3BlobStore \<Rightarrow> string \<Rightarrow> string \<Rightarrow> ('w, (string, BlobError) result) state" where
  "s3_begin_multipart st key content_type =
     attempt (\<lambda>error. classify error ''create multipart upload'')
       (s3_create_multipart_upload (sb_internal st) (sb_bucket st) key content_type) (\<lambda>upload_id.
       ret (ok_or (blob_permanent ''create_multipart_upload returned no upload id'') upload_id))"

definition s3_presign_part ::
  "('w, 'time) S3Crates \<Rightarrow> ('w, 'time) S3BlobStore \<Rightarrow> string \<Rightarrow> string \<Rightarrow> u16 \<Rightarrow> duration \<Rightarrow> ('w, (PresignedPart, BlobError) result) state" where
  "s3_presign_part xc st key upload part ttl = (case xc_expires_in xc ttl of
      Err e \<Rightarrow> ret (Err (blob_permanent (''presign config: '' @ e)))
    | Ok _ \<Rightarrow>
        attempt (\<lambda>error. classify error ''presign upload part'')
          (s3_presign_upload_part (sb_public st) (sb_bucket st) key upload (uint part) ttl) (\<lambda>uri.
        xc_now xc \<bind> (\<lambda>now.
        ret (Ok \<lparr>pp_part_number = part, pp_url = uri,
          pp_expires_at = now + (case xc_from_std xc ttl of Some d \<Rightarrow> d | None \<Rightarrow> 0)\<rparr>))))"

definition unwrap_or_zero :: "int option \<Rightarrow> int" where
  "unwrap_or_zero n = (case n of Some n \<Rightarrow> n | None \<Rightarrow> 0)"

definition uploaded_part :: "ListedPart \<Rightarrow> UploadedPart" where
  "uploaded_part part =
     \<lparr>up_part_number = of_int (max (unwrap_or_zero (lp_part_number part)) 0),
      up_etag = (case lp_e_tag part of Some etag \<Rightarrow> etag | None \<Rightarrow> []),
      up_size = of_int (max (unwrap_or_zero (lp_size part)) 0)\<rparr>"

definition parse_i32 :: "string \<Rightarrow> int option" where
  "parse_i32 s = Option.bind (parse_i64 s) (\<lambda>i. if - (2 ^ 31) \<le> i \<and> i < 2 ^ 31 then Some i else None)"

text \<open>The loop of \<open>list_parts\<close>: nothing when it has not ended after the given number of requests.\<close>

fun list_parts_loop ::
  "nat \<Rightarrow> ('w, 'time) S3BlobStore \<Rightarrow> string \<Rightarrow> string \<Rightarrow> int option \<Rightarrow> UploadedPart list \<Rightarrow>
     ('w, (UploadedPart list option, BlobError) result option) state" where
  "list_parts_loop 0 st key upload marker parts = ret None"
| "list_parts_loop (Suc n) st key upload marker parts =
     s3_list_parts_page (sb_internal st) (sb_bucket st) key upload (map_option show_int marker) \<bind> (\<lambda>r. case r of
       Err error \<Rightarrow>
         (let classified = classify error ''list parts'' in
          if be_kind classified = NoSuchUpload then ret (Some (Ok None)) else ret (Some (Err classified)))
     | Ok output \<Rightarrow>
         (let parts = parts @ map uploaded_part (lo_parts output) in
          if lo_is_truncated output = Some True
          then (case Option.bind (lo_next_part_number_marker output) parse_i32 of
              None \<Rightarrow> ret (Some (Ok (Some parts)))
            | Some marker \<Rightarrow> list_parts_loop n st key upload (Some marker) parts)
          else ret (Some (Ok (Some parts)))))"

definition s3_list_parts ::
  "nat \<Rightarrow> ('w, 'time) S3BlobStore \<Rightarrow> string \<Rightarrow> string \<Rightarrow> ('w, (UploadedPart list option, BlobError) result option) state" where
  "s3_list_parts n st key upload = list_parts_loop n st key upload None []"

definition s3_complete_multipart ::
  "('w, 'time) S3BlobStore \<Rightarrow> string \<Rightarrow> string \<Rightarrow> CompletedPart list \<Rightarrow> ('w, (unit, BlobError) result) state" where
  "s3_complete_multipart st key upload parts =
     attempt (\<lambda>error. classify error ''complete multipart upload'')
       (s3_complete_multipart_upload (sb_internal st) (sb_bucket st) key upload
         (map (\<lambda>part. (uint (cp_part_number part), cp_etag part)) parts)) (\<lambda>_. ret (Ok ()))"

definition s3_abort_multipart :: "('w, 'time) S3BlobStore \<Rightarrow> string \<Rightarrow> string \<Rightarrow> ('w, (unit, BlobError) result) state" where
  "s3_abort_multipart st key upload =
     s3_abort_multipart_upload (sb_internal st) (sb_bucket st) key upload \<bind> (\<lambda>r. ret (case r of
         Ok _ \<Rightarrow> Ok ()
       | Err error \<Rightarrow>
           (let classified = classify error ''abort multipart upload'' in
            if be_kind classified = NoSuchUpload then Ok () else Err classified)))"

definition s3_head :: "('w, 'time) S3Crates \<Rightarrow> ('w, 'time) S3BlobStore \<Rightarrow> string \<Rightarrow> ('w, (BlobHead option, BlobError) result) state" where
  "s3_head xc st key = s3_head_object (sb_internal st) (sb_bucket st) key \<bind> (\<lambda>r. case r of
      Ok output \<Rightarrow>
        (case Option.bind (ho_last_modified output) (xc_timestamp_opt xc) of
           Some t \<Rightarrow> ret t | None \<Rightarrow> xc_now xc) \<bind> (\<lambda>last_modified.
        ret (Ok (Some \<lparr>bh_byte_size = of_int (max (unwrap_or_zero (ho_content_length output)) 0),
          bh_content_type = ho_content_type output, bh_last_modified = last_modified\<rparr>)))
    | Err error \<Rightarrow>
        (let classified = classify error ''head object'' in
         ret (if be_kind classified = BlobNotFound then Ok None else Err classified)))"

definition s3_open_read :: "('w, 'time) S3BlobStore \<Rightarrow> string \<Rightarrow> ('w, (AsyncRead, BlobError) result) state" where
  "s3_open_read st key = attempt (\<lambda>error. classify error ''get object'')
     (s3_get_object (sb_internal st) (sb_bucket st) key) (\<lambda>body. ret (Ok body))"

definition s3_read_prefix :: "('w, 'time) S3BlobStore \<Rightarrow> string \<Rightarrow> nat \<Rightarrow> ('w, (bytes, BlobError) result) state" where
  "s3_read_prefix st key len =
     (if len = 0 then ret (Ok [])
      else attempt (\<lambda>error. classify error ''get object prefix'')
        (s3_get_object_range (sb_internal st) (sb_bucket st) key (''bytes=0-'' @ show_nat (len - 1))) (\<lambda>body.
        ret (case body of
            Ok bytes \<Rightarrow> Ok bytes
          | Err e \<Rightarrow> Err (blob_transient (''read object prefix: '' @ e)))))"

definition s3_delete :: "('w, 'time) S3BlobStore \<Rightarrow> string \<Rightarrow> ('w, (unit, BlobError) result) state" where
  "s3_delete st key = attempt (\<lambda>error. classify error ''delete object'')
     (s3_delete_object (sb_internal st) (sb_bucket st) key) (\<lambda>_. ret (Ok ()))"

section \<open>Paging\<close>

abbreviation part_number :: "ListedPart \<Rightarrow> int" where
  "part_number p \<equiv> unwrap_or_zero (lp_part_number p)"

text \<open>The page S3 documents for a marker: the parts with a greater number, at most \<open>n\<close> of them, and the number of the last one when there
  are more.\<close>

definition parts_after :: "ListedPart list \<Rightarrow> string option \<Rightarrow> ListedPart list" where
  "parts_after ps marker = (case Option.bind marker parse_i32 of None \<Rightarrow> ps | Some m \<Rightarrow> filter (\<lambda>p. m < part_number p) ps)"

definition parts_page :: "nat \<Rightarrow> ListedPart list \<Rightarrow> string option \<Rightarrow> ListPartsOutput" where
  "parts_page n ps marker =
     (let rest = parts_after ps marker in
      \<lparr>lo_parts = take n rest, lo_is_truncated = Some (n < length rest),
       lo_next_part_number_marker = (if n < length rest then Some (show_int (part_number (last (take n rest)))) else None)\<rparr>)"

text \<open>Part numbers ascend and fit the marker.\<close>

definition numbered_parts :: "ListedPart list \<Rightarrow> bool" where
  "numbered_parts ps = (sorted_wrt (\<lambda>a b. part_number a < part_number b) ps \<and> list_all (\<lambda>p. 0 \<le> part_number p \<and> part_number p < 2 ^ 31) ps)"

lemma parse_i32_show: "0 \<le> i \<Longrightarrow> i < 2 ^ 31 \<Longrightarrow> parse_i32 (show_int i) = Some i"
  using parse_i64_show_int [of i] by (simp add: parse_i32_def)

lemma parts_after_prefix:
  assumes "numbered_parts (pre @ suf)" "pre \<noteq> []"
  shows "parts_after (pre @ suf) (Some (show_int (part_number (last pre)))) = suf"
proof -
  obtain ps p where pre: "pre = ps @ [p]" using assms(2) by (cases pre rule: rev_cases) auto
  have below: "q \<in> set ps \<Longrightarrow> part_number q \<le> part_number p" and above: "q \<in> set suf \<Longrightarrow> part_number p < part_number q" for q
    using assms(1) by (auto simp: numbered_parts_def pre sorted_wrt_append intro: less_imp_le)
  have "filter (\<lambda>q. part_number p < part_number q) (ps @ [p]) = []" using below by (simp add: filter_empty_conv not_less)
  moreover have "filter (\<lambda>q. part_number p < part_number q) suf = suf" using above by (simp add: filter_id_conv)
  moreover have "parse_i32 (show_int (part_number p)) = Some (part_number p)"
    using assms(1) by (intro parse_i32_show) (auto simp: numbered_parts_def pre)
  ultimately show ?thesis by (simp add: parts_after_def pre)
qed

lemma list_parts_loop_pages:
  assumes "\<And>m w. run_state (s3_list_parts_page (sb_internal st) (sb_bucket st) key upload m) w = (Ok (parts_page n ps m), w)"
    and "0 < n" "numbered_parts ps"
  shows "ps = pre @ suf \<Longrightarrow> length suf \<le> fuel * n \<Longrightarrow> 0 < fuel \<Longrightarrow>
    run_state (list_parts_loop fuel st key upload (if pre = [] then None else Some (part_number (last pre))) (map uploaded_part pre)) w =
      (Some (Ok (Some (map uploaded_part ps))), w)"
proof (induction fuel arbitrary: pre suf)
  case (Suc fuel)
  let ?marker = "if pre = [] then None else Some (part_number (last pre))"
  have rest: "parts_after ps (map_option show_int ?marker) = suf"
    using parts_after_prefix [of pre suf] assms(3) Suc.prems(1) by (auto simp: parts_after_def)
  show ?case
  proof (cases "n < length suf")
    case False
    then show ?thesis using Suc.prems(1) rest by (simp add: assms(1) parts_page_def Let_def)
  next
    case True
    let ?pre = "pre @ take n suf"
    have ne: "take n suf \<noteq> []" using assms(2) True by auto
    then have "last (take n suf) \<in> set suf" by (rule in_set_takeD [OF last_in_set])
    then have "last (take n suf) \<in> set ps" by (simp add: Suc.prems(1))
    then have m: "parse_i32 (show_int (part_number (last (take n suf)))) = Some (part_number (last (take n suf)))"
      using assms(3) by (intro parse_i32_show) (auto simp: numbered_parts_def list_all_iff)
    have "length (drop n suf) \<le> fuel * n" "0 < fuel"
      using Suc.prems(2) True assms(2) by (auto intro: Nat.gr0I)
    from Suc.IH [of ?pre "drop n suf", OF _ this] have
      "run_state (list_parts_loop fuel st key upload (Some (part_number (last (take n suf)))) (map uploaded_part ?pre)) w =
        (Some (Ok (Some (map uploaded_part ps))), w)"
      using Suc.prems(1) ne by simp
    then show ?thesis using True rest m by (simp add: assms(1) parts_page_def Let_def)
  qed
qed simp

text \<open>C30. Listing the parts of an upload is complete. Against a store that pages as S3 documents, with pages of any size, the loop ends after one
  request per page and returns every part that was uploaded, in order and exactly once, so that a large upload is not taken for its first
  page.\<close>

theorem listed_parts_are_complete:
  assumes "\<And>m w. run_state (s3_list_parts_page (sb_internal st) (sb_bucket st) key upload m) w = (Ok (parts_page n ps m), w)"
    and "0 < n" "numbered_parts ps" "length ps \<le> requests * n" "0 < requests"
  shows "run_state (s3_list_parts requests st key upload) w = (Some (Ok (Some (map uploaded_part ps))), w)"
  using list_parts_loop_pages [OF assms(1-3), of "[]" ps] assms(4,5) by (simp add: s3_list_parts_def)

text \<open>A store of the test's own: five parts of ten bytes, served two at a time, and a connection that breaks while a completion is answered.\<close>

definition sample_parts :: "ListedPart list" where
  "sample_parts = map (\<lambda>i. \<lparr>lp_part_number = Some i, lp_e_tag = Some (show_int i), lp_size = Some 10\<rparr>) [1, 2, 3, 4, 5]"

definition cut_off :: SdkError where
  "cut_off = \<lparr>sdk_kind = ResponseError, sdk_text = ''unexpected end of file''\<rparr>"

definition sample_s3 :: "(unit, unit) S3BlobStore" where
  "sample_s3 =
     (let client = \<lparr>s3_create_multipart_upload = (\<lambda>_ _ _. ret (Err cut_off)), s3_presign_upload_part = (\<lambda>_ _ _ _ _. ret (Err cut_off)),
        s3_list_parts_page = (\<lambda>_ _ _ m. ret (Ok (parts_page 2 sample_parts m))),
        s3_complete_multipart_upload = (\<lambda>_ _ _ _. ret (Err cut_off)), s3_abort_multipart_upload = (\<lambda>_ _ _. ret (Ok ())),
        s3_head_object = (\<lambda>_ _. ret (Err cut_off)), s3_get_object = (\<lambda>_ _. ret (Err cut_off)),
        s3_get_object_range = (\<lambda>_ _ _. ret (Err cut_off)), s3_delete_object = (\<lambda>_ _. ret (Ok ()))\<rparr>
      in \<lparr>sb_internal = client, sb_public = client, sb_bucket = ''documents''\<rparr>)"

theorem listed_parts_are_complete_witness:
  "run_state (s3_list_parts 3 sample_s3 ''key'' ''mp-1'') () = (Some (Ok (Some (map uploaded_part sample_parts))), ())"
proof (rule listed_parts_are_complete [where n = 2])
  show "numbered_parts sample_parts" by (simp add: numbered_parts_def sample_parts_def unwrap_or_zero_def)
qed (simp_all add: sample_s3_def sample_parts_def Let_def)

section \<open>A lost answer\<close>

text \<open>A broken connection can cost an upload. When the answer to the completion of the multipart upload is cut off, the SDK reports
  \<open>ResponseError\<close>; it is classified as permanent although it is a network failure, and the worker takes every permanent failure of the completion for wrong
  parts: on the first delivery already the upload is rejected as \<open>invalid_parts\<close> and whatever storage assembled is deleted, where a timeout would
  have been retried.\<close>

theorem cut_off_completion_rejects:
  assumes "run_state (bs_list_parts (uf_blobs f) (uc_storage_key cmd) (uc_multipart_upload_id cmd)) w = (Ok (Some parts), v)" "parts \<noteq> []"
    and "bs_complete_multipart (uf_blobs f) = s3_complete_multipart st"
    and "run_state (s3_complete_multipart_upload (sb_internal st) (sb_bucket st) (uc_storage_key cmd) (uc_multipart_upload_id cmd)
        (map (\<lambda>part. (uint (cp_part_number part), cp_etag part)) (completed_parts parts))) v =
      (Err \<lparr>sdk_kind = kind, sdk_text = message\<rparr>, u)"
  shows "case kind of
      ResponseError \<Rightarrow> run_state (run_pipeline dg f cmd) w = run_state (reject f cmd INVALID_PARTS) u
    | TimeoutError \<Rightarrow> \<exists>e. run_state (run_pipeline dg f cmd) w = (FoRetry e, u)
    | DispatchFailure \<Rightarrow> \<exists>e. run_state (run_pipeline dg f cmd) w = (FoRetry e, u)
    | _ \<Rightarrow> True"
  using assms
  by (auto simp: run_pipeline_def assemble_def s3_complete_multipart_def run_state_attempt classify_def blob_error_def Let_def
      split: prod.splits SdkErrorKind.splits)

text \<open>For every worker whose storage holds one part and whose completion is cut off.\<close>

theorem cut_off_completion_rejects_witness:
  "\<forall>(f :: unit UploadFinisher) b dg cmd.
     let g = f\<lparr>uf_blobs := b\<lparr>bs_list_parts := (\<lambda>_ _. ret (Ok (Some [\<lparr>up_part_number = 1, up_etag = ''e1'', up_size = 3\<rparr>]))),
       bs_complete_multipart := s3_complete_multipart sample_s3\<rparr>\<rparr>
     in run_state (run_pipeline dg g cmd) () = run_state (reject g cmd INVALID_PARTS) ()"
proof (intro allI)
  fix f :: "unit UploadFinisher" and b dg cmd
  let ?g = "f\<lparr>uf_blobs := b\<lparr>bs_list_parts := (\<lambda>_ _. ret (Ok (Some [\<lparr>up_part_number = 1, up_etag = ''e1'', up_size = 3\<rparr>]))),
    bs_complete_multipart := s3_complete_multipart sample_s3\<rparr>\<rparr>"
  show "let g = ?g in run_state (run_pipeline dg g cmd) () = run_state (reject g cmd INVALID_PARTS) ()"
    using cut_off_completion_rejects [of ?g cmd "()" "[\<lparr>up_part_number = 1, up_etag = ''e1'', up_size = 3\<rparr>]" "()" sample_s3
        ResponseError "''unexpected end of file''" "()" dg]
    by (simp add: sample_s3_def Let_def cut_off_def)
qed

end
