(* ===== verification/Projector_Race.thy ===== *)
theory Projector_Race
  imports Projector
begin

text \<open>
  The projection without its lease. \<open>ProjectorLease\<close> of document-adapters/src/postgres/projection.rs is there to keep two workers from
  projecting at once, and a lost session can break it. This theory shows that the guard of \<open>upsert_document\<close> and the shape of the
  fold already make that harmless: every event overwrites some fields and keeps the others, so folding a stretch of a document's
  history a second time changes nothing, and a row is only replaced by a newer one.
\<close>

section \<open>Folding twice\<close>

text \<open>A field is kept, or set to a value that does not depend on the state.\<close>

definition kept_or_set :: "(DocumentState \<Rightarrow> 'a) \<Rightarrow> (DocumentState \<Rightarrow> DocumentState) \<Rightarrow> bool" where
  "kept_or_set fld f = ((\<forall>s. fld (f s) = fld s) \<or> (\<forall>s u. fld (f s) = fld (f u)))"

lemma kept_or_set_comp: "kept_or_set fld f \<Longrightarrow> kept_or_set fld g \<Longrightarrow> kept_or_set fld (f \<circ> g)"
  by (auto simp: kept_or_set_def)

lemma kept_or_set_twice: "kept_or_set fld f \<Longrightarrow> fld (f (f s)) = fld (f s)"
  by (auto simp: kept_or_set_def)

definition overwriting :: "(DocumentState \<Rightarrow> DocumentState) \<Rightarrow> bool" where
  "overwriting f = (kept_or_set ds_tenant_id f \<and> kept_or_set ds_document_id f \<and> kept_or_set ds_owner_user_id f
     \<and> kept_or_set ds_version f \<and> kept_or_set ds_stream_seq f \<and> kept_or_set ds_state f \<and> kept_or_set ds_index_state f
     \<and> kept_or_set ds_index_version f \<and> kept_or_set ds_current_blob f \<and> kept_or_set ds_filename f
     \<and> kept_or_set ds_content_type f \<and> kept_or_set ds_byte_size f \<and> kept_or_set ds_checksum f \<and> kept_or_set ds_title f
     \<and> kept_or_set ds_tags f \<and> kept_or_set ds_description f \<and> kept_or_set ds_metadata f \<and> kept_or_set ds_created_at f
     \<and> kept_or_set ds_updated_at f)"

lemma overwriting_comp: "overwriting f \<Longrightarrow> overwriting g \<Longrightarrow> overwriting (\<lambda>s. f (g s))"
  unfolding overwriting_def by (simp add: kept_or_set_comp [unfolded comp_def])

lemma overwriting_twice: "overwriting f \<Longrightarrow> f (f s) = f s"
  unfolding overwriting_def by (intro DocumentState.equality) (simp_all add: kept_or_set_twice)

lemma overwriting_id: "overwriting (\<lambda>s. s)"
  by (simp add: overwriting_def kept_or_set_def)

lemma overwriting_merge: "overwriting (\<lambda>s. merge_patch s p)"
  by (cases "mp_title p"; cases "mp_tags p"; cases "mp_description p"; cases "mp_metadata p")
    (simp_all add: overwriting_def kept_or_set_def)

text \<open>What an event does to a state of its document.\<close>

definition touch :: "u64 \<times> DocumentEvent \<Rightarrow> DocumentState \<Rightarrow> DocumentState" where
  "touch x s = (case apply_event (Some (s\<lparr>ds_document_id := ev_document_id (snd x)\<rparr>)) (snd x) (fst x) of Ok t \<Rightarrow> t | Err _ \<Rightarrow> s)"

lemma overwriting_touch: "overwriting (touch x)"
proof -
  obtain q e where x: "x = (q, e)" by (cases x)
  let ?head = "\<lambda>s. s\<lparr>ds_document_id := ev_document_id e, ds_version := ev_version e, ds_stream_seq := q, ds_updated_at := ev_ts e\<rparr>"
  have head: "overwriting ?head" by (simp add: overwriting_def kept_or_set_def)
  show ?thesis
  proof (cases "ev_payload e")
    case (DocumentCreated c)
    show ?thesis
    proof (cases "ev_actor e")
      case (User u)
      have "overwriting (\<lambda>s. seed_state (Some s) e c u q)" by (simp add: overwriting_def kept_or_set_def seed_state_def)
      from overwriting_comp [OF overwriting_merge this]
      have "overwriting (\<lambda>s. merge_patch (seed_state (Some s) e c u q) (dc_patch c))" .
      moreover have "touch x = (\<lambda>s. merge_patch (seed_state (Some s) e c u q) (dc_patch c))"
        by (auto simp: touch_def apply_event_def DocumentCreated User x seed_state_def)
      ultimately show ?thesis by simp
    next
      case (System n)
      then have "touch x = (\<lambda>s. s)" by (auto simp: touch_def apply_event_def DocumentCreated x)
      then show ?thesis by (simp add: overwriting_id)
    qed
  next
    case (DocumentBlobValidated v)
    have "overwriting (\<lambda>s. (?head s)\<lparr>ds_current_blob := Some (bv_blob_ref v), ds_filename := Some (bv_filename v),
       ds_content_type := Some (bv_content_type v), ds_byte_size := Some (bv_byte_size v),
       ds_checksum := Some (bv_checksum v), ds_index_state := Pending\<rparr>)" by (simp add: overwriting_def kept_or_set_def)
    from overwriting_comp [OF overwriting_merge [of "bv_patch v"] this] show ?thesis
      by (simp add: touch_def [abs_def] apply_event_def DocumentBlobValidated x)
  next
    case (DocumentMetadataChanged p)
    then show ?thesis using overwriting_comp [OF overwriting_merge head] by (simp add: touch_def [abs_def] apply_event_def x)
  next
    case (DocumentReverted n p)
    then show ?thesis using overwriting_comp [OF overwriting_merge head] by (simp add: touch_def [abs_def] apply_event_def x)
  qed (simp_all add: touch_def apply_event_def x overwriting_def kept_or_set_def)
qed

lemma touch_created_at [simp]: "ds_created_at (touch x s) = ds_created_at s"
  by (auto simp: touch_def dest: apply_event_envelope(5) split: result.splits)

section \<open>The state of a document, failures skipped\<close>

definition settle_one :: "u64 \<times> DocumentEvent \<Rightarrow> DocumentState option \<Rightarrow> DocumentState option" where
  "settle_one x st = (case apply_event st (snd x) (fst x) of Ok t \<Rightarrow> Some t | Err _ \<Rightarrow> st)"

abbreviation settle :: "(u64 \<times> DocumentEvent) list \<Rightarrow> DocumentState option \<Rightarrow> DocumentState option" where
  "settle \<equiv> fold settle_one"

lemma settle_one_simps [simp]:
  "apply_event st (snd x) (fst x) = Ok t \<Longrightarrow> settle_one x st = Some t"
  "apply_event st (snd x) (fst x) = Err e \<Longrightarrow> settle_one x st = st"
  by (simp_all add: settle_one_def)

definition of_document :: "string \<times> string \<Rightarrow> (u64 \<times> DocumentEvent) list \<Rightarrow> bool" where
  "of_document k h = list_all (\<lambda>(_, e). (ev_tenant_id e, ev_document_id e) = k) h"

lemma of_document_simps [simp]:
  "of_document k []" "of_document k (x # h) \<longleftrightarrow> (ev_tenant_id (snd x), ev_document_id (snd x)) = k \<and> of_document k h"
  "of_document k (g @ h) \<longleftrightarrow> of_document k g \<and> of_document k h"
  by (auto simp: of_document_def)

lemma settle_one_Some:
  assumes "state_key s = (ev_tenant_id (snd x), ev_document_id (snd x))"
  shows "settle_one x (Some s) = Some (touch x s) \<and> state_key (touch x s) = state_key s"
proof -
  have "s\<lparr>ds_document_id := ev_document_id (snd x)\<rparr> = s" using assms by (simp add: state_key_def)
  then show ?thesis using assms apply_event_key [of "Some s" "snd x" "fst x"]
    by (auto simp: settle_one_def touch_def split: result.splits)
qed

lemma settle_Some:
  "of_document k h \<Longrightarrow> state_key s = k \<Longrightarrow> settle h (Some s) = Some (fold touch h s) \<and> state_key (fold touch h s) = k"
  by (induction h arbitrary: s) (auto simp: settle_one_Some)

lemma overwriting_fold: "overwriting (fold touch h)"
proof (induction h)
  case Nil
  then show ?case by (simp add: overwriting_def kept_or_set_def)
next
  case (Cons x h)
  from overwriting_comp [OF this overwriting_touch] show ?case by (simp add: comp_def)
qed

lemma fold_created_at [simp]: "ds_created_at (fold touch h s) = ds_created_at s"
  by (induction h arbitrary: s) auto

lemma settle_one_None:
  "settle_one x None = Some v \<Longrightarrow> state_key v = (ev_tenant_id (snd x), ev_document_id (snd x))"
  using apply_event_key [of None "snd x" "fst x"] by (auto simp: settle_one_def split: result.splits)

text \<open>A create replaces the whole state but the creation time.\<close>

lemma touch_create:
  assumes "settle_one x None = Some v" "state_key u = state_key v" "ds_created_at u = ds_created_at v"
  shows "touch x u = v"
proof -
  obtain q e where x: "x = (q, e)" by (cases x)
  have v: "apply_event None e q = Ok v" using assms(1) by (auto simp: settle_one_def x split: result.splits)
  have "ds_document_id u = ev_document_id e" using assms(2) apply_event_envelope(1) [OF v] by (simp add: state_key_def)
  then have "apply_event (Some u) e q = Ok v"
    using v assms(3) apply_event_envelope(5) [OF v]
    by (auto simp: apply_event_def seed_state_def split: DocumentEventPayload.splits Actor.splits)
  moreover have "u\<lparr>ds_document_id := ev_document_id e\<rparr> = u" using \<open>ds_document_id u = ev_document_id e\<close> by simp
  ultimately show ?thesis by (simp add: touch_def x)
qed

lemma settle_over:
  assumes "of_document k h" "settle h None = Some s" "state_key u = k" "ds_created_at u = ds_created_at s"
  shows "settle h (Some u) = Some s"
  using assms
proof (induction h arbitrary: u)
  case (Cons x h)
  have u: "settle_one x (Some u) = Some (touch x u)" "state_key (touch x u) = k"
    using Cons.prems settle_one_Some [of u x] by auto
  show ?case
  proof (cases "settle_one x None")
    case None
    then show ?thesis using Cons u by simp
  next
    case (Some v)
    then have "state_key v = k" using settle_one_None [OF Some] Cons.prems(1) by simp
    then have h: "Some s = Some (fold touch h v)" using settle_Some [of k h v] Cons.prems(1,2) Some by simp
    then have "touch x u = v" using touch_create [OF Some] Cons.prems(3,4) \<open>state_key v = k\<close> by simp
    then show ?thesis using u(1) Cons.prems(2) Some by simp
  qed
qed simp

lemma settle_None_key: "of_document k h \<Longrightarrow> settle h None = Some s \<Longrightarrow> state_key s = k"
proof (induction h arbitrary: s rule: rev_induct)
  case (snoc x h)
  then show ?case using settle_one_None [of x] settle_one_Some [of _ x] by (cases "settle h None") auto
qed simp

lemma settle_again:
  assumes "of_document k h" "of_document k g"
  shows "settle h (settle h (settle g None)) = settle h (settle g None)"
proof (cases "settle g None")
  case (Some s)
  then have k: "state_key s = k" using settle_None_key [OF assms(2)] by simp
  have "settle h (Some s) = Some (fold touch h s)" "settle h (Some (fold touch h s)) = Some (fold touch h (fold touch h s))"
    using settle_Some [OF assms(1) k] settle_Some [OF assms(1), of "fold touch h s"] by simp_all
  then show ?thesis by (simp add: Some overwriting_twice [OF overwriting_fold])
next
  case None
  then show ?thesis
  proof (cases "settle h None")
    case (Some s)
    then show ?thesis using settle_over [OF assms(1) Some] settle_None_key [OF assms(1) Some] None by simp
  qed (simp add: None)
qed

section \<open>Sequence numbers\<close>

definition applicable :: "DocumentEvent \<Rightarrow> bool" where
  "applicable e = (is_created e \<longrightarrow> by_user e)"

text \<open>A settled state carries the number of the last applicable event, or it is the state the events met.\<close>

lemma settle_seq:
  assumes "settle h st = Some v"
  shows "st = Some v \<or> (\<exists>x \<in> set h. applicable (snd x) \<and> ds_stream_seq v = fst x)"
  using assms
proof (induction h arbitrary: v rule: rev_induct)
  case (snoc x h)
  show ?case
  proof (cases "apply_event (settle h st) (snd x) (fst x)")
    case (Ok t)
    then have "applicable (snd x)" "ds_stream_seq t = fst x"
      using apply_event_ok_iff [of "settle h st" "snd x" "fst x"] apply_event_envelope(3) by (auto simp: applicable_def)
    then show ?thesis using Ok snoc.prems by auto
  next
    case (Err e)
    then show ?thesis using snoc.IH [of v] snoc.prems by auto
  qed
qed simp

lemma settle_seq_ge:
  assumes "of_document k h" "sorted_wrt (\<lambda>a b. fst a < fst b) h" "settle h None = Some s" "x \<in> set h" "applicable (snd x)"
  shows "fst x \<le> ds_stream_seq s"
  using assms
proof (induction h arbitrary: s rule: rev_induct)
  case (snoc y h)
  show ?case
  proof (cases "apply_event (settle h None) (snd y) (fst y)")
    case (Ok t)
    then have "ds_stream_seq s = fst y" using snoc.prems(3) apply_event_envelope(3) [OF Ok] Ok by simp
    then show ?thesis using snoc.prems(2,4) by (auto simp: sorted_wrt_append intro: less_imp_le)
  next
    case (Err e)
    then have h: "settle h None = Some s" using snoc.prems(3) by simp
    have k: "state_key s = k" by (rule settle_None_key [OF _ h]) (use snoc.prems(1) in simp)
    then have "\<not> applicable (snd y)" using apply_event_ok_iff [of "Some s" "snd y" "fst y"] Err h snoc.prems(1)
      by (auto simp: applicable_def state_key_def)
    then show ?thesis using snoc.IH [OF _ _ h] snoc.prems by (auto simp: sorted_wrt_append)
  qed
qed simp

text \<open>Folding a stretch \<open>b\<close> again, onto the state after a longer stretch, gives nothing newer; onto the state after a shorter one it
  gives the state after \<open>b\<close>.\<close>

lemma newest_longer:
  assumes "of_document k (g @ b @ r)" "sorted_wrt (\<lambda>a b. fst a < fst b) (g @ b @ r)"
  shows "newest (settle (g @ b @ r) None) (settle b (settle (g @ b @ r) None)) = settle (g @ b @ r) None"
proof (cases "settle (g @ b @ r) None")
  case None
  have "settle h st = None \<Longrightarrow> st = None" for h st
    by (induction h arbitrary: st) (auto simp: settle_one_def split: result.splits)
  then have "settle (g @ b) None = None" "settle g None = None" using None by (metis fold_append comp_apply)+
  then have "settle b None = None" by simp
  then show ?thesis by (simp only: None newest_simps)
next
  case (Some s)
  show ?thesis
  proof (cases "settle b (Some s)")
    case (Some v)
    from settle_seq [OF this] show ?thesis
    proof
      assume "\<exists>x \<in> set b. applicable (snd x) \<and> ds_stream_seq v = fst x"
      then obtain x where "x \<in> set (g @ b @ r)" "applicable (snd x)" "ds_stream_seq v = fst x" by auto
      then have "ds_stream_seq v \<le> ds_stream_seq s"
        using settle_seq_ge [OF assms \<open>settle (g @ b @ r) None = Some s\<close>] by metis
      then show ?thesis unfolding \<open>settle (g @ b @ r) None = Some s\<close> Some by (simp add: newest_def)
    next
      assume "Some s = Some v"
      then show ?thesis unfolding \<open>settle (g @ b @ r) None = Some s\<close> Some by (simp only: newest_simps)
    qed
  qed (simp only: Some newest_simps)
qed

lemma newest_shorter:
  assumes "of_document k (g @ b @ r)" "sorted_wrt (\<lambda>a b. fst a < fst b) (g @ b @ r)"
  shows "newest (settle (g @ b) None) (settle (b @ r) (settle (g @ b) None)) = settle (g @ b @ r) None"
proof -
  have again: "settle (b @ r) (settle (g @ b) None) = settle (g @ b @ r) None"
    using settle_again [of k b g] assms(1) by simp
  show ?thesis
  proof (cases "settle (g @ b) None")
    case None
    then show ?thesis unfolding again by (simp only: newest_simps)
  next
    case (Some s)
    obtain v where v: "settle (g @ b @ r) None = Some v"
      using settle_Some [of k r s] settle_None_key [OF _ Some] assms(1) Some by auto
    then have "settle r (Some s) = Some v" using Some by simp
    from settle_seq [OF this] show ?thesis
    proof
      assume "\<exists>x \<in> set r. applicable (snd x) \<and> ds_stream_seq v = fst x"
      then obtain x where "x \<in> set r" "ds_stream_seq v = fst x" by blast
      moreover obtain y where "y \<in> set g \<union> set b" "ds_stream_seq s = fst y" using settle_seq [OF Some] by auto
      moreover have "\<forall>y \<in> set g \<union> set b. \<forall>x \<in> set r. fst y < fst x" using assms(2) unfolding sorted_wrt_append set_append by blast
      ultimately have "ds_stream_seq s < ds_stream_seq v" by (metis (no_types))
      then show ?thesis unfolding again unfolding v Some by (simp add: newest_def)
    next
      assume "Some s = Some v"
      then show ?thesis unfolding again unfolding v Some by (simp only: newest_simps)
    qed
  qed
qed

section \<open>The log of a document\<close>

lemma history_of_append: "history_of sj k (ms @ ns) = history_of sj k ms @ history_of sj k ns"
  by (simp add: history_of_def map_filter_def)

lemma project_one_settles:
  assumes "addressed sj m" "rows_keyed t"
  shows "project_one sj m t k = settle (history_of sj k [m]) (t k)"
proof -
  obtain sequence subject payload where m: "m = (sequence, subject, payload)" by (cases m)
  show ?thesis
  proof (cases "\<exists>e. decode_event sj payload = DecodedEvent e")
    case True
    then obtain e where e: "decode_event sj payload = DecodedEvent e" ..
    have "document_key_from_subject subject = Some (ev_tenant_id e, ev_document_id e)"
      using assms(1) e by (simp add: m addressed_def)
    then show ?thesis using project_one_decoded [OF assms(1) [unfolded m] assms(2) e]
      by (auto simp: m history_of_def map_filter_def e settle_one_def Let_def split: result.splits)
  next
    case False
    then have "history_of sj k [m] = []" by (auto simp: m history_of_def map_filter_def split: DecodedEvent.splits)
    then show ?thesis using False by (simp add: m project_one_undecoded)
  qed
qed

lemma fold_project_settles:
  "\<forall>m \<in> set ms. addressed sj m \<Longrightarrow> rows_keyed t \<Longrightarrow> fold (project_one sj) ms t k = settle (history_of sj k ms) (t k)"
proof (induction ms arbitrary: t)
  case (Cons m ms)
  then show ?case using history_of_append [of sj k "[m]" ms] keyed_project_one [of sj m t]
    by (simp add: project_one_settles)
qed (simp add: history_of_def map_filter_simps)

lemma projected_settles: "\<forall>m \<in> set ms. addressed sj m \<Longrightarrow> projected sj ms k = settle (history_of sj k ms) None"
  unfolding projected_def by (subst fold_project_settles) (simp_all add: rows_keyed_def)

lemma history_of_document: "\<forall>m \<in> set ms. addressed sj m \<Longrightarrow> of_document k (history_of sj k ms)"
  by (auto simp: of_document_def list_all_iff history_of_def map_filter_def addressed_def split: DecodedEvent.splits if_splits)

lemma history_of_sorted:
  "sorted_wrt (\<lambda>a b. seq_of a < seq_of b) ms \<Longrightarrow> sorted_wrt (\<lambda>a b. fst a < fst b) (history_of sj k ms)"
proof (induction ms)
  case (Cons m ms)
  have "fst ` set (history_of sj k ms) \<subseteq> fst ` set ms" 
    by (force simp: history_of_def map_filter_def split: DecodedEvent.splits if_splits)
  then have "\<forall>x \<in> set (history_of sj k ms). fst m < fst x" using Cons.prems by (fastforce simp: word_less_nat_alt)
  moreover have "\<forall>y \<in> set (history_of sj k [m]). fst y = fst m"
    by (auto simp: history_of_def map_filter_def split: prod.splits DecodedEvent.splits if_splits)
  moreover have "length (history_of sj k [m]) \<le> 1" by (simp add: history_of_def map_filter_def)
  ultimately show ?case using history_of_append [of sj k "[m]" ms] Cons
    by (cases "history_of sj k [m]") (auto simp: sorted_wrt_append)
qed (simp add: history_of_def map_filter_simps)

section \<open>Any number of projectors\<close>

text \<open>Several workers run \<open>ProjectionLoop::run\<close> on the same table and none of them knows of the others. Each has the position of
  its own consumer; the checkpoint is shared, and whoever commits last sets it.\<close>

record Projectors =
  rc_log :: "message list"
  rc_pg :: Pg
  rc_at :: "nat \<Rightarrow> nat option"

inductive race_step :: "SerdeJson \<Rightarrow> string \<Rightarrow> Projectors \<Rightarrow> Projectors \<Rightarrow> bool"
  for sj :: SerdeJson and name :: string where
  race_publish: "addressed sj m \<Longrightarrow> 0 < seq_of m \<Longrightarrow> \<forall>m' \<in> set (rc_log s). seq_of m' < seq_of m \<Longrightarrow>
    race_step sj name s (s\<lparr>rc_log := rc_log s @ [m]\<rparr>)"
| race_start: "race_step sj name s (s\<lparr>rc_at := (rc_at s)(i := Some (unat (read_checkpoint name (rc_pg s))))\<rparr>)"
| race_commit: "rc_at s i = Some at \<Longrightarrow> deliverable at (rc_log s) = batch @ rest \<Longrightarrow> batch \<noteq> [] \<Longrightarrow>
    race_step sj name s
      (s\<lparr>rc_pg := apply_batch sj name batch (rc_pg s), rc_at := (rc_at s)(i := Some (seq_of (last batch)))\<rparr>)"
| race_stop: "race_step sj name s (s\<lparr>rc_at := (rc_at s)(i := None)\<rparr>)"

definition idle_race :: Projectors where
  "idle_race = \<lparr>rc_log = [], rc_pg = empty_pg, rc_at = (\<lambda>_. None)\<rparr>"

definition log_end :: "message list \<Rightarrow> nat" where
  "log_end log = (if log = [] then 0 else seq_of (last log))"

text \<open>What a position vouches for: every row is the fold of the log up to that position or further.\<close>

definition covered :: "SerdeJson \<Rightarrow> message list \<Rightarrow> Pg \<Rightarrow> nat \<Rightarrow> bool" where
  "covered sj log pg c = (\<forall>k. \<exists>q. c \<le> q \<and> q \<le> log_end log \<and> table sj pg k = projected sj (up_to q log) k)"

definition race_inv :: "SerdeJson \<Rightarrow> string \<Rightarrow> Projectors \<Rightarrow> bool" where
  "race_inv sj name s = (log_ok sj (rc_log s) \<and> rows_ok sj (log_end (rc_log s)) (rc_pg s)
     \<and> covered sj (rc_log s) (rc_pg s) (unat (read_checkpoint name (rc_pg s)))
     \<and> (\<forall>i at. rc_at s i = Some at \<longrightarrow> covered sj (rc_log s) (rc_pg s) at))"

lemma up_to_prefix:
  assumes "sorted_wrt (\<lambda>a b. seq_of a < seq_of b) log" "a \<le> b"
  obtains zs where "up_to b log = up_to a log @ zs"
proof -
  have "sorted_wrt (\<lambda>a b. seq_of a < seq_of b) (up_to b log)" using assms(1) by (simp add: up_to_def sorted_wrt_filter)
  from split_at [OF this, of a] have "up_to a (up_to b log) @ deliverable a (up_to b log) = up_to b log" .
  moreover have "up_to a (up_to b log) = up_to a log" using assms(2) by (auto simp: up_to_def intro!: filter_cong)
  ultimately show thesis using that by metis
qed

lemma projected_up_to:
  assumes "log_ok sj log"
  shows "projected sj (up_to q log) k = settle (history_of sj k (up_to q log)) None"
    "of_document k (history_of sj k (up_to q log))" "sorted_wrt (\<lambda>a b. fst a < fst b) (history_of sj k (up_to q log))"
proof -
  have "\<forall>m \<in> set (up_to q log). addressed sj m" "sorted_wrt (\<lambda>a b. seq_of a < seq_of b) (up_to q log)"
    using assms by (auto simp: log_ok_def up_to_def sorted_wrt_filter)
  then show "projected sj (up_to q log) k = settle (history_of sj k (up_to q log)) None"
    "of_document k (history_of sj k (up_to q log))" "sorted_wrt (\<lambda>a b. fst a < fst b) (history_of sj k (up_to q log))"
    by (simp_all add: projected_settles history_of_document history_of_sorted)
qed

text \<open>A commit from any position that is covered: the rows move to the further of where they were and the end of the batch.\<close>

lemma newest_after_batch:
  assumes "log_ok sj log" "deliverable at log = batch @ rest" "batch \<noteq> []" "at \<le> q"
  shows "newest (projected sj (up_to q log) k) (settle (history_of sj k batch) (projected sj (up_to q log) k)) =
    projected sj (up_to (max q (seq_of (last batch))) log) k"
proof -
  let ?r = "seq_of (last batch)"
  have sorted: "sorted_wrt (\<lambda>a b. seq_of a < seq_of b) log" using assms(1) by (simp add: log_ok_def)
  note r = up_to_batch [OF sorted assms(2,3)]
  note q = projected_up_to [OF assms(1), where q = q and k = k]
  note R = projected_up_to [OF assms(1), where q = ?r and k = k]
  show ?thesis
  proof (cases "?r \<le> q")
    case True
    obtain zs where zs: "up_to q log = up_to ?r log @ zs" using up_to_prefix [OF sorted True] .
    have "history_of sj k (up_to q log) = history_of sj k (up_to at log) @ history_of sj k batch @ history_of sj k zs"
      by (simp add: zs r history_of_append)
    then show ?thesis using newest_longer q True by (simp only: max_absorb1)
  next
    case False
    then have qr: "q \<le> ?r" by simp
    obtain ys where ys: "up_to q log = up_to at log @ ys" using up_to_prefix [OF sorted assms(4)] .
    obtain zs where zs: "up_to ?r log = up_to q log @ zs" using up_to_prefix [OF sorted qr] .
    have "batch = ys @ zs" using r ys zs by simp
    then have "history_of sj k batch = history_of sj k ys @ history_of sj k zs" by (simp only: history_of_append)
    moreover have "history_of sj k (up_to q log) = history_of sj k (up_to at log) @ history_of sj k ys"
      by (simp only: ys history_of_append)
    moreover have "history_of sj k (up_to ?r log) = history_of sj k (up_to at log) @ history_of sj k ys @ history_of sj k zs"
      by (simp add: zs ys history_of_append)
    ultimately show ?thesis using newest_shorter R q(1) qr by (simp only: max_absorb2)
  qed
qed

lemma last_log_end:
  assumes "log_ok sj log" "m \<in> set log"
  shows "seq_of m \<le> log_end log"
proof -
  obtain ms n where "log = ms @ [n]" using assms(2) by (cases log rule: rev_cases) auto
  then show ?thesis using assms by (auto simp: log_end_def log_ok_def sorted_wrt_append intro: less_imp_le)
qed

lemma batch_in_log: "deliverable at log = batch @ rest \<Longrightarrow> set batch \<subseteq> set log"
  by (metis deliverable_def filter_is_subset le_sup_iff set_append)

lemma covered_commit:
  assumes "tags_ok sj" "log_ok sj log" "rows_ok sj (log_end log) pg" "covered sj log pg at"
    and "deliverable at log = batch @ rest" "batch \<noteq> []" "covered sj log pg c"
  shows "covered sj log (apply_batch sj name batch pg) (max c (seq_of (last batch)))"
  unfolding covered_def
proof
  fix k
  let ?r = "seq_of (last batch)" and ?T = "table sj pg k"
  have in_log: "set batch \<subseteq> set log"
    using assms(5) by (rule batch_in_log)
  then have batch: "\<forall>m \<in> set batch. addressed sj m \<and> unat (fst m) \<le> log_end log"
    using assms(2) last_log_end [OF assms(2)] by (auto simp: log_ok_def)
  then have r: "?r \<le> log_end log" using assms(6) by simp
  from assms(4,7) obtain q where q: "at \<le> q" "c \<le> q" "q \<le> log_end log" "?T = projected sj (up_to q log) k"
    unfolding covered_def by (metis nle_le order_trans)
  have "table sj (apply_batch sj name batch pg) k = newest ?T (settle (history_of sj k batch) ?T)"
    using apply_batch_newest [OF assms(1,3) order_refl batch] fold_project_settles table_keyed [OF assms(1,3)] batch by simp
  also have "\<dots> = projected sj (up_to (max q ?r) log) k"
    unfolding q(4) by (rule newest_after_batch [OF assms(2,5,6) q(1)])
  finally show "\<exists>q. max c ?r \<le> q \<and> q \<le> log_end log \<and> table sj (apply_batch sj name batch pg) k = projected sj (up_to q log) k"
    using q(2,3) r by (intro exI [of _ "max q ?r"]) auto
qed

lemma covered_mono: "covered sj log pg c \<Longrightarrow> b \<le> c \<Longrightarrow> covered sj log pg b"
  unfolding covered_def by (meson order_trans)

lemma covered_publish:
  assumes "covered sj log pg c" "0 < seq_of m" "\<forall>m' \<in> set log. seq_of m' < seq_of m"
  shows "covered sj (log @ [m]) pg c"
  unfolding covered_def
proof
  fix k
  have lt: "log_end log < seq_of m" using assms(2,3) by (simp add: log_end_def)
  obtain q where q: "c \<le> q" "q \<le> log_end log" "table sj pg k = projected sj (up_to q log) k"
    using assms(1) unfolding covered_def by blast
  then have "up_to q (log @ [m]) = up_to q log" using lt by (simp add: up_to_def)
  then show "\<exists>q. c \<le> q \<and> q \<le> log_end (log @ [m]) \<and> table sj pg k = projected sj (up_to q (log @ [m])) k"
    using q lt by (intro exI [of _ q]) (simp add: log_end_def)
qed

lemma race_inv_step:
  assumes "tags_ok sj" "race_step sj name s s'" "race_inv sj name s"
  shows "race_inv sj name s'"
  using assms(2)
proof cases
  case (race_publish m)
  have "log_ok sj (rc_log s @ [m])"
    using race_publish assms(3) by (auto simp: race_inv_def log_ok_def sorted_wrt_append)
  moreover have "rows_ok sj (log_end (rc_log s @ [m])) (rc_pg s)"
  proof (rule rows_ok_mono)
    show "rows_ok sj (log_end (rc_log s)) (rc_pg s)" using assms(3) by (simp add: race_inv_def)
    show "log_end (rc_log s) \<le> log_end (rc_log s @ [m])" using race_publish(4) by (simp add: log_end_def less_imp_le)
  qed
  ultimately show ?thesis using race_publish assms(3) covered_publish by (simp add: race_inv_def)
next
  case (race_start i)
  then show ?thesis using assms(3) by (auto simp: race_inv_def)
next
  case (race_commit i at batch rest)
  let ?r = "seq_of (last batch)" and ?pg = "apply_batch sj name batch (rc_pg s)"
  have s: "log_ok sj (rc_log s)" "rows_ok sj (log_end (rc_log s)) (rc_pg s)" "covered sj (rc_log s) (rc_pg s) at"
    using assms(3) race_commit(2) by (auto simp: race_inv_def)
  note move = covered_commit [OF assms(1) s race_commit(3,4), where name = name]
  have in_log: "set batch \<subseteq> set (rc_log s)"
    using race_commit(3) by (rule batch_in_log)
  then have batch: "\<forall>m \<in> set batch. addressed sj m \<and> unat (fst m) \<le> log_end (rc_log s)"
    using s(1) last_log_end [OF s(1)] by (auto simp: log_ok_def)
  then have "fits (fst (last batch))" using race_commit(4) by (auto simp: addressed_def case_prod_unfold)
  note cp = checkpoint_apply_batch [OF race_commit(4) this, of name sj "rc_pg s"]
  have "covered sj (rc_log s) ?pg c" if "covered sj (rc_log s) (rc_pg s) c" for c using covered_mono [OF move [OF that]] by simp
  moreover have "covered sj (rc_log s) ?pg ?r" using covered_mono [OF move [OF s(3)]] by simp
  moreover have "rows_ok sj (log_end (rc_log s)) ?pg" using apply_batch_newest [OF assms(1) s(2) order_refl batch] by blast
  ultimately show ?thesis using assms(3) race_commit(1) by (auto simp: race_inv_def cp)
next
  case (race_stop i)
  then show ?thesis using assms(3) by (auto simp: race_inv_def)
qed

lemma race_reaches_inv:
  assumes "tags_ok sj" "(race_step sj name)\<^sup>*\<^sup>* idle_race s"
  shows "race_inv sj name s"
  using assms(2)
proof (induction rule: rtranclp_induct)
  case base
  show ?case by (auto simp: race_inv_def idle_race_def log_ok_def covered_def log_end_def up_to_def projected_def table_def empty_pg_def
        read_checkpoint_def i64_as_u64_def rows_ok_def)
next
  case (step s s')
  then show ?case using race_inv_step [OF assms(1)] by blast
qed

section \<open>The rows survive a race\<close>

text \<open>C18. Two projectors do no harm. However many workers project the same log at once, each from the checkpoint it found when it started,
  with any batches, crashes and restarts, and however their transactions interleave: every row is the fold of a prefix of the
  log that reaches at least to the checkpoint. A commit from a position that others have passed replaces no row by an older one,
  folds no event into a row twice, and whatever it does to the checkpoint loses no event.\<close>

theorem projectors_may_race:
  assumes "tags_ok sj" "(race_step sj name)\<^sup>*\<^sup>* idle_race s"
  shows "\<exists>q. unat (read_checkpoint name (rc_pg s)) \<le> q \<and> q \<le> log_end (rc_log s)
    \<and> pg_get sj (rc_pg s) tenant document_id = projected sj (up_to q (rc_log s)) (tenant, document_id)"
  using race_reaches_inv [OF assms] by (auto simp: race_inv_def covered_def pg_get_def table_def)

text \<open>The first worker projects the whole log; the second one, which started before, then commits the first half of it.\<close>

definition ex_race :: Projectors where
  "ex_race = \<lparr>rc_log = ex_messages, rc_pg = apply_batch ex_serde DOCUMENT_PROJECTION_NAME (take 2 ex_messages)
     (apply_batch ex_serde DOCUMENT_PROJECTION_NAME ex_messages empty_pg), rc_at = (\<lambda>_. None)(0 := Some 9, 1 := Some 4)\<rparr>"

lemma race_publish_all:
  "\<forall>m \<in> set ms. addressed sj m \<and> 0 < seq_of m \<Longrightarrow> sorted_wrt (\<lambda>a b. seq_of a < seq_of b) ms \<Longrightarrow>
    (race_step sj name)\<^sup>*\<^sup>* idle_race (idle_race\<lparr>rc_log := ms\<rparr>)"
proof (induction ms rule: rev_induct)
  case Nil
  then show ?case by (simp add: idle_race_def)
next
  case (snoc m ms)
  then have "(race_step sj name)\<^sup>*\<^sup>* idle_race (idle_race\<lparr>rc_log := ms\<rparr>)" by (simp add: sorted_wrt_append)
  moreover have "race_step sj name (idle_race\<lparr>rc_log := ms\<rparr>) (idle_race\<lparr>rc_log := ms @ [m]\<rparr>)"
    using race_publish [of sj m "idle_race\<lparr>rc_log := ms\<rparr>"] snoc.prems by (simp add: sorted_wrt_append)
  ultimately show ?case by simp
qed

lemma ex_race_reached: "(race_step ex_serde DOCUMENT_PROJECTION_NAME)\<^sup>*\<^sup>* idle_race ex_race"
proof -
  let ?N = DOCUMENT_PROJECTION_NAME
  let ?s = "\<lambda>pg at. \<lparr>rc_log = ex_messages, rc_pg = pg, rc_at = at\<rparr>"
  let ?pg = "apply_batch ex_serde ?N ex_messages empty_pg"
  have cp: "unat (read_checkpoint ?N empty_pg) = 0" by (simp add: read_checkpoint_def empty_pg_def i64_as_u64_def)
  have "(race_step ex_serde ?N)\<^sup>*\<^sup>* idle_race (?s empty_pg (\<lambda>_. None))"
    using race_publish_all [of ex_messages ex_serde ?N] ex_addressed by (simp add: idle_race_def ex_messages_def)
  also have "race_step ex_serde ?N (?s empty_pg (\<lambda>_. None)) (?s empty_pg ((\<lambda>_. None)(0 := Some 0)))"
    using race_start [of ex_serde ?N "?s empty_pg (\<lambda>_. None)" 0] by (simp add: cp)
  also have "race_step ex_serde ?N (?s empty_pg ((\<lambda>_. None)(0 := Some 0))) (?s empty_pg ((\<lambda>_. None)(0 := Some 0, 1 := Some 0)))"
    using race_start [of ex_serde ?N "?s empty_pg ((\<lambda>_. None)(0 := Some 0))" 1] by (simp add: cp)
  also have "race_step ex_serde ?N (?s empty_pg ((\<lambda>_. None)(0 := Some 0, 1 := Some 0)))
      (?s ?pg ((\<lambda>_. None)(0 := Some 9, 1 := Some 0)))"
    using race_commit [of "?s empty_pg ((\<lambda>_. None)(0 := Some 0, 1 := Some 0))" 0 0 ex_messages "[]" ex_serde ?N]
    by (simp add: deliverable_def ex_messages_def fun_upd_twist)
  also have "race_step ex_serde ?N (?s ?pg ((\<lambda>_. None)(0 := Some 9, 1 := Some 0))) ex_race"
    using race_commit [of "?s ?pg ((\<lambda>_. None)(0 := Some 9, 1 := Some 0))" 1 0 "take 2 ex_messages" "drop 2 ex_messages" ex_serde ?N]
    by (simp add: ex_race_def deliverable_def ex_messages_def)
  finally show ?thesis .
qed

theorem projectors_may_race_witness:
  "\<exists>q. 4 \<le> q \<and> q \<le> 9 \<and> pg_get ex_serde (rc_pg ex_race) ''acme'' ''doc-1'' = projected ex_serde (up_to q ex_messages) (''acme'', ''doc-1'')"
proof -
  have "unat (read_checkpoint DOCUMENT_PROJECTION_NAME (rc_pg ex_race)) = 4"
    by (simp add: ex_race_def ex_messages_def checkpoint_apply_batch fits_def)
  moreover have "log_end (rc_log ex_race) = 9" by (simp add: ex_race_def ex_messages_def log_end_def)
  ultimately show ?thesis using projectors_may_race [OF ex_serde_tags ex_race_reached, of "''acme''" "''doc-1''"]
    by (simp add: ex_race_def)
qed

end
