(* ===== verification/Projector_Loop.thy ===== *)
theory Projector_Loop
  imports Projector_Race Event_Stream
begin

text \<open>
  The projection task of the document worker: \<open>ProjectorLease\<close> and \<open>ProjectionLoop::run\<close> of
  document-adapters/src/postgres/projection.rs and \<open>run_projection\<close> of services/document-worker/src/main.rs. The database session and the
  ordered consumer are parameters. The locale \<open>projection_ports\<close> states what the task relies on; its interpretation is on a database with
  sessions, an advisory lock and other workers that act between any two calls.
\<close>

section \<open>The lease\<close>

record ('w, 'c) LeaseDb =
  ld_connect :: "('w, ('c, string) result) state"
  ld_try_advisory_lock :: "'c \<Rightarrow> int \<Rightarrow> ('w, (bool, string) result) state"
  ld_holds_advisory_lock :: "'c \<Rightarrow> int \<Rightarrow> ('w, (bool, string) result) state"
  ld_advisory_unlock :: "'c \<Rightarrow> int \<Rightarrow> ('w, (unit, string) result) state"
  ld_close :: "'c \<Rightarrow> ('w, (unit, string) result) state"
  ld_read_checkpoint :: "'c \<Rightarrow> string \<Rightarrow> ('w, (u64, string) result) state"
  ld_apply_batch :: "'c \<Rightarrow> string \<Rightarrow> message list \<Rightarrow> ('w, (unit, string) result) state"

record 'c ProjectorLease =
  pl_conn :: 'c
  pl_lock_id :: int

definition try_acquire :: "('w, 'c) LeaseDb \<Rightarrow> int \<Rightarrow> ('w, ('c ProjectorLease option, AdapterError) result) state" where
  "try_acquire db lock_id = attempt Database (ld_connect db) (\<lambda>conn.
     attempt Database (ld_try_advisory_lock db conn lock_id) (\<lambda>acquired.
       if \<not> acquired then ld_close db conn \<bind> (\<lambda>_. ret (Ok None))
       else ret (Ok (Some \<lparr>pl_conn = conn, pl_lock_id = lock_id\<rparr>))))"

definition still_held :: "('w, 'c) LeaseDb \<Rightarrow> 'c ProjectorLease \<Rightarrow> ('w, (bool, AdapterError) result) state" where
  "still_held db lease = attempt Database (ld_holds_advisory_lock db (pl_conn lease) (pl_lock_id lease)) (\<lambda>held. ret (Ok held))"

definition release_lease :: "('w, 'c) LeaseDb \<Rightarrow> 'c ProjectorLease \<Rightarrow> ('w, unit) state" where
  "release_lease db lease = ld_advisory_unlock db (pl_conn lease) (pl_lock_id lease) \<bind> (\<lambda>_.
     ld_close db (pl_conn lease) \<bind> (\<lambda>_. ret ()))"

section \<open>The loop\<close>

record ProjectionMessage =
  jm_info :: "(u64, string) result"
  jm_subject :: string
  jm_payload :: bytes

text \<open>What one wait for the next message ends with. The list of a consumer's waits may end before the loop does: then the process is
  gone.\<close>

datatype Poll = Received ProjectionMessage | ReceiveFailed string | StreamEnded | Elapsed

record 'w ProjectionStream =
  pj_create_consumer :: "u64 \<Rightarrow> ('w, (unit, string) result) state"
  pj_messages :: "u64 \<Rightarrow> ('w, (Poll list, string) result) state"

definition push_message :: "message list \<Rightarrow> ProjectionMessage \<Rightarrow> message list" where
  "push_message batch message = (case jm_info message of
      Ok sequence \<Rightarrow> batch @ [(sequence, jm_subject message, jm_payload message)] | Err _ \<Rightarrow> batch)"

fun drain :: "nat \<Rightarrow> message list \<Rightarrow> Poll list \<Rightarrow> (message list \<times> Poll list) option" where
  "drain batch_size batch [] = (if length batch < batch_size then None else Some (batch, []))"
| "drain batch_size batch (poll # polls) =
     (if length batch < batch_size
      then (case poll of Received message \<Rightarrow> drain batch_size (push_message batch message) polls | _ \<Rightarrow> Some (batch, polls))
      else Some (batch, poll # polls))"

lemma drain_shorter: "drain n batch polls = Some (batch', rest) \<Longrightarrow> length rest \<le> length polls"
  by (induction n batch polls rule: drain.induct) (auto split: if_splits Poll.splits)

function run_loop ::
  "('w, 'c) LeaseDb \<Rightarrow> string \<Rightarrow> nat \<Rightarrow> 'c ProjectorLease \<Rightarrow> Poll list \<Rightarrow> ('w, (unit, AdapterError) result option) state" where
  "run_loop db name batch_size lease polls =
     still_held db lease \<bind> (\<lambda>held. case held of
       Err e \<Rightarrow> ret (Some (Err e))
     | Ok False \<Rightarrow> ret (Some (Ok ()))
     | Ok True \<Rightarrow> (case polls of
         [] \<Rightarrow> ret None
       | Received message # polls \<Rightarrow> (case drain batch_size (push_message [] message) polls of
           None \<Rightarrow> ret None
         | Some (batch, rest) \<Rightarrow>
             if batch = [] then run_loop db name batch_size lease rest
             else still_held db lease \<bind> (\<lambda>held. case held of
               Err e \<Rightarrow> ret (Some (Err e))
             | Ok False \<Rightarrow> ret (Some (Ok ()))
             | Ok True \<Rightarrow> ld_apply_batch db (pl_conn lease) name batch \<bind> (\<lambda>r. case r of
                 Err e \<Rightarrow> ret (Some (Err (Database e)))
               | Ok _ \<Rightarrow> run_loop db name batch_size lease rest)))
       | ReceiveFailed _ # polls \<Rightarrow> run_loop db name batch_size lease polls
       | StreamEnded # _ \<Rightarrow> ret (Some (Ok ()))
       | Elapsed # polls \<Rightarrow> run_loop db name batch_size lease polls))"
  by pat_completeness auto
termination
  by (relation "measure (\<lambda>(db, name, n, lease, polls). length polls)") (auto dest!: drain_shorter)

declare run_loop.simps [simp del]

definition run_projector ::
  "('w, 'c) LeaseDb \<Rightarrow> 'w ProjectionStream \<Rightarrow> string \<Rightarrow> nat \<Rightarrow> 'c ProjectorLease \<Rightarrow> ('w, (unit, AdapterError) result option) state" where
  "run_projector db stream name batch_size lease =
     ld_read_checkpoint db (pl_conn lease) name \<bind> (\<lambda>r. case r of
       Err e \<Rightarrow> ret (Some (Err (Database e)))
     | Ok reached \<Rightarrow> pj_create_consumer stream (reached + 1) \<bind> (\<lambda>r. case r of
         Err e \<Rightarrow> ret (Some (Err (Topology (''create projection consumer: '' @ e))))
       | Ok _ \<Rightarrow> pj_messages stream (reached + 1) \<bind> (\<lambda>r. case r of
           Err e \<Rightarrow> ret (Some (Err (Topology (''open projection stream: '' @ e))))
         | Ok polls \<Rightarrow> run_loop db name batch_size lease polls)))"

text \<open>The election, as many rounds as the process lives.\<close>

fun run_projection :: "nat \<Rightarrow> ('w, 'c) LeaseDb \<Rightarrow> 'w ProjectionStream \<Rightarrow> string \<Rightarrow> WorkerConfig \<Rightarrow> ('w, unit) state" where
  "run_projection 0 db stream name config = ret ()"
| "run_projection (Suc rounds) db stream name config =
     try_acquire db (wc_projector_lock_id config) \<bind> (\<lambda>r. case r of
       Ok (Some lease) \<Rightarrow> run_projector db stream name (max (wc_projection_batch config) 1) lease \<bind> (\<lambda>r. case r of
           None \<Rightarrow> ret ()
         | Some _ \<Rightarrow> release_lease db lease \<bind> (\<lambda>_. run_projection rounds db stream name config))
     | Ok None \<Rightarrow> run_projection rounds db stream name config
     | Err _ \<Rightarrow> run_projection rounds db stream name config)"

section \<open>What the task relies on\<close>

definition delivered :: "Poll list \<Rightarrow> message list" where
  "delivered polls = concat (map (\<lambda>poll. case poll of Received m \<Rightarrow> push_message [] m | _ \<Rightarrow> []) polls)"

lemma delivered_simps [simp]:
  "delivered [] = []" "delivered (Received m # polls) = push_message [] m @ delivered polls"
  "delivered (ReceiveFailed e # polls) = delivered polls" "delivered (StreamEnded # polls) = delivered polls"
  "delivered (Elapsed # polls) = delivered polls"
  by (simp_all add: delivered_def)

lemma push_message_append: "push_message batch m = batch @ push_message [] m"
  by (simp add: push_message_def split: result.splits)

lemma drain_delivers: "drain n batch polls = Some (batch', rest) \<Longrightarrow> batch @ delivered polls = batch' @ delivered rest"
proof (induction n batch polls rule: drain.induct)
  case (2 n batch poll polls)
  then show ?case
    by (cases poll) (auto simp: push_message_append [of batch] split: if_splits)
qed (auto split: if_splits)

lemma deliverable_rest:
  assumes "sorted_wrt (\<lambda>a b. seq_of a < seq_of b) log" "deliverable at log = batch @ rest" "batch \<noteq> []"
  shows "deliverable (seq_of (last batch)) log = rest"
proof -
  have "up_to at log @ batch @ rest = log" using split_at [OF assms(1), of at] assms(2) by simp
  moreover have "(up_to at log @ batch) @ deliverable (seq_of (last batch)) log = log"
    using split_at [OF assms(1), of "seq_of (last batch)"] up_to_batch [OF assms] by simp
  ultimately show ?thesis by (metis append.assoc same_append_eq)
qed

text \<open>\<open>vouched w c\<close>: the rows hold every message up to position \<open>c\<close>. \<open>leased w conn\<close>: the session holds the lock, or is dead.\<close>

locale projection_ports = guarantee G for G :: "'w \<Rightarrow> 'w \<Rightarrow> bool" +
  fixes db :: "('w, 'c) LeaseDb" and stream :: "'w ProjectionStream" and name :: string and lock_id :: int and log :: "message list"
    and inv :: "'w \<Rightarrow> bool" and own :: "'w \<Rightarrow> 'c \<Rightarrow> bool" and vouched :: "'w \<Rightarrow> nat \<Rightarrow> bool" and leased :: "'w \<Rightarrow> 'c \<Rightarrow> bool"
  assumes log_sorted: "inv w \<Longrightarrow> sorted_wrt (\<lambda>a b. seq_of a < seq_of b) log"
    and inv_G: "G w w' \<Longrightarrow> inv w \<Longrightarrow> inv w'"
    and vouched_G: "G w w' \<Longrightarrow> inv w \<Longrightarrow> vouched w c \<Longrightarrow> vouched w' c"
    and connect: "inv w \<Longrightarrow> run_state (ld_connect db) w = (a, w') \<Longrightarrow> G w w' \<and> (\<forall>conn. a = Ok conn \<longrightarrow> own w' conn)"
    and lock: "inv w \<Longrightarrow> own w conn \<Longrightarrow> run_state (ld_try_advisory_lock db conn lock_id) w = (b, w') \<Longrightarrow>
      G w w' \<and> (b = Ok True \<longrightarrow> leased w' conn)"
    and holds: "inv w \<Longrightarrow> leased w conn \<Longrightarrow> run_state (ld_holds_advisory_lock db conn lock_id) w = (b, w') \<Longrightarrow> G w w' \<and> leased w' conn"
    and unlock: "inv w \<Longrightarrow> run_state (ld_advisory_unlock db conn lock_id) w = (u, w') \<Longrightarrow> G w w'"
    and close: "inv w \<Longrightarrow> run_state (ld_close db conn) w = (u, w') \<Longrightarrow> G w w'"
    and create: "inv w \<Longrightarrow> leased w conn \<Longrightarrow> run_state (pj_create_consumer stream start) w = (u, w') \<Longrightarrow> G w w' \<and> leased w' conn"
    and messages: "inv w \<Longrightarrow> leased w conn \<Longrightarrow> vouched w (unat v) \<Longrightarrow> run_state (pj_messages stream (v + 1)) w = (p, w') \<Longrightarrow>
      G w w' \<and> leased w' conn \<and> (\<forall>polls. p = Ok polls \<longrightarrow> (\<exists>rest. deliverable (unat v) log = delivered polls @ rest))"
    and read: "inv w \<Longrightarrow> leased w conn \<Longrightarrow> run_state (ld_read_checkpoint db conn name) w = (q, w') \<Longrightarrow>
      G w w' \<and> leased w' conn \<and> (\<forall>v. q = Ok v \<longrightarrow> vouched w' (unat v))"
    and commits: "inv w \<Longrightarrow> leased w conn \<Longrightarrow> vouched w at \<Longrightarrow> deliverable at log = batch @ rest \<Longrightarrow> batch \<noteq> [] \<Longrightarrow>
      run_state (ld_apply_batch db conn name batch) w = (u, w') \<Longrightarrow>
      G w w' \<and> leased w' conn \<and> (u = Ok () \<longrightarrow> vouched w' (seq_of (last batch)))"
begin

abbreviation holding :: "'c \<Rightarrow> nat \<Rightarrow> 'w \<Rightarrow> bool" where
  "holding conn at w \<equiv> inv w \<and> leased w conn \<and> vouched w at"

lemma rg_still_held:
  assumes "pl_lock_id lease = lock_id"
  shows "rg G (holding (pl_conn lease) at) (still_held db lease) (\<lambda>_. holding (pl_conn lease) at)"
  unfolding still_held_def
  by (rule rg_attempt [where R = "\<lambda>_. holding (pl_conn lease) at"])
    (auto simp: rg_def assms G_refl dest: holds intro: inv_G vouched_G)

text \<open>A batch is committed under the lease, and the loop goes on from its last message.\<close>

lemma rg_commit_batch:
  assumes "pl_lock_id lease = lock_id" "deliverable at log = batch @ rest" "batch \<noteq> []"
    and onward: "rg G (holding (pl_conn lease) (seq_of (last batch))) onwards (\<lambda>_. inv)"
  shows "rg G (holding (pl_conn lease) at) (still_held db lease \<bind> (\<lambda>held. case held of
      Err e \<Rightarrow> ret (Some (Err e))
    | Ok False \<Rightarrow> ret (Some (Ok ()))
    | Ok True \<Rightarrow> ld_apply_batch db (pl_conn lease) name batch \<bind> (\<lambda>r. case r of
        Err e \<Rightarrow> ret (Some (Err (Database e)))
      | Ok _ \<Rightarrow> onwards))) (\<lambda>_. inv)"
proof -
  have applied: "rg G (holding (pl_conn lease) at) (ld_apply_batch db (pl_conn lease) name batch)
      (\<lambda>r w. inv w \<and> (r = Ok () \<longrightarrow> holding (pl_conn lease) (seq_of (last batch)) w))"
    using commits [OF _ _ _ assms(2,3)] inv_G unfolding rg_def by blast
  have commit: "rg G (holding (pl_conn lease) at) (ld_apply_batch db (pl_conn lease) name batch \<bind> (\<lambda>r. case r of
      Err e \<Rightarrow> ret (Some (Err (Database e))) | Ok _ \<Rightarrow> onwards)) (\<lambda>_. inv)"
    by (rule rg_bind [OF applied]) (auto split: result.splits intro!: rg_pre [OF onward] rg_ret)
  show ?thesis
    by (rule rg_bind [OF rg_still_held [OF assms(1)]]) (auto split: result.splits bool.splits intro: commit rg_ret)
qed

lemma rg_run_loop:
  assumes "pl_lock_id lease = lock_id" "deliverable at log = delivered polls @ rest" "sorted_wrt (\<lambda>a b. seq_of a < seq_of b) log"
  shows "rg G (holding (pl_conn lease) at) (run_loop db name n lease polls) (\<lambda>_. inv)"
  using assms(2)
proof (induction "length polls" arbitrary: polls at rule: less_induct)
  case less
  note held = rg_still_held [OF assms(1)]
  have stop: "rg G (holding (pl_conn lease) at) (ret a) (\<lambda>_. inv)" for a and at :: nat by (rule rg_ret) simp
  have body: "rg G (holding (pl_conn lease) at) (case polls of
         [] \<Rightarrow> ret None
       | Received message # polls \<Rightarrow> (case drain n (push_message [] message) polls of
           None \<Rightarrow> ret None
         | Some (batch, rest) \<Rightarrow>
             if batch = [] then run_loop db name n lease rest
             else still_held db lease \<bind> (\<lambda>held. case held of
               Err e \<Rightarrow> ret (Some (Err e))
             | Ok False \<Rightarrow> ret (Some (Ok ()))
             | Ok True \<Rightarrow> ld_apply_batch db (pl_conn lease) name batch \<bind> (\<lambda>r. case r of
                 Err e \<Rightarrow> ret (Some (Err (Database e)))
               | Ok _ \<Rightarrow> run_loop db name n lease rest)))
       | ReceiveFailed _ # polls \<Rightarrow> run_loop db name n lease polls
       | StreamEnded # _ \<Rightarrow> ret (Some (Ok ()))
       | Elapsed # polls \<Rightarrow> run_loop db name n lease polls) (\<lambda>_. inv)"
  proof (cases polls)
    case Nil
    then show ?thesis by (simp add: stop)
  next
    case (Cons poll ps)
    show ?thesis
    proof (cases poll)
      case (Received m)
      show ?thesis
      proof (cases "drain n (push_message [] m) ps")
        case None
        then show ?thesis by (simp add: Cons Received stop)
      next
        case (Some d)
        obtain batch qs where d: "d = (batch, qs)" by (cases d)
        have qs: "length qs < length polls" using drain_shorter [OF Some [unfolded d]] Cons by simp
        have del: "deliverable at log = batch @ delivered qs @ rest"
          using drain_delivers [OF Some [unfolded d]] less.prems Cons Received by simp
        show ?thesis
        proof (cases "batch = []")
          case True
          then show ?thesis using less.hyps [OF qs, of at] del by (simp add: Cons Received Some d)
        next
          case False
          have "rg G (holding (pl_conn lease) (seq_of (last batch))) (run_loop db name n lease qs) (\<lambda>_. inv)"
            using less.hyps [OF qs] deliverable_rest [OF assms(3) del False] by blast
          from rg_commit_batch [OF assms(1) del False this]
          show ?thesis using False by (simp add: Cons Received Some d)
        qed
      qed
    qed (use less.hyps [of ps at] less.prems Cons stop in auto)
  qed
  show ?case
    by (subst run_loop.simps, rule rg_bind [OF held]) (use body stop in \<open>auto split: result.splits bool.splits\<close>)
qed

lemma rg_run_projector:
  assumes "pl_lock_id lease = lock_id" "sorted_wrt (\<lambda>a b. seq_of a < seq_of b) log"
  shows "rg G (\<lambda>w. inv w \<and> leased w (pl_conn lease)) (run_projector db stream name n lease) (\<lambda>_. inv)"
proof -
  let ?P = "\<lambda>w. inv w \<and> leased w (pl_conn lease)"
  let ?Q = "\<lambda>v w. inv w \<and> leased w (pl_conn lease) \<and> vouched w (unat v)"
  have stop: "rg G (\<lambda>w. inv w \<and> R w) (ret a) (\<lambda>_. inv)" for a R by (rule rg_ret) simp
  have opened: "rg G (?Q v) (pj_messages stream (v + 1) \<bind> (\<lambda>r. case r of
           Err e \<Rightarrow> ret (Some (Err (Topology (''open projection stream: '' @ e))))
         | Ok polls \<Rightarrow> run_loop db name n lease polls)) (\<lambda>_. inv)" for v
  proof (rule rg_bind)
    show "rg G (?Q v) (pj_messages stream (v + 1)) (\<lambda>p w. ?Q v w
        \<and> (\<forall>polls. p = Ok polls \<longrightarrow> (\<exists>rest. deliverable (unat v) log = delivered polls @ rest)))"
      unfolding rg_def using messages inv_G vouched_G by blast
    show "rg G (\<lambda>w. ?Q v w \<and> (\<forall>polls. p = Ok polls \<longrightarrow> (\<exists>rest. deliverable (unat v) log = delivered polls @ rest)))
        (case p of Err e \<Rightarrow> ret (Some (Err (Topology (''open projection stream: '' @ e))))
         | Ok polls \<Rightarrow> run_loop db name n lease polls) (\<lambda>_. inv)" for p
    proof (cases p)
      case (Ok polls)
      show ?thesis
      proof (cases "\<exists>rest. deliverable (unat v) log = delivered polls @ rest")
        case True
        then obtain rest where rest: "deliverable (unat v) log = delivered polls @ rest" by blast
        show ?thesis using rg_run_loop [OF assms(1) rest assms(2)] by (auto simp: Ok intro: rg_pre)
      qed (simp add: Ok rg_def)
    qed (auto intro: rg_ret)
  qed
  have created: "rg G (?Q v) (pj_create_consumer stream (v + 1) \<bind> (\<lambda>r. case r of
         Err e \<Rightarrow> ret (Some (Err (Topology (''create projection consumer: '' @ e))))
       | Ok _ \<Rightarrow> pj_messages stream (v + 1) \<bind> (\<lambda>r. case r of
           Err e \<Rightarrow> ret (Some (Err (Topology (''open projection stream: '' @ e))))
         | Ok polls \<Rightarrow> run_loop db name n lease polls))) (\<lambda>_. inv)" for v
  proof (rule rg_bind)
    show "rg G (?Q v) (pj_create_consumer stream (v + 1)) (\<lambda>_. ?Q v)"
      unfolding rg_def using create inv_G vouched_G by blast
  qed (auto split: result.splits intro: stop opened simp del: append.simps)
  show ?thesis unfolding run_projector_def
  proof (rule rg_bind)
    show "rg G ?P (ld_read_checkpoint db (pl_conn lease) name) (\<lambda>r w. ?P w \<and> (\<forall>v. r = Ok v \<longrightarrow> vouched w (unat v)))"
      unfolding rg_def using read inv_G by blast
  qed (auto split: result.splits intro: rg_ret rg_pre [OF created] simp del: append.simps)
qed

lemma rg_try_acquire:
  "rg G inv (try_acquire db lock_id) (\<lambda>r w. inv w \<and> (\<forall>lease. r = Ok (Some lease) \<longrightarrow> leased w (pl_conn lease) \<and> pl_lock_id lease = lock_id))"
  unfolding try_acquire_def
proof (rule rg_attempt [where R = "\<lambda>r w. inv w \<and> (\<forall>conn. r = Ok conn \<longrightarrow> own w conn)"])
  show "rg G inv (ld_connect db) (\<lambda>r w. inv w \<and> (\<forall>conn. r = Ok conn \<longrightarrow> own w conn))"
    unfolding rg_def using connect inv_G by blast
  let ?Q = "\<lambda>r w. inv w \<and> (\<forall>lease. r = Ok (Some lease) \<longrightarrow> leased w (pl_conn lease) \<and> pl_lock_id lease = lock_id)"
  show "rg G (\<lambda>w. inv w \<and> (\<forall>c. Ok conn = Ok c \<longrightarrow> own w c)) (attempt Database (ld_try_advisory_lock db conn lock_id) (\<lambda>acquired.
       if \<not> acquired then ld_close db conn \<bind> (\<lambda>_. ret (Ok None))
       else ret (Ok (Some \<lparr>pl_conn = conn, pl_lock_id = lock_id\<rparr>)))) ?Q" for conn
  proof (rule rg_attempt [where R = "\<lambda>b w. inv w \<and> (b = Ok True \<longrightarrow> leased w conn)"])
    show "rg G (\<lambda>w. inv w \<and> (\<forall>c. Ok conn = Ok c \<longrightarrow> own w c)) (ld_try_advisory_lock db conn lock_id)
        (\<lambda>b w. inv w \<and> (b = Ok True \<longrightarrow> leased w conn))"
      unfolding rg_def using lock inv_G by blast
    have "rg G inv (ld_close db conn \<bind> (\<lambda>_. ret (Ok None))) ?Q"
      by (rule rg_bind [where R = "\<lambda>_. inv"]) (auto simp: rg_def intro: close inv_G G_refl dest: close)
    then show "rg G (\<lambda>w. inv w \<and> (Ok a = Ok True \<longrightarrow> leased w conn)) (if \<not> a then ld_close db conn \<bind> (\<lambda>_. ret (Ok None))
       else ret (Ok (Some \<lparr>pl_conn = conn, pl_lock_id = lock_id\<rparr>))) ?Q" for a
      by (auto intro: rg_ret rg_pre)
  qed simp
qed simp

lemma rg_release: "rg G inv (release_lease db \<lparr>pl_conn = conn, pl_lock_id = lock_id\<rparr>) (\<lambda>_. inv)"
proof -
  have "rg G inv (ld_close db conn) (\<lambda>_. inv)" "rg G inv (ld_advisory_unlock db conn lock_id) (\<lambda>_. inv)"
    unfolding rg_def using close unlock inv_G by blast+
  then show ?thesis unfolding release_lease_def ProjectorLease.select_convs
    by (intro rg_bind [where R = "\<lambda>_. inv"] rg_ret)
qed

lemma rg_run_projection_sorted:
  assumes "wc_projector_lock_id config = lock_id" "sorted_wrt (\<lambda>a b. seq_of a < seq_of b) log"
  shows "rg G inv (run_projection rounds db stream name config) (\<lambda>_. inv)"
proof (induction rounds)
  case 0
  then show ?case by (auto intro: rg_ret)
next
  case (Suc rounds)
  have run: "rg G (\<lambda>w. inv w \<and> leased w (pl_conn lease))
      (run_projector db stream name (max (wc_projection_batch config) 1) lease \<bind> (\<lambda>r. case r of
           None \<Rightarrow> ret ()
         | Some _ \<Rightarrow> release_lease db lease \<bind> (\<lambda>_. run_projection rounds db stream name config))) (\<lambda>_. inv)"
    if "pl_lock_id lease = lock_id" for lease
  proof (rule rg_bind [OF rg_run_projector [OF that assms(2)]])
    have "rg G inv (release_lease db lease) (\<lambda>_. inv)" using rg_release [of "pl_conn lease"] that by (metis ProjectorLease.surjective old.unit.exhaust)
    then show "rg G inv (case r of None \<Rightarrow> ret ()
         | Some _ \<Rightarrow> release_lease db lease \<bind> (\<lambda>_. run_projection rounds db stream name config)) (\<lambda>_. inv)" for r
      using Suc by (auto split: option.splits intro: rg_ret rg_bind)
  qed
  show ?case
    unfolding run_projection.simps assms(1)
  proof (rule rg_bind [OF rg_try_acquire])
    fix r
    show "rg G (\<lambda>w. inv w \<and> (\<forall>lease. r = Ok (Some lease) \<longrightarrow> leased w (pl_conn lease) \<and> pl_lock_id lease = lock_id))
      (case r of
       Ok (Some lease) \<Rightarrow> run_projector db stream name (max (wc_projection_batch config) 1) lease \<bind> (\<lambda>r. case r of
           None \<Rightarrow> ret ()
         | Some _ \<Rightarrow> release_lease db lease \<bind> (\<lambda>_. run_projection rounds db stream name config))
     | Ok None \<Rightarrow> run_projection rounds db stream name config
     | Err _ \<Rightarrow> run_projection rounds db stream name config) (\<lambda>_. inv)"
    proof (cases r)
      case (Ok found)
      then show ?thesis
      proof (cases found)
        case (Some lease)
        then show ?thesis using run [of lease] Ok by (cases "pl_lock_id lease = lock_id") (auto simp: rg_def)
      qed (use Suc in \<open>auto intro: rg_pre\<close>)
    qed (use Suc in \<open>auto intro: rg_pre\<close>)
  qed
qed

lemma rg_run_projection:
  "wc_projector_lock_id config = lock_id \<Longrightarrow> rg G inv (run_projection rounds db stream name config) (\<lambda>_. inv)"
proof (cases "\<exists>w. inv w")
  case True
  then show "wc_projector_lock_id config = lock_id \<Longrightarrow> rg G inv (run_projection rounds db stream name config) (\<lambda>_. inv)"
    using rg_run_projection_sorted log_sorted by blast
qed (simp add: rg_def)

end

section \<open>A database with sessions\<close>

text \<open>An advisory lock belongs to a session and goes with it. \<open>lw_mine\<close> are the sessions this process has opened; \<open>lw_commits\<close> is history: which session committed
  a batch, and who held the lock then.\<close>

record LeaseWorld =
  lw_pg :: Pg
  lw_sessions :: nat
  lw_alive :: "nat set"
  lw_mine :: "nat set"
  lw_locks :: "int \<rightharpoonup> nat"
  lw_commits :: "(nat \<times> nat option) list"

abbreviation on_db :: "(LeaseWorld \<Rightarrow> 'a \<times> LeaseWorld) \<Rightarrow> (LeaseWorld shared, 'a) state" where
  "on_db f \<equiv> locked (\<lambda>w. w) (\<lambda>w _. w) (State f)"

definition db_connect :: "LeaseWorld \<Rightarrow> (nat, string) result \<times> LeaseWorld" where
  "db_connect w = (Ok (lw_sessions w), w\<lparr>lw_sessions := Suc (lw_sessions w), lw_alive := insert (lw_sessions w) (lw_alive w),
     lw_mine := insert (lw_sessions w) (lw_mine w)\<rparr>)"

definition in_session :: "nat \<Rightarrow> (LeaseWorld \<Rightarrow> 'a \<times> LeaseWorld) \<Rightarrow> LeaseWorld \<Rightarrow> ('a, string) result \<times> LeaseWorld" where
  "in_session conn f w = (if conn \<in> lw_alive w then (case f w of (a, w') \<Rightarrow> (Ok a, w')) else (Err ''connection closed'', w))"

definition db_lock :: "int \<Rightarrow> nat \<Rightarrow> LeaseWorld \<Rightarrow> bool \<times> LeaseWorld" where
  "db_lock i conn w = (if lw_locks w i \<in> {None, Some conn} then (True, w\<lparr>lw_locks := (lw_locks w)(i \<mapsto> conn)\<rparr>) else (False, w))"

definition db_unlock :: "int \<Rightarrow> nat \<Rightarrow> LeaseWorld \<Rightarrow> unit \<times> LeaseWorld" where
  "db_unlock i conn w = ((), if lw_locks w i = Some conn then w\<lparr>lw_locks := (lw_locks w)(i := None)\<rparr> else w)"

definition db_close :: "nat \<Rightarrow> LeaseWorld \<Rightarrow> unit \<times> LeaseWorld" where
  "db_close conn w = ((), w\<lparr>lw_alive := lw_alive w - {conn}, lw_locks := (\<lambda>i. if lw_locks w i = Some conn then None else lw_locks w i)\<rparr>)"

definition db_commit :: "SerdeJson \<Rightarrow> int \<Rightarrow> nat \<Rightarrow> string \<Rightarrow> message list \<Rightarrow> LeaseWorld \<Rightarrow> unit \<times> LeaseWorld" where
  "db_commit sj lock_id conn name batch w = ((), w\<lparr>lw_pg := apply_batch sj name batch (lw_pg w),
     lw_commits := (conn, lw_locks w lock_id) # lw_commits w\<rparr>)"

definition SessionDb :: "SerdeJson \<Rightarrow> int \<Rightarrow> (LeaseWorld shared, nat) LeaseDb" where
  "SessionDb sj lock_id = \<lparr>ld_connect = on_db db_connect,
     ld_try_advisory_lock = (\<lambda>conn i. on_db (in_session conn (db_lock i conn))),
     ld_holds_advisory_lock = (\<lambda>conn i. on_db (in_session conn (\<lambda>w. (lw_locks w i = Some conn, w)))),
     ld_advisory_unlock = (\<lambda>conn i. on_db (in_session conn (db_unlock i conn))),
     ld_close = (\<lambda>conn. on_db (in_session conn (db_close conn))),
     ld_read_checkpoint = (\<lambda>conn name. on_db (in_session conn (\<lambda>w. (read_checkpoint name (lw_pg w), w)))),
     ld_apply_batch = (\<lambda>conn name batch. on_db (in_session conn (db_commit sj lock_id conn name batch)))\<rparr>"

text \<open>An ordered consumer delivers the messages from its start in order. A script says where waits run out or fail in between.\<close>

fun weave :: "Poll list \<Rightarrow> message list \<Rightarrow> Poll list" where
  "weave [] ms = []"
| "weave (Received _ # script) [] = [Elapsed]"
| "weave (Received _ # script) ((sequence, subject, payload) # ms) =
     Received \<lparr>jm_info = Ok sequence, jm_subject = subject, jm_payload = payload\<rparr> # weave script ms"
| "weave (poll # script) ms = poll # weave script ms"

definition OrderedConsumer :: "message list \<Rightarrow> Poll list \<Rightarrow> (LeaseWorld shared) ProjectionStream" where
  "OrderedConsumer log script = \<lparr>pj_create_consumer = (\<lambda>start. on_db (\<lambda>w. (Ok (), w))),
     pj_messages = (\<lambda>start. on_db (\<lambda>w. (Ok (weave script (filter (\<lambda>m. unat start \<le> seq_of m) log)), w)))\<rparr>"

lemma weave_delivers: "\<exists>rest. ms = delivered (weave script ms) @ rest"
  by (induction script ms rule: weave.induct) (auto simp: push_message_def)

section \<open>Other processes\<close>

definition pg_good :: "SerdeJson \<Rightarrow> string \<Rightarrow> message list \<Rightarrow> Pg \<Rightarrow> bool" where
  "pg_good sj name log pg = (rows_ok sj (log_end log) pg \<and> covered sj log pg (unat (read_checkpoint name pg)))"

definition pg_moves :: "SerdeJson \<Rightarrow> string \<Rightarrow> message list \<Rightarrow> Pg \<Rightarrow> Pg \<Rightarrow> bool" where
  "pg_moves sj name log pg pg' = (pg_good sj name log pg \<longrightarrow> pg_good sj name log pg' \<and> (\<forall>c. covered sj log pg c \<longrightarrow> covered sj log pg' c))"

definition exclusive :: "nat \<times> nat option \<Rightarrow> bool" where
  "exclusive c = (snd c = Some (fst c))"

definition lease_moves :: "SerdeJson \<Rightarrow> string \<Rightarrow> message list \<Rightarrow> LeaseWorld \<Rightarrow> LeaseWorld \<Rightarrow> bool" where
  "lease_moves sj name log w w' = (pg_moves sj name log (lw_pg w) (lw_pg w')
     \<and> (\<exists>new. lw_commits w' = new @ lw_commits w \<and> list_all exclusive new)
     \<and> lw_sessions w \<le> lw_sessions w' \<and> (lw_mine w \<subseteq> {..<lw_sessions w} \<longrightarrow> lw_mine w' \<subseteq> {..<lw_sessions w'}))"

text \<open>Another process, or the network: it moves the rows forward as a projector does, does not touch the sessions of this process other than
  to cut them off, and takes no lock from a session that lives.\<close>

definition neighbour :: "SerdeJson \<Rightarrow> string \<Rightarrow> message list \<Rightarrow> (LeaseWorld \<Rightarrow> LeaseWorld) \<Rightarrow> bool" where
  "neighbour sj name log f = (\<forall>w. lease_moves sj name log w (f w) \<and> lw_mine (f w) = lw_mine w
     \<and> (\<forall>c \<in> lw_mine w. c \<in> lw_alive (f w) \<longrightarrow> c \<in> lw_alive w \<and> (\<forall>i. lw_locks w i = Some c \<longrightarrow> lw_locks (f w) i = Some c)))"

fun shared_lease_moves :: "SerdeJson \<Rightarrow> string \<Rightarrow> message list \<Rightarrow> LeaseWorld shared \<Rightarrow> LeaseWorld shared \<Rightarrow> bool" where
  "shared_lease_moves sj name log (w, es) (w', es') = (lease_moves sj name log w w' \<and> set es' \<subseteq> set es)"

fun lease_inv :: "SerdeJson \<Rightarrow> string \<Rightarrow> message list \<Rightarrow> LeaseWorld shared \<Rightarrow> bool" where
  "lease_inv sj name log (w, es) = (tags_ok sj \<and> log_ok sj log \<and> pg_good sj name log (lw_pg w) \<and> lw_mine w \<subseteq> {..<lw_sessions w} \<and> (\<forall>e \<in> set es. neighbour sj name log e))"

fun holds_lease :: "int \<Rightarrow> LeaseWorld shared \<Rightarrow> nat \<Rightarrow> bool" where
  "holds_lease lock_id (w, es) conn = (conn \<in> lw_mine w \<and> (conn \<in> lw_alive w \<longrightarrow> lw_locks w lock_id = Some conn))"

lemma pg_moves_refl [simp]: "pg_moves sj name log pg pg"
  by (simp add: pg_moves_def)

lemma pg_moves_trans: "pg_moves sj name log a b \<Longrightarrow> pg_moves sj name log b c \<Longrightarrow> pg_moves sj name log a c"
  by (simp add: pg_moves_def)

lemma lease_moves_refl [simp]: "lease_moves sj name log w w"
  by (simp add: lease_moves_def)

lemma lease_moves_trans:
  assumes "lease_moves sj name log u v" "lease_moves sj name log v w"
  shows "lease_moves sj name log u w"
proof -
  obtain xs ys where "lw_commits v = xs @ lw_commits u" "list_all exclusive xs" "lw_commits w = ys @ lw_commits v" "list_all exclusive ys"
    using assms unfolding lease_moves_def by blast
  then have "lw_commits w = (ys @ xs) @ lw_commits u \<and> list_all exclusive (ys @ xs)" by simp
  moreover have "pg_moves sj name log (lw_pg u) (lw_pg w)" using assms pg_moves_trans unfolding lease_moves_def by blast
  ultimately show ?thesis using assms unfolding lease_moves_def by (meson order_trans)
qed

lemma env_lease:
  assumes "lease_inv sj name log x" "env_step x = (w, es)"
  shows "shared_lease_moves sj name log x (w, es) \<and> lease_inv sj name log (w, es)
    \<and> (\<forall>c. holds_lease lock_id x c \<longrightarrow> holds_lease lock_id (w, es) c)
    \<and> lw_mine w = lw_mine (fst x)"
proof (cases x)
  case (Pair v as)
  show ?thesis
  proof (cases as)
    case Nil
    then show ?thesis using assms Pair by auto
  next
    case (Cons e bs)
    then have e: "w = e v" "es = bs" "neighbour sj name log e" using assms Pair by auto
    then have "lease_moves sj name log v w \<and> lw_mine w = lw_mine v
        \<and> (\<forall>c \<in> lw_mine v. c \<in> lw_alive w \<longrightarrow> c \<in> lw_alive v \<and> (\<forall>i. lw_locks v i = Some c \<longrightarrow> lw_locks w i = Some c))"
      by (simp add: neighbour_def)
    then show ?thesis using assms(1) Pair Cons e(2) by (auto simp: lease_moves_def pg_moves_def)
  qed
qed

section \<open>The contract holds\<close>

lemma run_on_db:
  assumes "run_state (on_db f) x = (a, y)"
  obtains w es w' where "env_step x = (w, es)" "f w = (a, w')" "y = (w', es)"
  using assms by (auto simp: locked_def split: prod.splits)

text \<open>A call that finds the world at \<open>w\<close> and leaves it at \<open>w'\<close>.\<close>

lemma call_moves:
  assumes "lease_inv sj name log x" "env_step x = (w, es)" "lease_moves sj name log w w'"
  shows "shared_lease_moves sj name log x (w', es)"
  using env_lease [OF assms(1,2)] assms(3) by (cases x) (auto intro: lease_moves_trans)

lemma quiet_call:
  assumes "lease_inv sj name log x" "run_state (on_db (in_session conn (\<lambda>w. (g w, w)))) x = (r, y)"
  shows "shared_lease_moves sj name log x y \<and> (holds_lease i x c \<longrightarrow> holds_lease i y c) \<and> (\<forall>v. r = Ok v \<longrightarrow> v = g (fst y))"
  using assms(2)
proof (rule run_on_db)
  fix w es w' assume e: "env_step x = (w, es)" "in_session conn (\<lambda>w. (g w, w)) w = (r, w')" "y = (w', es)"
  then have "w' = w" "\<forall>v. r = Ok v \<longrightarrow> v = g w" by (auto simp: in_session_def split: if_splits)
  then show ?thesis using e(3) call_moves [OF assms(1) e(1), of w] env_lease [OF assms(1) e(1), of i] by auto
qed

lemma session_call:
  assumes "lease_inv sj name log x" "run_state (on_db (in_session conn f)) x = (r, y)"
    and "\<And>w a w'. f w = (a, w') \<Longrightarrow> lease_moves sj name log w w'"
  shows "shared_lease_moves sj name log x y"
  using assms(2)
proof (rule run_on_db)
  fix w es w' assume e: "env_step x = (w, es)" "in_session conn f w = (r, w')" "y = (w', es)"
  then have "lease_moves sj name log w w'" using assms(3) by (auto simp: in_session_def split: if_splits prod.splits)
  then show ?thesis using call_moves [OF assms(1) e(1)] e(3) by simp
qed

lemma commit_call:
  assumes "lease_inv sj name log x" "holds_lease lock_id x conn" "covered sj log (lw_pg (fst x)) at"
    and "deliverable at log = batch @ rest" "batch \<noteq> []"
    and "run_state (on_db (in_session conn (db_commit sj lock_id conn name batch))) x = (r, y)"
  shows "shared_lease_moves sj name log x y \<and> holds_lease lock_id y conn
    \<and> (r = Ok () \<longrightarrow> covered sj log (lw_pg (fst y)) (seq_of (last batch)))"
  using assms(6)
proof (rule run_on_db)
  fix w es w' assume e: "env_step x = (w, es)" "in_session conn (db_commit sj lock_id conn name batch) w = (r, w')" "y = (w', es)"
  note env = env_lease [OF assms(1) e(1), of lock_id]
  then have good: "pg_good sj name log (lw_pg w)" "tags_ok sj" "log_ok sj log" by simp_all
  have at: "covered sj log (lw_pg w) at"
    using env assms(1,3) by (cases x) (auto simp: lease_moves_def pg_moves_def)
  show ?thesis
  proof (cases "conn \<in> lw_alive w")
    case False
    then show ?thesis using e env call_moves [OF assms(1) e(1), of w] assms(2) by (auto simp: in_session_def)
  next
    case True
    have lock: "lw_locks w lock_id = Some conn" using env assms(2) True by auto
    let ?pg = "apply_batch sj name batch (lw_pg w)" and ?r = "seq_of (last batch)"
    have w': "w' = w\<lparr>lw_pg := ?pg, lw_commits := (conn, Some conn) # lw_commits w\<rparr>"
      using e(2) True lock by (auto simp: in_session_def db_commit_def)
    have rows: "rows_ok sj (log_end log) (lw_pg w)" using good(1) by (simp add: pg_good_def)
    note move = covered_commit [OF good(2,3) rows at assms(4,5), where name = name]
    have batch: "\<forall>m \<in> set batch. addressed sj m \<and> unat (fst m) \<le> log_end log"
      using batch_in_log [OF assms(4)] good(3) last_log_end [OF good(3)] by (auto simp: log_ok_def)
    then have "fits (fst (last batch))" using assms(5) by (auto simp: addressed_def case_prod_unfold)
    note cp = checkpoint_apply_batch [OF assms(5) this, of name sj "lw_pg w"]
    have reached: "covered sj log ?pg ?r" using covered_mono [OF move [OF at]] by simp
    have "covered sj log ?pg c" if "covered sj log (lw_pg w) c" for c using covered_mono [OF move [OF that]] by simp
    moreover have "rows_ok sj (log_end log) ?pg" using apply_batch_newest [OF good(2) rows order_refl batch] by blast
    ultimately have "pg_moves sj name log (lw_pg w) ?pg" using reached by (simp add: pg_moves_def pg_good_def cp)
    then have "lease_moves sj name log w w'" by (auto simp: lease_moves_def w' exclusive_def)
    from call_moves [OF assms(1) e(1) this] have "shared_lease_moves sj name log x y" by (simp add: e(3))
    moreover have "holds_lease lock_id (w, es) conn" using env assms(2) by blast
    then have "holds_lease lock_id y conn" by (simp add: e(3) w')
    ultimately show ?thesis using reached by (simp add: e(3) w')
  qed
qed

interpretation task: projection_ports "shared_lease_moves sj name log" "SessionDb sj lock_id" "OrderedConsumer log script"
  name lock_id log "lease_inv sj name log" "\<lambda>x conn. conn \<in> lw_mine (fst x)" "\<lambda>x. covered sj log (lw_pg (fst x))" "holds_lease lock_id"
  for sj name log lock_id script
proof (unfold_locales, goal_cases)
  case (1 w)
  then show ?case by (cases w) simp
next
  case (2 u v w)
  then show ?case by (cases u; cases v; cases w) (auto intro: lease_moves_trans)
next
  case (3 w)
  then show ?case by (cases w) (simp add: log_ok_def)
next
  case (4 w w')
  then show ?case by (cases w; cases w') (auto simp: lease_moves_def pg_moves_def)
next
  case (5 w w' c)
  then show ?case by (cases w; cases w') (auto simp: lease_moves_def pg_moves_def)
next
  case (6 x a y)
  from 6(2) obtain w es w' where e: "env_step x = (w, es)" "db_connect w = (a, w')" "y = (w', es)"
    unfolding SessionDb_def LeaseDb.select_convs by (rule run_on_db)
  then have "lease_moves sj name log w w'" by (auto simp: db_connect_def lease_moves_def)
  from call_moves [OF 6(1) e(1) this] show ?case using e by (auto simp: db_connect_def)
next
  case (7 x conn b y)
  from 7(3) obtain w es w' where e: "env_step x = (w, es)" "in_session conn (db_lock lock_id conn) w = (b, w')" "y = (w', es)"
    unfolding SessionDb_def LeaseDb.select_convs by (rule run_on_db)
  have "lw_mine w = lw_mine (fst x)" using env_lease [OF 7(1) e(1)] by blast
  moreover have "lease_moves sj name log w w'"
    using e(2) by (auto simp: in_session_def db_lock_def lease_moves_def split: if_splits)
  ultimately show ?case using call_moves [OF 7(1) e(1)] 7(2) e(2,3)
    by (auto simp: in_session_def db_lock_def split: if_splits)
next
  case (8 x conn b y)
  then show ?case using quiet_call [OF 8(1), of conn "\<lambda>w. lw_locks w lock_id = Some conn" b y] by (simp add: SessionDb_def)
next
  case (9 x conn u y)
  show ?case by (rule session_call [OF 9(1) 9(2) [unfolded SessionDb_def LeaseDb.select_convs]])
    (auto simp: db_unlock_def lease_moves_def split: if_splits)
next
  case (10 x conn u y)
  show ?case by (rule session_call [OF 10(1) 10(2) [unfolded SessionDb_def LeaseDb.select_convs]])
    (auto simp: db_close_def lease_moves_def)
next
  case (11 x conn start u y)
  from 11(3) obtain w es w' where e: "env_step x = (w, es)" "(Ok (), w) = (u, w')" "y = (w', es)"
    unfolding OrderedConsumer_def ProjectionStream.select_convs by (rule run_on_db)
  then show ?case using call_moves [OF 11(1) e(1), of w] env_lease [OF 11(1) e(1), of lock_id] 11(2) by auto
next
  case (12 x conn v p y)
  from 12(4) obtain w es w' where e: "env_step x = (w, es)"
      "(Ok (weave script (filter (\<lambda>m. unat (v + 1) \<le> seq_of m) log)), w) = (p, w')" "y = (w', es)"
    unfolding OrderedConsumer_def ProjectionStream.select_convs by (rule run_on_db)
  have inv: "log_ok sj log" using 12(1) by (cases x) simp
  have "log_end log < 2 ^ 63" using inv by (auto simp: log_end_def log_ok_def addressed_def fits_def case_prod_unfold)
  moreover have "unat v \<le> log_end log" using 12(3) unfolding covered_def by (meson order_trans)
  ultimately have "unat (v + 1) = unat v + 1" by (simp add: unat_word_ariths)
  then have "deliverable (unat v) log = filter (\<lambda>m. unat (v + 1) \<le> seq_of m) log" by (simp add: deliverable_def)
  then show ?case using call_moves [OF 12(1) e(1), of w] env_lease [OF 12(1) e(1), of lock_id] 12(2) e(2,3) weave_delivers by auto
next
  case (13 x conn r y)
  have "covered sj log (lw_pg (fst y)) (unat (read_checkpoint name (lw_pg (fst y))))" if "shared_lease_moves sj name log x y"
    using that 13(1) by (cases x; cases y) (auto simp: lease_moves_def pg_moves_def pg_good_def)
  then show ?case using quiet_call [OF 13(1), of conn "\<lambda>w. read_checkpoint name (lw_pg w)" r y] 13(2,3) by (auto simp: SessionDb_def)
next
  case (14 x conn at batch rest u y)
  then show ?case using commit_call [OF 14(1-5)] by (simp add: SessionDb_def)
qed

section \<open>The task keeps the rows\<close>

text \<open>C19. The projection task, as it is written, keeps the read model right and commits only under its lease. Run it for any number of
  elections, with any waits that run out or fail, while other processes project, restart, cut its sessions off and change the
  checkpoint between any two of its calls: when it stops, every row is the fold of a prefix of the log that reaches at least to the
  checkpoint, and every batch that was committed meanwhile was committed by the session that held the lock.\<close>

theorem projection_task_is_safe:
  assumes "lease_inv sj name log (w, es)" "wc_projector_lock_id config = lock_id"
    and "run_state (run_projection rounds (SessionDb sj lock_id) (OrderedConsumer log script) name config) (w, es) = (r, (w', es'))"
  shows "covered sj log (lw_pg w') (unat (read_checkpoint name (lw_pg w')))
    \<and> (\<exists>new. lw_commits w' = new @ lw_commits w \<and> list_all exclusive new)"
proof -
  have run: "shared_lease_moves sj name log (w, es) (w', es') \<and> lease_inv sj name log (w', es')"
    using rgD [OF task.rg_run_projection [OF assms(2)] assms(1,3)] by blast
  then show ?thesis by (simp add: lease_moves_def pg_good_def)
qed

text \<open>A run with the whole log to project: two messages and a wait that runs out, then the other two, and the end of the stream; the
  connections are cut off in between.\<close>

definition ex_script :: "Poll list" where
  "ex_script = [Received \<lparr>jm_info = Ok 0, jm_subject = [], jm_payload = []\<rparr>, Received \<lparr>jm_info = Ok 0, jm_subject = [], jm_payload = []\<rparr>,
     Elapsed, Received \<lparr>jm_info = Ok 0, jm_subject = [], jm_payload = []\<rparr>, Received \<lparr>jm_info = Ok 0, jm_subject = [], jm_payload = []\<rparr>,
     StreamEnded, StreamEnded]"

definition ex_lease_world :: LeaseWorld where
  "ex_lease_world = \<lparr>lw_pg = empty_pg, lw_sessions = 0, lw_alive = {}, lw_mine = {}, lw_locks = Map.empty, lw_commits = []\<rparr>"

definition ex_config :: WorkerConfig where
  "ex_config = \<lparr>wc_ack_wait = 30, wc_max_deliver = 5, wc_max_ack_pending = 8, wc_work_concurrency = 4, wc_projector_lock_id = 7,
     wc_projector_election_interval = 5, wc_projection_batch = 10\<rparr>"

definition cut_off_sessions :: "LeaseWorld \<Rightarrow> LeaseWorld" where
  "cut_off_sessions w = w\<lparr>lw_alive := {}, lw_locks := Map.empty\<rparr>"

lemma ex_lease_inv: "lease_inv ex_serde DOCUMENT_PROJECTION_NAME ex_messages (ex_lease_world, replicate 8 id @ [cut_off_sessions])"
proof -
  have "log_ok ex_serde ex_messages" using ex_addressed by (simp add: log_ok_def ex_messages_def)
  moreover have "pg_good ex_serde DOCUMENT_PROJECTION_NAME ex_messages empty_pg"
    by (auto simp: pg_good_def rows_ok_def covered_def table_def empty_pg_def projected_def up_to_def ex_messages_def
        read_checkpoint_def i64_as_u64_def intro!: exI [of _ "0::nat"])
  ultimately show ?thesis
    by (auto simp: ex_lease_world_def ex_serde_tags neighbour_def cut_off_sessions_def lease_moves_def)
qed

theorem projection_task_is_safe_witness:
  "\<exists>r w' es'. run_state (run_projection 2 (SessionDb ex_serde 7) (OrderedConsumer ex_messages ex_script) DOCUMENT_PROJECTION_NAME ex_config)
        (ex_lease_world, replicate 8 id @ [cut_off_sessions]) = (r, (w', es'))
    \<and> covered ex_serde ex_messages (lw_pg w') (unat (read_checkpoint DOCUMENT_PROJECTION_NAME (lw_pg w')))
    \<and> list_all exclusive (lw_commits w')"
proof -
  obtain r w' es' where run: "run_state (run_projection 2 (SessionDb ex_serde 7) (OrderedConsumer ex_messages ex_script)
      DOCUMENT_PROJECTION_NAME ex_config) (ex_lease_world, replicate 8 id @ [cut_off_sessions]) = (r, (w', es'))" by (metis surj_pair)
  have "wc_projector_lock_id ex_config = 7" by (simp add: ex_config_def)
  from projection_task_is_safe [OF ex_lease_inv this run] run show ?thesis by (auto simp: ex_lease_world_def)
qed

end
