(* ===== verification/Read_Model.thy ===== *)
theory Read_Model
  imports Projector Uploads
begin

text \<open>
  The read model on Postgres, \<open>PgDocumentReadModel\<close> of document-adapters/src/postgres/read_model.rs: the two queries on the table that the
  projection writes. The order in which the database scans the table is a parameter. The interpretation of \<open>read_model\<close> gives the
  paging lemmas of the service for it, and the theorem puts the whole read path together: from the log, through the projection,
  to the pages a client receives.
\<close>

section \<open>The queries\<close>

record PgPool =
  pp_pg :: Pg
  pp_down :: "string option"

definition read_error :: "string \<Rightarrow> string \<Rightarrow> ReadError" where
  "read_error label e = RdUnavailable (label @ '': '' @ e)"

definition query :: "string \<Rightarrow> (Pg \<Rightarrow> 'a) \<Rightarrow> (PgPool, ('a, ReadError) result) state" where
  "query label f = State (\<lambda>w. (case pp_down w of Some e \<Rightarrow> Err (read_error label e) | None \<Rightarrow> Ok (f (pp_pg w)), w))"

definition row_key :: "DocumentRow \<Rightarrow> DocumentCursor" where
  "row_key row = DocumentCursor (row_updated_at row) (row_document_id row)"

definition select_page :: "(Pg \<Rightarrow> DocumentRow list) \<Rightarrow> string \<Rightarrow> u32 \<Rightarrow> DocumentCursor option \<Rightarrow> Pg \<Rightarrow> DocumentRow list" where
  "select_page scan tenant limit after pg = take (unat limit) (rev (sort_key row_key (rev
     (filter (\<lambda>row. row_tenant_id row = tenant \<and> (case after of None \<Rightarrow> True | Some cursor \<Rightarrow> row_key row < cursor)) (scan pg)))))"

definition PgDocumentReadModel :: "SerdeJson \<Rightarrow> (Pg \<Rightarrow> DocumentRow list) \<Rightarrow> PgPool DocumentReadModel" where
  "PgDocumentReadModel sj scan = \<lparr>
     rm_get = (\<lambda>tenant document_id. query ''get document'' (\<lambda>pg. pg_get sj pg tenant document_id)),
     rm_list = (\<lambda>tenant limit after. query ''list documents'' (\<lambda>pg. map (row_to_document sj) (select_page scan tenant limit after pg)))\<rparr>"

section \<open>Pages\<close>

text \<open>A scan returns every row of the table once, in whatever order.\<close>

definition scans :: "(Pg \<Rightarrow> DocumentRow list) \<Rightarrow> Pg \<Rightarrow> bool" where
  "scans scan pg = (distinct (scan pg) \<and> set (scan pg) = ran (pg_document pg))"

definition table_documents :: "SerdeJson \<Rightarrow> (Pg \<Rightarrow> DocumentRow list) \<Rightarrow> Pg \<Rightarrow> string \<Rightarrow> DocumentState list" where
  "table_documents sj scan pg t = sort_desc (map (row_to_document sj) (filter (\<lambda>row. row_tenant_id row = t) (scan pg)))"

lemma list_key_row [simp]: "list_key (row_to_document sj row) = row_key row"
  by (simp add: list_key_def row_key_def row_to_document_def)

lemma select_page_documents:
  "map (row_to_document sj) (select_page scan t n after pg) = take (unat n) (filter (past after) (table_documents sj scan pg t))"
proof -
  let ?f = "row_to_document sj" and ?rows = "filter (\<lambda>row. row_tenant_id row = t) (scan pg)"
  have "list_key \<circ> ?f = row_key" by auto
  then have "map ?f (rev (sort_key row_key (rev rows))) = sort_desc (map ?f rows)" for rows
    by (simp add: sort_desc_def rev_map sort_key_map)
  then have "map ?f (select_page scan t n after pg) = take (unat n) (sort_desc (map ?f (filter (past after \<circ> ?f) ?rows)))"
    unfolding select_page_def take_map [symmetric] by (simp add: past_def comp_def cong: option.case_cong)
  also have "map ?f (filter (past after \<circ> ?f) ?rows) = filter (past after) (map ?f ?rows)" by (simp only: filter_map)
  finally show ?thesis by (simp only: table_documents_def filter_sort_desc)
qed

lemma distinct_sort_keys: "distinct (map k ds) \<Longrightarrow> distinct (map k (sort_key k (rev ds)))"
  by (simp add: distinct_map)

lemma table_documents_set:
  assumes "scans scan pg" "tags_ok sj" "rows_ok sj n pg"
  shows "set (table_documents sj scan pg t) = {d. \<exists>i. table sj pg (t, i) = Some d}"
    "sorted_wrt (\<lambda>a b. list_key b < list_key a) (table_documents sj scan pg t)"
proof -
  let ?rows = "filter (\<lambda>row. row_tenant_id row = t) (scan pg)"
  have key: "pg_document pg k = Some row \<Longrightarrow> k = (row_tenant_id row, row_document_id row)" for k row
    using table_row [OF assms(2,3)] by (metis (no_types, lifting) document_to_row_def DocumentRow.select_convs(1,2) state_key_def)
  have rows: "row \<in> set ?rows \<longleftrightarrow> pg_document pg (t, row_document_id row) = Some row" for row
    using assms(1) key by (auto simp: scans_def ran_def)
  have "set (table_documents sj scan pg t) = row_to_document sj ` set ?rows"
    by (simp add: table_documents_def sort_desc_def)
  then show "set (table_documents sj scan pg t) = {d. \<exists>i. table sj pg (t, i) = Some d}"
    using rows key by (fastforce simp: table_def image_iff)
  have "inj_on row_key (set ?rows)"
  proof (rule inj_onI)
    fix a b assume "a \<in> set ?rows" "b \<in> set ?rows" "row_key a = row_key b"
    then show "a = b" using rows by (metis DocumentCursor.inject option.inject row_key_def)
  qed
  moreover have "distinct ?rows" using assms(1) by (simp add: scans_def)
  ultimately have "distinct (map list_key (map (row_to_document sj) ?rows))" by (simp add: distinct_map comp_def)
  then have "distinct (map list_key (sort_key list_key (rev (map (row_to_document sj) ?rows))))" by (rule distinct_sort_keys)
  then have "sorted_wrt (<) (map list_key (sort_key list_key (rev (map (row_to_document sj) ?rows))))"
    by (simp add: strict_sorted_iff)
  then show "sorted_wrt (\<lambda>a b. list_key b < list_key a) (table_documents sj scan pg t)"
    by (simp add: table_documents_def sort_desc_def sorted_wrt_rev sorted_wrt_map)
qed

interpretation pg_listing: read_model "PgDocumentReadModel sj scan" "\<lambda>w. table_documents sj scan (pp_pg w)"
  "\<lambda>w. scans scan (pp_pg w) \<and> tags_ok sj \<and> (\<exists>n. rows_ok sj n (pp_pg w)) \<and> pp_down w = None"
  for sj scan
proof (unfold_locales, goal_cases)
  case (1 w t)
  then show ?case using table_documents_set(2) by blast
next
  case (2 w t n after)
  then show ?case by (simp add: PgDocumentReadModel_def query_def select_page_documents)
qed

text \<open>C20. The read path is right from end to end. When the projection has caught up with the log, a client that follows the cursors
  of the listing, with any page size, receives exactly the documents that folding the log gives for its tenant, each one once
  and newest first, whatever order the database scans the table in.\<close>

theorem listing_reports_log:
  assumes "tags_ok sj" "projector_reaches sj name batch_size s" "scans scan (pr_pg s)"
    and "\<forall>m \<in> set (pr_log s). unat (fst m) \<le> unat (read_checkpoint name (pr_pg s))"
    and "sv_documents sv = PgDocumentReadModel sj scan"
    and "length (scan (pr_pg s)) < n"
  shows "\<exists>docs. run_state (follow_pages n sv t limit None) \<lparr>pp_pg = pr_pg s, pp_down = None\<rparr> = (Ok docs, \<lparr>pp_pg = pr_pg s, pp_down = None\<rparr>)
    \<and> set docs = {d. \<exists>i. projected sj (pr_log s) (t, i) = Some d} \<and> sorted_wrt (\<lambda>a b. list_key b < list_key a) docs"
proof -
  have ok: "projector_inv sj name s" by (rule projector_reaches_inv [OF assms(1,2)])
  have "up_to (checkpoint name s) (pr_log s) = pr_log s"
    using assms(4) unfolding up_to_def by (intro filter_True) simp
  then have tab: "table sj (pr_pg s) = projected sj (pr_log s)" and rows: "rows_ok sj (checkpoint name s) (pr_pg s)"
    using ok by (simp_all add: projector_inv_def)
  note docs = table_documents_set [OF assms(3,1) rows, of t]
  have "length (table_documents sj scan (pr_pg s) t) \<le> length (scan (pr_pg s))"
    by (simp add: table_documents_def sort_desc_def)
  then have "length (table_documents sj scan (pr_pg s) t) div unat (clamp limit 1 MAX_LIST_LIMIT) < n"
    using assms(6) by (meson div_le_dividend le_less_trans)
  then have "run_state (follow_pages n sv t limit None) \<lparr>pp_pg = pr_pg s, pp_down = None\<rparr> =
      (Ok (table_documents sj scan (pr_pg s) t), \<lparr>pp_pg = pr_pg s, pp_down = None\<rparr>)"
    by (intro pg_listing.follow_pages_lists [where pre = "[]"]) (use assms(1,3,5) rows in \<open>auto simp: past_def\<close>)
  then show ?thesis using docs tab by auto
qed

text \<open>The projected log of the example: one document, in the one row of the table.\<close>

definition ex_scan :: "Pg \<Rightarrow> DocumentRow list" where
  "ex_scan pg = (case pg_document pg (''acme'', ''doc-1'') of Some row \<Rightarrow> [row] | None \<Rightarrow> [])"

lemma ex_caught_up:
  "read_checkpoint DOCUMENT_PROJECTION_NAME (pr_pg ex_projector) = 9"
  "\<forall>m \<in> set (pr_log ex_projector). unat (fst m) \<le> unat (read_checkpoint DOCUMENT_PROJECTION_NAME (pr_pg ex_projector))"
  by (simp_all add: ex_projector_def ex_messages_def checkpoint_apply_batch fits_def)

lemma ex_table: "table ex_serde (pr_pg ex_projector) = [(''acme'', ''doc-1'') \<mapsto> ex_folded]"
proof
  fix k
  let ?h = "history_of ex_serde k ex_messages"
  have inv: "projector_inv ex_serde DOCUMENT_PROJECTION_NAME ex_projector"
    by (rule projector_reaches_inv [OF ex_serde_tags ex_projector_reaches])
  have "up_to 9 ex_messages = ex_messages" by (simp add: up_to_def ex_messages_def)
  then have t: "table ex_serde (pr_pg ex_projector) = projected ex_serde ex_messages"
    using inv by (simp add: projector_inv_def ex_caught_up(1)) (simp add: ex_projector_def)
  have "?h = (if k = (''acme'', ''doc-1'') then ex_history else [])"
    by (simp add: ex_messages_def history_of_def map_filter_simps ex_decode ex_subject ex_history_def)
  then have "fold_history ?h = Ok (if k = (''acme'', ''doc-1'') then Some ex_folded else None)"
    using fold_ex_history by simp
  from projected_history [OF ex_addressed this] show "table ex_serde (pr_pg ex_projector) k = [(''acme'', ''doc-1'') \<mapsto> ex_folded] k"
    by (simp add: t)
qed

lemma ex_scans: "scans ex_scan (pr_pg ex_projector)"
proof -
  have t: "map_option (row_to_document ex_serde) (pg_document (pr_pg ex_projector) k) = [(''acme'', ''doc-1'') \<mapsto> ex_folded] k" for k
    using fun_cong [OF ex_table, of k] unfolding table_def .
  have "pg_document (pr_pg ex_projector) k = None" if "k \<noteq> (''acme'', ''doc-1'')" for k
    using t [of k] that by simp
  moreover obtain row where "pg_document (pr_pg ex_projector) (''acme'', ''doc-1'') = Some row"
    using t [of "(''acme'', ''doc-1'')"] by auto
  ultimately have "ran (pg_document (pr_pg ex_projector)) = {row}" "ex_scan (pr_pg ex_projector) = [row]"
    by (auto simp: ran_def ex_scan_def) (metis option.distinct(1) option.inject)
  then show ?thesis by (simp add: scans_def)
qed

theorem listing_reports_log_witness:
  "\<forall>sv. \<exists>docs. run_state (follow_pages 3 (sv\<lparr>sv_documents := PgDocumentReadModel ex_serde ex_scan\<rparr>) ''acme'' 1 None)
      \<lparr>pp_pg = pr_pg ex_projector, pp_down = None\<rparr> = (Ok docs, \<lparr>pp_pg = pr_pg ex_projector, pp_down = None\<rparr>)
    \<and> set docs = {d. \<exists>i. projected ex_serde ex_messages (''acme'', i) = Some d}"
proof
  fix sv :: "PgPool DocumentService"
  let ?sv = "sv\<lparr>sv_documents := PgDocumentReadModel ex_serde ex_scan\<rparr>"
  have n: "length (ex_scan (pr_pg ex_projector)) < 3" by (simp add: ex_scan_def split: option.splits)
  have sv: "sv_documents ?sv = PgDocumentReadModel ex_serde ex_scan" by simp
  have log: "pr_log ex_projector = ex_messages" by (simp add: ex_projector_def)
  from listing_reports_log [OF ex_serde_tags ex_projector_reaches ex_scans ex_caught_up(2) sv n, of "''acme''" 1, unfolded log]
  show "\<exists>docs. run_state (follow_pages 3 ?sv ''acme'' 1 None)
      \<lparr>pp_pg = pr_pg ex_projector, pp_down = None\<rparr> = (Ok docs, \<lparr>pp_pg = pr_pg ex_projector, pp_down = None\<rparr>)
    \<and> set docs = {d. \<exists>i. projected ex_serde ex_messages (''acme'', i) = Some d}" by blast
qed

end
