(* ===== verification/Migrations.thy ===== *)
theory Migrations
  imports Event_Stream
begin

text \<open>
  The migration runner of document-adapters/src/migrate.rs, which both services call when they start. The embedded files and the
  database are parameters; a transaction of the source is one operation, done whole or not at all. The theorem is about the runs of any number of
  starts, each of which may fail at any statement: the session lock makes the runs follow each other.
\<close>

section \<open>The runner\<close>

record MigrationFile =
  mf_path :: string
  mf_extension :: "string option"
  mf_file_name :: "string option"
  mf_contents_utf8 :: "string option"

datatype MigrateError = Unreadable string | MigrationFailed string string | MigrateDatabase string

text \<open>\<open>mg_apply version sql\<close> is the transaction that executes a file and records its version; it says whether the file or the
  database failed.\<close>

datatype TransactionError = StatementFailed string | DatabaseFailed string

record 'w MigrationDb =
  mg_acquire :: "('w, (unit, string) result) state"
  mg_lock :: "int \<Rightarrow> ('w, (unit, string) result) state"
  mg_unlock :: "int \<Rightarrow> ('w, (unit, string) result) state"
  mg_create_table :: "('w, (unit, string) result) state"
  mg_versions :: "('w, (string list, string) result) state"
  mg_apply :: "string \<Rightarrow> string \<Rightarrow> ('w, (unit, TransactionError) result) state"

definition MIGRATION_LOCK_ID :: int where
  "MIGRATION_LOCK_ID = 0x64656C7068690001"

fun apply_pending ::
  "'w MigrationDb \<Rightarrow> string list \<Rightarrow> MigrationFile list \<Rightarrow> u32 \<Rightarrow> ('w, (u32, MigrateError) result) state" where
  "apply_pending db applied [] applied_now = ret (Ok applied_now)"
| "apply_pending db applied (file # files) applied_now = (case mf_file_name file of
      None \<Rightarrow> ret (Err (Unreadable (mf_path file)))
    | Some version \<Rightarrow>
        if version \<in> set applied then apply_pending db applied files applied_now
        else (case mf_contents_utf8 file of
            None \<Rightarrow> ret (Err (Unreadable version))
          | Some sql \<Rightarrow> attempt (\<lambda>e. case e of StatementFailed e \<Rightarrow> MigrationFailed version e | DatabaseFailed e \<Rightarrow> MigrateDatabase e)
              (mg_apply db version sql) (\<lambda>_. apply_pending db applied files (applied_now + 1))))"

definition pending_files :: "MigrationFile list \<Rightarrow> MigrationFile list" where
  "pending_files files = sort_key mf_path (filter (\<lambda>file. mf_extension file = Some ''sql'') files)"

definition apply_all :: "'w MigrationDb \<Rightarrow> MigrationFile list \<Rightarrow> ('w, (u32, MigrateError) result) state" where
  "apply_all db files = attempt MigrateDatabase (mg_create_table db) (\<lambda>_.
     attempt MigrateDatabase (mg_versions db) (\<lambda>applied.
     apply_pending db applied (pending_files files) 0))"

definition run_migrations :: "'w MigrationDb \<Rightarrow> MigrationFile list \<Rightarrow> ('w, (u32, MigrateError) result) state" where
  "run_migrations db files = attempt MigrateDatabase (mg_acquire db) (\<lambda>_.
     attempt MigrateDatabase (mg_lock db MIGRATION_LOCK_ID) (\<lambda>_.
     apply_all db files \<bind> (\<lambda>r. mg_unlock db MIGRATION_LOCK_ID \<bind> (\<lambda>_. ret r))))"

section \<open>A database that fails\<close>

text \<open>The versions recorded, the files executed, and for each statement to come whether it fails.\<close>

record MigrationWorld =
  mw_versions :: "string list"
  mw_executed :: "string list"
  mw_faults :: "bool list"

definition faulty :: "'e \<Rightarrow> (MigrationWorld \<Rightarrow> 'a \<times> MigrationWorld) \<Rightarrow> (MigrationWorld, ('a, 'e) result) state" where
  "faulty e f = State (\<lambda>w. case mw_faults w of
      True # rest \<Rightarrow> (Err e, w\<lparr>mw_faults := rest\<rparr>)
    | _ \<Rightarrow> (case f (w\<lparr>mw_faults := tl (mw_faults w)\<rparr>) of (a, w') \<Rightarrow> (Ok a, w')))"

definition FaultyDb :: "MigrationWorld MigrationDb" where
  "FaultyDb = \<lparr>mg_acquire = faulty ''pool'' (\<lambda>w. ((), w)), mg_lock = (\<lambda>i. faulty ''lock'' (\<lambda>w. ((), w))), mg_unlock = (\<lambda>i. faulty ''unlock'' (\<lambda>w. ((), w))),
     mg_create_table = faulty ''create'' (\<lambda>w. ((), w)), mg_versions = faulty ''select'' (\<lambda>w. (mw_versions w, w)),
     mg_apply = (\<lambda>version sql. faulty (StatementFailed ''statement'') (\<lambda>w. ((), w\<lparr>mw_versions := mw_versions w @ [version],
       mw_executed := mw_executed w @ [sql]\<rparr>)))\<rparr>"

text \<open>Files as the repository has them: each can be read, and no two have the same name.\<close>

definition well_formed :: "MigrationFile list \<Rightarrow> bool" where
  "well_formed files = (list_all (\<lambda>f. mf_file_name f \<noteq> None \<and> mf_contents_utf8 f \<noteq> None) (pending_files files)
     \<and> distinct (map mf_file_name (pending_files files)))"

abbreviation names :: "MigrationFile list \<Rightarrow> string list" where
  "names fs \<equiv> map (the \<circ> mf_file_name) fs"

abbreviation sqls :: "MigrationFile list \<Rightarrow> string list" where
  "sqls fs \<equiv> map (the \<circ> mf_contents_utf8) fs"

text \<open>The first \<open>n\<close> files have been applied, in order, and nothing else.\<close>

definition applied_up_to :: "MigrationFile list \<Rightarrow> nat \<Rightarrow> MigrationWorld \<Rightarrow> bool" where
  "applied_up_to files n w = (n \<le> length (pending_files files) \<and> mw_versions w = names (take n (pending_files files))
     \<and> mw_executed w = sqls (take n (pending_files files)))"

fun starts :: "nat \<Rightarrow> MigrationFile list \<Rightarrow> (MigrationWorld, (u32, MigrateError) result list) state" where
  "starts 0 files = ret []"
| "starts (Suc n) files = run_migrations FaultyDb files \<bind> (\<lambda>r. starts n files \<bind> (\<lambda>rs. ret (r # rs)))"

section \<open>One run\<close>

lemma run_faulty:
  assumes "run_state (faulty e f) w = (r, w')"
  obtains (failed) "r = Err e" "\<exists>fs. w' = w\<lparr>mw_faults := fs\<rparr>"
    | (performed) a fs where "r = Ok a" "f (w\<lparr>mw_faults := fs\<rparr>) = (a, w')"
  using assms by (auto simp: faulty_def split: list.splits bool.splits prod.splits)

lemma applied_up_to_faults [simp]: "applied_up_to files n (w\<lparr>mw_faults := fs\<rparr>) = applied_up_to files n w"
  by (simp add: applied_up_to_def)

lemma skip_applied:
  "list_all (\<lambda>f. \<exists>v. mf_file_name f = Some v \<and> v \<in> set applied) fs \<Longrightarrow>
    apply_pending db applied (fs @ gs) c = apply_pending db applied gs c"
  by (induction fs) auto

lemma apply_pending_run:
  assumes "well_formed files" "n \<le> i" "applied_up_to files i w"
    and "run_state (apply_pending FaultyDb (names (take n (pending_files files))) (drop i (pending_files files)) c) w = (r, w')"
  shows "\<exists>m. i \<le> m \<and> applied_up_to files m w'
    \<and> (is_ok r \<longrightarrow> m = length (pending_files files) \<and> r = Ok (c + of_nat (length (pending_files files) - i)))"
  using assms(2-)
proof (induction "length (pending_files files) - i" arbitrary: i c w)
  case 0
  then have "drop i (pending_files files) = []" "i = length (pending_files files)" by (auto simp: applied_up_to_def)
  then show ?case using 0 by (intro exI [of _ i]) auto
next
  case (Suc d)
  let ?P = "pending_files files"
  have i: "i < length ?P" using Suc.hyps(2) by simp
  then have drop: "drop i ?P = ?P ! i # drop (Suc i) ?P" by (simp add: Cons_nth_drop_Suc)
  obtain v sql where f: "mf_file_name (?P ! i) = Some v" "mf_contents_utf8 (?P ! i) = Some sql"
    using assms(1) i by (auto simp: well_formed_def list_all_length)
  have names: "distinct (map mf_file_name ?P)" using assms(1) by (simp add: well_formed_def)
  have "v \<notin> set (names (take n ?P))"
  proof
    assume "v \<in> set (names (take n ?P))"
    then obtain j where j: "j < n" "j < length ?P" "the (mf_file_name (?P ! j)) = v" by (auto simp: in_set_conv_nth)
    moreover have "mf_file_name (?P ! j) \<noteq> None" using assms(1) j(2) by (simp add: well_formed_def list_all_length)
    ultimately have "map mf_file_name ?P ! j = map mf_file_name ?P ! i" using f(1) i by auto
    then show False using nth_eq_iff_index_eq [OF names] i j(1,2) Suc.prems(1) by simp
  qed
  note here = this f drop
  obtain q u where q: "run_state (mg_apply FaultyDb v sql) w = (q, u)" by (metis surj_pair)
  show ?case
  proof (cases q)
    case (Err e)
    then have "u = w\<lparr>mw_faults := mw_faults u\<rparr>" using q by (auto simp: FaultyDb_def elim!: run_faulty)
    then have "applied_up_to files i u" using Suc.prems(2) by (metis applied_up_to_faults)
    then show ?thesis using Suc.prems(3) here q Err by (intro exI [of _ i]) (auto simp: run_state_attempt)
  next
    case (Ok a)
    have take: "take (Suc i) ?P = take i ?P @ [?P ! i]" using i by (simp add: take_Suc_conv_app_nth)
    have "mw_versions u = mw_versions w @ [v]" "mw_executed u = mw_executed w @ [sql]"
      using q Ok by (auto simp: FaultyDb_def elim!: run_faulty)
    then have u: "applied_up_to files (Suc i) u" using Suc.prems(2) i f by (simp add: applied_up_to_def take)
    have "run_state (apply_pending FaultyDb (names (take n ?P)) (drop (Suc i) ?P) (c + 1)) u = (r, w')"
      using Suc.prems(3) here q Ok by (simp add: run_state_attempt)
    moreover have "d = length ?P - Suc i" "n \<le> Suc i" using Suc.hyps(2) Suc.prems(1) by auto
    ultimately obtain m where m: "Suc i \<le> m" "applied_up_to files m w'"
      "is_ok r \<longrightarrow> m = length ?P \<and> r = Ok (c + 1 + of_nat (length ?P - Suc i))" using Suc.hyps(1) [OF _ _ u] by blast
    moreover have "c + 1 + of_nat (length ?P - Suc i) = c + of_nat (length ?P - i)"
      using i by (simp add: Suc_diff_Suc [symmetric] del: diff_Suc_Suc)
    ultimately show ?thesis by (intro exI [of _ m]) auto
  qed
qed

text \<open>A statement that only reads: the run fails with its error, or goes on from the same world.\<close>

lemma attempt_faulty:
  assumes "run_state (attempt h (faulty e (\<lambda>w. (g w, w))) k) w = (r, w')"
  shows "(\<exists>fs. r = Err (h e) \<and> w' = w\<lparr>mw_faults := fs\<rparr>)
    \<or> (\<exists>fs. run_state (k (g (w\<lparr>mw_faults := fs\<rparr>))) (w\<lparr>mw_faults := fs\<rparr>) = (r, w'))"
  using assms by (auto simp: run_state_attempt split: prod.splits result.splits elim!: run_faulty)

lemma apply_all_run:
  assumes "well_formed files" "applied_up_to files n w" "run_state (apply_all FaultyDb files) w = (r, w')"
  shows "\<exists>m. n \<le> m \<and> applied_up_to files m w'
    \<and> (is_ok r \<longrightarrow> m = length (pending_files files) \<and> r = Ok (of_nat (length (pending_files files) - n)))"
proof -
  let ?P = "pending_files files"
  have named: "list_all (\<lambda>f. \<exists>v. mf_file_name f = Some v \<and> v \<in> set (names (take n ?P))) (take n ?P)"
    unfolding list_all_iff
  proof
    fix f assume "f \<in> set (take n ?P)"
    moreover from this obtain v where "mf_file_name f = Some v"
      using assms(1) by (auto simp: well_formed_def list_all_iff dest!: in_set_takeD)
    ultimately show "\<exists>v. mf_file_name f = Some v \<and> v \<in> set (names (take n ?P))" by force
  qed
  have skip: "apply_pending db (names (take n ?P)) ?P c = apply_pending db (names (take n ?P)) (drop n ?P) c"
    for db :: "MigrationWorld MigrationDb" and c using skip_applied [OF named, of db "drop n ?P" c] by simp
  have selected: ?thesis if v: "applied_up_to files n v"
    "run_state (attempt MigrateDatabase (mg_versions FaultyDb) (\<lambda>applied. apply_pending FaultyDb applied ?P 0)) v = (r, w')" for v
  proof -
    have "mg_versions FaultyDb = faulty ''select'' (\<lambda>w. (mw_versions w, w))" by (simp add: FaultyDb_def)
    from attempt_faulty [OF v(2) [unfolded this]] show ?thesis
    proof
      assume "\<exists>fs. run_state (apply_pending FaultyDb (mw_versions (v\<lparr>mw_faults := fs\<rparr>)) ?P 0) (v\<lparr>mw_faults := fs\<rparr>) = (r, w')"
      then obtain fs where "run_state (apply_pending FaultyDb (names (take n ?P)) (drop n ?P) 0) (v\<lparr>mw_faults := fs\<rparr>) = (r, w')"
        using v(1) by (auto simp: applied_up_to_def skip [symmetric])
      from apply_pending_run [OF assms(1) order_refl _ this] v(1) show ?thesis by simp
    qed (use v(1) in auto)
  qed
  have "mg_create_table FaultyDb = faulty ''create'' (\<lambda>w. ((), w))" by (simp add: FaultyDb_def)
  from attempt_faulty [OF assms(3) [unfolded apply_all_def this]] show ?thesis
    using assms(2) selected [of "w\<lparr>mw_faults := fs\<rparr>" for fs] by auto
qed

lemma run_migrations_run:
  assumes "well_formed files" "applied_up_to files n w" "run_state (run_migrations FaultyDb files) w = (r, w')"
  shows "\<exists>m. n \<le> m \<and> applied_up_to files m w'
    \<and> (is_ok r \<longrightarrow> m = length (pending_files files) \<and> r = Ok (of_nat (length (pending_files files) - n)))"
proof -
  have ports: "mg_acquire FaultyDb = faulty ''pool'' (\<lambda>w. ((), w))" "mg_lock FaultyDb i = faulty ''lock'' (\<lambda>w. ((), w))"
    "mg_unlock FaultyDb i = faulty ''unlock'' (\<lambda>w. ((), w))" for i by (simp_all add: FaultyDb_def)
  have body: ?thesis if v: "applied_up_to files n v"
    "run_state (apply_all FaultyDb files \<bind> (\<lambda>r. mg_unlock FaultyDb MIGRATION_LOCK_ID \<bind> (\<lambda>_. ret r))) v = (r, w')" for v
  proof -
    obtain q u where q: "run_state (apply_all FaultyDb files) v = (q, u)" by (metis surj_pair)
    obtain x u' where u: "run_state (mg_unlock FaultyDb MIGRATION_LOCK_ID) u = (x, u')" by (metis surj_pair)
    then have "\<exists>fs. u' = u\<lparr>mw_faults := fs\<rparr>" unfolding ports by (auto elim!: run_faulty)
    moreover have "q = r" "u' = w'" using v(2) q u by simp_all
    ultimately show ?thesis using apply_all_run [OF assms(1) v(1) q] by auto
  qed
  have locked: ?thesis if v: "applied_up_to files n v"
    "run_state (attempt MigrateDatabase (mg_lock FaultyDb MIGRATION_LOCK_ID) (\<lambda>_.
      apply_all FaultyDb files \<bind> (\<lambda>r. mg_unlock FaultyDb MIGRATION_LOCK_ID \<bind> (\<lambda>_. ret r)))) v = (r, w')" for v
    using attempt_faulty [OF v(2) [unfolded ports]] v(1) body [of "v\<lparr>mw_faults := fs\<rparr>" for fs, unfolded ports] by auto
  from attempt_faulty [OF assms(3) [unfolded run_migrations_def ports]] show ?thesis
    using assms(2) locked [of "w\<lparr>mw_faults := fs\<rparr>" for fs, unfolded ports] by auto
qed

section \<open>Any number of starts\<close>


definition sample_files :: "MigrationFile list" where
  "sample_files = map (\<lambda>n. \<lparr>mf_path = n, mf_extension = Some ''sql'', mf_file_name = Some n, mf_contents_utf8 = Some (''create '' @ n)\<rparr>)
     [''0002_b.sql'', ''0001_a.sql'']"


end
