(* ===== verification/Realtime_Hubs.thy ===== *)
theory Realtime_Hubs
  imports Realtime
begin

text \<open>
  The fan-out of services/realtime-service/src/main.rs. One hub per conversation reads the conversation's consumer and broadcasts to the
  sockets that follow it; the registry refers to hubs weakly, so that a hub lives as long as a socket has a handle on it.

  \<open>subscribe\<close> is cut where the source awaits or releases the mutex of the registry; between the parts, other sockets, the tasks of the hubs and
  the publishers of events take their steps (\<open>fan_step\<close>). The consumer of the bus is a cursor into the events of the conversation, as
  \<open>DeliverPolicy::New\<close> makes it. The broadcast channel has the documented behaviour of tokio's: a receiver sees what is sent after it
  subscribed; when more is outstanding than the capacity, it loses the oldest events and is told how many before it sees the next one.
\<close>

section \<open>State\<close>

record ConversationKey =
  key_tenant_id :: string
  key_conversation_id :: string

text \<open>A receiver: what is buffered for it, what it has lost since it was last told, what its task has sent to the socket's loop, and how many events
  the conversation had when it subscribed.\<close>

record Receiver =
  rv_buffer :: "SequencedChatEvent list"
  rv_skipped :: u64
  rv_passed :: "SocketInput list"
  rv_since :: nat

text \<open>A hub reads from the position \<open>hb_pos\<close> on; \<open>hb_end\<close> is where its consumer stopped, if it has.\<close>

record ConversationEventHub =
  hb_key :: ConversationKey
  hb_pos :: nat
  hb_end :: "nat option"

text \<open>How far a socket's call of \<open>subscribe\<close> has come: it found no hub and waits for the consumer; it has a hub of its own that is not in the registry
  yet; it has a handle on a hub it found; it follows a hub; it is gone.\<close>

datatype Subscription = Waiting | Opened nat | Holding nat | Following nat Receiver | Departed

record Fanout =
  fo_registry :: "ConversationKey \<rightharpoonup> nat"
  fo_hubs :: "ConversationEventHub list"
  fo_sockets :: "(ConversationKey \<times> Subscription) list"
  fo_log :: "ConversationKey \<Rightarrow> SequencedChatEvent list"

definition idle_fanout :: Fanout where
  "idle_fanout = \<lparr>fo_registry = Map.empty, fo_hubs = [], fo_sockets = [], fo_log = (\<lambda>_. [])\<rparr>"

section \<open>Operations\<close>

text \<open>\<open>Weak::upgrade\<close> succeeds as long as somebody has a handle.\<close>

fun handle_of :: "Subscription \<Rightarrow> nat option" where
  "handle_of (Opened h) = Some h"
| "handle_of (Holding h) = Some h"
| "handle_of (Following h _) = Some h"
| "handle_of _ = None"

definition upgrade :: "Fanout \<Rightarrow> nat \<Rightarrow> nat option" where
  "upgrade s h = (if list_ex (\<lambda>(_, p). handle_of p = Some h) (fo_sockets s) then Some h else None)"

definition existing_hub :: "ConversationKey \<Rightarrow> Fanout \<Rightarrow> nat option" where
  "existing_hub key s = Option.bind (fo_registry s key) (upgrade s)"

definition hub_subscribe :: "ConversationKey \<Rightarrow> nat \<Rightarrow> Fanout \<Rightarrow> Subscription" where
  "hub_subscribe key h s = Following h \<lparr>rv_buffer = [], rv_skipped = 0, rv_passed = [], rv_since = length (fo_log s key)\<rparr>"

definition set_socket :: "nat \<Rightarrow> Subscription \<Rightarrow> Fanout \<Rightarrow> Fanout" where
  "set_socket i p s = s\<lparr>fo_sockets := (fo_sockets s)[i := (fst (fo_sockets s ! i), p)]\<rparr>"

text \<open>\<open>subscribe\<close>, up to its first wait.\<close>

definition subscribe_hub :: "ConversationKey \<Rightarrow> Fanout \<Rightarrow> Fanout" where
  "subscribe_hub key s = s\<lparr>fo_sockets := fo_sockets s @ [(key, case existing_hub key s of Some h \<Rightarrow> Holding h | None \<Rightarrow> Waiting)]\<rparr>"

text \<open>The consumer is there: the hub and its task.\<close>

definition open_hub :: "ConversationKey \<Rightarrow> nat \<Rightarrow> Fanout \<Rightarrow> Fanout" where
  "open_hub key i s = set_socket i (Opened (length (fo_hubs s)))
     (s\<lparr>fo_hubs := fo_hubs s @ [\<lparr>hb_key = key, hb_pos = length (fo_log s key), hb_end = None\<rparr>]\<rparr>)"

text \<open>The rest of \<open>subscribe\<close>, under the mutex: whoever comes second drops its own hub.\<close>

definition register_hub :: "ConversationKey \<Rightarrow> nat \<Rightarrow> nat \<Rightarrow> Fanout \<Rightarrow> Fanout" where
  "register_hub key i h s = (case existing_hub key s of
      Some existing \<Rightarrow> set_socket i (hub_subscribe key existing s) s
    | None \<Rightarrow> set_socket i (hub_subscribe key h s) (s\<lparr>fo_registry := (fo_registry s)(key \<mapsto> h)\<rparr>))"

text \<open>\<open>send\<close> as one receiver sees it.\<close>

definition buffer_event :: "nat \<Rightarrow> SequencedChatEvent \<Rightarrow> Receiver \<Rightarrow> Receiver" where
  "buffer_event capacity e v =
     (if length (rv_buffer v) < capacity then v\<lparr>rv_buffer := rv_buffer v @ [e]\<rparr>
      else v\<lparr>rv_buffer := tl (rv_buffer v) @ [e], rv_skipped := rv_skipped v + 1\<rparr>)"

fun broadcast_to :: "nat \<Rightarrow> nat \<Rightarrow> SequencedChatEvent \<Rightarrow> Subscription \<Rightarrow> Subscription" where
  "broadcast_to capacity h e (Following g v) = Following g (if g = h then buffer_event capacity e v else v)"
| "broadcast_to capacity h e p = p"

text \<open>What the consumer of a hub has to offer, and one round of the task.\<close>

definition readable :: "Fanout \<Rightarrow> ConversationEventHub \<Rightarrow> SequencedChatEvent list" where
  "readable s hub = (case hb_end hub of None \<Rightarrow> fo_log s (hb_key hub) | Some n \<Rightarrow> take n (fo_log s (hb_key hub)))"

definition fan_out :: "nat \<Rightarrow> nat \<Rightarrow> Fanout \<Rightarrow> Fanout" where
  "fan_out capacity h s = (let hub = fo_hubs s ! h in
     case drop (hb_pos hub) (readable s hub) of
       [] \<Rightarrow> s
     | e # _ \<Rightarrow> s\<lparr>fo_hubs := (fo_hubs s)[h := hub\<lparr>hb_pos := hb_pos hub + 1\<rparr>],
         fo_sockets := map (map_prod id (broadcast_to capacity h e)) (fo_sockets s)\<rparr>)"

text \<open>One round of the task of \<open>subscribe_socket_to_conversation\<close>.\<close>

definition pass_on :: "string \<Rightarrow> Receiver \<Rightarrow> Receiver" where
  "pass_on conversation_id v =
     (if rv_skipped v \<noteq> 0 then v\<lparr>rv_skipped := 0, rv_passed := rv_passed v @ [Lagged conversation_id (rv_skipped v)]\<rparr>
      else (case rv_buffer v of
          [] \<Rightarrow> v
        | e # rest \<Rightarrow> v\<lparr>rv_buffer := rest, rv_passed := rv_passed v @ [SocketEvent e]\<rparr>))"

definition consumer_ends :: "nat \<Rightarrow> Fanout \<Rightarrow> Fanout" where
  "consumer_ends h s = (let hub = fo_hubs s ! h in s\<lparr>fo_hubs := (fo_hubs s)[h := hub\<lparr>hb_end := Some (length (readable s hub))\<rparr>]\<rparr>)"

section \<open>Interleavings\<close>

text \<open>The sequence numbers of a stream are words and start at one.\<close>

definition stream_limit :: nat where
  "stream_limit = 2 ^ 64 - 1"

inductive fan_step :: "nat \<Rightarrow> Fanout \<Rightarrow> Fanout \<Rightarrow> bool" for capacity where
  arrive: "fan_step capacity s (subscribe_hub key s)"
| consumer: "i < length (fo_sockets s) \<Longrightarrow> fo_sockets s ! i = (key, Waiting) \<Longrightarrow> fan_step capacity s (open_hub key i s)"
| registered: "i < length (fo_sockets s) \<Longrightarrow> fo_sockets s ! i = (key, Opened h) \<Longrightarrow> fan_step capacity s (register_hub key i h s)"
| joined: "i < length (fo_sockets s) \<Longrightarrow> fo_sockets s ! i = (key, Holding h) \<Longrightarrow> fan_step capacity s (set_socket i (hub_subscribe key h s) s)"
| publish: "length (fo_log s key) < stream_limit \<Longrightarrow> fan_step capacity s (s\<lparr>fo_log := (fo_log s)(key := fo_log s key @ [e])\<rparr>)"
| fans: "h < length (fo_hubs s) \<Longrightarrow> fan_step capacity s (fan_out capacity h s)"
| passes: "i < length (fo_sockets s) \<Longrightarrow> fo_sockets s ! i = (key, Following h v) \<Longrightarrow>
    fan_step capacity s (set_socket i (Following h (pass_on (key_conversation_id key) v)) s)"
| ends: "h < length (fo_hubs s) \<Longrightarrow> fan_step capacity s (consumer_ends h s)"
| leaves: "i < length (fo_sockets s) \<Longrightarrow> fan_step capacity s (set_socket i Departed s)"

section \<open>Accounting for a log\<close>

text \<open>Reading what a socket was given against the events of the conversation: an event must be the next one, a notice stands for as many as it says. The
  result is what has not been accounted for.\<close>

fun account :: "SocketInput list \<Rightarrow> SequencedChatEvent list \<Rightarrow> SequencedChatEvent list option" where
  "account [] es = Some es"
| "account (SocketEvent e # ins) es = (case es of [] \<Rightarrow> None | x # rest \<Rightarrow> if x = e then account ins rest else None)"
| "account (Lagged c n # ins) es = (if unat n \<le> length es then account ins (drop (unat n) es) else None)"
| "account (_ # ins) es = None"

lemma account_append: "account (ins @ later) es = Option.bind (account ins es) (account later)"
  by (induction ins es rule: account.induct) (auto split: list.splits)

lemma account_longer: "account ins es = Some rest \<Longrightarrow> account ins (es @ tail) = Some (rest @ tail)"
  by (induction ins es rule: account.induct) (auto split: list.splits if_splits)

lemma account_events [simp]: "account (map SocketEvent es) (es @ rest) = Some rest"
  by (induction es) auto

lemma account_eventsD: "account (map SocketEvent es) xs = Some rest \<Longrightarrow> xs = es @ rest"
  by (induction es arbitrary: xs) (auto split: list.splits if_splits)

lemma account_length: "account ins es = Some rest \<Longrightarrow> length rest \<le> length es"
  by (induction ins es rule: account.induct) (auto split: list.splits if_splits)

text \<open>What a receiver has still to pass on.\<close>

definition waiting_for :: "ConversationKey \<Rightarrow> Receiver \<Rightarrow> SocketInput list" where
  "waiting_for key v = (if rv_skipped v = 0 then [] else [Lagged (key_conversation_id key) (rv_skipped v)]) @ map SocketEvent (rv_buffer v)"

definition accounts_for :: "ConversationKey \<Rightarrow> Receiver \<Rightarrow> SequencedChatEvent list \<Rightarrow> bool" where
  "accounts_for key v es = (account (rv_passed v @ waiting_for key v) es = Some [])"

lemma pass_on_accounts: "accounts_for key (pass_on (key_conversation_id key) v) es = accounts_for key v es"
  by (cases "rv_buffer v") (simp_all add: accounts_for_def waiting_for_def pass_on_def)

lemma accounts_forE:
  assumes "accounts_for key v es"
  obtains rest where "account (rv_passed v) es = Some rest" "unat (rv_skipped v) \<le> length rest" "drop (unat (rv_skipped v)) rest = rv_buffer v"
proof -
  from assms obtain rest where rest: "account (rv_passed v) es = Some rest" "account (waiting_for key v) rest = Some []"
    by (auto simp: accounts_for_def account_append split: Option.bind_splits)
  show thesis
  proof (cases "rv_skipped v = 0")
    case True
    then show thesis using that rest account_eventsD [of "rv_buffer v" rest "[]"] by (simp add: waiting_for_def)
  next
    case False
    then have "unat (rv_skipped v) \<le> length rest" "account (map SocketEvent (rv_buffer v)) (drop (unat (rv_skipped v)) rest) = Some []"
      using rest(2) by (simp_all add: waiting_for_def split: if_splits)
    then show thesis using that rest(1) account_eventsD by fastforce
  qed
qed

lemma accounts_forI:
  assumes "account (rv_passed v) es = Some rest" "unat (rv_skipped v) \<le> length rest" "drop (unat (rv_skipped v)) rest = rv_buffer v"
  shows "accounts_for key v es"
  using assms account_events [of "rv_buffer v" "[]"]
  by (cases "rv_skipped v = 0") (simp_all add: accounts_for_def account_append waiting_for_def)

lemma unat_succ:
  assumes "unat x < stream_limit" shows "unat (x + 1 :: u64) = Suc (unat x)"
proof -
  have "unat (x + 1) = (unat x + 1) mod 2 ^ 64" by (simp add: unat_word_ariths)
  then show ?thesis using assms by (simp add: stream_limit_def)
qed

lemma buffer_event_accounts:
  assumes "accounts_for key v es" "0 < capacity" "length es < stream_limit"
  shows "accounts_for key (buffer_event capacity e v) (es @ [e])"
proof -
  from assms(1) obtain rest where r: "account (rv_passed v) es = Some rest" "unat (rv_skipped v) \<le> length rest"
    "drop (unat (rv_skipped v)) rest = rv_buffer v" by (rule accounts_forE)
  note longer = account_longer [OF r(1), of "[e]"]
  show ?thesis
  proof (cases "length (rv_buffer v) < capacity")
    case True
    then show ?thesis using r longer by (intro accounts_forI [where rest = "rest @ [e]"]) (simp_all add: buffer_event_def)
  next
    case False
    then have some: "unat (rv_skipped v) < length rest" using assms(2) r(2,3) by (metis drop_all leI length_0_conv)
    then have up: "unat (rv_skipped v + 1) = Suc (unat (rv_skipped v))"
      using account_length [OF r(1)] assms(3) by (intro unat_succ) linarith
    have "drop (Suc (unat (rv_skipped v))) rest = tl (rv_buffer v)" using r(3) by (metis drop_Suc tl_drop)
    then show ?thesis using False r longer some up
      by (intro accounts_forI [where rest = "rest @ [e]"]) (simp_all add: buffer_event_def)
  qed
qed

section \<open>The invariant\<close>

definition hub_ok :: "Fanout \<Rightarrow> ConversationEventHub \<Rightarrow> bool" where
  "hub_ok s hub = (hb_pos hub \<le> length (readable s hub) \<and> (\<forall>n. hb_end hub = Some n \<longrightarrow> n \<le> length (fo_log s (hb_key hub))))"

definition follower_ok :: "Fanout \<Rightarrow> ConversationKey \<Rightarrow> nat \<Rightarrow> Receiver \<Rightarrow> bool" where
  "follower_ok s key h v = (\<exists>k \<le> rv_since v. k \<le> hb_pos (fo_hubs s ! h)
     \<and> accounts_for key v (drop k (take (hb_pos (fo_hubs s ! h)) (fo_log s key))))"

definition owns :: "Fanout \<Rightarrow> ConversationKey \<Rightarrow> nat \<Rightarrow> bool" where
  "owns s key h = (h < length (fo_hubs s) \<and> hb_key (fo_hubs s ! h) = key)"

fun socket_ok :: "Fanout \<Rightarrow> ConversationKey \<times> Subscription \<Rightarrow> bool" where
  "socket_ok s (key, Opened h) = owns s key h"
| "socket_ok s (key, Holding h) = (fo_registry s key = Some h)"
| "socket_ok s (key, Following h v) = (fo_registry s key = Some h \<and> follower_ok s key h v)"
| "socket_ok s (key, _) = True"

definition fan_inv :: "Fanout \<Rightarrow> bool" where
  "fan_inv s = (list_all (hub_ok s) (fo_hubs s) \<and> (\<forall>key h. fo_registry s key = Some h \<longrightarrow> owns s key h)
     \<and> list_all (socket_ok s) (fo_sockets s) \<and> (\<forall>key. length (fo_log s key) \<le> stream_limit))"

lemma fan_invI:
  assumes "\<And>hub. hub \<in> set (fo_hubs s) \<Longrightarrow> hub_ok s hub" "\<And>key h. fo_registry s key = Some h \<Longrightarrow> owns s key h"
    and "\<And>x. x \<in> set (fo_sockets s) \<Longrightarrow> socket_ok s x" "\<And>key. length (fo_log s key) \<le> stream_limit"
  shows "fan_inv s"
  using assms by (auto simp: fan_inv_def list_all_iff)

lemma fan_invD:
  assumes "fan_inv s"
  shows "hub \<in> set (fo_hubs s) \<Longrightarrow> hub_ok s hub" "fo_registry s key = Some h \<Longrightarrow> owns s key h"
    and "x \<in> set (fo_sockets s) \<Longrightarrow> socket_ok s x" "length (fo_log s key) \<le> stream_limit"
  using assms by (auto simp: fan_inv_def list_all_iff)

lemma owned_hub:
  assumes "fan_inv s" "owns s key h"
  shows "hub_ok s (fo_hubs s ! h)" "hb_pos (fo_hubs s ! h) \<le> length (fo_log s key)"
proof -
  show ok: "hub_ok s (fo_hubs s ! h)" using assms by (simp add: owns_def fan_invD(1))
  show "hb_pos (fo_hubs s ! h) \<le> length (fo_log s key)"
    using ok assms(2) by (auto simp: hub_ok_def owns_def readable_def split: option.splits)
qed

lemma follower_ok_cong:
  assumes "fo_hubs t ! h = fo_hubs s ! h" "take (hb_pos (fo_hubs s ! h)) (fo_log t key) = take (hb_pos (fo_hubs s ! h)) (fo_log s key)"
  shows "follower_ok t key h v = follower_ok s key h v"
  using assms by (simp add: follower_ok_def)

text \<open>A step that only concerns one socket.\<close>

lemma set_socket_simps [simp]:
  "fo_registry (set_socket i p s) = fo_registry s" "fo_hubs (set_socket i p s) = fo_hubs s" "fo_log (set_socket i p s) = fo_log s"
  by (simp_all add: set_socket_def)

lemma socket_ok_cong:
  assumes "fo_registry t = fo_registry s" "fo_hubs t = fo_hubs s" "fo_log t = fo_log s"
  shows "socket_ok t x = socket_ok s x" "owns t key h = owns s key h" "hub_ok t hub = hub_ok s hub"
proof -
  show "owns t key h = owns s key h" "hub_ok t hub = hub_ok s hub"
    using assms by (simp_all add: owns_def hub_ok_def readable_def cong: option.case_cong)
  show "socket_ok t x = socket_ok s x"
    using assms by (cases "(s, x)" rule: socket_ok.cases) (simp_all add: owns_def follower_ok_def)
qed

lemma set_socket_inv:
  assumes "fan_inv s" "socket_ok s (fst (fo_sockets s ! i), p)"
  shows "fan_inv (set_socket i p s)"
proof -
  note same = socket_ok_cong [of "set_socket i p s" s, simplified]
  have "set (fo_sockets (set_socket i p s)) \<subseteq> insert (fst (fo_sockets s ! i), p) (set (fo_sockets s))"
    unfolding set_socket_def by (simp add: set_update_subset_insert)
  then show ?thesis using assms by (auto intro!: fan_invI simp: same fan_invD)
qed

lemma new_follower_ok:
  assumes "fan_inv s" "owns s key h"
  shows "hub_subscribe key h s = Following h v \<Longrightarrow> follower_ok s key h v"
proof -
  assume "hub_subscribe key h s = Following h v"
  moreover have "drop (hb_pos (fo_hubs s ! h)) (take (hb_pos (fo_hubs s ! h)) (fo_log s key)) = []" by simp
  ultimately show ?thesis using owned_hub(2) [OF assms]
    by (auto simp: hub_subscribe_def follower_ok_def accounts_for_def waiting_for_def intro!: exI [of _ "hb_pos (fo_hubs s ! h)"])
qed

lemma hub_subscribe_ok:
  assumes "fan_inv s" "fo_registry s key = Some h"
  shows "socket_ok s (key, hub_subscribe key h s)"
  using new_follower_ok [OF assms(1) fan_invD(2) [OF assms]] assms(2) by (simp add: hub_subscribe_def)

lemma existing_hub_registered: "existing_hub key s = Some h \<Longrightarrow> fo_registry s key = Some h"
  by (auto simp: existing_hub_def upgrade_def split: Option.bind_splits if_splits)

lemma subscribe_hub_inv:
  assumes "fan_inv s" shows "fan_inv (subscribe_hub key s)"
proof -
  note same = socket_ok_cong [of "subscribe_hub key s" s, unfolded subscribe_hub_def, simplified]
  have "socket_ok s (key, case existing_hub key s of Some h \<Rightarrow> Holding h | None \<Rightarrow> Waiting)"
    by (auto split: option.splits dest: existing_hub_registered)
  then show ?thesis unfolding subscribe_hub_def using assms by (auto intro!: fan_invI simp: same fan_invD)
qed

lemma open_hub_inv:
  assumes "fan_inv s" "fst (fo_sockets s ! i) = key" shows "fan_inv (open_hub key i s)"
proof -
  let ?hub = "\<lparr>hb_key = key, hb_pos = length (fo_log s key), hb_end = None\<rparr>"
  let ?t = "s\<lparr>fo_hubs := fo_hubs s @ [?hub]\<rparr>"
  have hubs: "hub_ok ?t hub = hub_ok s hub" for hub by (simp add: hub_ok_def readable_def cong: option.case_cong)
  have own: "owns ?t k h" if "owns s k h" for k h using that by (auto simp: owns_def nth_append)
  have "socket_ok ?t x" if "x \<in> set (fo_sockets s)" for x
    using fan_invD(3) [OF assms(1) that] fan_invD(2) [OF assms(1)] own
    by (cases "(s, x)" rule: socket_ok.cases) (auto simp: follower_ok_def owns_def nth_append)
  then have "fan_inv ?t"
    using assms(1) own by (auto intro!: fan_invI simp: hubs fan_invD) (simp add: hub_ok_def readable_def)
  then show ?thesis unfolding open_hub_def using assms(2) by (intro set_socket_inv) (simp_all add: owns_def)
qed

text \<open>Nobody has a handle on the hub that a registration replaces.\<close>

lemma unheld:
  assumes "fan_inv s" "existing_hub key s = None"
  shows "(key, Holding h) \<notin> set (fo_sockets s)" "(key, Following h v) \<notin> set (fo_sockets s)"
proof -
  have "fo_registry s key \<noteq> Some h" if "handle_of p = Some h" "(key, p) \<in> set (fo_sockets s)" for p
    using assms(2) that by (fastforce simp: existing_hub_def upgrade_def list_ex_iff split: Option.bind_splits if_splits)
  from this [of "Holding h"] this [of "Following h v"]
  show "(key, Holding h) \<notin> set (fo_sockets s)" "(key, Following h v) \<notin> set (fo_sockets s)"
    using fan_invD(3) [OF assms(1), of "(key, Holding h)"] fan_invD(3) [OF assms(1), of "(key, Following h v)"] by auto
qed

lemma register_hub_inv:
  assumes "fan_inv s" "i < length (fo_sockets s)" "fo_sockets s ! i = (key, Opened h)" shows "fan_inv (register_hub key i h s)"
proof (cases "existing_hub key s")
  case None
  let ?t = "s\<lparr>fo_registry := (fo_registry s)(key \<mapsto> h)\<rparr>"
  have own: "owns s key h" using fan_invD(3) [OF assms(1) nth_mem [OF assms(2)]] assms(3) by simp
  have same: "hub_ok ?t hub = hub_ok s hub" "owns ?t k g = owns s k g" for hub k g
    by (simp_all add: hub_ok_def readable_def owns_def cong: option.case_cong)
  have "socket_ok ?t x" if "x \<in> set (fo_sockets s)" for x
    using fan_invD(3) [OF assms(1) that] unheld [OF assms(1) None] that
    by (cases "(s, x)" rule: socket_ok.cases) (auto simp: follower_ok_def owns_def)
  then have inv: "fan_inv ?t" using assms(1) own by (auto intro!: fan_invI simp: same fan_invD split: if_splits)
  have "hub_subscribe key h s = hub_subscribe key h ?t" by (simp add: hub_subscribe_def)
  then show ?thesis unfolding register_hub_def None option.case
    using hub_subscribe_ok [OF inv, of key h] assms(3) by (auto intro!: set_socket_inv [OF inv])
next
  case (Some g)
  then show ?thesis unfolding register_hub_def
    using hub_subscribe_ok [OF assms(1) existing_hub_registered [OF Some]] assms(3) by (auto intro!: set_socket_inv [OF assms(1)])
qed

lemma publish_inv:
  assumes "fan_inv s" "length (fo_log s key) < stream_limit"
  shows "fan_inv (s\<lparr>fo_log := (fo_log s)(key := fo_log s key @ [e])\<rparr>)" (is "fan_inv ?t")
proof (rule fan_invI)
  show "hub_ok ?t hub" if "hub \<in> set (fo_hubs ?t)" for hub
    using fan_invD(1) [OF assms(1), of hub] that by (auto simp: hub_ok_def readable_def split: option.splits)
  show "owns ?t k h" if "fo_registry ?t k = Some h" for k h
    using fan_invD(2) [OF assms(1), of k h] that by (simp add: owns_def)
  show "length (fo_log ?t k) \<le> stream_limit" for k using assms(2) fan_invD(4) [OF assms(1), of k] by simp
  have "follower_ok ?t k h v = follower_ok s k h v" if "fo_registry s k = Some h" for k h v
    using owned_hub(2) [OF assms(1) fan_invD(2) [OF assms(1) that]] by (intro follower_ok_cong) auto
  then show "socket_ok ?t x" if "x \<in> set (fo_sockets ?t)" for x
    using fan_invD(3) [OF assms(1), of x] that by (cases "(s, x)" rule: socket_ok.cases) (auto simp: owns_def)
qed

lemma receiver_since [simp]: "rv_since (buffer_event c e v) = rv_since v" "rv_since (pass_on i v) = rv_since v"
  by (simp_all add: buffer_event_def pass_on_def split: list.splits)

lemma readable_prefix: "hub_ok s hub \<Longrightarrow> readable s hub = take (length (readable s hub)) (fo_log s (hb_key hub))"
  by (auto simp: hub_ok_def readable_def split: option.splits)

lemma fan_out_inv:
  assumes "fan_inv s" "0 < capacity" "h < length (fo_hubs s)"
  shows "fan_inv (fan_out capacity h s)"
proof (cases "drop (hb_pos (fo_hubs s ! h)) (readable s (fo_hubs s ! h))")
  case (Cons e rest)
  define hub where "hub = fo_hubs s ! h"
  let ?t = "s\<lparr>fo_hubs := (fo_hubs s)[h := hub\<lparr>hb_pos := Suc (hb_pos hub)\<rparr>], fo_sockets := map (map_prod id (broadcast_to capacity h e)) (fo_sockets s)\<rparr>"
  have ok: "hub_ok s hub" using fan_invD(1) [OF assms(1)] assms(3) by (simp add: hub_def)
  have pos: "hb_pos hub < length (readable s hub)" "readable s hub ! hb_pos hub = e"
    using Cons hub_def by (metis drop_all leI list.distinct(1), metis drop_all hd_drop_conv_nth leI list.distinct(1) list.sel(1))
  then have e: "hb_pos hub < length (fo_log s (hb_key hub))" "fo_log s (hb_key hub) ! hb_pos hub = e"
    using readable_prefix [OF ok] by (metis length_take min_less_iff_conj, metis nth_take)
  have read: "readable ?t x = readable s x" "readable s (hub\<lparr>hb_pos := n\<rparr>) = readable s hub" for x n
    by (simp_all add: readable_def cong: option.case_cong)
  have own: "owns ?t k g = owns s k g" for k g
    using assms(3) by (auto simp: owns_def hub_def nth_list_update)
  have follow: "follower_ok ?t k h (buffer_event capacity e v)" if "follower_ok s k h v" "hb_key hub = k" for k v
  proof -
    from that(1) obtain j where j: "j \<le> rv_since v" "j \<le> hb_pos hub" "accounts_for k v (drop j (take (hb_pos hub) (fo_log s k)))"
      by (auto simp: follower_ok_def hub_def)
    have "length (drop j (take (hb_pos hub) (fo_log s k))) < stream_limit"
      using e(1) that(2) fan_invD(4) [OF assms(1), of k] by simp
    from buffer_event_accounts [OF j(3) assms(2) this, of e]
    have "accounts_for k (buffer_event capacity e v) (drop j (take (Suc (hb_pos hub)) (fo_log s k)))"
      using e j(2) that(2) by (simp add: take_Suc_conv_app_nth)
    then show ?thesis using j assms(3) by (auto simp: follower_ok_def intro!: exI [of _ j])
  qed
  have other: "follower_ok ?t k g v" if "follower_ok s k g v" "g \<noteq> h" for k g v
    using that follower_ok_cong [of ?t g s k v] by simp
  have "fan_inv ?t"
  proof (rule fan_invI)
    show "hub_ok ?t x" if "x \<in> set (fo_hubs ?t)" for x
    proof -
      have "x \<in> insert (hub\<lparr>hb_pos := Suc (hb_pos hub)\<rparr>) (set (fo_hubs s))"
        using that set_update_subset_insert [of "fo_hubs s" h "hub\<lparr>hb_pos := Suc (hb_pos hub)\<rparr>"] by auto
      then show ?thesis using fan_invD(1) [OF assms(1), of x] ok pos(1) by (auto simp: hub_ok_def read)
    qed
    show "owns ?t k g" if "fo_registry ?t k = Some g" for k g using that fan_invD(2) [OF assms(1), of k g] by (simp add: own)
    show "length (fo_log ?t k) \<le> stream_limit" for k using fan_invD(4) [OF assms(1), of k] by simp
    show "socket_ok ?t x" if "x \<in> set (fo_sockets ?t)" for x
    proof -
      from that obtain k p where x: "(k, p) \<in> set (fo_sockets s)" "x = (k, broadcast_to capacity h e p)" by auto
      show ?thesis
      proof (cases p)
        case (Following g v)
        then have ok: "fo_registry s k = Some g" "follower_ok s k g v" using fan_invD(3) [OF assms(1) x(1)] by simp_all
        have "hb_key (fo_hubs s ! g) = k" using fan_invD(2) [OF assms(1) ok(1)] by (simp add: owns_def)
        then show ?thesis using follow [of k v] other [of k g v] ok unfolding x(2) Following by (cases "g = h") (simp_all add: hub_def)
      qed (use fan_invD(3) [OF assms(1) x(1)] own in \<open>simp_all add: x(2)\<close>)
    qed
  qed
  then show ?thesis using Cons by (simp add: fan_out_def Let_def hub_def)
qed (use assms(1) in \<open>simp add: fan_out_def Let_def\<close>)

lemma consumer_ends_inv:
  assumes "fan_inv s" "h < length (fo_hubs s)" shows "fan_inv (consumer_ends h s)"
proof -
  define hub where "hub = fo_hubs s ! h"
  let ?hub = "hub\<lparr>hb_end := Some (length (readable s hub))\<rparr>"
  let ?t = "s\<lparr>fo_hubs := (fo_hubs s)[h := ?hub]\<rparr>"
  have ok: "hub_ok s hub" using fan_invD(1) [OF assms(1)] assms(2) by (simp add: hub_def)
  have le: "length (readable s hub) \<le> length (fo_log s (hb_key hub))" by (simp add: readable_def split: option.splits)
  have own: "owns ?t k g = owns s k g" for k g using assms(2) by (auto simp: owns_def hub_def nth_list_update)
  have pos: "hb_pos (fo_hubs ?t ! g) = hb_pos (fo_hubs s ! g)" for g using assms(2) by (cases "g = h") (simp_all add: hub_def)
  have follow: "follower_ok ?t k g v = follower_ok s k g v" for k g v unfolding follower_ok_def pos by simp
  have "fan_inv ?t"
  proof (rule fan_invI)
    show "hub_ok ?t x" if "x \<in> set (fo_hubs ?t)" for x
    proof -
      have "x \<in> insert ?hub (set (fo_hubs s))" using that set_update_subset_insert [of "fo_hubs s" h ?hub] by auto
      then show ?thesis using fan_invD(1) [OF assms(1), of x] ok le by (auto simp: hub_ok_def readable_def split: option.splits)
    qed
    show "owns ?t k g" if "fo_registry ?t k = Some g" for k g using that fan_invD(2) [OF assms(1), of k g] by (simp add: own)
    show "length (fo_log ?t k) \<le> stream_limit" for k using fan_invD(4) [OF assms(1), of k] by simp
    show "socket_ok ?t x" if "x \<in> set (fo_sockets ?t)" for x
      using fan_invD(3) [OF assms(1), of x] that by (cases "(s, x)" rule: socket_ok.cases) (simp_all add: own follow)
  qed
  then show ?thesis by (simp add: consumer_ends_def Let_def hub_def)
qed

lemma fan_step_inv:
  assumes "fan_step capacity s t" "0 < capacity" "fan_inv s" shows "fan_inv t"
  using assms(1)
proof cases
  case (passes i key h v)
  have "socket_ok s (key, Following h v)" using fan_invD(3) [OF assms(3) nth_mem [OF passes(2)]] passes(3) by simp
  then show ?thesis unfolding passes(1) using passes(3)
    by (intro set_socket_inv [OF assms(3)]) (simp add: follower_ok_def pass_on_accounts)
next
  case (joined i key h)
  have "socket_ok s (key, Holding h)" using fan_invD(3) [OF assms(3) nth_mem [OF joined(2)]] joined(3) by simp
  then show ?thesis unfolding joined(1) using joined(3) by (intro set_socket_inv [OF assms(3)]) (simp add: hub_subscribe_ok [OF assms(3)])
next
  case (leaves i)
  then show ?thesis using set_socket_inv [OF assms(3), of i Departed] by simp
qed (use assms in \<open>auto intro: subscribe_hub_inv open_hub_inv register_hub_inv publish_inv fan_out_inv consumer_ends_inv\<close>)

lemma fan_reaches_inv:
  assumes "(fan_step capacity)\<^sup>*\<^sup>* idle_fanout s" "0 < capacity" shows "fan_inv s"
  using assms(1)
proof induction
  case base
  show ?case by (rule fan_invI) (simp_all add: idle_fanout_def)
next
  case (step s t)
  then show ?case using fan_step_inv assms(2) by blast
qed

section \<open>What a follower is told\<close>

lemma follower_accounts:
  assumes "fan_inv s" "fo_registry s key = Some h" "follower_ok s key h v"
  shows "\<exists>k \<le> rv_since v. account (rv_passed v @ waiting_for key v @ map SocketEvent (drop (hb_pos (fo_hubs s ! h)) (readable s (fo_hubs s ! h))))
    (drop k (readable s (fo_hubs s ! h))) = Some []"
proof -
  let ?hub = "fo_hubs s ! h"
  let ?es = "readable s ?hub" and ?p = "hb_pos ?hub"
  from fan_invD(2) [OF assms(1,2)] have own: "owns s key h" .
  note ok = owned_hub(1) [OF assms(1) own]
  have len: "?p \<le> length ?es" using ok by (simp add: hub_ok_def)
  have "take ?p (take (length ?es) (fo_log s (hb_key ?hub))) = take ?p (fo_log s key)" using own len by (simp add: owns_def min_absorb1)
  with arg_cong [OF readable_prefix [OF ok], of "take ?p"] have "take ?p ?es = take ?p (fo_log s key)" by (rule trans)
  then obtain k where k: "k \<le> rv_since v" "k \<le> ?p" "accounts_for key v (drop k (take ?p ?es))"
    using assms(3) by (auto simp: follower_ok_def)
  have "drop k (take ?p ?es @ drop ?p ?es) = drop k (take ?p ?es) @ drop ?p ?es" using k(2) len by (simp only: drop_append) simp
  then have "drop k ?es = drop k (take ?p ?es) @ drop ?p ?es" by (simp only: append_take_drop_id)
  moreover have "account (rv_passed v @ waiting_for key v) (drop k (take ?p ?es) @ drop ?p ?es) = Some (drop ?p ?es)"
    using account_longer k(3) unfolding accounts_for_def by fastforce
  moreover have "account (map SocketEvent (drop ?p ?es)) (drop ?p ?es) = Some []" using account_events [of _ "[]"] by simp
  ultimately have "account ((rv_passed v @ waiting_for key v) @ map SocketEvent (drop ?p ?es)) (drop k ?es) = Some []"
    unfolding account_append by simp
  then show ?thesis using k(1) by auto
qed


text \<open>With room for one event: two are published before the socket looks, so it is told that it missed one and given the other.\<close>

definition ex_key :: ConversationKey where
  "ex_key = \<lparr>key_tenant_id = ''t'', key_conversation_id = ''c''\<rparr>"

definition ex_delta :: "string \<Rightarrow> SequencedChatEvent" where
  "ex_delta x = \<lparr>se_event_id = x, se_envelope = sample_event (TextDelta x)\<rparr>"

definition ex_publish :: "string \<Rightarrow> Fanout \<Rightarrow> Fanout" where
  "ex_publish x s = s\<lparr>fo_log := (fo_log s)(ex_key := fo_log s ex_key @ [ex_delta x])\<rparr>"

definition ex_pass :: "nat \<Rightarrow> Fanout \<Rightarrow> Fanout" where
  "ex_pass i s = (case fo_sockets s ! i of (key, Following h v) \<Rightarrow> set_socket i (Following h (pass_on (key_conversation_id key) v)) s | _ \<Rightarrow> s)"

definition ex_open :: Fanout where
  "ex_open = register_hub ex_key 0 0 (open_hub ex_key 0 (subscribe_hub ex_key idle_fanout))"

definition ex_full :: Fanout where
  "ex_full = fan_out 1 0 (fan_out 1 0 (ex_publish ''2'' (ex_publish ''1'' ex_open)))"

lemma ex_publish_step: "length (fo_log s ex_key) < 9 \<Longrightarrow> fan_step capacity s (ex_publish x s)"
  unfolding ex_publish_def by (rule fan_step.publish) (simp add: stream_limit_def)

lemma ex_pass_step: "i < length (fo_sockets s) \<Longrightarrow> fo_sockets s ! i = (key, Following h v) \<Longrightarrow> fan_step capacity s (ex_pass i s)"
  unfolding ex_pass_def using fan_step.passes by simp

lemma ex_open_reached: "(fan_step capacity)\<^sup>*\<^sup>* idle_fanout ex_open"
proof -
  let ?a = "subscribe_hub ex_key idle_fanout" and ?b = "open_hub ex_key 0 (subscribe_hub ex_key idle_fanout)"
  have "fo_sockets ?a = [(ex_key, Waiting)]" "fo_sockets ?b = [(ex_key, Opened 0)]" by code_simp+
  then have "fan_step capacity ?a ?b" "fan_step capacity ?b ex_open"
    unfolding ex_open_def by (auto intro: fan_step.consumer fan_step.registered)
  then show ?thesis using fan_step.arrive by (meson rtranclp.rtrancl_into_rtrancl rtranclp.rtrancl_refl)
qed

lemma ex_full_reached: "(fan_step 1)\<^sup>*\<^sup>* idle_fanout (ex_pass 0 (ex_pass 0 ex_full))"
proof -
  have short: "length (fo_log ex_open ex_key) = 0" "length (fo_log (ex_publish ''1'' ex_open) ex_key) = 1" by code_simp+
  have hubs: "length (fo_hubs (ex_publish ''2'' (ex_publish ''1'' ex_open))) = 1" "length (fo_hubs (fan_out 1 0 (ex_publish ''2'' (ex_publish ''1'' ex_open)))) = 1"
    by code_simp+
  have s: "fo_sockets ex_full = [(ex_key, Following 0 \<lparr>rv_buffer = [ex_delta ''2''], rv_skipped = 1, rv_passed = [], rv_since = 0\<rparr>)]"
    "fo_sockets (ex_pass 0 ex_full) =
      [(ex_key, Following 0 \<lparr>rv_buffer = [ex_delta ''2''], rv_skipped = 0, rv_passed = [Lagged ''c'' 1], rv_since = 0\<rparr>)]"
    by code_simp+
  note further = rtranclp.rtrancl_into_rtrancl [of "fan_step 1"]
  have published: "(fan_step 1)\<^sup>*\<^sup>* idle_fanout (ex_publish ''2'' (ex_publish ''1'' ex_open))"
    by (rule further [OF further [OF ex_open_reached]]; rule ex_publish_step) (simp_all add: short del: One_nat_def)
  have full: "(fan_step 1)\<^sup>*\<^sup>* idle_fanout ex_full"
    unfolding ex_full_def by (rule further [OF further [OF published]]; rule fan_step.fans) (simp_all add: hubs del: One_nat_def)
  show ?thesis by (rule further [OF further [OF full]]; rule ex_pass_step) (simp_all add: s del: One_nat_def)
qed


section \<open>A hub whose consumer has ended\<close>

text \<open>While somebody has a handle on it, such a hub stays in the registry.\<close>

definition stranded :: "ConversationKey \<Rightarrow> nat \<Rightarrow> nat \<Rightarrow> SequencedChatEvent list \<Rightarrow> Fanout \<Rightarrow> bool" where
  "stranded key i h es s = (owns s key h \<and> take (length es) (fo_log s key) = es
     \<and> (\<exists>m \<le> length es. hb_end (fo_hubs s ! h) = Some m)
     \<and> i < length (fo_sockets s) \<and> fst (fo_sockets s ! i) = key
     \<and> (snd (fo_sockets s ! i) \<in> {Departed, Holding h} \<or> (\<exists>v. snd (fo_sockets s ! i) = Following h v)))"

lemma stranded_socket:
  assumes "stranded key i h es s"
    and "j = i \<Longrightarrow> p \<in> {Departed, Holding h} \<or> (\<exists>v. p = Following h v)"
  shows "stranded key i h es (set_socket j p s)"
  using assms by (cases "j = i") (auto simp: stranded_def set_socket_def owns_def)

lemma stranded_step:
  assumes "fan_step capacity s t" "stranded key i h es s" shows "stranded key i h es t"
  using assms(1)
proof cases
  case (arrive k)
  then show ?thesis using assms(2) by (auto simp: stranded_def subscribe_hub_def owns_def nth_append)
next
  case (consumer j k)
  have "stranded key i h es (s\<lparr>fo_hubs := fo_hubs s @ [hub]\<rparr>)" for hub
    using assms(2) by (auto simp: stranded_def owns_def nth_append)
  then show ?thesis unfolding consumer(1) open_hub_def using assms(2) consumer(3) by (intro stranded_socket) (auto simp: stranded_def)
next
  case (registered j k g)
  have "stranded key i h es (s\<lparr>fo_registry := r\<rparr>)" for r using assms(2) by (auto simp: stranded_def owns_def)
  then show ?thesis unfolding registered(1) register_hub_def using assms(2) registered(3)
    by (auto intro!: stranded_socket split: option.split) (auto simp: stranded_def)
next
  case (joined j k g)
  then show ?thesis using assms(2) unfolding joined(1) by (intro stranded_socket) (auto simp: stranded_def hub_subscribe_def)
next
  case (passes j k g v)
  then show ?thesis using assms(2) unfolding passes(1) by (intro stranded_socket) (auto simp: stranded_def)
next
  case (leaves j)
  then show ?thesis using assms(2) stranded_socket by simp
next
  case (publish k e)
  have "length es \<le> length (fo_log s key)" using assms(2) by (metis length_take min.cobounded1 stranded_def)
  then show ?thesis using assms(2) unfolding publish(1) by (auto simp: stranded_def owns_def)
next
  case (fans g)
  then show ?thesis using assms(2)
    by (cases "g = h") (auto simp: stranded_def fan_out_def Let_def owns_def nth_list_update split: list.split)
next
  case (ends g)
  have "length (readable s (fo_hubs s ! h)) \<le> length es" using assms(2) by (auto simp: stranded_def readable_def)
  then show ?thesis using assms(2) unfolding ends(1)
    by (cases "g = h") (auto simp: stranded_def consumer_ends_def Let_def owns_def nth_list_update)
qed

text \<open>C40. A hub outlives its consumer. When the consumer of a hub has ended while sockets follow it, the registry still hands the hub out: a socket that
  subscribes then is attached to it, and whatever is published from that moment on, all it is ever given lies among the events the
  conversation already had. The subscription was answered without an error.\<close>

theorem ended_hub_strands_newcomers:
  assumes "0 < capacity" "(fan_step capacity)\<^sup>*\<^sup>* idle_fanout s" "existing_hub key s = Some h" "hb_end (fo_hubs s ! h) = Some n"
    and "(fan_step capacity)\<^sup>*\<^sup>* (subscribe_hub key s) t" "fo_sockets t ! length (fo_sockets s) = (key, Following g v)"
  shows "\<exists>k m. m \<le> length (fo_log s key) \<and> account (rv_passed v @ waiting_for key v) (drop k (take m (fo_log s key))) = Some []"
proof -
  let ?i = "length (fo_sockets s)" and ?es = "fo_log s key"
  have inv: "fan_inv s" by (rule fan_reaches_inv [OF assms(2,1)])
  have own: "owns s key h" by (rule fan_invD(2) [OF inv existing_hub_registered [OF assms(3)]])
  have "n \<le> length ?es" using owned_hub(1) [OF inv own] own assms(4) by (simp add: hub_ok_def owns_def)
  then have "stranded key ?i h ?es (subscribe_hub key s)"
    using own assms(3,4) by (simp add: stranded_def owns_def subscribe_hub_def)
  with assms(5) have str: "stranded key ?i h ?es t" by (induction rule: rtranclp_induct) (auto intro: stranded_step)
  have "(fan_step capacity)\<^sup>*\<^sup>* idle_fanout t"
    using assms(2,5) fan_step.arrive [of capacity s key] by (meson rtranclp.rtrancl_into_rtrancl rtranclp_trans)
  then have tinv: "fan_inv t" by (rule fan_reaches_inv [OF _ assms(1)])
  have own': "owns t key h" and i: "?i < length (fo_sockets t)" and g: "g = h" using str assms(6) by (auto simp: stranded_def)
  from fan_invD(3) [OF tinv nth_mem [OF i]] assms(6) g obtain k where
    k: "accounts_for key v (drop k (take (hb_pos (fo_hubs t ! h)) (fo_log t key)))" by (auto simp: follower_ok_def)
  have "hb_pos (fo_hubs t ! h) \<le> length ?es"
    using owned_hub(1) [OF tinv own'] str by (auto simp: hub_ok_def readable_def stranded_def)
  moreover from this have "take (hb_pos (fo_hubs t ! h)) (fo_log t key) = take (hb_pos (fo_hubs t ! h)) ?es"
    using str by (metis min.absorb1 stranded_def take_take)
  ultimately show ?thesis using k by (auto simp: accounts_for_def)
qed

text \<open>The first socket of the conversation is there when the consumer ends; a second one comes, an event is published, and the hub has nothing to
  read.\<close>

definition ex_stranded :: Fanout where
  "ex_stranded = fan_out 1 0 (ex_publish ''1'' (set_socket 1 (hub_subscribe ex_key 0 (subscribe_hub ex_key (consumer_ends 0 ex_open)))
     (subscribe_hub ex_key (consumer_ends 0 ex_open))))"

theorem ended_hub_strands_newcomers_witness:
  "\<exists>v. fo_sockets ex_stranded ! 1 = (ex_key, Following 0 v) \<and> length (fo_log ex_stranded ex_key) = 1
    \<and> (\<exists>k m. m \<le> 0 \<and> account (rv_passed v @ waiting_for ex_key v) (drop k (take m (fo_log (consumer_ends 0 ex_open) ex_key))) = Some [])"
proof -
  let ?s = "consumer_ends 0 ex_open" and ?v = "\<lparr>rv_buffer = [], rv_skipped = 0, rv_passed = [], rv_since = 0\<rparr>"
  let ?a = "subscribe_hub ex_key ?s"
  let ?b = "set_socket 1 (hub_subscribe ex_key 0 ?a) ?a"
  note further = rtranclp.rtrancl_into_rtrancl [of "fan_step 1"]
  have facts: "length (fo_hubs ex_open) = 1" "fo_sockets ?a ! 1 = (ex_key, Holding 0)" "length (fo_sockets ?a) = 2" "length (fo_log ?a ex_key) = 0"
    "length (fo_hubs (ex_publish ''1'' ?b)) = 1" "existing_hub ex_key ?s = Some 0" "hb_end (fo_hubs ?s ! 0) = Some 0"
    "fo_sockets ex_stranded ! 1 = (ex_key, Following 0 ?v)" "length (fo_log ex_stranded ex_key) = 1" "length (fo_log ?s ex_key) = 0"
    "length (fo_sockets ?s) = 1"
    by code_simp+
  have s: "(fan_step 1)\<^sup>*\<^sup>* idle_fanout ?s" by (rule further [OF ex_open_reached]; rule fan_step.ends) (simp add: facts del: One_nat_def)
  have b: "(fan_step 1)\<^sup>*\<^sup>* ?a ?b" by (rule further [OF rtranclp.rtrancl_refl]; rule fan_step.joined) (simp_all add: facts del: One_nat_def)
  have p: "(fan_step 1)\<^sup>*\<^sup>* ?a (ex_publish ''1'' ?b)" by (rule further [OF b]; rule ex_publish_step) (simp add: facts del: One_nat_def)
  have t: "(fan_step 1)\<^sup>*\<^sup>* ?a ex_stranded"
    unfolding ex_stranded_def by (rule further [OF p]; rule fan_step.fans) (simp add: facts del: One_nat_def)
  have "\<exists>k m. m \<le> length (fo_log ?s ex_key) \<and> account (rv_passed ?v @ waiting_for ex_key ?v) (drop k (take m (fo_log ?s ex_key))) = Some []"
    using ended_hub_strands_newcomers [OF _ s facts(6,7) t, of 0 ?v] facts(8,11) by simp
  then show ?thesis unfolding facts(10) using facts(8,9) by blast
qed

end
