(* ===== verification/Chat_Maintenance.thy ===== *)
theory Chat_Maintenance
  imports Chat_World
begin

text \<open>
  The task that runs beside a turn, \<open>start_turn_maintenance\<close> of services/chat-worker/src/main.rs: at every tick it tells the command stream that the
  command is being worked on and renews the lease of the turn; the first renewal that fails is reported to the turn and ends the task. What its
  \<open>tokio::select!\<close> sees is the list of its inputs, as in Chat\_Worker; a list that ends is a process that is gone. The theorem is about the lease: a
  task whose ticks come in time keeps the turn for its worker, whatever others do in between.
\<close>

section \<open>The task\<close>

text \<open>\<open>ShutdownChanged\<close>: the turn has told the task to stop, or dropped its end of the channel (\<open>True\<close>), or the channel changed without either.\<close>

datatype MaintenanceInput = ShutdownChanged bool | Tick

text \<open>The result is what the turn reads from the error channel when the task is over.\<close>

fun start_turn_maintenance :: "'w WorkerState \<Rightarrow> TurnRequested \<Rightarrow> MaintenanceInput list \<Rightarrow> ('w, string option) state" where
  "start_turn_maintenance st command [] = ret None"
| "start_turn_maintenance st command (ShutdownChanged stop # inputs) = (if stop then ret None else start_turn_maintenance st command inputs)"
| "start_turn_maintenance st command (Tick # inputs) =
     cb_progress_turn_requested (wk_bus st) (tr_turn_id command) \<bind> (\<lambda>_.
     cb_renew_lock (wk_bus st) (tr_tenant_id command) (tr_conversation_id command) (tr_turn_id command) (wk_worker_id st) \<bind> (\<lambda>renewed.
     case renewed of
       Err error \<Rightarrow> ret (Some (''chat turn lock renewal failed: '' @ display_ChatBusError error))
     | Ok _ \<Rightarrow> start_turn_maintenance st command inputs))"

section \<open>Keeping the lease\<close>

text \<open>What others may do between two calls of the task: let at most \<open>pause\<close> pass, and perform any operations on the locks but those that end the turn.
  The bus is up when they are done.\<close>

definition lets_be :: "int \<Rightarrow> int \<Rightarrow> string \<Rightarrow> string \<Rightarrow> string \<Rightarrow> (ChatWorld \<Rightarrow> ChatWorld) \<Rightarrow> bool" where
  "lets_be ttl pause key turn worker f = (\<forall>w. cw_now w \<le> cw_now (f w) \<and> cw_now (f w) \<le> cw_now w + pause \<and> \<not> cw_bus_down (f w)
     \<and> (\<exists>ops. ci_locks (cw_bus (f w)) = ci_locks (perform_all ttl ops (cw_bus w))
          \<and> (\<forall>(now, op) \<in> set ops. cw_now w \<le> now \<and> now \<le> cw_now (f w) \<and> \<not> ends_turn key turn worker op)))"

lemma lets_be_holds:
  assumes "lets_be ttl pause key turn worker f" "holds_turn key turn worker until (cw_bus w)"
    and "cw_now w + pause < until" "until \<le> cw_now w + ttl"
  shows "holds_turn key turn worker until (cw_bus (f w))"
proof -
  from assms(1) obtain ops where ops: "ci_locks (cw_bus (f w)) = ci_locks (perform_all ttl ops (cw_bus w))"
    "\<forall>(now, op) \<in> set ops. cw_now w \<le> now \<and> now \<le> cw_now (f w) \<and> \<not> ends_turn key turn worker op" "cw_now (f w) \<le> cw_now w + pause"
    unfolding lets_be_def by blast
  have "holds_turn key turn worker until (perform_all ttl ops (cw_bus w))"
    by (rule holds_turn_perform_all [OF assms(2)]) (use ops(2,3) assms(3,4) in fastforce)
  then show ?thesis by (simp add: holds_turn_def ops(1))
qed

lemma renew_holds:
  assumes "holds_turn (lock_key t c) turn worker until st" "now < until"
  shows "\<exists>l st'. run_state (mem_renew_lock ttl now t c turn worker) st = (Ok l, st') \<and> holds_turn (lock_key t c) turn worker (now + ttl) st'"
  using assms by (auto simp: holds_turn_def mem_renew_lock_def set_lock_def lock_is_expired_def lock_expires_at_def Let_def split: option.splits)

text \<open>Between two calls of the task: nothing happens, or the next of the others' actions.\<close>

lemma env_step_lets_be:
  assumes "env_step (w, es) = (w', es')" "\<forall>f \<in> set es. lets_be ttl pause key turn worker f" "0 \<le> pause" "\<not> cw_bus_down w"
    and "holds_turn key turn worker until (cw_bus w)" "cw_now w + pause < until" "until \<le> cw_now w + ttl"
  shows "holds_turn key turn worker until (cw_bus w') \<and> cw_now w \<le> cw_now w' \<and> cw_now w' \<le> cw_now w + pause \<and> \<not> cw_bus_down w'
    \<and> (\<forall>f \<in> set es'. lets_be ttl pause key turn worker f)"
proof (cases es)
  case (Cons f rest)
  then have f: "lets_be ttl pause key turn worker f" "w' = f w" "es' = rest" using assms(1,2) by simp_all
  show ?thesis unfolding f(2,3) using lets_be_holds [OF f(1) assms(5-7)] f(1) assms(2) Cons by (auto simp: lets_be_def)
qed (use assms in simp)

lemma run_port: "run_state (port (on_bus m)) (w, es) = (case env_step (w, es) of (v, fs) \<Rightarrow>
    if cw_bus_down v then (Err BusUnavailable, (v, fs))
    else (case run_state (m (cw_now v)) (cw_bus v) of (r, b) \<Rightarrow> (r, (v\<lparr>cw_bus := b\<rparr>, fs))))"
  by (simp add: locked_def on_bus_def split: prod.splits)

definition kept :: "int \<Rightarrow> int \<Rightarrow> TurnRequested \<Rightarrow> string \<Rightarrow> SharedChat \<Rightarrow> bool" where
  "kept ttl pause command worker x = (case x of (w, es) \<Rightarrow> \<not> cw_bus_down w
     \<and> holds_turn (lock_key (tr_tenant_id command) (tr_conversation_id command)) (tr_turn_id command) worker (cw_now w + ttl) (cw_bus w)
     \<and> (\<forall>f \<in> set es. lets_be ttl pause (lock_key (tr_tenant_id command) (tr_conversation_id command)) (tr_turn_id command) worker f))"

lemma tick_keeps:
  assumes "kept ttl pause command worker x" "0 \<le> pause" "2 * pause < ttl"
  shows "\<exists>y. run_state (start_turn_maintenance (chat_worker ttl order ulid llm worker) command (Tick # inputs)) x =
      run_state (start_turn_maintenance (chat_worker ttl order ulid llm worker) command inputs) y \<and> kept ttl pause command worker y"
proof -
  let ?t = "tr_tenant_id command" and ?c = "tr_conversation_id command" and ?k = "tr_turn_id command"
  let ?key = "lock_key ?t ?c"
  obtain w es where x: "x = (w, es)" by (cases x)
  obtain w1 es1 where one: "env_step (w, es) = (w1, es1)" by fastforce
  obtain w2 es2 where two: "env_step (w1, es1) = (w2, es2)" by fastforce
  note start = assms(1) [unfolded x kept_def prod.case]
  have h1: "holds_turn ?key ?k worker (cw_now w + ttl) (cw_bus w1)" "cw_now w \<le> cw_now w1" "cw_now w1 \<le> cw_now w + pause"
    "\<not> cw_bus_down w1" "\<forall>f \<in> set es1. lets_be ttl pause ?key ?k worker f"
    using env_step_lets_be [OF one, of ttl pause ?key ?k worker "cw_now w + ttl"] start assms(2,3) by auto
  have h2: "holds_turn ?key ?k worker (cw_now w + ttl) (cw_bus w2)" "cw_now w2 \<le> cw_now w1 + pause"
    "\<not> cw_bus_down w2" "\<forall>f \<in> set es2. lets_be ttl pause ?key ?k worker f"
    using env_step_lets_be [OF two, of ttl pause ?key ?k worker "cw_now w + ttl"] h1 assms(2,3) by auto
  have "cw_now w2 < cw_now w + ttl" using h1(3) h2(2) assms(3) by linarith
  from renew_holds [OF h2(1) this, of ttl] obtain l b where
    r: "run_state (mem_renew_lock ttl (cw_now w2) ?t ?c ?k worker) (cw_bus w2) = (Ok l, b)" "holds_turn ?key ?k worker (cw_now w2 + ttl) b" by blast
  have "kept ttl pause command worker (w2\<lparr>cw_bus := b\<rparr>, es2)" using r(2) h2(3,4) by (simp add: kept_def)
  then show ?thesis
    by (intro exI [of _ "(w2\<lparr>cw_bus := b\<rparr>, es2)"]) (simp add: x chat_worker_def MemoryChatBus_def run_port one two h1(4) h2(3) r(1))
qed

text \<open>C13. A turn that is maintained is not lost. Let the lease be longer than twice the time that can pass between two calls of the
  maintenance task (a tick makes two). Then, as long as the bus answers and nobody ends the turn, no renewal fails, however many ticks the turn takes and
  whatever other processes do to the locks in between; and when the task is over, its worker still holds the turn for a whole
  lease, in which every attempt to take the conversation, to claim the turn or to end it in another name is refused.\<close>

theorem maintained_turn_is_kept:
  assumes "0 \<le> pause" "2 * pause < ttl" "kept ttl pause command worker x"
    and "run_state (start_turn_maintenance (chat_worker ttl order ulid llm worker) command inputs) x = (failure, (w, es))"
  shows "failure = None \<and> (\<forall>now op. now < cw_now w + ttl
      \<and> intrudes (lock_key (tr_tenant_id command) (tr_conversation_id command)) (tr_turn_id command) worker op
      \<longrightarrow> perform ttl now op (cw_bus w) = (Err InFlight, cw_bus w))"
  using assms(3,4)
proof (induction inputs arbitrary: x)
  case Nil
  then show ?case by (auto simp: kept_def intro: holds_turn_excludes)
next
  case (Cons input inputs)
  show ?case
  proof (cases input)
    case (ShutdownChanged stop)
    show ?thesis
    proof (cases stop)
      case True
      then show ?thesis using Cons.prems ShutdownChanged by (auto simp: kept_def intro: holds_turn_excludes)
    qed (use Cons ShutdownChanged in simp)
  next
    case Tick
    from tick_keeps [OF Cons.prems(1) assms(1,2), of order ulid llm inputs] obtain y where
      "run_state (start_turn_maintenance (chat_worker ttl order ulid llm worker) command inputs) y = (failure, (w, es))"
      "kept ttl pause command worker y"
      using Cons.prems(2) Tick by metis
    then show ?thesis using Cons.IH by blast
  qed
qed

text \<open>A worker claims a turn for 900; before each of its calls 400 pass, somebody asks for a stop and a second worker tries to take the turn.\<close>

definition busy_neighbour :: "ChatWorld \<Rightarrow> ChatWorld" where
  "busy_neighbour w = w\<lparr>cw_now := cw_now w + 400, cw_bus_down := False,
     cw_bus := perform_all 900 [(cw_now w, RequestStop ''t'' ''c'' ''u''), (cw_now w + 400, Claim ''t'' ''c'' ''k'' ''w2'')] (cw_bus w)\<rparr>"

definition sample_maintained :: SharedChat where
  "sample_maintained = (sample_chat\<lparr>cw_bus := snd (run_state (mem_claim_lock 900 1 ''t'' ''c'' ''k'' ''w1'') sample_locked)\<rparr>,
     replicate 4 busy_neighbour)"

lemma busy_neighbour_lets_be: "lets_be 900 400 (lock_key ''t'' ''c'') ''k'' ''w1'' busy_neighbour"
proof -
  have "\<exists>ops. ci_locks (cw_bus (busy_neighbour w)) = ci_locks (perform_all 900 ops (cw_bus w))
      \<and> (\<forall>(now, op) \<in> set ops. cw_now w \<le> now \<and> now \<le> cw_now (busy_neighbour w) \<and> \<not> ends_turn (lock_key ''t'' ''c'') ''k'' ''w1'' op)" for w
    by (rule exI [of _ "[(cw_now w, RequestStop ''t'' ''c'' ''u''), (cw_now w + 400, Claim ''t'' ''c'' ''k'' ''w2'')]"])
      (simp add: busy_neighbour_def)
  then show ?thesis unfolding lets_be_def by (simp add: busy_neighbour_def)
qed

theorem maintained_turn_is_kept_witness:
  "\<exists>w es. run_state (start_turn_maintenance sample_worker sample_command [Tick, ShutdownChanged False, Tick]) sample_maintained = (None, (w, es))
    \<and> cw_now w = 1601 \<and> fst (perform 900 2000 (Claim ''t'' ''c'' ''k'' ''w2'') (cw_bus w)) = Err InFlight"
proof -
  let ?r = "run_state (start_turn_maintenance sample_worker sample_command [Tick, ShutdownChanged False, Tick]) sample_maintained"
  obtain failure w es where r: "?r = (failure, (w, es))" by (metis surj_pair)
  have key: "lock_key (tr_tenant_id sample_command) (tr_conversation_id sample_command) = lock_key ''t'' ''c''" "tr_turn_id sample_command = ''k''"
    by (simp_all add: sample_command_def)
  have k: "kept 900 400 sample_command ''w1'' sample_maintained"
    using busy_neighbour_lets_be unfolding kept_def key sample_maintained_def prod.case
    by (simp add: sample_chat_def holds_turn_def sample_lock_defs)
  have "cw_now (fst (snd ?r)) = 1601" by code_simp
  then have "cw_now w = 1601" unfolding r by simp
  note now = this
  have kept: "failure = None \<and> (\<forall>now op. now < cw_now w + 900 \<and> intrudes (lock_key ''t'' ''c'') ''k'' ''w1'' op
      \<longrightarrow> perform 900 now op (cw_bus w) = (Err InFlight, cw_bus w))"
    using maintained_turn_is_kept [OF _ _ k r [unfolded sample_worker_def]] unfolding key by simp
  have "perform 900 2000 (Claim ''t'' ''c'' ''k'' ''w2'') (cw_bus w) = (Err InFlight, cw_bus w)"
    using kept now by (simp del: perform.simps)
  then show ?thesis using r kept now by (intro exI [of _ w] exI [of _ es]) (simp del: perform.simps)
qed

end
