(* ===== verification/Work_Loop.thy ===== *)
theory Work_Loop
  imports Work_Queue Event_Stream "HOL-Library.Multiset"
begin

text \<open>
  The loop around the work items: \<open>WorkQueueConsumer\<close> of crates/document-adapters/src/jetstream/work\_queue.rs and \<open>run_work_queue\<close> of
  services/document-worker/src/main.rs. Messages are pulled one after another; each item waits for a permit of the limiter and is then handled in a task
  of its own, which gives the permit back when it is done. When the stream ends, the worker connects again, with a new limiter.

  The loop and the tasks interleave as steps (\<open>work_step\<close>). What a task answers is what \<open>handle_work_item\<close> answers in some world: what it does to the
  stores, with other tasks in between, is the subject of Delivery.
\<close>

section \<open>Connecting\<close>

record WorkQueueConsumer =
  wq_config :: ConsumerConfig
  wq_ack_wait :: duration
  wq_max_deliver :: u32
  wq_concurrency :: nat

text \<open>The two calls of the JetStream client come in as their results.\<close>

definition connect_consumer ::
  "(unit, string) result \<Rightarrow> (ConsumerConfig \<Rightarrow> (unit, string) result) \<Rightarrow> WorkerConfig \<Rightarrow> (WorkQueueConsumer, AdapterError) result" where
  "connect_consumer get_stream create_consumer cfg = (case get_stream of
      Err error \<Rightarrow> Err (Topology (''open '' @ DOCUMENT_WORK_STREAM @ '': '' @ error))
    | Ok _ \<Rightarrow> (case create_consumer (consumer_config cfg) of
        Err error \<Rightarrow> Err (Topology (''create '' @ DOCUMENT_WORK_CONSUMER @ '': '' @ error))
      | Ok _ \<Rightarrow> Ok \<lparr>wq_config = consumer_config cfg, wq_ack_wait = wc_ack_wait cfg, wq_max_deliver = wc_max_deliver cfg,
          wq_concurrency = max (wc_work_concurrency cfg) 1\<rparr>))"

section \<open>The loop\<close>

text \<open>Between two calls of \<open>run\<close>; waiting for the next message; holding an item, its heartbeat running, that waits for a permit.\<close>

datatype WorkPhase = Disconnected | Pulling | WaitingForPermit WorkMessage WorkItem

text \<open>\<open>wl_tasks\<close>: the tasks that are handling an item, with the run whose limiter they hold a permit of. \<open>wl_pulled\<close> and \<open>wl_answers\<close> are the history of the messages
  taken and of the answers given.\<close>

record WorkLoop =
  wl_phase :: WorkPhase
  wl_run :: nat
  wl_tasks :: "(nat \<times> WorkMessage \<times> WorkItem) list"
  wl_pulled :: "WorkMessage list"
  wl_answers :: "(WorkMessage \<times> AckKind) list"

definition idle_loop :: WorkLoop where
  "idle_loop = \<lparr>wl_phase = Disconnected, wl_run = 0, wl_tasks = [], wl_pulled = [], wl_answers = []\<rparr>"

definition tasks_of :: "nat \<Rightarrow> WorkLoop \<Rightarrow> nat" where
  "tasks_of r s = length (filter (\<lambda>task. fst task = r) (wl_tasks s))"

definition pull_message :: "(string \<Rightarrow> (UploadCompleted, string) result) \<Rightarrow> WorkQueueConsumer \<Rightarrow> WorkMessage \<Rightarrow> WorkLoop \<Rightarrow> WorkLoop" where
  "pull_message from_slice consumer message s = (let s = s\<lparr>wl_pulled := message # wl_pulled s\<rparr> in
     case receive from_slice (wq_max_deliver consumer) message of
       Err ack \<Rightarrow> s\<lparr>wl_answers := (message, ack) # wl_answers s\<rparr>
     | Ok item \<Rightarrow> s\<lparr>wl_phase := WaitingForPermit message item\<rparr>)"

definition admit_item :: "WorkQueueConsumer \<Rightarrow> WorkLoop \<Rightarrow> WorkLoop" where
  "admit_item consumer s = (case wl_phase s of
      WaitingForPermit message item \<Rightarrow>
        if tasks_of (wl_run s) s < wq_concurrency consumer
        then s\<lparr>wl_phase := Pulling, wl_tasks := (wl_run s, message, item) # wl_tasks s\<rparr> else s
    | _ \<Rightarrow> s)"

definition finish_task :: "nat \<times> WorkMessage \<times> WorkItem \<Rightarrow> AckKind \<Rightarrow> WorkLoop \<Rightarrow> WorkLoop" where
  "finish_task task answer s = s\<lparr>wl_tasks := remove1 task (wl_tasks s), wl_answers := (fst (snd task), answer) # wl_answers s\<rparr>"

inductive work_step ::
  "DigestCrates \<Rightarrow> 'w UploadFinisher \<Rightarrow> (string \<Rightarrow> (UploadCompleted, string) result) \<Rightarrow> WorkQueueConsumer \<Rightarrow> WorkLoop \<Rightarrow> WorkLoop \<Rightarrow> bool"
  for dg f from_slice consumer where
  connects: "wl_phase s = Disconnected \<Longrightarrow> work_step dg f from_slice consumer s (s\<lparr>wl_phase := Pulling, wl_run := wl_run s + 1\<rparr>)"
| pulls: "wl_phase s = Pulling \<Longrightarrow> work_step dg f from_slice consumer s (pull_message from_slice consumer message s)"
| admits: "work_step dg f from_slice consumer s (admit_item consumer s)"
| answers: "(r, message, item) \<in> set (wl_tasks s) \<Longrightarrow> run_state (handle_work_item dg f item) w = (answer, w') \<Longrightarrow>
    work_step dg f from_slice consumer s (finish_task (r, message, item) answer s)"
| stream_ends: "wl_phase s = Pulling \<Longrightarrow> work_step dg f from_slice consumer s (s\<lparr>wl_phase := Disconnected\<rparr>)"

section \<open>Its invariant\<close>

fun waiting :: "WorkPhase \<Rightarrow> WorkMessage multiset" where
  "waiting (WaitingForPermit message item) = {#message#}"
| "waiting _ = {#}"

definition rightly_answered ::
  "DigestCrates \<Rightarrow> 'w UploadFinisher \<Rightarrow> (string \<Rightarrow> (UploadCompleted, string) result) \<Rightarrow> u32 \<Rightarrow> WorkMessage \<Rightarrow> AckKind \<Rightarrow> bool" where
  "rightly_answered dg f from_slice max_deliver message answer = (case receive from_slice max_deliver message of
      Err ack \<Rightarrow> answer = ack | Ok item \<Rightarrow> (\<exists>w. fst (run_state (handle_work_item dg f item) w) = answer))"

definition work_inv ::
  "DigestCrates \<Rightarrow> 'w UploadFinisher \<Rightarrow> (string \<Rightarrow> (UploadCompleted, string) result) \<Rightarrow> WorkQueueConsumer \<Rightarrow> WorkLoop \<Rightarrow> bool" where
  "work_inv dg f from_slice consumer s =
     (mset (wl_pulled s) = mset (map fst (wl_answers s)) + mset (map (fst \<circ> snd) (wl_tasks s)) + waiting (wl_phase s)
      \<and> (\<forall>r. tasks_of r s \<le> wq_concurrency consumer)
      \<and> (\<forall>(r, message, item) \<in> set (wl_tasks s). receive from_slice (wq_max_deliver consumer) message = Ok item)
      \<and> (\<forall>message item. wl_phase s = WaitingForPermit message item \<longrightarrow> receive from_slice (wq_max_deliver consumer) message = Ok item)
      \<and> (\<forall>(message, answer) \<in> set (wl_answers s). rightly_answered dg f from_slice (wq_max_deliver consumer) message answer))"

lemma work_inv_step:
  assumes "work_step dg f from_slice consumer s t" "work_inv dg f from_slice consumer s"
  shows "work_inv dg f from_slice consumer t"
  using assms(1)
proof cases
  case (pulls message)
  then show ?thesis using assms(2)
    by (auto simp: work_inv_def pull_message_def tasks_of_def rightly_answered_def Let_def split: result.splits)
next
  case admits
  show ?thesis
  proof (cases "wl_phase s")
    case (WaitingForPermit message item)
    then show ?thesis using assms(2) unfolding admits by (auto simp: work_inv_def admit_item_def tasks_of_def)
  qed (use assms(2) admits in \<open>simp_all add: admit_item_def\<close>)
next
  case (answers r message item w answer w')
  let ?task = "(r, message, item)"
  have "mset (map (fst \<circ> snd) (remove1 ?task (wl_tasks s))) = mset (map (fst \<circ> snd) (wl_tasks s)) - {#message#}"
    using answers(2) by (simp add: image_mset_Diff)
  moreover have "message \<in># mset (map (fst \<circ> snd) (wl_tasks s))" using answers(2) by force
  ultimately have "mset (map fst (wl_answers t)) + mset (map (fst \<circ> snd) (wl_tasks t)) =
      mset (map fst (wl_answers s)) + mset (map (fst \<circ> snd) (wl_tasks s))"
    unfolding answers(1) finish_task_def by simp
  moreover have "tasks_of q t \<le> tasks_of q s" for q
    unfolding answers(1) finish_task_def tasks_of_def by (simp add: filter_remove1 length_remove1)
  moreover have "set (wl_tasks t) \<subseteq> set (wl_tasks s)" unfolding answers(1) finish_task_def by (simp add: set_remove1_subset)
  moreover have "rightly_answered dg f from_slice (wq_max_deliver consumer) message answer"
    using assms(2) answers(2,3) by (fastforce simp: work_inv_def rightly_answered_def intro: exI [of _ w])
  moreover have "wl_phase t = wl_phase s" "wl_pulled t = wl_pulled s" "wl_answers t = (message, answer) # wl_answers s"
    unfolding answers(1) finish_task_def by simp_all
  ultimately show ?thesis using assms(2) unfolding work_inv_def
    by (auto intro: order_trans simp: add.assoc)
qed (use assms(2) in \<open>auto simp: work_inv_def tasks_of_def\<close>)

lemma work_reaches_inv:
  assumes "(work_step dg f from_slice consumer)\<^sup>*\<^sup>* idle_loop s" shows "work_inv dg f from_slice consumer s"
  using assms
proof induction
  case base
  show ?case by (simp add: work_inv_def idle_loop_def tasks_of_def)
qed (blast intro: work_inv_step)

text \<open>C29. The loop takes no more than it can handle and forgets nothing. In every interleaving of the loop, its tasks and reconnections: at most
  \<open>concurrency\<close> tasks hold a permit of the same run, and at least one may; every message that was taken is in exactly one place, answered once, being handled, or
  waiting for a permit; and every answer is the one the handler gave, or the termination of a message that cannot be decoded.\<close>

theorem work_loop_is_bounded:
  assumes "connect_consumer get_stream create_consumer cfg = Ok consumer" "(work_step dg f from_slice consumer)\<^sup>*\<^sup>* idle_loop s"
  shows "tasks_of r s \<le> wq_concurrency consumer \<and> 0 < wq_concurrency consumer
    \<and> mset (wl_pulled s) = mset (map fst (wl_answers s)) + mset (map (fst \<circ> snd) (wl_tasks s)) + waiting (wl_phase s)
    \<and> list_all (\<lambda>(message, answer). rightly_answered dg f from_slice (wc_max_deliver cfg) message answer) (wl_answers s)"
proof -
  have "wq_max_deliver consumer = wc_max_deliver cfg" "0 < wq_concurrency consumer"
    using assms(1) by (auto simp: connect_consumer_def split: result.splits)
  then show ?thesis using work_reaches_inv [OF assms(2)] by (auto simp: work_inv_def list_all_iff)
qed

text \<open>One task at a time: a message that decodes is being handled, one that does not was terminated, and a third waits for a permit.\<close>

definition ex_work_config :: WorkerConfig where
  "ex_work_config = \<lparr>wc_ack_wait = 120, wc_max_deliver = 5, wc_max_ack_pending = 64, wc_work_concurrency = 0, wc_projector_lock_id = 7,
     wc_projector_election_interval = 5, wc_projection_batch = 100\<rparr>"

definition ex_consumer :: WorkQueueConsumer where
  "ex_consumer = \<lparr>wq_config = consumer_config ex_work_config, wq_ack_wait = 120, wq_max_deliver = 5, wq_concurrency = 1\<rparr>"

definition ex_slice :: "string \<Rightarrow> (UploadCompleted, string) result" where
  "ex_slice payload = (if payload = ''{}'' then Ok (ex_cmd Create) else Err ''expected value'')"

definition ex_message :: "string \<Rightarrow> WorkMessage" where
  "ex_message payload = \<lparr>wm_payload = payload, wm_delivered = Ok 1\<rparr>"

definition ex_connect :: "WorkLoop \<Rightarrow> WorkLoop" where
  "ex_connect s = s\<lparr>wl_phase := Pulling, wl_run := wl_run s + 1\<rparr>"

definition ex_take :: "string \<Rightarrow> WorkLoop \<Rightarrow> WorkLoop" where
  "ex_take payload s = admit_item ex_consumer (pull_message ex_slice ex_consumer (ex_message payload) s)"

lemma ex_connect_step: "wl_phase s = Disconnected \<Longrightarrow> work_step dg f ex_slice ex_consumer s (ex_connect s)"
  unfolding ex_connect_def by (rule work_step.connects)

lemma ex_take_steps: "wl_phase s = Pulling \<Longrightarrow> (work_step dg f ex_slice ex_consumer)\<^sup>*\<^sup>* s (ex_take payload s)"
  unfolding ex_take_def using work_step.pulls [of s dg f ex_slice ex_consumer "ex_message payload"] work_step.admits
  by (meson converse_rtranclp_into_rtranclp r_into_rtranclp)

lemma ex_take_reached: "(work_step dg f ex_slice ex_consumer)\<^sup>*\<^sup>* idle_loop (ex_take ''{}'' (ex_connect idle_loop))"
  by (rule converse_rtranclp_into_rtranclp [OF ex_connect_step ex_take_steps]) (simp_all add: idle_loop_def ex_connect_def)

lemma ex_take_phase: "wl_phase (ex_take ''{}'' (ex_connect idle_loop)) = Pulling"
  by code_simp

theorem work_loop_is_bounded_witness:
  "\<exists>s. (work_step ex_dg ex_finisher ex_slice ex_consumer)\<^sup>*\<^sup>* idle_loop s \<and> tasks_of 1 s = 1 \<and> wl_answers s = [(ex_message ''x'', Term)]
    \<and> waiting (wl_phase s) = {#ex_message ''{}''#} \<and> rightly_answered ex_dg ex_finisher ex_slice 5 (ex_message ''x'') Term"
proof -
  let ?a = "ex_take ''{}'' (ex_connect idle_loop)"
  let ?s = "ex_take ''{}'' (ex_take ''x'' ?a)"
  have "wl_phase (ex_take ''x'' ?a) = Pulling" by code_simp
  then have reached: "(work_step ex_dg ex_finisher ex_slice ex_consumer)\<^sup>*\<^sup>* idle_loop ?s"
    using ex_take_reached ex_take_steps [OF ex_take_phase] ex_take_steps by (meson rtranclp_trans)
  have facts: "tasks_of 1 ?s = 1" "wl_answers ?s = [(ex_message ''x'', Term)]"
    "wl_phase ?s = WaitingForPermit (ex_message ''{}'') \<lparr>wi_command = ex_cmd Create, wi_num_delivered = 1, wi_is_final_delivery = False\<rparr>"
    by code_simp+
  have "connect_consumer (Ok ()) (\<lambda>_. Ok ()) ex_work_config = Ok ex_consumer"
    by (simp add: connect_consumer_def ex_consumer_def ex_work_config_def)
  from work_loop_is_bounded [OF this reached] have "rightly_answered ex_dg ex_finisher ex_slice 5 (ex_message ''x'') Term"
    by (simp add: facts(2) ex_work_config_def)
  then show ?thesis using reached facts by (intro exI [of _ ?s]) simp
qed

text \<open>The limit is one of each run and not of the worker: a task outlives the run that started it, and the next run starts with a full
  limiter.\<close>

lemma reconnect_exceeds_concurrency:
  "\<exists>s. (work_step dg f ex_slice ex_consumer)\<^sup>*\<^sup>* idle_loop s \<and> wq_concurrency ex_consumer < length (wl_tasks s)"
proof -
  let ?a = "ex_take ''{}'' (ex_connect idle_loop)"
  let ?b = "ex_connect (?a\<lparr>wl_phase := Disconnected\<rparr>)"
  have "work_step dg f ex_slice ex_consumer ?a (?a\<lparr>wl_phase := Disconnected\<rparr>)" using ex_take_phase by (rule work_step.stream_ends)
  moreover have "work_step dg f ex_slice ex_consumer (?a\<lparr>wl_phase := Disconnected\<rparr>) ?b" by (rule ex_connect_step) simp
  moreover have "(work_step dg f ex_slice ex_consumer)\<^sup>*\<^sup>* ?b (ex_take ''{}'' ?b)" by (rule ex_take_steps) (simp add: ex_connect_def)
  ultimately have "(work_step dg f ex_slice ex_consumer)\<^sup>*\<^sup>* idle_loop (ex_take ''{}'' ?b)"
    using ex_take_reached [of dg f] by (meson rtranclp.rtrancl_into_rtrancl rtranclp_trans)
  moreover have "length (wl_tasks (ex_take ''{}'' ?b)) = 2" "wq_concurrency ex_consumer = 1" by code_simp+
  ultimately show ?thesis by (intro exI [of _ "ex_take ''{}'' ?b"]) simp
qed

end
