(* ===== verification/Chat_Provider.thy ===== *)
theory Chat_Provider
  imports Chat_Runs
begin

text \<open>
  From the provider's stream to the stored answer: the clients of crates/llm/src/lib.rs. An agent of the rig library is a parameter, a function from the prompt and the
  history to the items of its stream; of the items the constructors are modelled that the code tells apart. The four clients differ only in the agent they are
  built with. The theorem follows a turn from the agent's items to the conversation.
\<close>

section \<open>Streams\<close>

datatype StreamedAssistantContent =
  AssistantText string | ToolCall | ToolCallDelta | Reasoning | ReasoningDelta | FinalContent

datatype MultiTurnStreamItem =
  StreamAssistantItem StreamedAssistantContent | StreamUserItem | FinalResponse | OtherItem

datatype LlmDelta = LlmText string

fun map_assistant :: "StreamedAssistantContent \<Rightarrow> LlmDelta option" where
  "map_assistant (AssistantText text) = Some (LlmText text)"
| "map_assistant ToolCall = None"
| "map_assistant ToolCallDelta = None"
| "map_assistant Reasoning = None"
| "map_assistant ReasoningDelta = None"
| "map_assistant FinalContent = None"

fun map_multi_turn :: "MultiTurnStreamItem \<Rightarrow> LlmDelta option" where
  "map_multi_turn (StreamAssistantItem content) = map_assistant content"
| "map_multi_turn StreamUserItem = None"
| "map_multi_turn FinalResponse = None"
| "map_multi_turn OtherItem = None"

definition map_provider_stream :: "(MultiTurnStreamItem, string) result list \<Rightarrow> (LlmDelta, string) result list" where
  "map_provider_stream stream = List.map_filter (\<lambda>chunk. case chunk of
      Ok item \<Rightarrow> map_option Ok (map_multi_turn item)
    | Err error \<Rightarrow> Some (Err (''llm stream: '' @ error))) stream"

type_synonym agent = "string \<Rightarrow> RigMessage list \<Rightarrow> (MultiTurnStreamItem, string) result list"

definition stream_chat :: "agent \<Rightarrow> LlmMessage list \<Rightarrow> ((LlmDelta, string) result list, string) result" where
  "stream_chat agent messages = (case split_history messages of
      Err error \<Rightarrow> Err error
    | Ok (prompt, history) \<Rightarrow> Ok (map_provider_stream (agent prompt history)))"

text \<open>The branch of the turn's loop that takes the next delta, and the end of the stream.\<close>

fun delta_input :: "(LlmDelta, string) result \<Rightarrow> DriveInput" where
  "delta_input (Ok (LlmText chunk)) = LlmChunk chunk"
| "delta_input (Err error) = LlmFailed error"

definition stream_inputs :: "(LlmDelta, string) result list \<Rightarrow> DriveInput list" where
  "stream_inputs deltas = map delta_input deltas @ [LlmEnd]"

text \<open>Whether the request got a stream, which is what the worker of Chat\_Worker asks its model first.\<close>

definition client :: "agent \<Rightarrow> LlmMessage list \<Rightarrow> (unit, string) result" where
  "client agent messages = (case stream_chat agent messages of Ok _ \<Rightarrow> Ok () | Err error \<Rightarrow> Err error)"

section \<open>Answers\<close>

text \<open>The text of a stream.\<close>

fun item_texts :: "MultiTurnStreamItem list \<Rightarrow> string list" where
  "item_texts [] = []"
| "item_texts (StreamAssistantItem (AssistantText text) # items) = text # item_texts items"
| "item_texts (_ # items) = item_texts items"

lemma provider_inputs: "stream_inputs (map_provider_stream (map Ok items)) = map LlmChunk (item_texts items) @ [LlmEnd]"
  by (induction items rule: item_texts.induct) (auto simp: stream_inputs_def map_provider_stream_def List.map_filter_simps)

lemma request_has_prompt:
  "split_history (llm_messages history user_text) = Ok (user_text, map to_rig (butlast (llm_messages history user_text)))"
  by (simp add: split_history_def split_loop_eq llm_messages_def flush_user_def)

text \<open>C9. What the model says is what is stored. A turn that is not disturbed, on a provider that streams any mixture of text, reasoning, tool calls and other items
  without failing: the request is never refused; the provider is given the user's text as its prompt; and the conversation ends up with the user's message
  and, as the answer, the text of the stream joined in its order. The log has grown by the start of the turn, the user's message, one delta for each piece
  of text and the end with the id of the answer; the command is acknowledged and the lock is gone.\<close>

theorem provider_answer_is_stored:
  assumes "ready command lock row n w" "\<not> received_stop stops command"
    and "agent (cl_text lock) (map to_rig (butlast (llm_messages (sc_messages row) (cl_text lock)))) = map Ok items"
    and "a = ulid (cw_drawn w)" "turn = turn_commit command lock a (concat (item_texts items))"
  shows "\<exists>deltas w'. stream_chat agent (llm_messages (sc_messages row) (cl_text lock)) = Ok deltas
    \<and> after_run (chat_worker ttl order ulid (client agent) wid) command stops (stream_inputs deltas) (w, []) =
        (Ok (if (sc_title row = ''New chat'' \<and> sc_messages row = []) \<and> trim (concat (item_texts items)) \<noteq> []
          then Some (concat (item_texts items)) else None), w')
    \<and> turn_left command (committed_row (cw_now w) n turn False None row)
        (map (turn_envelope command (cw_now w)) ([TurnStarted (tr_turn_id command),
            UserMessage (cl_user_message_id lock) (Some (tr_turn_id command)) (cl_text lock)]
            @ map TextDelta (item_texts items) @ [Finish a FinishStop])) w w'"
proof -
  let ?ms = "llm_messages (sc_messages row) (cl_text lock)"
  have s: "stream_chat agent ?ms = Ok (map_provider_stream (map Ok items))"
    by (simp add: stream_chat_def request_has_prompt assms(3))
  then have "client agent ?ms = Ok ()" by (simp add: client_def)
  from completed_run [where llm = "client agent" and ulid = ulid and chunks = "item_texts items", OF assms(1,2) this assms(4,5)] show ?thesis
    unfolding s by (intro exI [of _ "map_provider_stream (map Ok items)"]) (simp add: provider_inputs)
qed

text \<open>A model that thinks, says the first half, calls a tool and says the rest.\<close>

definition sample_items :: "MultiTurnStreamItem list" where
  "sample_items = [StreamAssistantItem Reasoning, StreamAssistantItem (AssistantText ''Hel''), StreamAssistantItem ToolCall,
     StreamAssistantItem (AssistantText ''lo''), FinalResponse]"

theorem provider_answer_is_stored_witness:
  "\<exists>deltas w'. stream_chat (\<lambda>_ _. map Ok sample_items) (llm_messages [] ''hi'') = Ok deltas
    \<and> after_run (chat_worker 900 [''c''] (\<lambda>n. ''a'' @ show_nat n) (client (\<lambda>_ _. map Ok sample_items)) ''w1'') sample_command [] (stream_inputs deltas)
        (sample_chat, []) = (Ok (Some ''Hello''), w')
    \<and> cw_acked w' = [''k''] \<and> map md_content (sc_messages (the (cw_convs w' ''c''))) = [''hi'', ''Hello'']"
proof -
  have facts: "item_texts sample_items = [''Hel'', ''lo'']" "sc_title sample_row = ''New chat''" "sc_messages sample_row = []" "trim ''Hello'' \<noteq> []"
    "cl_text sample_lock = ''hi''" "tr_turn_id sample_command = ''k''" "cw_acked sample_chat = []" "tr_conversation_id sample_command = ''c''"
    by code_simp+
  show ?thesis
    using provider_answer_is_stored [OF sample_ready _ _ refl refl, where stops = "[]" and agent = "\<lambda>_ _. map Ok sample_items"
        and items = sample_items and ulid = "\<lambda>n. ''a'' @ show_nat n" and ttl = 900 and order = "[''c'']" and wid = "''w1''"] facts
    by (auto simp: turn_left_def committed_row_def Let_def user_message_def assistant_message_def turn_commit_def)
qed

end
