(* ===== verification/Chat_Routes.thy ===== *)
theory Chat_Routes
  imports Chat_Api
begin

text \<open>
  The router of services/api-service/src/main.rs: which handler a request reaches, in which order its parts are extracted, and the answer that goes out. The
  deserialisers of the bodies are a parameter. axum prefers a literal segment of a path to a parameter, answers 405 when a path is known and the method is
  not, and 404 when the path is not; a body that does not deserialise is answered 422 after the caller was identified. The theorem is about what a request can do to a
  conversation that is not the caller's.
\<close>

section \<open>Routes\<close>

datatype HttpMethod = GET | POST | PATCH | DELETE

datatype Handler = Healthz | Me | ListConversations | CreateConversationH | GetConversationH | RenameConversationH | DeleteConversationH
  | SubmitTurnH | SubmitChatMessageH | StopTurnH

text \<open>The method routers of one path, with the path parameter of the request.\<close>

type_synonym route = "(HttpMethod \<times> Handler) list \<times> string"

definition collection :: "(HttpMethod \<times> Handler) list" where
  "collection = [(GET, ListConversations), (POST, CreateConversationH)]"

definition chat_path :: "string list \<Rightarrow> route option" where
  "chat_path path = (
     if path = [''healthz''] then Some ([(GET, Healthz)], [])
     else if path = [''api'', ''auth'', ''me''] then Some ([(GET, Me)], [])
     else if path = [''api'', ''chat'', ''conversations''] then Some (collection, [])
     else if path = [''api'', ''chat''] then Some (collection, [])
     else if path = [''chat''] then Some (collection, [])
     else (case path of
         [a, b, c, conversation_id] \<Rightarrow>
           if [a, b, c] = [''api'', ''chat'', ''conversations'']
           then Some ([(GET, GetConversationH), (PATCH, RenameConversationH), (DELETE, DeleteConversationH)], conversation_id) else None
       | [a, b, conversation_id] \<Rightarrow>
           if [a, b] = [''api'', ''chat'']
           then Some ([(GET, GetConversationH), (POST, SubmitChatMessageH), (PATCH, RenameConversationH), (DELETE, DeleteConversationH)], conversation_id)
           else None
       | [a, b, c, conversation_id, action] \<Rightarrow>
           if [a, b, c, action] = [''api'', ''chat'', ''conversations'', ''turns''] then Some ([(POST, SubmitTurnH)], conversation_id)
           else if [a, b, c, action] = [''api'', ''chat'', ''conversations'', ''stop''] then Some ([(POST, StopTurnH)], conversation_id)
           else None
       | [a, conversation_id] \<Rightarrow>
           if a = ''chat'' then Some ([(GET, GetConversationH), (POST, SubmitChatMessageH)], conversation_id) else None
       | _ \<Rightarrow> None))"

record BodySerde =
  bs_create :: "string \<Rightarrow> string option option"
  bs_update :: "string \<Rightarrow> string option"
  bs_turn :: "string \<Rightarrow> SubmitTurnRequest option"
  bs_message :: "string \<Rightarrow> SubmitChatMessageRequest option"

datatype ChatReply = PlainReply string | UserReply AuthUser | SummariesReply "ConversationSummary list" | DetailReply ConversationDetail
  | TurnReply string | EmptyReply | ErrorReply ApiErrorCode string

definition chat_answer :: "('a \<Rightarrow> nat \<times> ChatReply) \<Rightarrow> ('w, ('a, ServiceError) result) state \<Rightarrow> ('w, nat \<times> ChatReply) state" where
  "chat_answer render m = m \<bind> (\<lambda>r. ret (case r of
      Ok a \<Rightarrow> render a
    | Err e \<Rightarrow> (case into_response e of (status, code, message) \<Rightarrow> (status, ErrorReply code message))))"

definition with_body :: "'b option \<Rightarrow> ('b \<Rightarrow> ('w, nat \<times> ChatReply) state) \<Rightarrow> ('w, nat \<times> ChatReply) state" where
  "with_body body k = (case body of Some b \<Rightarrow> k b | None \<Rightarrow> ret (422, EmptyReply))"

text \<open>A handler with its extractors: the caller first, the body last.\<close>

definition run_handler ::
  "'w AppState \<Rightarrow> BodySerde \<Rightarrow> (AuthContext, AuthError) result \<Rightarrow> Handler \<Rightarrow> string \<Rightarrow> string \<Rightarrow> ('w, nat \<times> ChatReply) state" where
  "run_handler st sd caller handler conversation_id body =
     (if handler = Healthz then ret (200, PlainReply ''ok'')
      else (case caller of
        Err _ \<Rightarrow> ret (401, EmptyReply)
      | Ok auth \<Rightarrow> (case handler of
          Healthz \<Rightarrow> ret (200, PlainReply ''ok'')
        | Me \<Rightarrow> ret (200, UserReply (me auth))
        | ListConversations \<Rightarrow> chat_answer (Pair 200 \<circ> SummariesReply) (list_conversations st auth)
        | CreateConversationH \<Rightarrow> with_body (bs_create sd body) (\<lambda>title. chat_answer (map_prod id DetailReply) (create_conversation st auth title))
        | GetConversationH \<Rightarrow> chat_answer (Pair 200 \<circ> DetailReply) (get_conversation st auth conversation_id)
        | RenameConversationH \<Rightarrow> with_body (bs_update sd body) (\<lambda>title.
            chat_answer (Pair 200 \<circ> DetailReply) (rename_conversation st auth conversation_id title))
        | DeleteConversationH \<Rightarrow> chat_answer (\<lambda>status. (status, EmptyReply)) (delete_conversation st auth conversation_id)
        | SubmitTurnH \<Rightarrow> with_body (bs_turn sd body) (\<lambda>turn. chat_answer (map_prod id TurnReply) (submit_turn st auth conversation_id turn))
        | SubmitChatMessageH \<Rightarrow> with_body (bs_message sd body) (\<lambda>message.
            chat_answer (map_prod id TurnReply) (submit_chat_message st auth conversation_id message))
        | StopTurnH \<Rightarrow> chat_answer (\<lambda>status. (status, EmptyReply)) (stop_turn st auth conversation_id))))"

definition chat_service ::
  "'w AppState \<Rightarrow> BodySerde \<Rightarrow> (AuthContext, AuthError) result \<Rightarrow> HttpMethod \<Rightarrow> string list \<Rightarrow> string \<Rightarrow> ('w, nat \<times> ChatReply) state" where
  "chat_service st sd caller method path body = (case chat_path path of
      None \<Rightarrow> ret (404, EmptyReply)
    | Some (methods, conversation_id) \<Rightarrow> (case map_of methods method of
        None \<Rightarrow> ret (405, EmptyReply)
      | Some handler \<Rightarrow> run_handler st sd caller handler conversation_id body))"

section \<open>Conversations of others\<close>

text \<open>A hidden conversation: the caller does not own it, or it was deleted.\<close>

definition hidden :: "AuthContext \<Rightarrow> string \<Rightarrow> ChatWorld \<Rightarrow> bool" where
  "hidden auth c w = (\<forall>row. cw_convs w c = Some row \<longrightarrow> \<not> visible_to row (ac_tenant_id auth) (ac_user_id auth))"

text \<open>What a request that was refused may leave behind: identifiers that were drawn for it.\<close>

definition refuses :: "ChatWorld \<Rightarrow> (nat \<times> ChatReply) \<times> SharedChat \<Rightarrow> bool" where
  "refuses w result = (case result of ((status, reply), (w', es)) \<Rightarrow> status \<in> {400, 401, 403, 404, 405, 422, 500}
     \<and> (reply = EmptyReply \<or> (\<exists>code message. reply = ErrorReply code message)) \<and> w' = w\<lparr>cw_drawn := cw_drawn w'\<rparr>)"

lemma hidden_row:
  assumes "hidden auth c w"
  shows "\<exists>e. e \<noteq> StStaleParent \<and> run_state (on_repo (\<lambda>now. with_visible_row (ac_tenant_id auth) (ac_user_id auth) c (f now))) w = (Err e, w)"
  using assms by (auto simp: on_repo_def hidden_def with_visible_row_def ensure_visible_def split: option.splits)

lemma refusesI:
  assumes "e \<noteq> StStaleParent"
  shows "refuses w ((case into_response (service_error_of_storage e) of (status, code, message) \<Rightarrow> (status, ErrorReply code message)), (w\<lparr>cw_drawn := n\<rparr>, []))"
  using assms by (cases e) (simp_all add: refuses_def)

lemma api_repo_ports [simp]:
  "cr_get_conversation (as_repo (chat_api ttl order ulid parse)) t u c = port (on_repo (\<lambda>_. repo_get_conversation t u c))"
  "cr_rename_conversation (as_repo (chat_api ttl order ulid parse)) t u c title = port (on_repo (\<lambda>now. repo_rename_conversation now t u c title))"
  "cr_delete_conversation (as_repo (chat_api ttl order ulid parse)) t u c = port (on_repo (\<lambda>now. repo_delete_conversation now t u c))"
  "as_ulid (chat_api ttl order ulid parse) = port (draw_ulid ulid)"
  by (simp_all add: chat_api_def MemoryChatRepository_def)

text \<open>A handler that starts with such an operation is refused there.\<close>

lemma refused_at_row:
  assumes "hidden auth c w"
  shows "refuses w (run_state (chat_answer render (attempt service_error_of_storage
    (port (on_repo (\<lambda>now. with_visible_row (ac_tenant_id auth) (ac_user_id auth) c (f now)))) k)) (w, []))"
proof -
  obtain e where e: "e \<noteq> StStaleParent" "run_state (on_repo (\<lambda>now. with_visible_row (ac_tenant_id auth) (ac_user_id auth) c (f now))) w = (Err e, w)"
    using hidden_row [OF assms] by blast
  then show ?thesis using refusesI [OF e(1), of w "cw_drawn w"] by (simp add: chat_answer_def run_attempt_port)
qed

lemma refused_early: "refuses w (run_state (chat_answer render (ret (Err (SvcInvalidRequest problem)))) (w\<lparr>cw_drawn := n\<rparr>, []))"
  by (simp add: chat_answer_def refuses_def)

lemma refused_with_body:
  assumes "\<And>b. refuses w (run_state (k b) (w, []))" shows "refuses w (run_state (with_body body k) (w, []))"
  using assms by (simp add: with_body_def refuses_def split: option.split)

lemma refused_rename:
  assumes "hidden auth c w"
  shows "refuses w (run_state (chat_answer render (rename_conversation (chat_api ttl order ulid parse) auth c title)) (w, []))"
  unfolding rename_conversation_def api_repo_ports repo_rename_conversation_def
  using refused_early [of w render _ "cw_drawn w"] by (auto intro!: refused_at_row [OF assms])

lemma refused_enqueue:
  assumes "hidden auth c w"
  shows "refuses w (run_state (chat_answer (map_prod id TurnReply) (enqueue_turn (chat_api ttl order ulid parse) auth c m k txt parent))
    (w\<lparr>cw_drawn := n\<rparr>, []))"
proof -
  have h: "hidden auth c (w\<lparr>cw_drawn := n\<rparr>)" using assms by (simp add: hidden_def)
  have lift: "refuses w r" if "refuses (w\<lparr>cw_drawn := n\<rparr>) r" for r
    using that by (auto simp: refuses_def split: prod.splits)
  have row: "refuses w (run_state (chat_answer (map_prod id TurnReply) (attempt service_error_of_storage
      (port (on_repo (\<lambda>_. repo_assert_parent_tail (ac_tenant_id auth) (ac_user_id auth) c parent))) k)) (w\<lparr>cw_drawn := n\<rparr>, []))" for k
    unfolding repo_assert_parent_tail_def by (rule lift [OF refused_at_row [OF h]])
  show ?thesis unfolding enqueue_turn_def validate_ulid_def by (auto intro!: refused_early row)
qed

lemma refused_submit:
  assumes "hidden auth c w"
  shows "refuses w (run_state (chat_answer (map_prod id TurnReply) (submit_turn (chat_api ttl order ulid parse) auth c turn)) (w, []))"
  using refused_enqueue [OF assms, where n = "cw_drawn w"] by (simp add: submit_turn_def)

lemma refused_message:
  assumes "hidden auth c w"
  shows "refuses w (run_state (chat_answer (map_prod id TurnReply) (submit_chat_message (chat_api ttl order ulid parse) auth c message)) (w, []))"
proof -
  note at = refused_enqueue [OF assms, unfolded chat_answer_def, where ttl = ttl and order = order and ulid = ulid and parse = parse]
  show ?thesis unfolding submit_chat_message_def chat_answer_def
    using at [where n = "cw_drawn w"] at by (auto simp: draw_ulid_def split: option.split)
qed

text \<open>C26. A conversation is out of reach for everybody but its owner. Whatever request a caller sends to a path that names a conversation that does not exist, was deleted or
  belongs to somebody else, in this tenant or another: it is refused with a client error, or with 500 while the database is down; the answer holds nothing of the
  conversation; and rows, locks, commands, events, stop signals and replay indexes are exactly as before, so that a turn that is running there is neither stopped nor
  blocked.\<close>

theorem hidden_conversation_is_out_of_reach:
  assumes "hidden auth c w" "c \<noteq> ''conversations''"
    and "path \<in> {[''chat'', c], [''api'', ''chat'', c], [''api'', ''chat'', ''conversations'', c],
      [''api'', ''chat'', ''conversations'', c, ''turns''], [''api'', ''chat'', ''conversations'', c, ''stop'']}"
  shows "refuses w (run_state (chat_service (chat_api ttl order ulid parse) sd (Ok auth) method path body) (w, []))"
proof -
  obtain methods where p: "chat_path path = Some (methods, c)" and
    m: "snd ` set methods \<subseteq> {GetConversationH, RenameConversationH, DeleteConversationH, SubmitTurnH, SubmitChatMessageH, StopTurnH}"
    using assms(2,3) by (auto simp: chat_path_def)
  show ?thesis
  proof (cases "map_of methods method")
    case None
    then show ?thesis by (simp add: chat_service_def p refuses_def)
  next
    case (Some handler)
    then have "handler \<in> {GetConversationH, RenameConversationH, DeleteConversationH, SubmitTurnH, SubmitChatMessageH, StopTurnH}"
      using m map_of_SomeD by force
    then have "refuses w (run_state (run_handler (chat_api ttl order ulid parse) sd (Ok auth) handler c body) (w, []))"
      by (auto simp: run_handler_def get_conversation_def delete_conversation_def stop_turn_def repo_get_conversation_def repo_delete_conversation_def
          intro!: refused_at_row [OF assms(1)] refused_rename [OF assms(1)] refused_submit [OF assms(1)] refused_message [OF assms(1)] refused_with_body)
    then show ?thesis by (simp add: chat_service_def p Some)
  qed
qed

text \<open>Another user of the tenant asks for a stop of the turn that is about to run in the example conversation.\<close>

definition sample_intruder :: AuthContext where
  "sample_intruder = sample_auth\<lparr>ac_user_id := ''v''\<rparr>"

definition no_bodies :: BodySerde where
  "no_bodies = \<lparr>bs_create = (\<lambda>_. None), bs_update = (\<lambda>_. None), bs_turn = (\<lambda>_. None), bs_message = (\<lambda>_. None)\<rparr>"

theorem hidden_conversation_is_out_of_reach_witness:
  "\<exists>r. run_state (chat_service (chat_api 900 [''c''] show_nat (\<lambda>_. True)) no_bodies (Ok sample_intruder) POST
      [''api'', ''chat'', ''conversations'', ''c'', ''stop''] []) (sample_chat, []) = r
    \<and> refuses sample_chat r \<and> fst r = (403, ErrorReply CodeForbidden ''forbidden'')"
proof -
  let ?r = "run_state (chat_service (chat_api 900 [''c''] show_nat (\<lambda>_. True)) no_bodies (Ok sample_intruder) POST
      [''api'', ''chat'', ''conversations'', ''c'', ''stop''] []) (sample_chat, [])"
  have "hidden sample_intruder ''c'' sample_chat"
    by (simp add: hidden_def sample_chat_def visible_to_def sample_intruder_def sample_auth_def)
  then have "refuses sample_chat ?r" by (rule hidden_conversation_is_out_of_reach) simp_all
  moreover have "fst ?r = (403, ErrorReply CodeForbidden ''forbidden'')" by code_simp
  ultimately show ?thesis by blast
qed

end
