(* ===== verification/Spec2Isabelle.thy ===== *)
theory Spec2Isabelle
  imports Contention Delivery Uploads Projector Verification
    Chat_Bucket Realtime Chat_Postgres Chat_Api Doc_Api
    Upload_Bucket Chat_Stream Blob_S3 Projector_Loop Read_Model Migrations
    Realtime_Hubs Chat_Maintenance Work_Loop Chat_Provider Chat_Routes
begin

text \<open>
  Delphi is a document and chat platform written in Rust. This development models the crates and the services of its current backend and proves what
  makes them correct. Its last section follows a document through all of it, from the upload to the reader.

  The program.
  \<^item> Documents. A client announces a file (preflight), uploads its parts to object storage with signed URLs and completes the upload. The API
    (services/api-service/src/documents.rs over crates/document-app/src/service.rs) keeps one upload record per upload in a key-value bucket and
    publishes a work item. The document worker (services/document-worker over crates/document-app/src/worker.rs) assembles the object, scans and
    validates it, appends an event to the log with a compare-and-swap on the last version of the document, and moves the record to a
    terminal status. The log is the truth: a projection task folds it into a Postgres table, from which the API reads and lists.
  \<^item> Chat. The API (services/api-service/src/main.rs) takes the lock of the conversation and publishes a command. A chat worker
    (services/chat-worker) claims the lock, streams the answer of a language model as events, commits the turn to the repository and announces the end. The
    realtime service (services/realtime-service) replays and forwards the events to websockets. Locks, commands, events and the replay index are on NATS
    (crates/nats), conversations and messages in Postgres (crates/storage).

  The theories, with the code under src/ they model.
  \<^item> \<^bold>\<open>Rust_Prelude\<close>: the shared types, the parts of the Rust standard library that are used, and the logic of computations.
  \<^item> \<^bold>\<open>Events\<close>, \<^bold>\<open>Fold\<close>, \<^bold>\<open>Geometry\<close>, \<^bold>\<open>Validation\<close>: crates/document-domain/src (events.rs, fold.rs, geometry.rs, validation.rs).
  \<^item> \<^bold>\<open>Keys\<close>: keys.rs, principal.rs, cursor.rs and digest.rs of crates/document-app/src and the subjects of document-adapters/src/jetstream/mod.rs;
    \<^bold>\<open>Ports\<close>: errors.rs, ports.rs, upload\_state.rs, command.rs; \<^bold>\<open>Append\<close>: append.rs; \<^bold>\<open>Transition\<close>: transition.rs;
    \<^bold>\<open>Worker\<close>: worker.rs; \<^bold>\<open>Service\<close>: service.rs; \<^bold>\<open>Memory\<close>: testing.rs.
  \<^item> \<^bold>\<open>World\<close>: the in-memory ports in a world with other processes; \<^bold>\<open>Contention\<close>, \<^bold>\<open>Delivery\<close>, \<^bold>\<open>Uploads\<close>: what the append paths, a delivery of a work item and
    the use cases of the API do in it.
  \<^item> \<^bold>\<open>Projection\<close>: document-app/src/projection.rs with the codec, the transaction and the queries of document-adapters/src/postgres;
    \<^bold>\<open>Projector\<close>: the loop as a step relation with crashes and rebuilds; \<^bold>\<open>Projector_Race\<close>: several projectors without a lease;
    \<^bold>\<open>Projector_Loop\<close>: the lease and the loop as written, and \<open>run_projection\<close> of services/document-worker/src/main.rs; \<^bold>\<open>Read_Model\<close>: postgres/read\_model.rs;
    \<^bold>\<open>Migrations\<close>: migrate.rs.
  \<^item> \<^bold>\<open>Event_Stream\<close>, \<^bold>\<open>Upload_Bucket\<close>: event\_store.rs, upload\_state\_store.rs and the publisher of work\_queue.rs under document-adapters/src/jetstream;
    \<^bold>\<open>Work_Queue\<close>, \<^bold>\<open>Work_Loop\<close>: the consumer of work\_queue.rs and services/document-worker/src/main.rs; \<^bold>\<open>Blob_S3\<close>: s3.rs; \<^bold>\<open>Verification\<close>: verification.rs.
  \<^item> \<^bold>\<open>Settings\<close>: document-adapters/src/config.rs, crates/config and the environment helpers of the other crates; \<^bold>\<open>Auth\<close>: crates/auth.
  \<^item> \<^bold>\<open>Doc_Api\<close>: services/api-service/src/documents.rs; \<^bold>\<open>Chat_Api\<close>, \<^bold>\<open>Chat_Routes\<close>: the handlers and the router of services/api-service/src/main.rs.
  \<^item> \<^bold>\<open>Chat\<close>: crates/contracts and the vocabulary of crates/nats and crates/storage; \<^bold>\<open>Chat_Bus\<close>: the in-memory bus of crates/nats; \<^bold>\<open>Chat_Locks\<close>,
    \<^bold>\<open>Chat_Bucket\<close>, \<^bold>\<open>Chat_Stream\<close>: \<open>NatsChatBus\<close>; \<^bold>\<open>Chat_Repository\<close>, \<^bold>\<open>Chat_Postgres\<close>: the two repositories of crates/storage.
  \<^item> \<^bold>\<open>Chat_Llm\<close>, \<^bold>\<open>Chat_Provider\<close>: crates/llm and the titles of services/chat-worker; \<^bold>\<open>Chat_Worker\<close>: a turn of services/chat-worker/src/main.rs;
    \<^bold>\<open>Chat_Turns\<close>, \<^bold>\<open>Chat_World\<close>, \<^bold>\<open>Chat_Runs\<close>: its guarantees, by contract, under interference and undisturbed; \<^bold>\<open>Chat_Maintenance\<close>: the task that keeps its lease.
  \<^item> \<^bold>\<open>Realtime\<close>, \<^bold>\<open>Realtime_Hubs\<close>: the socket loop and the fan-out of services/realtime-service/src/main.rs.

  How the code is represented.
  \<^item> A string is the list of its UTF-8 bytes; \<open>u16\<close>, \<open>u32\<close> and \<open>u64\<close> are words of their width, \<open>i64\<close> columns integers with their range written
    out, \<open>usize\<close> is \<open>nat\<close>. A time is an integer and a duration a number of seconds, except in the chat theories, where both count units of the clock. \<open>Result\<close>
    is the datatype \<open>result\<close>, the operator \<open>?\<close> is \<open>attempt\<close> with the conversion of the error, and every early return is a branch.
  \<^item> A trait is a record of operations in the state monad over an arbitrary world. The use cases are written once against the records
    and run on the in-memory ports, on the NATS and Postgres ones, and on ports that are known only by a contract.
  \<^item> A shared world is a pair of the stores and the actions the environment takes, one before each call of a port. An action may be the operation of another process, an
    outage, its end, or the passing of time. The triples \<open>rg G P m Q\<close> of the prelude say what a computation guarantees of each of
    its own steps and of its result while the environment keeps to its rely.
  \<^item> A \<open>select!\<close> loop is a function of the list of inputs it is handed, in the order of delivery; a list that ends early is a process that is gone. Where
    several tasks share state (projectors, hubs and sockets, the tasks of the work queue) the interleavings are an inductive step relation.
  \<^item> A statement of SQL is its effect on the tables, a transaction has all its effects or none. A map iterated by the source is an association list.
  \<^item> Parameters, with what is relied on as hypotheses of the theorems: serde, sha2, hex, crc32, chrono, the JWT library and the HTTP fetch of keys, the
    clients of NATS and S3, the agent of the rig library, ULIDs, the parser of socket addresses, the sessions of the database, the migration
    files, the scan order of Postgres, the deserialisers of request bodies. Where a theorem compares an adapter with the in-memory port, the client is
    instantiated with a store that behaves as JetStream or S3 documents it.
  \<^item> Some stores keep history fields that no operation reads (which commands were acknowledged, which commits were accepted or refused, which messages were pulled):
    the theorems speak about them.
  \<^item> Log lines, metrics and tracing are left out.

  Loops and bounds. Every compare-and-swap loop of the source has a limit of attempts and gives up with an error; it recurses on the attempts left, from the limit
  the source sets. Redelivery recurses on the deliveries left. The listing of parts has no limit in the source: it takes a budget of requests and answers \<open>None\<close> when the budget is
  exhausted, and one request per page is enough (\<open>listed_parts_are_complete\<close>). The election of a projector takes a number of rounds, and its theorem holds for
  any number. The log of a conversation has fewer than \<open>2 ^ 64\<close> events, which is a condition of publishing in Realtime_Hubs.

  Contracts. The locales \<open>event_log\<close> (Append), \<open>upload_records\<close> (Transition), \<open>finisher_ports\<close> and \<open>finisher_frame\<close> (Worker), \<open>read_model\<close> (the paging of a
  listing), \<open>lock_store\<close> (Chat_Locks), \<open>turn_ports\<close> (Chat_Turns) and \<open>projection_ports\<close> (Projector_Loop) state what a client relies on; the in-memory stores, the upload
  bucket, the lock bucket, the Postgres read model, the shared chat world and the projection task interpret them.

  What is shown.
  \<^item> Uploads: an accepted upload is in the log and its object stays in storage whatever others do; a record that reached a terminal status keeps it, in memory and in the
    bucket; a replacement is applied once and directly behind the version it names; a work item is answered within its deliveries; a complete upload ends in a document
    that is reported and, once projected, served.
  \<^item> Refinements: the event store on JetStream, the upload bucket, the lock bucket and the chat bus on NATS refine the in-memory ports; the Postgres commit of a turn equals the
    in-memory one; the projection refines the fold of the log, with crashes, rebuilds, races and changes of leader.
  \<^item> Reading: the pages of a listing cover it, once each and newest first, on the in-memory model, over HTTP and on Postgres.
  \<^item> Chat: an announced answer is committed, an acknowledged turn is announced or its commit was refused, a lease keeps others out and maintenance keeps the
    lease, the stored answer is what the provider streamed, a submitted message is answered, a resumed client misses nothing, and each follower of a hub accounts for
    the whole log.
  \<^item> Access: requests without role or with an unsafe identity change nothing, a caller holds a token verified with an asymmetric key, and a hidden
    conversation is out of reach of every route.
  \<^item> Bounds: parts tile the file, an accepted configuration slices every admitted file, the work loop is bounded, migrations apply once.
  \<^item> Behaviour worth knowing, proved as it is: the final delivery of a work item can delete a live object; an event past the read limit of a stream is not found and its object
    reclaimed; a submission that was overtaken discards the committed turn; a message id of another conversation overwrites its message; a hub whose
    consumer ended strands newcomers.

  Not modelled. The assembly of the processes (\<open>main\<close>), connecting and building the clients of NATS, S3, Postgres and the language models, \<open>AuthVerifier::from_env\<close>, the
  spawning of tasks as such, and tracing: they only call libraries. The superseded backend under old/, the frontend, the documentation and the test modules.
\<close>

section \<open>From the upload to the reader\<close>

lemma fold_created:
  "\<exists>doc. fold_history [(q, created_event dg cmd hash now)] = Ok (Some doc) \<and> ds_document_id doc = uc_document_id cmd \<and> ds_version doc = 1
    \<and> ds_filename doc = Some (uc_filename cmd) \<and> ds_byte_size doc = Some (uc_declared_size cmd) \<and> ds_checksum doc = Some (checksum hash)"
  by (simp add: fold_history_def apply_event_cases created_event_def)

text \<open>A projector that has nothing left to do shows for a document the fold of its events.\<close>

lemma catch_up_read:
  assumes "tags_ok sj" "projector_reaches sj name batch_size s" "fold_history (history_of sj (t, d) (pr_log s)) = Ok st"
  shows "\<exists>s'. (projector_step sj name batch_size)\<^sup>*\<^sup>* s s' \<and> pr_log s' = pr_log s \<and> pg_get sj (pr_pg s') t d = st"
proof -
  from catch_up [OF assms(1) projector_reaches_inv [OF assms(1,2)]] obtain s' where
    s': "(projector_step sj name batch_size)\<^sup>*\<^sup>* s s'" "pr_log s' = pr_log s" "up_to (checkpoint name s') (pr_log s) = pr_log s" by blast
  have ok: "projector_inv sj name s'" by (rule projector_reaches_inv [OF assms(1) reaches_steps [OF s'(1) assms(2)]])
  then have "pg_get sj (pr_pg s') t d = projected sj (pr_log s) (t, d)" "\<forall>m \<in> set (pr_log s). addressed sj m"
    using s'(2,3) by (simp_all add: projector_inv_def pg_get_def table_def fun_eq_iff log_ok_def)
  then show ?thesis using s'(1,2) projected_history [OF _ assms(3)] by auto
qed

lemma run_get_document:
  assumes "safe_caller auth" "sv_documents (da_service api) = PgDocumentReadModel sj scan" "pg_get sj pg (ac_tenant_id auth) d = Some doc"
  shows "run_state (routes api auth (GetDocument d)) \<lparr>pp_pg = pg, pp_down = None\<rparr> =
    ((200, DocumentAnswer ([CHR 34] @ show_u64 (ds_version doc) @ [CHR 34]) (to_body doc)), \<lparr>pp_pg = pg, pp_down = None\<rparr>)"
  using assms by (simp add: routes_def answer_def handler_defs run_state_attempt authorize_read_eq get_document_def PgDocumentReadModel_def query_def
      ok_or_def handle_get_document_def)

text \<open>C1. What was uploaded can be read. When every part of a new document is in storage and the caller may write, \<open>POST complete\<close> answers 202 and the delivery
  of the work item it queues is acknowledged. From then on, whatever state the projection is in, whatever else its log holds, as long as the log holds of this document what the
  event store holds: without any further event the projection can reach a state in which \<open>GET document\<close> on the Postgres read model answers the caller
  200 with version 1 of the document, with the name and the size that were declared and the digest of the bytes that are in storage.\<close>

theorem uploaded_document_is_served:
  assumes "safe_caller auth" "has_role auth WRITE_ROLE" "da_service api = mem_service po"
    and "uploaded dg w auth i st ps" "patch_valid (da_to_vec api) (cr_patch (complete_request body))" "ob_if_match body = None"
    and "tags_ok sj" "sv_documents (da_service reader) = PgDocumentReadModel sj scan"
  shows "\<exists>w1 cmd w2 doc. run_state (routes api auth (PostComplete i body)) (w, []) =
      ((202, JsonAnswer (JObject [(''state'', JString ''scanning'')])), (w1, []))
    \<and> w_queue w1 = w_queue w @ [cmd]
    \<and> run_state (handle_work_item dg (mem_finisher dg False ContentOk)
        \<lparr>wi_command = cmd, wi_num_delivered = attempts, wi_is_final_delivery = final\<rparr>) (w1, []) = (Ack, (w2, []))
    \<and> db_version doc = 1 \<and> db_filename doc = Some (us_filename (su_state st)) \<and> db_byte_size doc = Some (us_declared_size (su_state st))
    \<and> db_checksum doc = map_option (checksum \<circ> sha256_hex (dg_sha256 dg) (dg_hex_encode dg)) (object (w_blobs w2) (us_storage_key (su_state st)))
    \<and> (\<forall>s. projector_reaches sj name batch_size s
        \<and> history_of sj (ac_tenant_id auth, us_document_id (su_state st)) (pr_log s) = stream_of w2 (ac_tenant_id auth) (us_document_id (su_state st))
      \<longrightarrow> (\<exists>s'. (projector_step sj name batch_size)\<^sup>*\<^sup>* s s' \<and> pr_log s' = pr_log s
        \<and> fst (run_state (routes reader auth (GetDocument (us_document_id (su_state st)))) \<lparr>pp_pg = pr_pg s', pp_down = None\<rparr>) =
          (200, DocumentAnswer ([CHR 34] @ ''1'' @ [CHR 34]) doc)))"
proof -
  let ?d = "us_document_id (su_state st)"
  obtain w1 cmd w2 q now revision where run: "run_state (routes api auth (PostComplete i body)) (w, []) =
      ((202, JsonAnswer (JObject [(''state'', JString ''scanning'')])), (w1, []))" "w_queue w1 = w_queue w @ [cmd]"
    "run_state (handle_work_item dg (mem_finisher dg False ContentOk)
        \<lparr>wi_command = cmd, wi_num_delivered = attempts, wi_is_final_delivery = final\<rparr>) (w1, []) = (Ack, (w2, []))"
    and ids: "uc_filename cmd = us_filename (su_state st)" "uc_declared_size cmd = us_declared_size (su_state st)"
    and log: "stream_of w2 (ac_tenant_id auth) ?d = [(q, created_event dg cmd (sha256_hex (dg_sha256 dg) (dg_hex_encode dg) (item_bytes cmd)) now)]"
    and obj: "object (w_blobs w2) (us_storage_key (su_state st)) = Some (item_bytes cmd)"
    by (rule completed_upload_run [OF assms(1-6)]) blast
  obtain doc where doc: "fold_history (stream_of w2 (ac_tenant_id auth) ?d) = Ok (Some doc)" "ds_version doc = 1"
    "ds_filename doc = Some (us_filename (su_state st))" "ds_byte_size doc = Some (us_declared_size (su_state st))"
    "ds_checksum doc = Some (checksum (sha256_hex (dg_sha256 dg) (dg_hex_encode dg) (item_bytes cmd)))"
    using fold_created [of q dg cmd _ now] unfolding log ids by blast
  have one: "show_u64 1 = ''1''" by code_simp
  have "\<exists>s'. (projector_step sj name batch_size)\<^sup>*\<^sup>* s s' \<and> pr_log s' = pr_log s
      \<and> fst (run_state (routes reader auth (GetDocument ?d)) \<lparr>pp_pg = pr_pg s', pp_down = None\<rparr>) = (200, DocumentAnswer ([CHR 34] @ ''1'' @ [CHR 34]) (to_body doc))"
    if "projector_reaches sj name batch_size s" "history_of sj (ac_tenant_id auth, ?d) (pr_log s) = stream_of w2 (ac_tenant_id auth) ?d" for s
    using catch_up_read [OF assms(7) that(1), of "ac_tenant_id auth" ?d "Some doc"] that(2) doc(1,2) one run_get_document [OF assms(1,8), of _ ?d doc]
    by fastforce
  with run doc(2-5) obj show ?thesis
    by (intro exI [of _ w1] exI [of _ cmd] exI [of _ w2] exI [of _ "to_body doc"]) (simp add: to_body_def)
qed

text \<open>The example upload, and a projection that has its one event still before it.\<close>

definition upload_serde :: "DocumentEvent \<Rightarrow> SerdeJson" where
  "upload_serde event = ex_serde\<lparr>sj_event_from_value := (\<lambda>_. Ok event)\<rparr>"

definition ex_behind :: Projector where
  "ex_behind = \<lparr>pr_log = [(1, ''documents.acme.09.d1'', ''payload'')], pr_pg = empty_pg, pr_at = None\<rparr>"

lemma upload_subject: "document_key_from_subject ''documents.acme.09.d1'' = Some (''acme'', ''d1'')"
  by code_simp

lemma ex_behind_facts:
  assumes "event = created_event dg cmd hash now" "uc_tenant_id cmd = ''acme''" "uc_document_id cmd = ''d1''" "uc_declared_size cmd = 3"
  shows "tags_ok (upload_serde event)" "projector_reaches (upload_serde event) name batch_size ex_behind"
    "history_of (upload_serde event) (''acme'', ''d1'') (pr_log ex_behind) = [(1, event)]"
proof -
  show "tags_ok (upload_serde event)" using ex_serde_tags by (simp add: tags_ok_def upload_serde_def)
  show "projector_reaches (upload_serde event) name batch_size ex_behind" unfolding ex_behind_def
    by (rule publish_all [OF projector_reaches.fresh])
      (simp_all add: addressed_def decode_event_def upload_serde_def ex_serde_def upload_subject fits_def fits_event_def assms created_event_def)
  show "history_of (upload_serde event) (''acme'', ''d1'') (pr_log ex_behind) = [(1, event)]"
    by (simp add: history_of_def ex_behind_def decode_event_def upload_serde_def ex_serde_def upload_subject map_filter_simps)
qed

theorem uploaded_document_is_served_witness:
  "\<forall>r. \<exists>event s' doc. (projector_step (upload_serde event) DOCUMENT_PROJECTION_NAME 2)\<^sup>*\<^sup>* ex_behind s' \<and> db_version doc = 1 \<and> db_byte_size doc = Some 3
    \<and> fst (run_state (routes (r\<lparr>da_service := (da_service r)\<lparr>sv_documents := PgDocumentReadModel (upload_serde event) ex_scan\<rparr>\<rparr>)
        (ex_caller [''ingester'']) (GetDocument ''d1'')) \<lparr>pp_pg = pr_pg s', pp_down = None\<rparr>) = (200, DocumentAnswer ([CHR 34] @ ''1'' @ [CHR 34]) doc)"
proof
  fix r :: "PgPool DocumentApiState"
  let ?c = "ex_caller [''ingester'']" and ?st = "\<lparr>su_state = ex_state Create Scanning, su_revision = 1\<rparr>"
  have args: "has_role ?c WRITE_ROLE" "da_service ex_api = mem_service ex_policy"
    "patch_valid (da_to_vec ex_api) (cr_patch (complete_request ex_complete))" "ob_if_match ex_complete = None"
    by (simp_all add: has_role_def ex_caller_def WRITE_ROLE_def ex_api_def patch_valid_def complete_request_def ex_complete_def)
  have vals: "ac_tenant_id ?c = ''acme''" "us_document_id (su_state ?st) = ''d1''" "us_declared_size (su_state ?st) = 3" "me_head (w_events ex_staged) = 0"
    by (simp_all add: ex_caller_def ex_state_def ex_staged_def seed_def empty_world_def empty_events_def upload_part_def)
  obtain w1 cmd w2 q now where run: "run_state (routes ex_api ?c (PostComplete ''u1'' ex_complete)) (ex_staged, []) =
      ((202, JsonAnswer (JObject [(''state'', JString ''scanning'')])), (w1, []))" "w_queue w1 = w_queue ex_staged @ [cmd]"
    "run_state (handle_work_item ex_dg (mem_finisher ex_dg False ContentOk)
        \<lparr>wi_command = cmd, wi_num_delivered = 1, wi_is_final_delivery = False\<rparr>) (w1, []) = (Ack, (w2, []))"
    "q = me_head (w_events ex_staged) + 1" "uc_tenant_id cmd = ''acme''" "uc_document_id cmd = ''d1''" "uc_declared_size cmd = 3"
    "stream_of w2 ''acme'' ''d1'' = [(q, created_event ex_dg cmd (sha256_hex (dg_sha256 ex_dg) (dg_hex_encode ex_dg) (item_bytes cmd)) now)]"
    by (rule completed_upload_run [OF ex_caller_safe args(1,2) ex_staged_uploaded args(3,4), unfolded vals(1-3)]) blast
  define event where "event = created_event ex_dg cmd (sha256_hex (dg_sha256 ex_dg) (dg_hex_encode ex_dg) (item_bytes cmd)) now"
  note behind = ex_behind_facts [OF event_def run(5-7)]
  have log: "stream_of w2 ''acme'' ''d1'' = [(1, event)]" using run(4,8) vals(4) by (simp add: event_def)
  let ?reader = "r\<lparr>da_service := (da_service r)\<lparr>sv_documents := PgDocumentReadModel (upload_serde event) ex_scan\<rparr>\<rparr>"
  have docs: "sv_documents (da_service ?reader) = PgDocumentReadModel (upload_serde event) ex_scan" by simp
  from uploaded_document_is_served [OF ex_caller_safe args(1,2) ex_staged_uploaded args(3,4) behind(1) docs,
      of 1 False DOCUMENT_PROJECTION_NAME 2, unfolded vals]
  obtain v1 cmd' v2 doc where served: "run_state (routes ex_api ?c (PostComplete ''u1'' ex_complete)) (ex_staged, []) =
      ((202, JsonAnswer (JObject [(''state'', JString ''scanning'')])), (v1, []))" "w_queue v1 = w_queue ex_staged @ [cmd']"
    "run_state (handle_work_item ex_dg (mem_finisher ex_dg False ContentOk)
        \<lparr>wi_command = cmd', wi_num_delivered = 1, wi_is_final_delivery = False\<rparr>) (v1, []) = (Ack, (v2, []))"
    "db_version doc = 1" "db_byte_size doc = Some 3"
    and all: "\<And>s. projector_reaches (upload_serde event) DOCUMENT_PROJECTION_NAME 2 s \<and> history_of (upload_serde event) (''acme'', ''d1'') (pr_log s) = stream_of v2 ''acme'' ''d1''
      \<longrightarrow> (\<exists>s'. (projector_step (upload_serde event) DOCUMENT_PROJECTION_NAME 2)\<^sup>*\<^sup>* s s' \<and> pr_log s' = pr_log s
        \<and> fst (run_state (routes ?reader ?c (GetDocument ''d1'')) \<lparr>pp_pg = pr_pg s', pp_down = None\<rparr>) = (200, DocumentAnswer ([CHR 34] @ ''1'' @ [CHR 34]) doc))"
    by blast
  have "v1 = w1" "cmd' = cmd" using run(1,2) served(1,2) by simp_all
  then have log': "stream_of v2 ''acme'' ''d1'' = [(1, event)]" using run(3) served(3) log by simp
  have "projector_reaches (upload_serde event) DOCUMENT_PROJECTION_NAME 2 ex_behind" by (rule behind(2))
  with all [of ex_behind] behind(3) log' obtain s' where s': "(projector_step (upload_serde event) DOCUMENT_PROJECTION_NAME 2)\<^sup>*\<^sup>* ex_behind s'"
    "fst (run_state (routes ?reader ?c (GetDocument ''d1'')) \<lparr>pp_pg = pr_pg s', pp_down = None\<rparr>) = (200, DocumentAnswer ([CHR 34] @ ''1'' @ [CHR 34]) doc)" by metis
  show "\<exists>event s' doc. (projector_step (upload_serde event) DOCUMENT_PROJECTION_NAME 2)\<^sup>*\<^sup>* ex_behind s' \<and> db_version doc = 1 \<and> db_byte_size doc = Some 3
    \<and> fst (run_state (routes (r\<lparr>da_service := (da_service r)\<lparr>sv_documents := PgDocumentReadModel (upload_serde event) ex_scan\<rparr>\<rparr>)
        ?c (GetDocument ''d1'')) \<lparr>pp_pg = pr_pg s', pp_down = None\<rparr>) = (200, DocumentAnswer ([CHR 34] @ ''1'' @ [CHR 34]) doc)"
    using served(4,5) s' by (intro exI [of _ event] exI [of _ s'] exI [of _ doc] conjI)
qed

end
